(* ===== verification/PyBase.thy ===== *)
theory PyBase
  imports Main "HOL-Library.Word" "HOL-Library.Multiset" "HOL-Library.Char_ord"
    "HOL-Library.List_Lexorder" "HOL-Library.Product_Lexorder"
begin

text \<open>
  The prelude: what every component shares. Failing computations are values of a sum type
  (\<open>Inl\<close> the error), composed with \<open>bindE\<close>, \<open>foldE\<close> and \<open>mapE\<close>. The second half models
  the pieces of Python's language and standard library the tools use: \<open>int(text, base)\<close>, the
  decimal and hexadecimal format codes, slices and slice assignment, \<open>min\<close>/\<open>max\<close> of a list,
  and a CSV row as \<open>csv.DictReader\<close> hands it out.
  Text is ASCII; a Python \<open>int\<close> is an \<open>int\<close>; lengths and indices are \<open>nat\<close>.
\<close>

named_theorems err_simps \<open>how the error combinators compute\<close>
named_theorems py_defs \<open>definitions that only name a Python expression\<close>

section \<open>Errors as values\<close>

definition bindE :: "'e + 'a \<Rightarrow> ('a \<Rightarrow> 'e + 'b) \<Rightarrow> 'e + 'b" where
  "bindE x f = (case x of Inl e \<Rightarrow> Inl e | Inr v \<Rightarrow> f v)"

definition guardE :: "bool \<Rightarrow> 'e \<Rightarrow> ('e + 'a) \<Rightarrow> 'e + 'a" where
  "guardE ok e k = (if ok then k else Inl e)"

fun foldE :: "('a \<Rightarrow> 's \<Rightarrow> 'e + 's) \<Rightarrow> 'a list \<Rightarrow> 's \<Rightarrow> 'e + 's" where
  "foldE f [] s = Inr s"
| "foldE f (x # xs) s = bindE (f x s) (foldE f xs)"

fun mapE :: "('a \<Rightarrow> 'e + 'b) \<Rightarrow> 'a list \<Rightarrow> 'e + 'b list" where
  "mapE f [] = Inr []"
| "mapE f (x # xs) = bindE (f x) (\<lambda>y. bindE (mapE f xs) (\<lambda>ys. Inr (y # ys)))"

definition of_option :: "'e \<Rightarrow> 'a option \<Rightarrow> 'e + 'a" where
  "of_option e x = (case x of None \<Rightarrow> Inl e | Some v \<Rightarrow> Inr v)"

lemma bindE_simps [simp, err_simps]:
  "bindE (Inl e) f = Inl e"
  "bindE (Inr v) f = f v"
  by (simp_all add: bindE_def)

lemma bindE_cong [fundef_cong]:
  "x = y \<Longrightarrow> (\<And>v. y = Inr v \<Longrightarrow> f v = g v) \<Longrightarrow> bindE x f = bindE y g"
  by (cases y) simp_all

lemma bindE_eq_Inr: "bindE x f = Inr r \<longleftrightarrow> (\<exists>v. x = Inr v \<and> f v = Inr r)"
  by (cases x) auto

lemma bindE_eq_Inl: "bindE x f = Inl e \<longleftrightarrow> x = Inl e \<or> (\<exists>v. x = Inr v \<and> f v = Inl e)"
  by (cases x) auto

lemma bindE_InrE [elim!]:
  assumes "bindE x f = Inr r"
  obtains v where "x = Inr v" and "f v = Inr r"
  using assms by (auto simp: bindE_eq_Inr)

lemma guardE_eq_Inr: "guardE b e k = Inr r \<longleftrightarrow> b \<and> k = Inr r"
  by (simp add: guardE_def)

lemma guardE_eq_Inl: "guardE b e k = Inl e' \<longleftrightarrow> (\<not> b \<and> e = e') \<or> (b \<and> k = Inl e')"
  by (auto simp: guardE_def)

lemma guardE_simps [simp, err_simps]:
  "guardE True e k = k"
  "guardE False e k = Inl e"
  by (simp_all add: guardE_def)

lemma guardE_InrE [elim!]:
  assumes "guardE b e k = Inr r"
  obtains "b" and "k = Inr r"
  using assms by (auto simp: guardE_eq_Inr)

lemma of_option_simps [simp, err_simps]:
  "of_option e None = Inl e"
  "of_option e (Some v) = Inr v"
  by (simp_all add: of_option_def)

lemma of_option_eq_Inr [simp]: "of_option e x = Inr v \<longleftrightarrow> x = Some v"
  by (cases x) simp_all

lemma of_option_eq_Inl [simp]: "of_option e x = Inl e' \<longleftrightarrow> x = None \<and> e = e'"
  by (cases x) auto

lemma foldE_append: "foldE f (xs @ ys) s = bindE (foldE f xs s) (foldE f ys)"
  by (induction xs arbitrary: s) (auto simp: bindE_def split: sum.splits)

text \<open>The rule every loop over rows, lanes or sections uses: an invariant the body keeps.\<close>

lemma foldE_invariant:
  assumes "foldE f xs s = Inr s'" and "P s"
    and "\<And>x s s'. x \<in> set xs \<Longrightarrow> P s \<Longrightarrow> f x s = Inr s' \<Longrightarrow> P s'"
  shows "P s'"
  using assms
proof (induction xs arbitrary: s)
  case Nil
  then show ?case by simp
next
  case (Cons x xs)
  from Cons.prems(1) obtain t where t: "f x s = Inr t" and rest: "foldE f xs t = Inr s'"
    by auto
  have "P t" by (rule Cons.prems(3) [OF _ Cons.prems(2) t]) simp
  then show ?case by (rule Cons.IH [OF rest]) (auto intro: Cons.prems(3))
qed

text \<open>The same with the prefix already consumed as a ghost argument.\<close>

lemma foldE_prefix_invariant:
  assumes "foldE f xs s = Inr s'" and "P [] s"
    and "\<And>ys x zs s s'. xs = ys @ x # zs \<Longrightarrow> P ys s \<Longrightarrow> f x s = Inr s' \<Longrightarrow> P (ys @ [x]) s'"
  shows "P xs s'"
proof -
  have "foldE f zs t = Inr s' \<Longrightarrow> xs = ys @ zs \<Longrightarrow> P ys t \<Longrightarrow> P xs s'" for ys zs t
  proof (induction zs arbitrary: ys t)
    case Nil
    then show ?case by simp
  next
    case (Cons z zs)
    from Cons.prems(1) obtain u where u: "f z t = Inr u" and rest: "foldE f zs u = Inr s'"
      by auto
    have "P (ys @ [z]) u" by (rule assms(3) [OF Cons.prems(2,3) u])
    then show ?case using Cons.IH [OF rest, of "ys @ [z]"] Cons.prems(2) by simp
  qed
  from this [of xs s "[]"] assms(1,2) show ?thesis by simp
qed

lemma foldE_each: "foldE f xs s = Inr s' \<Longrightarrow> x \<in> set xs \<Longrightarrow> \<exists>s1 s2. f x s1 = Inr s2"
  by (induction xs arbitrary: s) auto

lemma foldE_error: "foldE f xs s = Inl e \<Longrightarrow> \<exists>x \<in> set xs. \<exists>s1. f x s1 = Inl e"
  by (induction xs arbitrary: s) (auto simp: bindE_eq_Inl)

lemma mapE_error: "mapE f xs = Inl e \<Longrightarrow> \<exists>x \<in> set xs. f x = Inl e"
  by (induction xs) (auto simp: bindE_eq_Inl)

lemma mapE_length: "mapE f xs = Inr ys \<Longrightarrow> length ys = length xs"
  by (induction xs arbitrary: ys) auto

lemma mapE_nth: "mapE f xs = Inr ys \<Longrightarrow> i < length xs \<Longrightarrow> f (xs ! i) = Inr (ys ! i)"
proof (induction xs arbitrary: ys i)
  case Nil
  then show ?case by simp
next
  case (Cons x xs)
  then obtain y ys' where "f x = Inr y" "mapE f xs = Inr ys'" "ys = y # ys'"
    by auto
  with Cons show ?case by (cases i) auto
qed

lemma mapE_total: "(\<And>x. x \<in> set xs \<Longrightarrow> f x = Inr (g x)) \<Longrightarrow> mapE f xs = Inr (map g xs)"
  by (induction xs) auto

section \<open>Python integers as text\<close>

definition is_space :: "char \<Rightarrow> bool" where
  "is_space c = (let n = (of_char c :: nat) in (9 \<le> n \<and> n \<le> 13) \<or> (28 \<le> n \<and> n \<le> 32))"

definition lstrip :: "string \<Rightarrow> string" where
  "lstrip s = dropWhile is_space s"

definition rstrip :: "string \<Rightarrow> string" where
  "rstrip s = rev (dropWhile is_space (rev s))"

definition strip :: "string \<Rightarrow> string" where
  "strip s = rstrip (lstrip s)"

definition digit_val :: "char \<Rightarrow> nat option" where
  "digit_val c = (let n = (of_char c :: nat) in
     if 48 \<le> n \<and> n \<le> 57 then Some (n - 48)
     else if 97 \<le> n \<and> n \<le> 122 then Some (n - 87)
     else if 65 \<le> n \<and> n \<le> 90 then Some (n - 55)
     else None)"

definition digit_char :: "nat \<Rightarrow> char" where
  "digit_char d = char_of (if d < 10 then 48 + d else 87 + d)"

text \<open>
  The digits of \<open>int(text, base)\<close>: at least one, single underscores between them. The flag says
  whether the previous character was a digit.
\<close>

fun read_digits :: "nat \<Rightarrow> string \<Rightarrow> nat \<Rightarrow> bool \<Rightarrow> nat option" where
  "read_digits base [] acc after_digit = (if after_digit then Some acc else None)"
| "read_digits base (c # cs) acc after_digit =
     (if c = CHR ''_'' then (if after_digit then read_digits base cs acc False else None)
      else case digit_val c of
        None \<Rightarrow> None
      | Some d \<Rightarrow> if d < base then read_digits base cs (acc * base + d) True else None)"

definition drop_prefix16 :: "nat \<Rightarrow> string \<Rightarrow> string" where
  "drop_prefix16 base s =
     (case s of
        a # b # rest \<Rightarrow>
          if base = 16 \<and> a = CHR ''0'' \<and> (b = CHR ''x'' \<or> b = CHR ''X'')
          then (case rest of CHR ''_'' # rest' \<Rightarrow> rest' | _ \<Rightarrow> rest)
          else s
      | _ \<Rightarrow> s)"

definition py_nat :: "nat \<Rightarrow> string \<Rightarrow> nat option" where
  "py_nat base s = read_digits base (drop_prefix16 base s) 0 False"

text \<open>The blanks \<open>int()\<close> drops around ASCII text: unlike \<open>str.strip\<close>'s, not the separators 28 to 31.\<close>

definition int_blank :: "char \<Rightarrow> bool" where
  "int_blank c = (let n = (of_char c :: nat) in (9 \<le> n \<and> n \<le> 13) \<or> n = 32)"

definition int_text :: "string \<Rightarrow> string" where
  "int_text s = rev (dropWhile int_blank (rev (dropWhile int_blank s)))"

definition py_int :: "nat \<Rightarrow> string \<Rightarrow> int option" where
  "py_int base s =
     (case int_text s of
        [] \<Rightarrow> None
      | c # cs \<Rightarrow>
          if c = CHR ''-'' then map_option (\<lambda>n. - int n) (py_nat base cs)
          else if c = CHR ''+'' then map_option int (py_nat base cs)
          else map_option int (py_nat base (c # cs)))"

text \<open>\<open>str(n)\<close>, \<open>f"{n:x}"\<close>: the digits of a number, most significant first.\<close>

function nat_str :: "nat \<Rightarrow> nat \<Rightarrow> string" where
  "nat_str base n =
     (if base < 2 \<or> n < base then [digit_char n]
      else nat_str base (n div base) @ [digit_char (n mod base)])"
  by pat_completeness auto
termination
  by (relation "measure snd") (auto intro: div_less_dividend)

declare nat_str.simps [simp del]

definition int_str :: "nat \<Rightarrow> int \<Rightarrow> string" where
  "int_str base i = (if i < 0 then CHR ''-'' # nat_str base (nat (- i)) else nat_str base (nat i))"

definition dec :: "int \<Rightarrow> string" where
  "dec = int_str 10"

definition hex :: "int \<Rightarrow> string" where
  "hex = int_str 16"

definition rjust :: "nat \<Rightarrow> string \<Rightarrow> string" where
  "rjust w s = replicate (w - length s) CHR '' '' @ s"

definition ljust :: "nat \<Rightarrow> string \<Rightarrow> string" where
  "ljust w s = s @ replicate (w - length s) CHR '' ''"

text \<open>\<open>f"{i:0Wx}"\<close>: zero padding goes after the sign.\<close>

definition hex0 :: "nat \<Rightarrow> int \<Rightarrow> string" where
  "hex0 w i =
     (if i < 0 then CHR ''-'' # (let s = nat_str 16 (nat (- i)) in replicate (w - 1 - length s) CHR ''0'' @ s)
      else (let s = nat_str 16 (nat i) in replicate (w - length s) CHR ''0'' @ s))"

lemma of_char_digit_char: "d < 36 \<Longrightarrow> (of_char (digit_char d) :: nat) = (if d < 10 then 48 + d else 87 + d)"
  by (simp add: digit_char_def of_char_of)

lemma digit_val_char [simp]: "d < 36 \<Longrightarrow> digit_val (digit_char d) = Some d"
  by (simp add: digit_val_def of_char_digit_char)

lemma digit_char_distinct [simp]:
  assumes "d < 36"
  shows "digit_char d \<noteq> CHR ''_''" "digit_char d \<noteq> CHR ''-''" "digit_char d \<noteq> CHR ''+''"
    "\<not> is_space (digit_char d)"
proof -
  let ?n = "of_char (digit_char d) :: nat"
  have n: "?n = (if d < 10 then 48 + d else 87 + d)" by (rule of_char_digit_char [OF assms])
  show "digit_char d \<noteq> CHR ''_''"
  proof
    assume "digit_char d = CHR ''_''"
    then have "?n = of_char (CHR ''_'')" by simp
    with n assms show False by (simp split: if_splits)
  qed
  show "digit_char d \<noteq> CHR ''-''"
  proof
    assume "digit_char d = CHR ''-''"
    then have "?n = of_char (CHR ''-'')" by simp
    with n assms show False by (simp split: if_splits)
  qed
  show "digit_char d \<noteq> CHR ''+''"
  proof
    assume "digit_char d = CHR ''+''"
    then have "?n = of_char (CHR ''+'')" by simp
    with n assms show False by (simp split: if_splits)
  qed
  show "\<not> is_space (digit_char d)"
    using n by (auto simp: is_space_def Let_def split: if_splits)
qed

lemma nat_str_nonempty [simp]: "nat_str b n \<noteq> []"
  by (subst nat_str.simps) simp

lemma nat_str_digits:
  assumes "2 \<le> b" "b \<le> 36" "c \<in> set (nat_str b n)"
  shows "\<exists>d < b. c = digit_char d"
  using assms
proof (induction b n rule: nat_str.induct)
  case (1 b n)
  show ?case
  proof (cases "n < b")
    case True
    with 1 show ?thesis by (subst (asm) (2) nat_str.simps) auto
  next
    case False
    with 1 show ?thesis by (subst (asm) (2) nat_str.simps) (auto intro: exI [of _ "n mod b"])
  qed
qed

lemma read_digits_append:
  assumes "\<And>c. c \<in> set xs \<Longrightarrow> c \<noteq> CHR ''_''" "xs \<noteq> []"
    "read_digits b xs acc f = Some v"
  shows "read_digits b (xs @ ys) acc f = read_digits b ys v True"
  using assms
proof (induction xs arbitrary: acc f)
  case Nil
  then show ?case by simp
next
  case (Cons x xs)
  then show ?case by (cases "xs = []") (auto split: option.splits if_splits)
qed

lemma read_digits_nat_str:
  assumes "2 \<le> b" "b \<le> 36"
  shows "read_digits b (nat_str b n) 0 f = Some n"
  using assms
proof (induction b n arbitrary: f rule: nat_str.induct)
  case (1 b n)
  show ?case
  proof (cases "n < b")
    case True
    with 1 show ?thesis by (subst nat_str.simps) simp
  next
    case False
    have sub: "read_digits b (nat_str b (n div b)) 0 f = Some (n div b)"
      using 1 False by simp
    have noscore: "c \<noteq> CHR ''_''" if "c \<in> set (nat_str b (n div b))" for c
    proof -
      from nat_str_digits [OF 1(2,3) that] obtain d where "d < b" "c = digit_char d" by blast
      with 1(3) show ?thesis by simp
    qed
    have "read_digits b (nat_str b n) 0 f =
        read_digits b (nat_str b (n div b) @ [digit_char (n mod b)]) 0 f"
      using False 1 by (subst nat_str.simps) simp
    also have "\<dots> = read_digits b [digit_char (n mod b)] (n div b) True"
      by (rule read_digits_append [OF noscore _ sub]) simp_all
    also have "\<dots> = Some n"
    proof -
      have "n mod b < b" using 1(2) by simp
      moreover from this have "n mod b < 36" using 1(3) by (rule less_le_trans)
      ultimately show ?thesis by simp
    qed
    finally show ?thesis .
  qed
qed

section \<open>Slices, minima, rows\<close>

text \<open>\<open>xs[a:b]\<close> and \<open>xs[a:b] = ys\<close> for non-negative bounds.\<close>

definition slice :: "nat \<Rightarrow> nat \<Rightarrow> 'a list \<Rightarrow> 'a list" where
  "slice a b xs = take (b - a) (drop a xs)"

definition slice_assign :: "nat \<Rightarrow> nat \<Rightarrow> 'a list \<Rightarrow> 'a list \<Rightarrow> 'a list" where
  "slice_assign a b ys xs = take a xs @ ys @ drop (max a b) xs"

lemma length_slice [simp]: "length (slice a b xs) = min (b - a) (length xs - a)"
  by (simp add: slice_def)

lemma nth_slice: "i < b - a \<Longrightarrow> a + i < length xs \<Longrightarrow> slice a b xs ! i = xs ! (a + i)"
  by (simp add: slice_def)

lemma length_slice_assign:
  "a + length ys \<le> length xs \<Longrightarrow> length (slice_assign a (a + length ys) ys xs) = length xs"
  by (simp add: slice_assign_def)

lemma nth_slice_assign:
  assumes "a + length ys \<le> length xs" "i < length xs"
  shows "slice_assign a (a + length ys) ys xs ! i =
    (if a \<le> i \<and> i < a + length ys then ys ! (i - a) else xs ! i)"
  using assms by (auto simp: slice_assign_def nth_append min_def)

lemma slice_eqI:
  assumes "b \<le> length xs" "b \<le> length ys" "\<And>i. a \<le> i \<Longrightarrow> i < b \<Longrightarrow> xs ! i = ys ! i"
  shows "slice a b xs = slice a b ys"
  by (rule nth_equalityI) (use assms in \<open>auto simp: nth_slice\<close>)

lemma slice_slice_assign_same:
  assumes "a + length ys \<le> length xs"
  shows "slice a (a + length ys) (slice_assign a (a + length ys) ys xs) = ys"
  using assms by (simp add: slice_def slice_assign_def)

lemma slice_slice_assign_other:
  assumes "a + length ys \<le> length xs" "d \<le> length xs" "d \<le> a \<or> a + length ys \<le> c"
  shows "slice c d (slice_assign a (a + length ys) ys xs) = slice c d xs"
  by (rule slice_eqI) (use assms in \<open>auto simp: nth_slice_assign length_slice_assign\<close>)

text \<open>
  \<open>csv.DictReader\<close>: the first row names the columns; each later non-empty row maps every column
  to its cell, or to Python's \<open>None\<close> (here \<open>Some None\<close>) where the row is too short; the last
  cell wins where a name repeats; surplus cells go under the key \<open>None\<close> (\<open>row_extra\<close>).
\<close>

record csv_row =
  cell_of :: "string \<Rightarrow> string option option"
  row_extra :: bool

definition dict_row :: "string list \<Rightarrow> string list \<Rightarrow> csv_row" where
  "dict_row names cells =
     \<lparr>cell_of = map_of (rev (zip names (map Some cells @ replicate (length names - length cells) None))),
      row_extra = length names < length cells\<rparr>"

definition dict_reader :: "string list list \<Rightarrow> (string list \<times> csv_row list) option" where
  "dict_reader lines =
     (case lines of
        [] \<Rightarrow> None
      | names # rest \<Rightarrow> Some (names, map (dict_row names) (filter (\<lambda>r. r \<noteq> []) rest)))"

text \<open>\<open>raw[name]\<close>, \<open>int(raw[name], base)\<close> and \<open>int(raw.get(name, "0"), base)\<close>.\<close>

definition cell :: "(string \<Rightarrow> 'e) \<Rightarrow> csv_row \<Rightarrow> string \<Rightarrow> 'e + string" where
  "cell err r name =
     (case cell_of r name of Some (Some s) \<Rightarrow> Inr s | _ \<Rightarrow> Inl (err name))"

definition int_cell :: "(string \<Rightarrow> 'e) \<Rightarrow> nat \<Rightarrow> csv_row \<Rightarrow> string \<Rightarrow> 'e + int" where
  "int_cell err base r name =
     bindE (cell err r name) (\<lambda>s. of_option (err name) (py_int base s))"

definition int_cell_or_0 :: "(string \<Rightarrow> 'e) \<Rightarrow> nat \<Rightarrow> csv_row \<Rightarrow> string \<Rightarrow> 'e + int" where
  "int_cell_or_0 err base r name =
     (if cell_of r name = None then Inr 0 else int_cell err base r name)"

text \<open>The column \<open>f"{prefix}{lane}_{field}"\<close>.\<close>

definition lane_col :: "string \<Rightarrow> nat \<Rightarrow> string \<Rightarrow> string" where
  "lane_col prefix lane field = prefix @ nat_str 10 lane @ ''_'' @ field"

text \<open>\<open>d.setdefault(k, v)\<close> and \<open>d.get(k, v)\<close>.\<close>

definition setdefault :: "('k \<Rightarrow> 'v option) \<Rightarrow> 'k \<Rightarrow> 'v \<Rightarrow> ('k \<Rightarrow> 'v option)" where
  "setdefault m k v = (case m k of None \<Rightarrow> m(k \<mapsto> v) | Some _ \<Rightarrow> m)"

definition get_or :: "('k \<Rightarrow> 'v option) \<Rightarrow> 'k \<Rightarrow> 'v \<Rightarrow> 'v" where
  "get_or m k v = (case m k of None \<Rightarrow> v | Some w \<Rightarrow> w)"

lemma setdefault_same: "setdefault m k v k = Some (get_or m k v)"
  by (simp add: setdefault_def get_or_def split: option.split)

lemma setdefault_other [simp]: "k' \<noteq> k \<Longrightarrow> setdefault m k v k' = m k'"
  by (simp add: setdefault_def split: option.split)

lemma dom_setdefault [simp]: "dom (setdefault m k v) = insert k (dom m)"
  by (auto simp: setdefault_def split: option.splits)

definition lanes3 :: "nat list" where
  "lanes3 = [0, 1, 2]"

definition flag_bit :: "int \<Rightarrow> nat \<Rightarrow> bool" where
  "flag_bit m lane = bit m lane"

lemma lanes3_iff [simp]: "lane \<in> set lanes3 \<longleftrightarrow> lane < 3"
  by (auto simp: lanes3_def)

text \<open>\<open>sorted(set(xs))\<close> and the first index with a property (\<open>next(... , None)\<close>).\<close>

definition sorted_distinct :: "'a::linorder list \<Rightarrow> 'a list" where
  "sorted_distinct xs = sort (remdups xs)"

lemma sorted_distinct_props [simp]:
  "sorted (sorted_distinct xs)" "distinct (sorted_distinct xs)"
  "set (sorted_distinct xs) = set xs"
  by (simp_all add: sorted_distinct_def)

fun find_index :: "('a \<Rightarrow> bool) \<Rightarrow> 'a list \<Rightarrow> nat option" where
  "find_index P [] = None"
| "find_index P (x # xs) = (if P x then Some 0 else map_option Suc (find_index P xs))"

lemma find_index_Some:
  "find_index P xs = Some i \<Longrightarrow> i < length xs \<and> P (xs ! i) \<and> (\<forall>j < i. \<not> P (xs ! j))"
proof (induction xs arbitrary: i)
  case Nil
  then show ?case by simp
next
  case (Cons x xs)
  then show ?case by (auto split: if_splits simp: less_Suc_eq_0_disj)
qed

lemma find_index_None: "find_index P xs = None \<longleftrightarrow> (\<forall>x \<in> set xs. \<not> P x)"
  by (induction xs) auto

text \<open>\<open>bisect.bisect_right(keys, k)\<close> on an ascending list.\<close>

definition bisect_right :: "'a::linorder list \<Rightarrow> 'a \<Rightarrow> nat" where
  "bisect_right keys k = length (takeWhile (\<lambda>x. x \<le> k) keys)"

lemma bisect_right_le: "bisect_right keys k \<le> length keys"
  by (simp add: bisect_right_def length_takeWhile_le)

lemma bisect_right_before: "i < bisect_right keys k \<Longrightarrow> keys ! i \<le> k"
  unfolding bisect_right_def by (metis nth_mem set_takeWhileD takeWhile_nth)

lemma bisect_right_at: "bisect_right keys k < length keys \<Longrightarrow> k < keys ! bisect_right keys k"
  unfolding bisect_right_def by (meson not_le nth_length_takeWhile)

end
