(* ===== verification/IssueStream.thy ===== *)
theory IssueStream
  imports PyBase
begin

unbundle bit_operations_syntax

text \<open>
  The committed instruction stream of \<open>tools/issue_window_experiment.py\<close>: the class
  \<open>DynamicInstruction\<close> with its opcode predicates, \<open>load_trace\<close> (which collects the stream and its
  operand metadata from a 3P cycle trace and links each instruction to the producers of its
  operands and to the previous memory instruction), and \<open>monotonic_release\<close>.
\<close>

section \<open>Dynamic instructions\<close>

record dyn_instr =
  di_uid :: int
  di_pc :: int
  di_bits :: int
  di_uses_rs1 :: bool
  di_uses_rs2 :: bool
  di_rs1 :: nat
  di_rs2 :: nat
  di_writes_rd :: bool
  di_rd :: nat
  di_observed_release :: int
  di_intrinsic_release :: int
  di_actual_issue :: int
  di_actual_complete :: int
  di_actual_retire :: int
  di_actual_pipe :: nat
  di_deps :: "nat list"
  di_previous_mem :: "nat option"

definition opcode :: "dyn_instr \<Rightarrow> int" where
  "opcode x = di_bits x AND 0x7f"

definition is_mem :: "dyn_instr \<Rightarrow> bool" where
  "is_mem x \<longleftrightarrow> opcode x \<in> {0x03, 0x23, 0x2f}"

definition is_store :: "dyn_instr \<Rightarrow> bool" where
  "is_store x \<longleftrightarrow> opcode x = 0x23"

definition is_branch :: "dyn_instr \<Rightarrow> bool" where
  "is_branch x \<longleftrightarrow> opcode x = 0x63"

definition is_jump :: "dyn_instr \<Rightarrow> bool" where
  "is_jump x \<longleftrightarrow> opcode x \<in> {0x67, 0x6f}"

definition is_system_or_fence :: "dyn_instr \<Rightarrow> bool" where
  "is_system_or_fence x \<longleftrightarrow> opcode x \<in> {0x0f, 0x73}"

definition is_hard :: "dyn_instr \<Rightarrow> bool" where
  "is_hard x \<longleftrightarrow> is_branch x \<or> is_jump x \<or> is_system_or_fence x"

definition is_persistent_hard :: "dyn_instr \<Rightarrow> bool" where
  "is_persistent_hard x \<longleftrightarrow> is_jump x \<or> is_system_or_fence x"

definition is_m :: "dyn_instr \<Rightarrow> bool" where
  "is_m x \<longleftrightarrow> opcode x \<in> {0x33, 0x3b} \<and> (drop_bit 25 (di_bits x) AND 0x7f) = 1"

definition pipe_options :: "dyn_instr \<Rightarrow> nat list" where
  "pipe_options x =
     (if is_mem x then [2]
      else if is_branch x \<or> is_jump x \<or> is_system_or_fence x then [0]
      else if is_m x then [1]
      else [0, 1])"

definition latency :: "dyn_instr \<Rightarrow> int" where
  "latency x = max 1 (di_actual_complete x - di_actual_issue x)"

lemma latency_pos [simp]: "1 \<le> latency x" "0 < latency x"
  by (simp_all add: latency_def)

lemma pipe_options_nonempty [simp]: "pipe_options x \<noteq> []"
  by (simp add: pipe_options_def)

lemma pipe_options_range: "p \<in> set (pipe_options x) \<Longrightarrow> p < 3"
  by (auto simp: pipe_options_def split: if_splits)

text \<open>The opcode classes exclude one another.\<close>

lemma store_is_mem: "is_store x \<Longrightarrow> is_mem x"
  by (simp add: is_store_def is_mem_def)

lemma mem_not_hard: "is_mem x \<Longrightarrow> \<not> is_hard x"
  by (auto simp: is_mem_def is_hard_def is_branch_def is_jump_def is_system_or_fence_def)

lemma mem_not_branch: "is_mem x \<Longrightarrow> \<not> is_branch x \<and> \<not> is_jump x"
  by (auto simp: is_mem_def is_branch_def is_jump_def)

lemma branch_not_jump: "is_branch x \<Longrightarrow> \<not> is_jump x"
  by (auto simp: is_branch_def is_jump_def)

lemma persistent_is_hard: "is_persistent_hard x \<Longrightarrow> is_hard x"
  by (auto simp: is_persistent_hard_def is_hard_def)

section \<open>Reading the trace\<close>

datatype load_error =
    LacksFields "string list"
  | RowError string
  | LacksMetadata int
  | CountMismatch nat int

definition parse_hex :: "csv_row \<Rightarrow> string \<Rightarrow> load_error + int" where
  "parse_hex raw field = int_cell RowError 16 raw field"

definition packed_reg :: "csv_row \<Rightarrow> string \<Rightarrow> nat \<Rightarrow> load_error + nat" where
  "packed_reg raw field lane =
     bindE (parse_hex raw field) (\<lambda>v. Inr (nat (drop_bit (lane * 5) v AND 0x1f)))"

record meta =
  m_pc :: int
  m_bits :: int
  m_uses_rs1 :: bool
  m_uses_rs2 :: bool
  m_rs1 :: nat
  m_rs2 :: nat
  m_writes_rd :: bool
  m_rd :: nat

record load_state =
  metadata :: "int \<Rightarrow> meta option"
  first_f :: "int \<Rightarrow> int option"
  first_f_intrinsic :: "int \<Rightarrow> int option"
  first_q :: "int \<Rightarrow> int option"
  issue_at :: "int \<Rightarrow> (int \<times> nat) option"
  complete_at :: "int \<Rightarrow> int option"
  retire_at :: "int \<Rightarrow> int option"
  committed :: "int list"
  held_cycles :: int
  backend_held_cycles :: int
  total_cycles :: int
  actual_retired :: int

definition load_init :: load_state where
  "load_init =
     \<lparr>metadata = Map.empty, first_f = Map.empty, first_f_intrinsic = Map.empty, first_q = Map.empty,
      issue_at = Map.empty, complete_at = Map.empty, retire_at = Map.empty, committed = [],
      held_cycles = 0, backend_held_cycles = 0, total_cycles = 0, actual_retired = 0\<rparr>"

definition set_lanes :: "int \<Rightarrow> nat list" where
  "set_lanes m = filter (flag_bit m) lanes3"

definition fetch_lane :: "csv_row \<Rightarrow> int \<Rightarrow> nat \<Rightarrow> load_state \<Rightarrow> load_error + load_state" where
  "fetch_lane raw now lane st =
     bindE (parse_hex raw (lane_col ''f'' lane ''uid'')) (\<lambda>u.
       Inr (st\<lparr>first_f := setdefault (first_f st) u now,
              first_f_intrinsic :=
                setdefault (first_f_intrinsic st) u (now - backend_held_cycles st)\<rparr>))"

definition queue_lane ::
  "csv_row \<Rightarrow> int \<Rightarrow> int \<Rightarrow> int \<Rightarrow> int \<Rightarrow> nat \<Rightarrow> load_state \<Rightarrow> load_error + load_state" where
  "queue_lane raw now uses1 uses2 reg_write lane st =
     bindE (parse_hex raw (lane_col ''q'' lane ''uid'')) (\<lambda>u.
     bindE (parse_hex raw (lane_col ''q'' lane ''pc'')) (\<lambda>qpc.
     bindE (parse_hex raw (lane_col ''q'' lane ''instr'')) (\<lambda>qbits.
     bindE (packed_reg raw ''candidate_rs1'' lane) (\<lambda>r1.
     bindE (packed_reg raw ''candidate_rs2'' lane) (\<lambda>r2.
     bindE (packed_reg raw ''candidate_rd'' lane) (\<lambda>r.
       Inr (st\<lparr>first_q := setdefault (first_q st) u now,
              metadata := setdefault (metadata st) u
                \<lparr>m_pc = qpc, m_bits = qbits, m_uses_rs1 = flag_bit uses1 lane,
                 m_uses_rs2 = flag_bit uses2 lane, m_rs1 = r1, m_rs2 = r2,
                 m_writes_rd = flag_bit reg_write lane, m_rd = r\<rparr>\<rparr>)))))))"

definition issue_lane :: "csv_row \<Rightarrow> int \<Rightarrow> nat \<Rightarrow> load_state \<Rightarrow> load_error + load_state" where
  "issue_lane raw now lane st =
     bindE (parse_hex raw (lane_col ''i'' lane ''uid'')) (\<lambda>u.
       Inr (st\<lparr>issue_at := setdefault (issue_at st) u (now, lane)\<rparr>))"

definition complete_lane :: "csv_row \<Rightarrow> int \<Rightarrow> nat \<Rightarrow> load_state \<Rightarrow> load_error + load_state" where
  "complete_lane raw now lane st =
     bindE (parse_hex raw (lane_col ''c'' lane ''uid'')) (\<lambda>u.
       Inr (st\<lparr>complete_at := setdefault (complete_at st) u now\<rparr>))"

definition retire_lane :: "csv_row \<Rightarrow> int \<Rightarrow> nat \<Rightarrow> load_state \<Rightarrow> load_error + load_state" where
  "retire_lane raw now lane st =
     bindE (parse_hex raw (lane_col ''r'' lane ''uid'')) (\<lambda>u.
       Inr (st\<lparr>committed := committed st @ [u], retire_at := (retire_at st)(u \<mapsto> now)\<rparr>))"

text \<open>\<open>int(raw.get(a, "0"), 10) or int(raw.get(b, "0"), 10)\<close>, as a truth value.\<close>

definition either_set :: "csv_row \<Rightarrow> string \<Rightarrow> string \<Rightarrow> load_error + bool" where
  "either_set raw a b =
     bindE (int_cell_or_0 RowError 10 raw a) (\<lambda>x.
       if x \<noteq> 0 then Inr True
       else bindE (int_cell_or_0 RowError 10 raw b) (\<lambda>y. Inr (y \<noteq> 0)))"

definition count_held :: "csv_row \<Rightarrow> int \<Rightarrow> load_state \<Rightarrow> load_error + load_state" where
  "count_held raw fetch_mask st =
     (if fetch_mask = 0 then Inr st
      else bindE (parse_hex raw ''fetch_fire'') (\<lambda>fire.
        if fire \<noteq> 0 then Inr st
        else bindE (either_set raw ''bp_fetch_stall'' ''bp_decode_stall'') (\<lambda>predictor_hold.
          bindE (either_set raw ''control_flush'' ''control_redirect'') (\<lambda>control_hold.
            Inr (st\<lparr>held_cycles := held_cycles st + 1,
                   backend_held_cycles := backend_held_cycles st +
                     (if \<not> predictor_hold \<and> \<not> control_hold then 1 else 0)\<rparr>)))))"

definition load_row :: "csv_row \<Rightarrow> load_state \<Rightarrow> load_error + load_state" where
  "load_row raw st0 =
     bindE (int_cell RowError 10 raw ''cycle'') (\<lambda>now.
     let st1 = st0\<lparr>total_cycles := total_cycles st0 + 1\<rparr> in
     bindE (parse_hex raw ''fetch_valid'') (\<lambda>fetch_mask.
     bindE (foldE (fetch_lane raw now) (set_lanes fetch_mask) st1) (\<lambda>st2.
     bindE (parse_hex raw ''queue_valid'') (\<lambda>queue_mask.
     bindE (parse_hex raw ''candidate_uses_rs1'') (\<lambda>uses1.
     bindE (parse_hex raw ''candidate_uses_rs2'') (\<lambda>uses2.
     bindE (parse_hex raw ''candidate_reg_write'') (\<lambda>reg_write.
     bindE (foldE (queue_lane raw now uses1 uses2 reg_write) (set_lanes queue_mask) st2) (\<lambda>st3.
     bindE (parse_hex raw ''issue_valid'') (\<lambda>issue_mask.
     bindE (foldE (issue_lane raw now) (set_lanes issue_mask) st3) (\<lambda>st4.
     bindE (parse_hex raw ''complete_valid'') (\<lambda>complete_mask.
     bindE (foldE (complete_lane raw now) (set_lanes complete_mask) st4) (\<lambda>st5.
     bindE (int_cell RowError 10 raw ''retire_count'') (\<lambda>retire_count.
     bindE (foldE (retire_lane raw now) [0..<nat retire_count]
              (st5\<lparr>actual_retired := actual_retired st5 + retire_count\<rparr>)) (\<lambda>st6.
       count_held raw fetch_mask st6))))))))))))))"

section \<open>Building and linking the stream\<close>

definition build_instr :: "load_state \<Rightarrow> int \<Rightarrow> load_error + dyn_instr" where
  "build_instr st u =
     (case (metadata st u, issue_at st u, complete_at st u, first_q st u, retire_at st u) of
        (Some meta, Some (issue_cycle, issue_pipe), Some done, Some q, Some ret) \<Rightarrow>
          Inr \<lparr>di_uid = u, di_pc = m_pc meta, di_bits = m_bits meta,
               di_uses_rs1 = m_uses_rs1 meta, di_uses_rs2 = m_uses_rs2 meta,
               di_rs1 = m_rs1 meta, di_rs2 = m_rs2 meta,
               di_writes_rd = m_writes_rd meta, di_rd = m_rd meta,
               di_observed_release = get_or (first_f st) u q,
               di_intrinsic_release =
                 get_or (first_f_intrinsic st) u (q - backend_held_cycles st),
               di_actual_issue = issue_cycle, di_actual_complete = done,
               di_actual_retire = ret, di_actual_pipe = issue_pipe,
               di_deps = [], di_previous_mem = None\<rparr>
      | _ \<Rightarrow> Inl (LacksMetadata u))"

definition producer_of :: "nat option list \<Rightarrow> bool \<Rightarrow> nat \<Rightarrow> nat option" where
  "producer_of last_writer uses reg = (if uses \<and> reg \<noteq> 0 then last_writer ! reg else None)"

definition add_dep :: "nat option \<Rightarrow> nat list \<Rightarrow> nat list" where
  "add_dep producer deps =
     (case producer of None \<Rightarrow> deps | Some p \<Rightarrow> if p \<in> set deps then deps else deps @ [p])"

definition link_deps :: "nat option list \<Rightarrow> dyn_instr \<Rightarrow> nat list" where
  "link_deps last_writer x =
     add_dep (producer_of last_writer (di_uses_rs2 x) (di_rs2 x))
       (add_dep (producer_of last_writer (di_uses_rs1 x) (di_rs1 x)) [])"

text \<open>One iteration of the linking loop; the state is (\<open>last_writer\<close>, \<open>previous_mem\<close>).\<close>

fun link :: "nat \<Rightarrow> nat option list \<Rightarrow> nat option \<Rightarrow> dyn_instr list \<Rightarrow> dyn_instr list" where
  "link index last_writer previous_mem [] = []"
| "link index last_writer previous_mem (x # xs) =
     (let x1 = x\<lparr>di_deps := link_deps last_writer x\<rparr>;
          writers = (if di_writes_rd x \<and> di_rd x \<noteq> 0
                     then last_writer[di_rd x := Some index] else last_writer)
      in if is_mem x
         then x1\<lparr>di_previous_mem := previous_mem\<rparr> # link (Suc index) writers (Some index) xs
         else x1 # link (Suc index) writers previous_mem xs)"

definition required_fields :: "string list" where
  "required_fields =
     [''cycle'', ''fetch_valid'', ''fetch_fire'', ''queue_valid'',
      ''issue_valid'', ''complete_valid'', ''retire_count'',
      ''candidate_uses_rs1'', ''candidate_uses_rs2'',
      ''candidate_reg_write'', ''candidate_rs1'', ''candidate_rs2'',
      ''candidate_rd'']"

definition load_trace :: "string list list \<Rightarrow> load_error + dyn_instr list \<times> load_state" where
  "load_trace lines =
     (let names = (case dict_reader lines of None \<Rightarrow> [] | Some (ns, _) \<Rightarrow> ns);
          rows = (case dict_reader lines of None \<Rightarrow> [] | Some (_, rs) \<Rightarrow> rs)
      in guardE (set required_fields \<subseteq> set names)
           (LacksFields (sorted_distinct (filter (\<lambda>f. f \<notin> set names) required_fields)))
         (bindE (foldE load_row rows load_init) (\<lambda>st.
          bindE (mapE (build_instr st) (committed st)) (\<lambda>instructions.
            guardE (int (length instructions) = actual_retired st)
              (CountMismatch (length instructions) (actual_retired st))
              (Inr (link 0 (replicate 32 None) None instructions, st))))))"

text \<open>\<open>monotonic_release\<close>: the running maximum from \<open>-10**18\<close>.\<close>

fun running_max :: "int \<Rightarrow> int list \<Rightarrow> int list" where
  "running_max previous [] = []"
| "running_max previous (v # vs) =
     (let p = max previous v in p # running_max p vs)"

definition monotonic_release :: "(dyn_instr \<Rightarrow> int) \<Rightarrow> dyn_instr list \<Rightarrow> int list" where
  "monotonic_release field instructions =
     running_max (- (10 ^ 18)) (map field instructions)"

section \<open>What linking promises the scheduler\<close>

text \<open>
  The youngest earlier instruction that writes a register, and the youngest earlier memory
  instruction, read off the stream by searching backwards from position \<open>i\<close>.
\<close>

definition youngest_writer :: "dyn_instr list \<Rightarrow> nat \<Rightarrow> nat \<Rightarrow> nat option" where
  "youngest_writer xs i reg =
     find (\<lambda>j. di_writes_rd (xs ! j) \<and> di_rd (xs ! j) = reg) (rev [0..<i])"

definition youngest_mem :: "dyn_instr list \<Rightarrow> nat \<Rightarrow> nat option" where
  "youngest_mem xs i = find (\<lambda>j. is_mem (xs ! j)) (rev [0..<i])"

definition raw_producers :: "dyn_instr list \<Rightarrow> nat \<Rightarrow> nat set" where
  "raw_producers xs i =
     {j. \<exists>reg. reg \<noteq> 0 \<and> youngest_writer xs i reg = Some j \<and>
        ((di_uses_rs1 (xs ! i) \<and> di_rs1 (xs ! i) = reg) \<or>
         (di_uses_rs2 (xs ! i) \<and> di_rs2 (xs ! i) = reg))}"

lemma raw_producers_code [code]:
  "raw_producers xs i =
     (\<Union>reg \<in> (if di_uses_rs1 (xs ! i) then {di_rs1 (xs ! i)} else {}) \<union>
             (if di_uses_rs2 (xs ! i) then {di_rs2 (xs ! i)} else {}) - {0}.
        set_option (youngest_writer xs i reg))"
  by (auto simp: raw_producers_def)

definition linked :: "dyn_instr list \<Rightarrow> bool" where
  "linked xs \<longleftrightarrow>
     (\<forall>i < length xs.
        set (di_deps (xs ! i)) = raw_producers xs i \<and>
        di_previous_mem (xs ! i) = (if is_mem (xs ! i) then youngest_mem xs i else None))"

definition regs_ok :: "dyn_instr \<Rightarrow> bool" where
  "regs_ok x \<longleftrightarrow> di_rs1 x < 32 \<and> di_rs2 x < 32 \<and> di_rd x < 32"

lemma find_rev_upt_Suc:
  "find P (rev [0..<Suc k]) = (if P k then Some k else find P (rev [0..<k]))"
  by simp

lemma find_rev_upt_Some:
  "find P (rev [0..<i]) = Some j \<Longrightarrow> j < i \<and> P j \<and> (\<forall>k. j < k \<and> k < i \<longrightarrow> \<not> P k)"
proof (induction i)
  case 0
  then show ?case by simp
next
  case (Suc i)
  show ?case
  proof (cases "P i")
    case True
    with Suc.prems show ?thesis by auto
  next
    case False
    with Suc.prems have "find P (rev [0..<i]) = Some j" by simp
    with Suc.IH have "j < i \<and> P j \<and> (\<forall>k. j < k \<and> k < i \<longrightarrow> \<not> P k)" .
    with False show ?thesis by (auto simp: less_Suc_eq)
  qed
qed

lemma find_rev_upt_None: "find P (rev [0..<i]) = None \<Longrightarrow> k < i \<Longrightarrow> \<not> P k"
  by (auto simp: find_None_iff)

lemma set_add_dep [simp]: "set (add_dep p ds) = set_option p \<union> set ds"
  by (auto simp: add_dep_def split: option.split)

lemma length_link [simp]: "length (link k lw pm xs) = length xs"
  by (induction xs arbitrary: k lw pm) (auto simp: Let_def)

lemma link_update:
  "i < length xs \<Longrightarrow> \<exists>d p. link k lw pm xs ! i = (xs ! i)\<lparr>di_deps := d, di_previous_mem := p\<rparr>"
proof (induction xs arbitrary: k lw pm i)
  case Nil
  then show ?case by simp
next
  case (Cons x xs)
  show ?case
  proof (cases i)
    case 0
    let ?p = "if is_mem x then pm else di_previous_mem x"
    have "link k lw pm (x # xs) ! i = x\<lparr>di_deps := link_deps lw x, di_previous_mem := ?p\<rparr>"
      using 0 by (simp add: Let_def)
    with 0 show ?thesis by (metis nth_Cons_0)
  next
    case (Suc i')
    with Cons show ?thesis by (simp add: Let_def)
  qed
qed

lemma link_fields [simp]:
  assumes "i < length xs"
  shows "di_bits (link k lw pm xs ! i) = di_bits (xs ! i)"
    "di_writes_rd (link k lw pm xs ! i) = di_writes_rd (xs ! i)"
    "di_rd (link k lw pm xs ! i) = di_rd (xs ! i)"
    "di_uses_rs1 (link k lw pm xs ! i) = di_uses_rs1 (xs ! i)"
    "di_rs1 (link k lw pm xs ! i) = di_rs1 (xs ! i)"
    "di_uses_rs2 (link k lw pm xs ! i) = di_uses_rs2 (xs ! i)"
    "di_rs2 (link k lw pm xs ! i) = di_rs2 (xs ! i)"
  using link_update [OF assms, of k lw pm] by auto

lemma link_is_mem [simp]:
  "i < length xs \<Longrightarrow> is_mem (link k lw pm xs ! i) = is_mem (xs ! i)"
  by (simp add: is_mem_def opcode_def)

text \<open>
  What the linking loop knows at position \<open>k\<close>: \<open>last_writer\<close> names the youngest earlier writer of
  every register and \<open>previous_mem\<close> the youngest earlier memory instruction.
\<close>

definition link_inv :: "dyn_instr list \<Rightarrow> nat \<Rightarrow> nat option list \<Rightarrow> nat option \<Rightarrow> bool" where
  "link_inv xs k lw pm \<longleftrightarrow>
     length lw = 32 \<and> (\<forall>r < 32. r \<noteq> 0 \<longrightarrow> lw ! r = youngest_writer xs k r) \<and> pm = youngest_mem xs k"

lemma link_inv_init: "link_inv xs 0 (replicate 32 None) None"
  by (simp add: link_inv_def youngest_writer_def youngest_mem_def)

lemma link_inv_step:
  assumes "link_inv xs k lw pm" "regs_ok (xs ! k)"
  shows "link_inv xs (Suc k)
    (if di_writes_rd (xs ! k) \<and> di_rd (xs ! k) \<noteq> 0 then lw[di_rd (xs ! k) := Some k] else lw)
    (if is_mem (xs ! k) then Some k else pm)"
  using assms
  by (auto simp: link_inv_def youngest_writer_def youngest_mem_def find_rev_upt_Suc regs_ok_def
      nth_list_update)

lemma link_deps_producers:
  assumes "link_inv xs k lw pm" "regs_ok (xs ! k)"
  shows "set (link_deps lw (xs ! k)) = raw_producers xs k"
  using assms
  by (auto simp: link_inv_def link_deps_def producer_of_def raw_producers_def regs_ok_def)

lemma link_nth:
  assumes "link_inv xs k lw pm" "list_all regs_ok xs" "xs = ys @ zs" "length ys = k" "i < length zs"
  shows "set (di_deps (link k lw pm zs ! i)) = raw_producers xs (k + i) \<and>
    (is_mem (zs ! i) \<longrightarrow> di_previous_mem (link k lw pm zs ! i) = youngest_mem xs (k + i)) \<and>
    (\<not> is_mem (zs ! i) \<longrightarrow> di_previous_mem (link k lw pm zs ! i) = di_previous_mem (zs ! i))"
  using assms
proof (induction zs arbitrary: ys k lw pm i)
  case Nil
  then show ?case by simp
next
  case (Cons z zs)
  have zk: "xs ! k = z" using Cons.prems by (simp add: nth_append)
  have ok: "regs_ok (xs ! k)" using Cons.prems(2,3) zk by simp
  note step = link_inv_step [OF Cons.prems(1) ok]
  show ?case
  proof (cases i)
    case 0
    with Cons.prems(1) link_deps_producers [OF Cons.prems(1) ok] zk show ?thesis
      by (simp add: Let_def link_inv_def)
  next
    case (Suc j)
    have tail: "xs = (ys @ [z]) @ zs" "length (ys @ [z]) = Suc k" "j < length zs"
      using Cons.prems Suc by simp_all
    note IH = Cons.IH [OF step Cons.prems(2) tail]
    show ?thesis
      using IH Suc zk
      by (cases "di_writes_rd z"; cases "di_rd z = 0"; cases "is_mem z") (simp_all add: Let_def)
  qed
qed

lemma find_cong_upt: "(\<And>j. j < i \<Longrightarrow> P j = Q j) \<Longrightarrow> find P (rev [0..<i]) = find Q (rev [0..<i])"
  by (induction i) auto

lemma youngest_link [simp]:
  assumes "i \<le> length xs"
  shows "youngest_writer (link k lw pm xs) i r = youngest_writer xs i r"
    "youngest_mem (link k lw pm xs) i = youngest_mem xs i"
  unfolding youngest_writer_def youngest_mem_def
  by (rule find_cong_upt; use assms in simp)+

lemma raw_producers_link [simp]:
  "i < length xs \<Longrightarrow> raw_producers (link k lw pm xs) i = raw_producers xs i"
  by (simp add: raw_producers_def)

lemma link_linked:
  assumes "list_all regs_ok xs" "\<forall>x \<in> set xs. di_previous_mem x = None"
  shows "linked (link 0 (replicate 32 None) None xs)"
  unfolding linked_def
proof (intro allI impI)
  fix i assume "i < length (link 0 (replicate 32 None) None xs)"
  then have i: "i < length xs" by simp
  from link_nth [OF link_inv_init assms(1), of "[]" xs i] i assms(2)
  show "set (di_deps (link 0 (replicate 32 None) None xs ! i)) =
      raw_producers (link 0 (replicate 32 None) None xs) i \<and>
    di_previous_mem (link 0 (replicate 32 None) None xs ! i) =
      (if is_mem (link 0 (replicate 32 None) None xs ! i)
       then youngest_mem (link 0 (replicate 32 None) None xs) i else None)"
    by simp
qed

section \<open>The loader produces a linked stream\<close>

definition meta_ok :: "load_state \<Rightarrow> bool" where
  "meta_ok st \<longleftrightarrow>
     (\<forall>u m. metadata st u = Some m \<longrightarrow> m_rs1 m < 32 \<and> m_rs2 m < 32 \<and> m_rd m < 32)"

lemma packed_reg_bound: "packed_reg raw f lane = Inr r \<Longrightarrow> r < 32"
proof -
  assume "packed_reg raw f lane = Inr r"
  then obtain v where "r = nat (drop_bit (lane * 5) v AND 0x1f)"
    by (auto simp: packed_reg_def)
  moreover have "drop_bit (lane * 5) v AND 0x1f \<le> 31" by (rule AND_upper2) simp
  moreover have "y \<le> 31 \<Longrightarrow> nat y < 32" for y :: int by arith
  ultimately show ?thesis by blast
qed

lemma queue_lane_meta_ok:
  assumes "meta_ok st" "queue_lane raw now a b c lane st = Inr st'"
  shows "meta_ok st'"
  using assms
  by (auto simp: queue_lane_def meta_ok_def setdefault_def dest!: packed_reg_bound
      split: option.splits if_splits)

lemma other_lanes_meta [simp]:
  "fetch_lane raw now lane st = Inr st' \<Longrightarrow> metadata st' = metadata st"
  "issue_lane raw now lane st = Inr st' \<Longrightarrow> metadata st' = metadata st"
  "complete_lane raw now lane st = Inr st' \<Longrightarrow> metadata st' = metadata st"
  "retire_lane raw now lane st = Inr st' \<Longrightarrow> metadata st' = metadata st"
  by (auto simp: fetch_lane_def issue_lane_def complete_lane_def retire_lane_def)

lemma count_held_meta: "count_held raw m st = Inr st' \<Longrightarrow> metadata st' = metadata st"
  by (auto simp: count_held_def split: if_splits)

lemma meta_ok_cong: "metadata st' = metadata st \<Longrightarrow> meta_ok st \<Longrightarrow> meta_ok st'"
  by (simp add: meta_ok_def)

lemma foldE_meta_ok:
  assumes "foldE f xs st = Inr st'" "meta_ok st"
    and "\<And>x s s'. f x s = Inr s' \<Longrightarrow> meta_ok s \<Longrightarrow> meta_ok s'"
  shows "meta_ok st'"
  by (rule foldE_invariant [where P = meta_ok, OF assms(1,2)]) (rule assms(3))

lemma load_row_meta_ok:
  assumes "load_row raw st = Inr st'" "meta_ok st"
  shows "meta_ok st'"
proof -
  have ok1: "meta_ok (st\<lparr>total_cycles := total_cycles st + 1\<rparr>)" using assms(2) by (simp add: meta_ok_def)
  from assms(1) obtain now fm st2 qm u1 u2 w st3 im st4 cm st5 rc st6 where
    2: "foldE (fetch_lane raw now) (set_lanes fm) (st\<lparr>total_cycles := total_cycles st + 1\<rparr>) = Inr st2" and
    3: "foldE (queue_lane raw now u1 u2 w) (set_lanes qm) st2 = Inr st3" and
    4: "foldE (issue_lane raw now) (set_lanes im) st3 = Inr st4" and
    5: "foldE (complete_lane raw now) (set_lanes cm) st4 = Inr st5" and
    6: "foldE (retire_lane raw now) [0..<nat rc] (st5\<lparr>actual_retired := actual_retired st5 + rc\<rparr>) = Inr st6" and
    7: "count_held raw fm st6 = Inr st'"
    unfolding load_row_def Let_def by blast
  have "meta_ok st2" by (rule foldE_meta_ok [OF 2 ok1]) (auto intro: meta_ok_cong)
  then have "meta_ok st3" by (rule foldE_meta_ok [OF 3]) (rule queue_lane_meta_ok)
  then have "meta_ok st4" by (rule foldE_meta_ok [OF 4]) (auto intro: meta_ok_cong)
  then have "meta_ok st5" by (rule foldE_meta_ok [OF 5]) (auto intro: meta_ok_cong)
  then have "meta_ok (st5\<lparr>actual_retired := actual_retired st5 + rc\<rparr>)" by (simp add: meta_ok_def)
  then have "meta_ok st6" by (rule foldE_meta_ok [OF 6]) (auto intro: meta_ok_cong)
  then show ?thesis by (rule meta_ok_cong [OF count_held_meta [OF 7]])
qed

lemma build_instr_ok:
  assumes "build_instr st u = Inr x" "meta_ok st"
  shows "regs_ok x \<and> di_previous_mem x = None \<and> di_uid x = u"
  using assms by (auto simp: build_instr_def meta_ok_def regs_ok_def split: option.splits prod.splits)

lemma load_trace_parts:
  assumes "load_trace lines = Inr (xs, st)"
  obtains instructions where "xs = link 0 (replicate 32 None) None instructions"
    and "mapE (build_instr st) (committed st) = Inr instructions" and "meta_ok st"
    and "int (length instructions) = actual_retired st"
proof -
  from assms obtain rows instructions where
    rows: "foldE load_row rows load_init = Inr st" and
    m: "mapE (build_instr st) (committed st) = Inr instructions" and
    "int (length instructions) = actual_retired st"
    "xs = link 0 (replicate 32 None) None instructions"
    unfolding load_trace_def Let_def by auto
  moreover have "meta_ok st"
  proof (rule foldE_meta_ok [OF rows])
    show "meta_ok load_init" by (simp add: meta_ok_def load_init_def)
  qed (rule load_row_meta_ok)
  ultimately show ?thesis using that by blast
qed

lemma load_trace_regs_ok:
  assumes "mapE (build_instr st) us = Inr xs" "meta_ok st"
  shows "list_all regs_ok xs \<and> (\<forall>x \<in> set xs. di_previous_mem x = None)"
proof -
  have "\<exists>u. build_instr st u = Inr x" if "x \<in> set xs" for x
    using that mapE_nth [OF assms(1)] mapE_length [OF assms(1)] by (metis in_set_conv_nth)
  with assms(2) show ?thesis by (meson build_instr_ok list_all_iff)
qed

end
