(* ===== verification/PipeAssign.thy ===== *)
theory PipeAssign
  imports IssueStream
begin

text \<open>
  \<open>pipe_assignment\<close> of \<open>tools/issue_window_experiment.py\<close>: a backtracking search that gives every
  selected instruction one of its pipes, no pipe twice. The interface \<open>assigner\<close> is what the
  scheduler's group choice needs of it: an answer is a matching, no answer means no matching exists.
\<close>

section \<open>The backtracking search\<close>

text \<open>
  The nested function \<open>assign(position, used)\<close>: \<open>assign\<close> is the position loop over the rest of the
  selection, \<open>try_pipes\<close> the loop over the pipes of one instruction. The dictionary \<open>result\<close> is the
  list of (index, pipe) in the order of insertion.
\<close>

function assign :: "(nat \<Rightarrow> nat list) \<Rightarrow> nat list \<Rightarrow> nat set \<Rightarrow> (nat \<times> nat) list option"
  and try_pipes ::
    "(nat \<Rightarrow> nat list) \<Rightarrow> nat \<Rightarrow> nat list \<Rightarrow> nat list \<Rightarrow> nat set \<Rightarrow> (nat \<times> nat) list option"
where
  "assign opts [] used = Some []"
| "assign opts (index # rest) used = try_pipes opts index rest (opts index) used"
| "try_pipes opts index rest [] used = None"
| "try_pipes opts index rest (pipe # pipes) used =
     (if pipe \<in> used then try_pipes opts index rest pipes used
      else case assign opts rest (insert pipe used) of
             Some result \<Rightarrow> Some ((index, pipe) # result)
           | None \<Rightarrow> try_pipes opts index rest pipes used)"
  by pat_completeness auto
termination
  by (relation "measures [\<lambda>x. case x of Inl (_, sel, _) \<Rightarrow> 2 * length sel
                                  | Inr (_, _, rest, _, _) \<Rightarrow> 2 * length rest + 1,
                          \<lambda>x. case x of Inl _ \<Rightarrow> 0 | Inr (_, _, _, pipes, _) \<Rightarrow> length pipes]")
     auto

definition pipe_assignment :: "dyn_instr list \<Rightarrow> nat list \<Rightarrow> (nat \<times> nat) list option" where
  "pipe_assignment instructions selected =
     assign (\<lambda>index. pipe_options (instructions ! index)) selected {}"

section \<open>Matchings\<close>

text \<open>
  A matching of a selection into pipes outside \<open>used\<close>: the selection in order, an allowed pipe each,
  no pipe twice.
\<close>

definition matching :: "(nat \<Rightarrow> nat list) \<Rightarrow> nat set \<Rightarrow> nat list \<Rightarrow> (nat \<times> nat) list \<Rightarrow> bool" where
  "matching opts used sel a \<longleftrightarrow>
     map fst a = sel \<and> (\<forall>(i, p) \<in> set a. p \<in> set (opts i) \<and> p \<notin> used) \<and> distinct (map snd a)"

lemma matching_Nil [simp]: "matching opts used [] a \<longleftrightarrow> a = []"
  by (auto simp: matching_def)

lemma matching_Cons:
  "matching opts used (i # sel) a \<longleftrightarrow>
     (\<exists>p r. a = (i, p) # r \<and> p \<in> set (opts i) \<and> p \<notin> used \<and> matching opts (insert p used) sel r)"
  unfolding matching_def by (cases a) (auto simp: image_iff; force)+

lemma assign_sound:
  "assign opts sel used = Some a \<Longrightarrow> matching opts used sel a"
  "try_pipes opts index rest pipes used = Some a \<Longrightarrow>
     (\<exists>p r. a = (index, p) # r \<and> p \<in> set pipes \<and> p \<notin> used \<and> matching opts (insert p used) rest r)"
proof (induction opts sel used and opts index rest pipes used arbitrary: a and a
    rule: assign_try_pipes.induct)
  case (2 opts index rest used)
  then show ?case by (simp add: matching_Cons)
next
  case (4 opts index rest pipe pipes used)
  then show ?case by (auto split: if_splits option.splits)
qed simp_all

lemma assign_complete:
  "assign opts sel used = None \<Longrightarrow> \<not> matching opts used sel b"
  "try_pipes opts index rest pipes used = None \<Longrightarrow>
     p \<in> set pipes \<Longrightarrow> p \<notin> used \<Longrightarrow> \<not> matching opts (insert p used) rest b"
proof (induction opts sel used and opts index rest pipes used arbitrary: b and b p
    rule: assign_try_pipes.induct)
  case (2 opts index rest used)
  then show ?case by (auto simp: matching_Cons)
next
  case (4 opts index rest pipe pipes used)
  then show ?case by (auto split: if_splits option.splits)
qed simp_all

section \<open>The interface the scheduler uses\<close>

locale assigner =
  fixes opts :: "nat \<Rightarrow> nat list"
    and attempt :: "nat list \<Rightarrow> (nat \<times> nat) list option"
  assumes attempt_Some: "attempt sel = Some a \<Longrightarrow> matching opts {} sel a"
    and attempt_None: "attempt sel = None \<Longrightarrow> \<not> matching opts {} sel a"
    and opts_nonempty: "opts i \<noteq> []"
    and opts_range: "p \<in> set (opts i) \<Longrightarrow> p < 3"
begin

lemma attempt_keys: "attempt sel = Some a \<Longrightarrow> map fst a = sel"
  using attempt_Some by (simp add: matching_def)

lemma attempt_iff: "(\<exists>a. attempt sel = Some a) \<longleftrightarrow> (\<exists>a. matching opts {} sel a)"
  using attempt_Some attempt_None by (cases "attempt sel") auto

lemma attempt_single: "\<exists>a. attempt [i] = Some a"
proof -
  have "matching opts {} [i] [(i, hd (opts i))]"
    using opts_nonempty [of i] by (auto simp: matching_def)
  then show ?thesis using attempt_iff by blast
qed

lemma attempt_width: "attempt sel = Some a \<Longrightarrow> length sel \<le> 3"
proof -
  assume a: "attempt sel = Some a"
  note m = attempt_Some [OF a]
  have "set (map snd a) \<subseteq> {..<3}" using m opts_range by (auto simp: matching_def)
  then have "card (set (map snd a)) \<le> card {..<3::nat}" by (intro card_mono) auto
  moreover have "card (set (map snd a)) = length sel"
    using m by (metis distinct_card length_map matching_def)
  ultimately show ?thesis by simp
qed

end

interpretation pipes: assigner "\<lambda>i. pipe_options (instructions ! i)" "pipe_assignment instructions"
  for instructions
  by unfold_locales
    (simp_all add: pipe_assignment_def assign_sound assign_complete pipe_options_range)

end
