(* ===== verification/EventQueue.thy ===== *)
theory EventQueue
  imports PyBase
begin

text \<open>
  The scheduler's completion heap (\<open>heapq\<close> over tuples \<open>(cycle, index)\<close> in
  \<open>tools/issue_window_experiment.py\<close>). The interface \<open>min_queue\<close> states what the client relies on:
  pushing adds one event, the event at the front is a least one, popping removes exactly it. It is
  interpreted on ascending lists, which give the observable behaviour of \<open>heapq\<close>: \<open>heap[0]\<close> is the
  least tuple. The client's loop \<open>while heap and heap[0][0] <= now: heappop(heap)\<close> is \<open>pop_due\<close>;
  its lemmas are proved once in the interface.
\<close>

section \<open>Completion events and their tuple order\<close>

datatype completion = Completion (due: int) (inst: nat)

instantiation completion :: linorder
begin

definition less_eq_completion :: "completion \<Rightarrow> completion \<Rightarrow> bool" where
  "less_eq_completion a b \<longleftrightarrow> due a < due b \<or> (due a = due b \<and> inst a \<le> inst b)"

definition less_completion :: "completion \<Rightarrow> completion \<Rightarrow> bool" where
  "less_completion a b \<longleftrightarrow> due a < due b \<or> (due a = due b \<and> inst a < inst b)"

instance
  by standard (auto simp: less_eq_completion_def less_completion_def completion.expand)

end

lemma completion_le_due: "a \<le> b \<Longrightarrow> due a \<le> due b"
  by (auto simp: less_eq_completion_def)

section \<open>The interface and its client loop\<close>

definition pop_due ::
  "('q \<Rightarrow> completion option) \<Rightarrow> ('q \<Rightarrow> 'q) \<Rightarrow> int \<Rightarrow> 'q \<Rightarrow> (completion \<times> 'q) option" where
  "pop_due peek pop now q =
     (case peek q of
        None \<Rightarrow> None
      | Some e \<Rightarrow> if due e \<le> now then Some (e, pop q) else None)"

locale min_queue =
  fixes emptyq :: "'q"
    and push :: "completion \<Rightarrow> 'q \<Rightarrow> 'q"
    and peek :: "'q \<Rightarrow> completion option"
    and pop :: "'q \<Rightarrow> 'q"
    and items :: "'q \<Rightarrow> completion multiset"
    and invar :: "'q \<Rightarrow> bool"
  assumes items_empty: "items emptyq = {#}"
    and items_push: "invar q \<Longrightarrow> items (push e q) = add_mset e (items q)"
    and peek_None: "invar q \<Longrightarrow> peek q = None \<longleftrightarrow> items q = {#}"
    and peek_least: "invar q \<Longrightarrow> peek q = Some e \<Longrightarrow> e \<in># items q \<and> (\<forall>x \<in># items q. e \<le> x)"
    and items_pop: "invar q \<Longrightarrow> peek q = Some e \<Longrightarrow> items q = add_mset e (items (pop q))"
    and invar_empty: "invar emptyq"
    and invar_push: "invar q \<Longrightarrow> invar (push e q)"
    and invar_pop: "invar q \<Longrightarrow> peek q = Some e \<Longrightarrow> invar (pop q)"
begin

lemma pop_due_Some:
  assumes "invar q" "pop_due peek pop now q = Some (e, q')"
  shows "invar q' \<and> items q = add_mset e (items q') \<and> due e \<le> now \<and> size (items q') < size (items q)"
  using assms items_pop [of q e] invar_pop [of q e]
  by (auto simp: pop_due_def split: option.splits if_splits)

lemma pop_due_None:
  assumes "invar q" "pop_due peek pop now q = None"
  shows "\<forall>e \<in># items q. now < due e"
proof (cases "peek q")
  case None
  with assms(1) show ?thesis by (simp add: peek_None)
next
  case (Some e)
  with assms(2) have "now < due e" by (auto simp: pop_due_def split: if_splits)
  moreover have "\<forall>x \<in># items q. due e \<le> due x"
    using peek_least [OF assms(1) Some] completion_le_due by blast
  ultimately show ?thesis by fastforce
qed

end

section \<open>The queue as an ascending list\<close>

definition heappush :: "completion \<Rightarrow> completion list \<Rightarrow> completion list" where
  "heappush e h = insort e h"

definition heappeek :: "completion list \<Rightarrow> completion option" where
  "heappeek h = (case h of [] \<Rightarrow> None | e # _ \<Rightarrow> Some e)"

definition heappop :: "completion list \<Rightarrow> completion list" where
  "heappop h = tl h"

interpretation heap: min_queue "[]" heappush heappeek heappop mset sorted
proof unfold_locales
  show "mset (heappush e q) = add_mset e (mset q)" for e q
    by (simp add: heappush_def)
  show "sorted (heappush e q)" if "sorted q" for e q
    using that by (simp add: heappush_def sorted_insort)
qed (auto simp: heappeek_def heappop_def split: list.splits)

lemma set_heappush [simp]: "set (heappush e h) = insert e (set h)"
  by (simp add: heappush_def set_insort_key)

lemma distinct_heappush [simp]: "distinct (heappush e h) \<longleftrightarrow> e \<notin> set h \<and> distinct h"
  by (simp add: heappush_def distinct_insort)

end
