(* ===== verification/IssueWindow.thy ===== *)
theory IssueWindow
  imports PipeAssign EventQueue
begin

text \<open>
  \<open>schedule\<close> of \<open>tools/issue_window_experiment.py\<close>: the cycle loop that replays a linked stream
  under a finite combined window. One record holds the function's local variables; each phase of the
  loop body is one definition and \<open>sched_step\<close> composes them in the code's order. The two group
  choices take the pipe search as an argument and are analysed in the interface \<open>assigner\<close>.
\<close>

section \<open>The function's arguments and variables\<close>

record sched_cfg =
  instructions :: "dyn_instr list"
  releases :: "int list"
  policy :: string
  capacity :: int
  pausable_feed :: bool
  free_perfect_branches :: bool
  free_perfect_jumps :: bool

record sched_state =
  admitted :: "bool list"
  issued :: "bool list"
  completed :: "bool list"
  retired :: "bool list"
  issue_cycle :: "int list"
  complete_cycle :: "int list"
  completion_heap :: "completion list"
  next_admit :: nat
  retire_head :: nat
  now_cycle :: int
  feed_clock :: int
  issue_slots :: nat
  no_issue_cycles :: nat
  window_full_cycles :: nat
  max_occupancy :: nat
  mem_active :: int
  skipped_oldest_cycles :: nat
  max_skip_distance :: nat
  feed_stall_cycles :: nat
  free_branches :: nat
  free_jumps :: nat

datatype sched_error =
    EmptyReleases
  | ReleaseIndex
  | StopIteration
  | NoProgress string nat
  | ZeroDivision

abbreviation count_of :: "sched_cfg \<Rightarrow> nat" where
  "count_of c \<equiv> length (instructions c)"

abbreviation ins :: "sched_cfg \<Rightarrow> nat \<Rightarrow> dyn_instr" where
  "ins c i \<equiv> instructions c ! i"

definition sched_init :: "sched_cfg \<Rightarrow> sched_state" where
  "sched_init c =
     (let n = count_of c; start = Min (set (releases c)) in
      \<lparr>admitted = replicate n False, issued = replicate n False, completed = replicate n False,
       retired = replicate n False, issue_cycle = replicate n (- 1),
       complete_cycle = replicate n (- 1), completion_heap = [],
       next_admit = 0, retire_head = 0, now_cycle = start, feed_clock = start,
       issue_slots = 0, no_issue_cycles = 0, window_full_cycles = 0, max_occupancy = 0,
       mem_active = 0, skipped_oldest_cycles = 0, max_skip_distance = 0, feed_stall_cycles = 0,
       free_branches = 0, free_jumps = 0\<rparr>)"

section \<open>Nested functions: readiness, the barrier and the group choice\<close>

definition is_free_control :: "sched_cfg \<Rightarrow> nat \<Rightarrow> bool" where
  "is_free_control c i \<longleftrightarrow>
     (free_perfect_branches c \<and> is_branch (ins c i)) \<or> (free_perfect_jumps c \<and> is_jump (ins c i))"

definition ready :: "sched_cfg \<Rightarrow> sched_state \<Rightarrow> nat \<Rightarrow> bool" where
  "ready c s i \<longleftrightarrow>
     (\<forall>p \<in> set (di_deps (ins c i)). completed s ! p) \<and>
     (case di_previous_mem (ins c i) of None \<Rightarrow> True | Some m \<Rightarrow> issued s ! m) \<and>
     \<not> (is_mem (ins c i) \<and> 3 \<le> mem_active s) \<and>
     \<not> (is_persistent_hard (ins c i) \<and> i \<noteq> retire_head s)"

definition barrier_cutoff :: "sched_cfg \<Rightarrow> sched_state \<Rightarrow> int" where
  "barrier_cutoff c s =
     (case find (\<lambda>i. is_persistent_hard (ins c i) \<and> \<not> retired s ! i)
             [retire_head s..<next_admit s] of
        Some i \<Rightarrow> int i
      | None \<Rightarrow> int (next_admit s) - 1)"

definition unissued :: "sched_state \<Rightarrow> nat list" where
  "unissued s = filter (\<lambda>i. admitted s ! i \<and> \<not> issued s ! i) [retire_head s..<next_admit s]"

text \<open>The strict policy: the ready prefix of the three oldest, cut after a hard instruction.\<close>

fun strict_candidates :: "(nat \<Rightarrow> bool) \<Rightarrow> (nat \<Rightarrow> bool) \<Rightarrow> nat list \<Rightarrow> nat list" where
  "strict_candidates rdy hard [] = []"
| "strict_candidates rdy hard (i # is) =
     (if \<not> rdy i then [] else if hard i then [i] else i # strict_candidates rdy hard is)"

fun widest_prefix ::
  "(nat list \<Rightarrow> (nat \<times> nat) list option) \<Rightarrow> nat list \<Rightarrow> nat \<Rightarrow> (nat \<times> nat) list" where
  "widest_prefix attempt candidates 0 = []"
| "widest_prefix attempt candidates (Suc w) =
     (case attempt (take (Suc w) candidates) of
        Some a \<Rightarrow> a
      | None \<Rightarrow> widest_prefix attempt candidates w)"

text \<open>The window policy: \<open>itertools.combinations\<close> in its order, the least valid one of a width.\<close>

fun combinations :: "nat \<Rightarrow> 'a list \<Rightarrow> 'a list list" where
  "combinations 0 xs = [[]]"
| "combinations (Suc k) [] = []"
| "combinations (Suc k) (x # xs) = map ((#) x) (combinations k xs) @ combinations (Suc k) xs"

definition splits_group :: "(nat \<Rightarrow> bool) \<Rightarrow> nat list \<Rightarrow> bool" where
  "splits_group hard combination \<longleftrightarrow>
     (\<exists>i \<in> set combination. hard i \<and> (\<exists>younger \<in> set combination. i < younger))"

definition better_group ::
  "(nat list \<Rightarrow> (nat \<times> nat) list option) \<Rightarrow> (nat \<Rightarrow> bool) \<Rightarrow>
   (nat list \<times> (nat \<times> nat) list) option \<Rightarrow> nat list \<Rightarrow> (nat list \<times> (nat \<times> nat) list) option" where
  "better_group attempt hard best combination =
     (if splits_group hard combination then best
      else case attempt combination of
             None \<Rightarrow> best
           | Some a \<Rightarrow>
               (case best of
                  None \<Rightarrow> Some (combination, a)
                | Some (b, _) \<Rightarrow> if combination < b then Some (combination, a) else best))"

fun widest_group ::
  "(nat list \<Rightarrow> (nat \<times> nat) list option) \<Rightarrow> (nat \<Rightarrow> bool) \<Rightarrow> nat list \<Rightarrow> nat \<Rightarrow> (nat \<times> nat) list" where
  "widest_group attempt hard rdys 0 = []"
| "widest_group attempt hard rdys (Suc w) =
     (case foldl (better_group attempt hard) None (combinations (Suc w) rdys) of
        Some (_, a) \<Rightarrow> a
      | None \<Rightarrow> widest_group attempt hard rdys w)"

definition choose_group :: "sched_cfg \<Rightarrow> sched_state \<Rightarrow> (nat \<times> nat) list" where
  "choose_group c s =
     (if unissued s = [] then []
      else
        let cutoff = barrier_cutoff c s;
            waiting = filter (\<lambda>i. int i \<le> cutoff) (unissued s);
            hard = (\<lambda>i. is_hard (ins c i));
            attempt = pipe_assignment (instructions c)
        in if policy c = ''strict''
           then let candidates = strict_candidates (ready c s) hard (take 3 waiting)
                in widest_prefix attempt candidates (length candidates)
           else let rdys = filter (ready c s) waiting
                in widest_group attempt hard rdys (min 3 (length rdys)))"

section \<open>The phases of one cycle\<close>

text \<open>Retirement: at most \<open>n\<close> (3) completed heads, stopping after a hard one that is not free.\<close>

fun retire_phase :: "sched_cfg \<Rightarrow> nat \<Rightarrow> sched_state \<Rightarrow> sched_state" where
  "retire_phase c 0 s = s"
| "retire_phase c (Suc n) s =
     (if retire_head s < count_of c \<and> completed s ! retire_head s
      then let i = retire_head s;
               t = s\<lparr>retired := (retired s)[i := True], retire_head := Suc i\<rparr>
           in if is_hard (ins c i) \<and> \<not> is_free_control c i then t else retire_phase c n t
      else s)"

definition finish :: "sched_cfg \<Rightarrow> nat \<Rightarrow> int \<Rightarrow> sched_state \<Rightarrow> sched_state" where
  "finish c i at s =
     s\<lparr>completed := (completed s)[i := True], complete_cycle := (complete_cycle s)[i := at],
       mem_active := (if is_mem (ins c i) then mem_active s - 1 else mem_active s)\<rparr>"

definition complete_event :: "sched_cfg \<Rightarrow> completion \<Rightarrow> sched_state \<Rightarrow> sched_state" where
  "complete_event c e s = (if \<not> completed s ! inst e then finish c (inst e) (due e) s else s)"

lemma heap_finish [simp]: "completion_heap (finish c i at s) = completion_heap s"
  by (simp add: finish_def)

lemma heap_complete_event [simp]: "completion_heap (complete_event c e s) = completion_heap s"
  by (simp add: complete_event_def)

function complete_phase :: "sched_cfg \<Rightarrow> sched_state \<Rightarrow> sched_state" where
  "complete_phase c s =
     (case pop_due heappeek heappop (now_cycle s) (completion_heap s) of
        None \<Rightarrow> s
      | Some (e, rest) \<Rightarrow> complete_phase c (complete_event c e (s\<lparr>completion_heap := rest\<rparr>)))"
  by pat_completeness auto
termination
  by (relation "measure (\<lambda>(c, s). length (completion_heap s))")
    (auto simp: pop_due_def heappeek_def heappop_def split: option.splits if_splits list.splits)

declare complete_phase.simps [simp del]

definition store_phase :: "sched_cfg \<Rightarrow> sched_state \<Rightarrow> sched_state" where
  "store_phase c s =
     (let h = retire_head s in
      if h < count_of c \<and> issued s ! h \<and> is_store (ins c h) \<and> \<not> completed s ! h
      then s\<lparr>completed := (completed s)[h := True],
             complete_cycle := (complete_cycle s)[h := now_cycle s],
             mem_active := mem_active s - 1\<rparr>
      else s)"

definition admit_one :: "sched_cfg \<Rightarrow> sched_state \<Rightarrow> sched_state" where
  "admit_one c s =
     (let i = next_admit s;
          t = s\<lparr>admitted := (admitted s)[i := True]\<rparr>;
          u = (if is_free_control c i
               then t\<lparr>issued := (issued t)[i := True], completed := (completed t)[i := True],
                      issue_cycle := (issue_cycle t)[i := now_cycle s],
                      complete_cycle := (complete_cycle t)[i := now_cycle s],
                      free_branches := free_branches t + (if is_branch (ins c i) then 1 else 0),
                      free_jumps := free_jumps t + (if is_branch (ins c i) then 0 else 1)\<rparr>
               else t)
      in u\<lparr>next_admit := Suc i\<rparr>)"

fun admit_phase :: "sched_cfg \<Rightarrow> nat \<Rightarrow> sched_state \<Rightarrow> sched_state" where
  "admit_phase c 0 s = s"
| "admit_phase c (Suc n) s =
     (if next_admit s < count_of c \<and> int (next_admit s - retire_head s) < capacity c \<and>
         releases c ! next_admit s \<le> feed_clock s
      then admit_phase c n (admit_one c s)
      else s)"

abbreviation occupancy :: "sched_state \<Rightarrow> nat" where
  "occupancy s \<equiv> next_admit s - retire_head s"

definition feed_blocked :: "sched_cfg \<Rightarrow> sched_state \<Rightarrow> bool" where
  "feed_blocked c s \<longleftrightarrow>
     next_admit s < count_of c \<and> releases c ! next_admit s \<le> feed_clock s \<and>
     capacity c \<le> int (occupancy s)"

definition occupancy_phase :: "sched_cfg \<Rightarrow> sched_state \<Rightarrow> sched_state" where
  "occupancy_phase c s =
     s\<lparr>max_occupancy := max (max_occupancy s) (occupancy s),
       window_full_cycles := window_full_cycles s + (if feed_blocked c s then 1 else 0)\<rparr>"

definition issue_one :: "sched_cfg \<Rightarrow> sched_state \<Rightarrow> nat \<Rightarrow> sched_state" where
  "issue_one c s i =
     s\<lparr>issued := (issued s)[i := True],
       issue_cycle := (issue_cycle s)[i := now_cycle s],
       mem_active := (if is_mem (ins c i) then mem_active s + 1 else mem_active s),
       completion_heap :=
         (if is_store (ins c i) then completion_heap s
          else heappush (Completion (now_cycle s + latency (ins c i)) i) (completion_heap s))\<rparr>"

definition issue_phase :: "sched_cfg \<Rightarrow> sched_state \<Rightarrow> sched_error + sched_state" where
  "issue_phase c s =
     (let group = choose_group c s in
      if group \<noteq> []
      then bindE (of_option StopIteration
             (find (\<lambda>i. admitted s ! i \<and> \<not> issued s ! i) [retire_head s..<next_admit s])) (\<lambda>oldest.
        let t = s\<lparr>issue_slots := issue_slots s + length group\<rparr>;
            u = (if oldest \<notin> fst ` set group
                 then t\<lparr>skipped_oldest_cycles := skipped_oldest_cycles t + 1,
                        max_skip_distance :=
                          max (max_skip_distance t) (Max (fst ` set group) - oldest)\<rparr>
                 else t)
        in Inr (foldl (issue_one c) u (sort (map fst group))))
      else Inr (if occupancy s \<noteq> 0 then s\<lparr>no_issue_cycles := no_issue_cycles s + 1\<rparr> else s))"

text \<open>\<open>feed_blocked\<close> is computed before the group is chosen; \<open>blocked\<close> is that value.\<close>

definition clock_phase :: "sched_cfg \<Rightarrow> bool \<Rightarrow> sched_state \<Rightarrow> sched_state" where
  "clock_phase c blocked s =
     (if pausable_feed c \<and> blocked
      then s\<lparr>feed_stall_cycles := feed_stall_cycles s + 1, now_cycle := now_cycle s + 1\<rparr>
      else s\<lparr>feed_clock := feed_clock s + 1, now_cycle := now_cycle s + 1\<rparr>)"

definition sched_step :: "sched_cfg \<Rightarrow> sched_state \<Rightarrow> sched_error + sched_state" where
  "sched_step c s =
     (let s1 = retire_phase c 3 s;
          s2 = complete_phase c s1;
          s3 = store_phase c s2;
          s4 = admit_phase c 3 s3;
          s5 = occupancy_phase c s4
      in bindE (issue_phase c s5) (\<lambda>s6. Inr (clock_phase c (feed_blocked c s4) s6)))"

section \<open>The loop and its result\<close>

definition start_cycle :: "sched_cfg \<Rightarrow> int" where
  "start_cycle c = Min (set (releases c))"

definition cycle_limit :: "sched_cfg \<Rightarrow> int" where
  "cycle_limit c = 10 * max 1 (int (count_of c))"

lemma now_retire [simp]: "now_cycle (retire_phase c n s) = now_cycle s"
  by (induction n arbitrary: s) (auto simp: Let_def)

lemma now_complete [simp]: "now_cycle (complete_phase c s) = now_cycle s"
proof (induction c s rule: complete_phase.induct)
  case (1 c s)
  then show ?case
    by (subst complete_phase.simps)
      (auto simp: complete_event_def finish_def split: option.splits)
qed

lemma now_admit [simp]: "now_cycle (admit_phase c n s) = now_cycle s"
  by (induction n arbitrary: s) (auto simp: admit_one_def Let_def)

lemma now_issue_one [simp]: "now_cycle (foldl (issue_one c) s is) = now_cycle s"
  by (induction "is" arbitrary: s) (auto simp: issue_one_def)

lemma now_issue_phase: "issue_phase c s = Inr t \<Longrightarrow> now_cycle t = now_cycle s"
  by (auto simp: issue_phase_def Let_def split: if_splits)

lemma now_step: "sched_step c s = Inr t \<Longrightarrow> now_cycle t = now_cycle s + 1"
  by (auto simp: sched_step_def Let_def clock_phase_def store_phase_def occupancy_phase_def
      dest!: now_issue_phase)

function sched_loop :: "sched_cfg \<Rightarrow> sched_state \<Rightarrow> sched_error + sched_state" where
  "sched_loop c s =
     (if retire_head s < count_of c
      then bindE (sched_step c s) (\<lambda>t.
        if cycle_limit c < now_cycle t - start_cycle c
        then Inl (NoProgress (policy c) (retire_head t))
        else sched_loop c t)
      else Inr s)"
  by pat_completeness auto
termination
  by (relation "measure (\<lambda>(c, s). nat (cycle_limit c + start_cycle c + 1 - now_cycle s))")
    (auto dest!: now_step)

declare sched_loop.simps [simp del]

record sched_result =
  r_cycles :: int
  r_ipc :: "int \<times> int"
  r_issued :: nat
  r_no_issue_cycles :: nat
  r_window_full_cycles :: nat
  r_max_occupancy :: nat
  r_skipped_oldest_cycles :: nat
  r_max_skip_distance :: nat
  r_feed_stall_cycles :: nat
  r_free_branches :: nat
  r_free_jumps :: nat

text \<open>
  The quotient \<open>count / cycles\<close> is kept as its two integers. The callers pass one release per
  instruction (\<open>monotonic_release\<close>), which \<open>schedule\<close> does not check itself: a missing release is
  Python's \<open>IndexError\<close>, here reported before the loop.
\<close>

definition schedule_run :: "sched_cfg \<Rightarrow> sched_error + sched_state" where
  "schedule_run c =
     (if releases c = [] then Inl EmptyReleases
      else if length (releases c) < count_of c then Inl ReleaseIndex
      else sched_loop c (sched_init c))"

definition schedule :: "sched_cfg \<Rightarrow> sched_error + sched_result" where
  "schedule c =
     bindE (schedule_run c) (\<lambda>s.
       let cycles = now_cycle s - start_cycle c in
       if cycles = 0 then Inl ZeroDivision
       else Inr \<lparr>r_cycles = cycles, r_ipc = (int (count_of c), cycles), r_issued = issue_slots s,
                 r_no_issue_cycles = no_issue_cycles s,
                 r_window_full_cycles = window_full_cycles s,
                 r_max_occupancy = max_occupancy s,
                 r_skipped_oldest_cycles = skipped_oldest_cycles s,
                 r_max_skip_distance = max_skip_distance s,
                 r_feed_stall_cycles = feed_stall_cycles s,
                 r_free_branches = free_branches s, r_free_jumps = free_jumps s\<rparr>)"

end
