(* ===== verification/IssueChoice.thy ===== *)
theory IssueChoice
  imports IssueWindow
begin

text \<open>
  What the two group choices of the scheduler return, proved once over the interface \<open>assigner\<close>:
  the strict prefix and the widest, lexicographically least combination that the pipe search
  accepts. \<open>choose_group\<close> is then characterised for the model's own pipe search.
\<close>

section \<open>Combinations\<close>

lemma combinations_props:
  "ys \<in> set (combinations k xs) \<Longrightarrow> length ys = k \<and> set ys \<subseteq> set xs"
proof (induction k xs arbitrary: ys rule: combinations.induct)
  case (3 k x xs)
  then show ?case by fastforce
qed auto

lemma combinations_sorted:
  fixes xs :: "'a::linorder list"
  shows "ys \<in> set (combinations k xs) \<Longrightarrow> sorted_wrt (<) xs \<Longrightarrow> sorted_wrt (<) ys"
proof (induction k xs arbitrary: ys rule: combinations.induct)
  case (3 k x xs)
  show ?case
  proof (cases "ys \<in> set (combinations (Suc k) xs)")
    case True
    with 3 show ?thesis by simp
  next
    case False
    then obtain zs where zs: "ys = x # zs" "zs \<in> set (combinations k xs)" using "3.prems"(1) by auto
    with combinations_props [OF zs(2)] 3 show ?thesis by auto
  qed
qed auto

lemma combinations_single: "x \<in> set xs \<Longrightarrow> [x] \<in> set (combinations (Suc 0) xs)"
  by (induction xs) auto

text \<open>Every ascending selection is enumerated.\<close>

lemma combinations_complete:
  fixes xs :: "'a::linorder list"
  shows "sorted_wrt (<) ys \<Longrightarrow> set ys \<subseteq> set xs \<Longrightarrow> sorted_wrt (<) xs \<Longrightarrow> ys \<in> set (combinations (length ys) xs)"
proof (induction xs arbitrary: ys)
  case Nil
  then show ?case by simp
next
  case (Cons x xs)
  show ?case
  proof (cases ys)
    case Nil
    then show ?thesis by simp
  next
    case (Cons y zs)
    note ys = this
    have tail: "set zs \<subseteq> set xs"
    proof
      fix z assume z: "z \<in> set zs"
      have "y < z" "z \<in> set (x # xs)" "y \<in> set (x # xs)"
        using Cons.prems ys z by auto
      moreover have "\<forall>w \<in> set xs. x < w" using Cons.prems(3) by simp
      ultimately show "z \<in> set xs" by (metis less_asym set_ConsD)
    qed
    show ?thesis
    proof (cases "y = x")
      case True
      with Cons.IH [of zs] Cons.prems ys tail show ?thesis by simp
    next
      case False
      with Cons.prems ys tail have "set ys \<subseteq> set xs" by auto
      with Cons.IH [of ys] Cons.prems ys show ?thesis by simp
    qed
  qed
qed

section \<open>The choices, over any pipe search\<close>

definition group_ok ::
  "(nat list \<Rightarrow> (nat \<times> nat) list option) \<Rightarrow> (nat \<Rightarrow> bool) \<Rightarrow> nat list \<Rightarrow> bool" where
  "group_ok attempt hard sel \<longleftrightarrow> \<not> splits_group hard sel \<and> attempt sel \<noteq> None"

lemma better_group_fold:
  assumes "foldl (better_group attempt hard) None cs = r"
  shows "case r of
      None \<Rightarrow> \<forall>x \<in> set cs. \<not> group_ok attempt hard x
    | Some (b, a) \<Rightarrow> b \<in> set cs \<and> group_ok attempt hard b \<and> attempt b = Some a \<and>
        (\<forall>x \<in> set cs. group_ok attempt hard x \<longrightarrow> b \<le> x)"
  using assms
proof (induction cs arbitrary: r rule: rev_induct)
  case Nil
  then show ?case by auto
next
  case (snoc x cs)
  let ?r = "foldl (better_group attempt hard) None cs"
  have r: "r = better_group attempt hard ?r x" using snoc.prems by simp
  show ?case
  proof (cases ?r)
    case None
    have none: "\<forall>x \<in> set cs. \<not> group_ok attempt hard x" using snoc.IH [of ?r] None by simp
    show ?thesis
    proof (cases "group_ok attempt hard x")
      case True
      then have "r = Some (x, the (attempt x))"
        using r None by (auto simp: better_group_def group_ok_def)
      with True none show ?thesis by (auto simp: group_ok_def)
    next
      case False
      then have "r = None"
        using r None by (auto simp: better_group_def group_ok_def split: option.splits)
      with False none show ?thesis by simp
    qed
  next
    case (Some p)
    obtain b a where p: "p = (b, a)" by (cases p)
    have IH: "b \<in> set cs \<and> group_ok attempt hard b \<and> attempt b = Some a \<and>
        (\<forall>x \<in> set cs. group_ok attempt hard x \<longrightarrow> b \<le> x)"
      using snoc.IH [OF refl] Some p by simp
    show ?thesis
    proof (cases "group_ok attempt hard x \<and> x < b")
      case True
      then have "r = Some (x, the (attempt x))"
        using r Some p by (auto simp: better_group_def group_ok_def)
      with True IH show ?thesis by (auto simp: group_ok_def)
    next
      case False
      then have "r = Some (b, a)"
        using r Some p by (auto simp: better_group_def group_ok_def split: option.splits)
      with False IH show ?thesis by (auto simp: not_less)
    qed
  qed
qed

context assigner
begin

lemma widest_prefix_spec:
  assumes "widest_prefix attempt cs w = g" "g \<noteq> []"
  shows "\<exists>k. 0 < k \<and> k \<le> w \<and> attempt (take k cs) = Some g \<and> (\<forall>j. k < j \<and> j \<le> w \<longrightarrow> attempt (take j cs) = None)"
  using assms
proof (induction w)
  case 0
  then show ?case by simp
next
  case (Suc w)
  show ?case
  proof (cases "attempt (take (Suc w) cs)")
    case None
    with Suc obtain k where k: "0 < k" "k \<le> w" "attempt (take k cs) = Some g"
      "\<forall>j. k < j \<and> j \<le> w \<longrightarrow> attempt (take j cs) = None" by auto
    with None show ?thesis by (intro exI [of _ k]) (auto simp: le_Suc_eq)
  next
    case (Some a)
    with Suc.prems show ?thesis by (intro exI [of _ "Suc w"]) auto
  qed
qed

lemma widest_prefix_nonempty: "cs \<noteq> [] \<Longrightarrow> 0 < w \<Longrightarrow> widest_prefix attempt cs w \<noteq> []"
proof (induction w)
  case 0
  then show ?case by simp
next
  case (Suc w)
  obtain x cs' where cs: "cs = x # cs'" using Suc.prems(1) by (cases cs) auto
  show ?case
  proof (cases "attempt (take (Suc w) cs)")
    case None
    have "w \<noteq> 0" using None cs attempt_single [of x] by (cases w) auto
    with None Suc show ?thesis by simp
  next
    case (Some a)
    then have "map fst a \<noteq> []" using attempt_keys cs by force
    with Some show ?thesis by auto
  qed
qed

lemma widest_group_spec:
  assumes "widest_group attempt hard rdys w = g" "g \<noteq> []"
  shows "\<exists>k b. 0 < k \<and> k \<le> w \<and> b \<in> set (combinations k rdys) \<and> group_ok attempt hard b \<and>
    attempt b = Some g \<and>
    (\<forall>x \<in> set (combinations k rdys). group_ok attempt hard x \<longrightarrow> b \<le> x) \<and>
    (\<forall>j. k < j \<and> j \<le> w \<longrightarrow> (\<forall>x \<in> set (combinations j rdys). \<not> group_ok attempt hard x))"
  using assms
proof (induction w)
  case 0
  then show ?case by simp
next
  case (Suc w)
  let ?f = "foldl (better_group attempt hard) None (combinations (Suc w) rdys)"
  note fold = better_group_fold [of attempt hard "combinations (Suc w) rdys", OF refl]
  show ?case
  proof (cases ?f)
    case None
    with Suc obtain k b where k: "0 < k" "k \<le> w" "b \<in> set (combinations k rdys)"
      "group_ok attempt hard b" "attempt b = Some g"
      "\<forall>x \<in> set (combinations k rdys). group_ok attempt hard x \<longrightarrow> b \<le> x"
      "\<forall>j. k < j \<and> j \<le> w \<longrightarrow> (\<forall>x \<in> set (combinations j rdys). \<not> group_ok attempt hard x)"
      by auto
    with None fold show ?thesis by (intro exI [of _ k] exI [of _ b]) (auto simp: le_Suc_eq)
  next
    case (Some p)
    with Suc.prems fold show ?thesis
      by (intro exI [of _ "Suc w"] exI [of _ "fst p"]) (auto split: prod.splits)
  qed
qed

lemma widest_group_nonempty: "rdys \<noteq> [] \<Longrightarrow> 0 < w \<Longrightarrow> widest_group attempt hard rdys w \<noteq> []"
proof (induction w)
  case 0
  then show ?case by simp
next
  case (Suc w)
  let ?f = "foldl (better_group attempt hard) None (combinations (Suc w) rdys)"
  note fold = better_group_fold [of attempt hard "combinations (Suc w) rdys", OF refl]
  show ?case
  proof (cases ?f)
    case None
    obtain x where x: "x \<in> set rdys" using Suc.prems(1) by (cases rdys) auto
    have "group_ok attempt hard [x]"
      using attempt_single [of x] by (auto simp: group_ok_def splits_group_def)
    then have "w \<noteq> 0" using None fold combinations_single [OF x] by (cases w) auto
    with None Suc show ?thesis by simp
  next
    case (Some p)
    obtain b a where p: "p = (b, a)" by (cases p)
    have "b \<in> set (combinations (Suc w) rdys)" "attempt b = Some a" using fold Some p by auto
    then have "map fst a \<noteq> []" using attempt_keys combinations_props by fastforce
    with Some p show ?thesis by auto
  qed
qed

end

section \<open>The group of a cycle\<close>

definition waiting :: "sched_cfg \<Rightarrow> sched_state \<Rightarrow> nat list" where
  "waiting c s = filter (\<lambda>i. int i \<le> barrier_cutoff c s) (unissued s)"

abbreviation hard_at :: "sched_cfg \<Rightarrow> nat \<Rightarrow> bool" where
  "hard_at c \<equiv> \<lambda>i. is_hard (ins c i)"

lemma choose_group_alt:
  "choose_group c s =
     (if unissued s = [] then []
      else if policy c = ''strict''
      then let cs = strict_candidates (ready c s) (hard_at c) (take 3 (waiting c s))
           in widest_prefix (pipe_assignment (instructions c)) cs (length cs)
      else let rdys = filter (ready c s) (waiting c s)
           in widest_group (pipe_assignment (instructions c)) (hard_at c) rdys (min 3 (length rdys)))"
  by (simp add: choose_group_def waiting_def Let_def)

lemma unissued_sorted [simp]: "sorted_wrt (<) (unissued s)"
  by (simp add: unissued_def sorted_wrt_filter)

lemma waiting_sorted [simp]: "sorted_wrt (<) (waiting c s)"
  unfolding waiting_def by (rule sorted_wrt_filter) simp

lemma set_unissued:
  "i \<in> set (unissued s) \<longleftrightarrow>
     retire_head s \<le> i \<and> i < next_admit s \<and> admitted s ! i \<and> \<not> issued s ! i"
  by (auto simp: unissued_def)

lemma strict_candidates_prefix:
  "\<exists>k. strict_candidates rdy hard is = take k is"
proof (induction "is")
  case Nil
  then show ?case by simp
next
  case (Cons i "is")
  then obtain k where k: "strict_candidates rdy hard is = take k is" by blast
  have "take 0 (i # is) = []" "take 1 (i # is) = [i]" "take (Suc k) (i # is) = i # take k is"
    by simp_all
  with k show ?case by (metis strict_candidates.simps(2))
qed

lemma strict_candidates_ready: "i \<in> set (strict_candidates rdy hard is) \<Longrightarrow> rdy i"
  by (induction "is") (auto split: if_splits)

text \<open>The indices of a chosen group are ascending, waiting and ready, and the pipe search took them.\<close>

lemma choose_group_spec:
  assumes "choose_group c s = g" "g \<noteq> []"
  shows "pipe_assignment (instructions c) (map fst g) = Some g \<and> sorted_wrt (<) (map fst g) \<and>
    set (map fst g) \<subseteq> {i \<in> set (waiting c s). ready c s i}"
proof (cases "policy c = ''strict''")
  case True
  let ?cs = "strict_candidates (ready c s) (hard_at c) (take 3 (waiting c s))"
  have "widest_prefix (pipe_assignment (instructions c)) ?cs (length ?cs) = g"
    using assms True by (auto simp: choose_group_alt Let_def split: if_splits)
  from pipes.widest_prefix_spec [OF this assms(2)]
  obtain k where k: "pipe_assignment (instructions c) (take k ?cs) = Some g" by blast
  then have keys: "map fst g = take k ?cs" by (rule pipes.attempt_keys)
  obtain m where m: "?cs = take m (take 3 (waiting c s))"
    using strict_candidates_prefix by blast
  have "sorted_wrt (<) (take k (take m (take 3 (waiting c s))))"
    by (intro sorted_wrt_take) simp
  moreover have "set (take k ?cs) \<subseteq> {i \<in> set (waiting c s). ready c s i}"
  proof
    fix i assume "i \<in> set (take k ?cs)"
    then have cs: "i \<in> set ?cs" by (rule in_set_takeD)
    then have "i \<in> set (take m (take 3 (waiting c s)))" using m by simp
    then have "i \<in> set (waiting c s)" by (blast dest: in_set_takeD)
    with strict_candidates_ready [OF cs] show "i \<in> {i \<in> set (waiting c s). ready c s i}" by blast
  qed
  ultimately show ?thesis using k keys m by simp
next
  case False
  let ?rs = "filter (ready c s) (waiting c s)"
  have "widest_group (pipe_assignment (instructions c)) (hard_at c) ?rs (min 3 (length ?rs)) = g"
    using assms False by (auto simp: choose_group_alt Let_def split: if_splits)
  from pipes.widest_group_spec [OF this assms(2)]
  obtain k b where b: "b \<in> set (combinations k ?rs)"
    "pipe_assignment (instructions c) b = Some g" by blast
  then have keys: "map fst g = b" by (intro pipes.attempt_keys)
  have "sorted_wrt (<) ?rs" by (rule sorted_wrt_filter) simp
  then have "sorted_wrt (<) b" by (rule combinations_sorted [OF b(1)])
  moreover have "set b \<subseteq> set ?rs" using combinations_props [OF b(1)] by simp
  ultimately show ?thesis using b(2) keys by (simp add: subset_eq)
qed

text \<open>A ready oldest waiting instruction makes the group non-empty under either policy.\<close>

lemma choose_group_progress:
  assumes "waiting c s = i # is" "ready c s i"
  shows "choose_group c s \<noteq> []"
proof -
  let ?cs = "strict_candidates (ready c s) (hard_at c) (take 3 (waiting c s))"
  let ?rs = "filter (ready c s) (waiting c s)"
  have u: "unissued s \<noteq> []" using assms(1) by (auto simp: waiting_def)
  have "?cs \<noteq> []" using assms by (simp add: numeral_3_eq_3)
  then have p: "widest_prefix (pipe_assignment (instructions c)) ?cs (length ?cs) \<noteq> []"
    by (intro pipes.widest_prefix_nonempty) auto
  have "?rs \<noteq> []" using assms by simp
  then have q: "widest_group (pipe_assignment (instructions c)) (hard_at c) ?rs (min 3 (length ?rs)) \<noteq> []"
    by (intro pipes.widest_group_nonempty) auto
  show ?thesis unfolding choose_group_alt Let_def using u p q by simp
qed

end
