(* ===== verification/IssueInvariants.thy ===== *)
theory IssueInvariants
  imports IssueChoice
begin

text \<open>
  The invariants of the scheduler's cycle loop. Each predicate relates some of the loop's variables;
  every phase keeps all of them, so they hold in the state the loop returns. The bound \<open>b\<close> is the
  first cycle at which nothing has been issued yet: \<open>now_cycle\<close> before the issue phase,
  \<open>now_cycle + 1\<close> after it.
\<close>

named_theorems inv_defs \<open>the invariants' definitions\<close>

section \<open>Well-formed streams\<close>

definition wf_stream :: "dyn_instr list \<Rightarrow> bool" where
  "wf_stream xs \<longleftrightarrow>
     (\<forall>i < length xs. (\<forall>d \<in> set (di_deps (xs ! i)). d < i) \<and>
        (\<forall>m. di_previous_mem (xs ! i) = Some m \<longrightarrow> m < i \<and> is_mem (xs ! m) \<and> is_mem (xs ! i)) \<and>
        (is_mem (xs ! i) \<longrightarrow>
           (\<forall>j < i. is_mem (xs ! j) \<longrightarrow> (\<exists>m. di_previous_mem (xs ! i) = Some m \<and> j \<le> m))))"

lemma linked_wf_stream:
  assumes "linked xs"
  shows "wf_stream xs"
  unfolding wf_stream_def
proof (intro allI impI conjI ballI)
  fix i assume i: "i < length xs"
  note l = assms [unfolded linked_def, rule_format, OF i]
  show "d < i" if "d \<in> set (di_deps (xs ! i))" for d
    using that l find_rev_upt_Some by (auto simp: raw_producers_def youngest_writer_def)
  show "m < i" "is_mem (xs ! m)" "is_mem (xs ! i)" if "di_previous_mem (xs ! i) = Some m" for m
    using that l find_rev_upt_Some by (fastforce simp: youngest_mem_def split: if_splits)+
  fix j assume m: "is_mem (xs ! i)" and j: "j < i" "is_mem (xs ! j)"
  with l obtain m where y: "youngest_mem xs i = Some m"
    using find_rev_upt_None [of "\<lambda>j. is_mem (xs ! j)" i j]
    by (cases "youngest_mem xs i") (auto simp: youngest_mem_def)
  with find_rev_upt_Some [of "\<lambda>j. is_mem (xs ! j)" i m] j have "j \<le> m"
    by (metis linorder_not_le youngest_mem_def)
  with l m y show "\<exists>m. di_previous_mem (xs ! i) = Some m \<and> j \<le> m" by simp
qed

section \<open>The predicates\<close>

abbreviation free :: "sched_cfg \<Rightarrow> nat \<Rightarrow> bool" where
  "free \<equiv> is_free_control"

definition lens :: "sched_cfg \<Rightarrow> sched_state \<Rightarrow> bool" where
  [inv_defs]: "lens c s \<longleftrightarrow>
     length (admitted s) = count_of c \<and> length (issued s) = count_of c \<and>
     length (completed s) = count_of c \<and> length (retired s) = count_of c \<and>
     length (issue_cycle s) = count_of c \<and> length (complete_cycle s) = count_of c"

definition shape :: "sched_cfg \<Rightarrow> sched_state \<Rightarrow> bool" where
  [inv_defs]: "shape c s \<longleftrightarrow>
     retire_head s \<le> next_admit s \<and> next_admit s \<le> count_of c \<and>
     (\<forall>i < count_of c. admitted s ! i \<longleftrightarrow> i < next_admit s) \<and>
     (\<forall>i < count_of c. retired s ! i \<longleftrightarrow> i < retire_head s) \<and>
     (\<forall>i < count_of c. issued s ! i \<longrightarrow> i < next_admit s) \<and>
     (\<forall>i < count_of c. completed s ! i \<longrightarrow> issued s ! i) \<and>
     (\<forall>i < count_of c. i < retire_head s \<longrightarrow> completed s ! i) \<and>
     (\<forall>i < count_of c. i < next_admit s \<longrightarrow> free c i \<longrightarrow> completed s ! i)"

definition in_flight :: "sched_cfg \<Rightarrow> sched_state \<Rightarrow> nat \<Rightarrow> bool" where
  "in_flight c s i \<longleftrightarrow> i < count_of c \<and> issued s ! i \<and> \<not> completed s ! i"

definition event_of :: "sched_cfg \<Rightarrow> sched_state \<Rightarrow> nat \<Rightarrow> completion" where
  "event_of c s i = Completion (issue_cycle s ! i + latency (ins c i)) i"

definition heap_ok :: "sched_cfg \<Rightarrow> sched_state \<Rightarrow> bool" where
  [inv_defs]: "heap_ok c s \<longleftrightarrow>
     sorted (completion_heap s) \<and> distinct (completion_heap s) \<and>
     set (completion_heap s) = event_of c s ` {i. in_flight c s i \<and> \<not> is_store (ins c i)}"

definition mem_ok :: "sched_cfg \<Rightarrow> sched_state \<Rightarrow> bool" where
  [inv_defs]: "mem_ok c s \<longleftrightarrow>
     mem_active s = int (card {i. in_flight c s i \<and> is_mem (ins c i)})"

definition times :: "sched_cfg \<Rightarrow> int \<Rightarrow> sched_state \<Rightarrow> bool" where
  [inv_defs]: "times c b s \<longleftrightarrow>
     start_cycle c \<le> now_cycle s \<and>
     (\<forall>i < count_of c. issued s ! i \<longrightarrow>
        start_cycle c \<le> issue_cycle s ! i \<and> issue_cycle s ! i \<le> now_cycle s \<and>
        (\<not> free c i \<longrightarrow> issue_cycle s ! i < b)) \<and>
     (\<forall>i < count_of c. completed s ! i \<longrightarrow>
        issue_cycle s ! i \<le> complete_cycle s ! i \<and> complete_cycle s ! i \<le> now_cycle s \<and>
        (\<not> free c i \<and> \<not> is_store (ins c i) \<longrightarrow>
           complete_cycle s ! i = issue_cycle s ! i + latency (ins c i))) \<and>
     (\<forall>i < count_of c. i < retire_head s \<longrightarrow> complete_cycle s ! i < now_cycle s)"

text \<open>A free control transfer completes as it enters; a store completes at the ordered head, after all before it.\<close>

definition completion_order :: "sched_cfg \<Rightarrow> sched_state \<Rightarrow> bool" where
  [inv_defs]: "completion_order c s \<longleftrightarrow>
     (\<forall>i < count_of c. completed s ! i \<longrightarrow>
        (free c i \<longrightarrow> complete_cycle s ! i = issue_cycle s ! i) \<and>
        (is_store (ins c i) \<longrightarrow> issue_cycle s ! i < complete_cycle s ! i \<and>
           (\<forall>j < i. completed s ! j \<and> complete_cycle s ! j < complete_cycle s ! i)))"

definition dataflow :: "sched_cfg \<Rightarrow> sched_state \<Rightarrow> bool" where
  [inv_defs]: "dataflow c s \<longleftrightarrow>
     (\<forall>i < count_of c. issued s ! i \<and> \<not> free c i \<longrightarrow>
        (\<forall>d \<in> set (di_deps (ins c i)). completed s ! d \<and> complete_cycle s ! d \<le> issue_cycle s ! i))"

definition mem_order :: "sched_cfg \<Rightarrow> sched_state \<Rightarrow> bool" where
  [inv_defs]: "mem_order c s \<longleftrightarrow>
     (\<forall>i < count_of c. \<forall>m. issued s ! i \<and> \<not> free c i \<and> di_previous_mem (ins c i) = Some m \<longrightarrow>
        issued s ! m \<and> issue_cycle s ! m < issue_cycle s ! i)"

definition serial_before :: "sched_cfg \<Rightarrow> sched_state \<Rightarrow> bool" where
  [inv_defs]: "serial_before c s \<longleftrightarrow>
     (\<forall>i < count_of c. issued s ! i \<and> is_persistent_hard (ins c i) \<and> \<not> free c i \<longrightarrow>
        (\<forall>j < i. completed s ! j \<and> complete_cycle s ! j < issue_cycle s ! i))"

definition serial_after :: "sched_cfg \<Rightarrow> sched_state \<Rightarrow> bool" where
  [inv_defs]: "serial_after c s \<longleftrightarrow>
     (\<forall>j < count_of c. issued s ! j \<and> \<not> free c j \<longrightarrow>
        (\<forall>i < j. is_persistent_hard (ins c i) \<longrightarrow>
           completed s ! i \<and> complete_cycle s ! i < issue_cycle s ! j))"

definition issued_at :: "sched_cfg \<Rightarrow> sched_state \<Rightarrow> int \<Rightarrow> nat list" where
  "issued_at c s t =
     filter (\<lambda>i. issued s ! i \<and> \<not> free c i \<and> issue_cycle s ! i = t) [0..<count_of c]"

definition pipe_table :: "sched_cfg \<Rightarrow> nat \<Rightarrow> nat list" where
  "pipe_table c i = pipe_options (ins c i)"

definition width_ok :: "sched_cfg \<Rightarrow> sched_state \<Rightarrow> bool" where
  [inv_defs]: "width_ok c s \<longleftrightarrow>
     (\<forall>t. \<exists>a. matching (pipe_table c) {} (issued_at c s t) a)"

definition window_ok :: "sched_cfg \<Rightarrow> sched_state \<Rightarrow> bool" where
  [inv_defs]: "window_ok c s \<longleftrightarrow>
     int (occupancy s) \<le> max 0 (capacity c) \<and> int (max_occupancy s) \<le> max 0 (capacity c)"

definition slots_ok :: "sched_cfg \<Rightarrow> sched_state \<Rightarrow> bool" where
  [inv_defs]: "slots_ok c s \<longleftrightarrow>
     issue_slots s = card {i. i < count_of c \<and> issued s ! i \<and> \<not> free c i} \<and>
     free_branches s = card {i. i < next_admit s \<and> free c i \<and> is_branch (ins c i)} \<and>
     free_jumps s = card {i. i < next_admit s \<and> free c i \<and> \<not> is_branch (ins c i)}"

definition sched_core :: "sched_cfg \<Rightarrow> int \<Rightarrow> sched_state \<Rightarrow> bool" where
  "sched_core c b s \<longleftrightarrow>
     lens c s \<and> shape c s \<and> heap_ok c s \<and> mem_ok c s \<and> times c b s \<and> dataflow c s \<and>
     mem_order c s \<and> serial_before c s \<and> serial_after c s \<and> window_ok c s \<and> completion_order c s"

definition sched_inv :: "sched_cfg \<Rightarrow> int \<Rightarrow> sched_state \<Rightarrow> bool" where
  "sched_inv c b s \<longleftrightarrow>
     sched_core c b s \<and> width_ok c s \<and> slots_ok c s \<and> mem_active s \<le> 3"

lemmas sched_inv_unfold = sched_inv_def sched_core_def

text \<open>At the head of the loop everything issued or completed lies before the current cycle.\<close>

definition settled :: "sched_cfg \<Rightarrow> sched_state \<Rightarrow> bool" where
  "settled c s \<longleftrightarrow>
     (\<forall>i < count_of c. issued s ! i \<longrightarrow> issue_cycle s ! i < now_cycle s) \<and>
     (\<forall>i < count_of c. completed s ! i \<longrightarrow> complete_cycle s ! i < now_cycle s)"

lemma mem_not_free: "is_mem (ins c i) \<Longrightarrow> \<not> free c i"
  using mem_not_branch by (auto simp: is_free_control_def)

lemma store_not_free: "is_store (ins c i) \<Longrightarrow> \<not> free c i"
  by (rule mem_not_free [OF store_is_mem])

lemma sched_init_inv: "sched_inv c (start_cycle c) (sched_init c)"
proof -
  have "issued_at c (sched_init c) t = []" for t
    by (auto simp: issued_at_def sched_init_def Let_def filter_empty_conv)
  then have "width_ok c (sched_init c)" by (simp add: width_ok_def)
  then show ?thesis
    by (auto simp: sched_inv_unfold lens_def shape_def heap_ok_def mem_ok_def times_def dataflow_def
        completion_order_def mem_order_def serial_before_def serial_after_def window_ok_def slots_ok_def in_flight_def
        start_cycle_def sched_init_def Let_def)
qed

lemma sched_init_settled: "settled c (sched_init c)"
  by (auto simp: settled_def sched_init_def Let_def)

section \<open>Retirement\<close>

lemma retire_one_inv:
  assumes "sched_inv c b s" "settled c s" "retire_head s < count_of c" "completed s ! retire_head s"
  shows "sched_inv c b (s\<lparr>retired := (retired s)[retire_head s := True], retire_head := Suc (retire_head s)\<rparr>)"
    (is "sched_inv c b ?t")
proof -
  note inv = assms(1) [unfolded sched_inv_unfold]
  have "shape c ?t"
    using inv assms(3,4) by (auto simp: shape_def lens_def nth_list_update less_Suc_eq Suc_le_eq)
  moreover have "times c b ?t"
    using inv assms(2-4) by (auto simp: times_def settled_def less_Suc_eq)
  moreover have "window_ok c ?t"
    using inv by (auto simp: window_ok_def shape_def)
  moreover have "issued_at c ?t = issued_at c s" "in_flight c ?t = in_flight c s"
    "event_of c ?t = event_of c s"
    by (auto simp: issued_at_def in_flight_def event_of_def fun_eq_iff)
  ultimately show ?thesis
    using inv by (simp add: sched_inv_unfold lens_def heap_ok_def mem_ok_def dataflow_def mem_order_def
        completion_order_def serial_before_def serial_after_def width_ok_def slots_ok_def)
qed

lemma retire_one_settled:
  "settled c s \<Longrightarrow> settled c (s\<lparr>retired := xs, retire_head := k\<rparr>)"
  by (simp add: settled_def)

lemma retire_phase_inv:
  "sched_inv c b s \<Longrightarrow> settled c s \<Longrightarrow>
   sched_inv c b (retire_phase c n s) \<and> settled c (retire_phase c n s)"
proof (induction n arbitrary: s)
  case 0
  then show ?case by simp
next
  case (Suc n)
  show ?case
  proof (cases "retire_head s < count_of c \<and> completed s ! retire_head s")
    case True
    with retire_one_inv [OF Suc.prems] retire_one_settled [OF Suc.prems(2)] Suc.IH
    show ?thesis by (auto simp: Let_def)
  next
    case False
    with Suc.prems show ?thesis by auto
  qed
qed

section \<open>Completion\<close>

text \<open>
  The one effect the completion heap and the store buffer share: an instruction in flight becomes
  complete. \<open>h\<close> is the heap after its event, if it had one, was removed.
\<close>

definition completes :: "sched_cfg \<Rightarrow> nat \<Rightarrow> int \<Rightarrow> completion list \<Rightarrow> sched_state \<Rightarrow> sched_state" where
  "completes c i at h s = finish c i at (s\<lparr>completion_heap := h\<rparr>)"

lemma in_flight_completes:
  assumes "lens c s" "i < count_of c"
  shows "in_flight c (completes c i at h s) j \<longleftrightarrow> in_flight c s j \<and> j \<noteq> i"
  using assms by (auto simp: in_flight_def completes_def finish_def lens_def nth_list_update)

lemma in_flight_not_free: "shape c s \<Longrightarrow> in_flight c s i \<Longrightarrow> \<not> free c i \<and> \<not> i < retire_head s"
  unfolding in_flight_def shape_def by blast

lemma completes_mem_ok:
  assumes "lens c s" "mem_ok c s" "in_flight c s i"
  shows "mem_ok c (completes c i at h s)"
proof -
  let ?A = "{j. in_flight c s j \<and> is_mem (ins c j)}"
  have fin: "finite ?A" by (rule finite_subset [of _ "{..<count_of c}"]) (auto simp: in_flight_def)
  have A: "{j. in_flight c (completes c i at h s) j \<and> is_mem (ins c j)} = ?A - {i}"
    using in_flight_completes [OF assms(1)] assms(3) by (auto simp: in_flight_def)
  show ?thesis
  proof (cases "is_mem (ins c i)")
    case True
    then have "i \<in> ?A" using assms(3) by simp
    with fin have "card ?A = Suc (card (?A - {i}))" by (metis card.remove)
    with True assms(2) A show ?thesis by (simp add: mem_ok_def completes_def finish_def)
  next
    case False
    then have "?A - {i} = ?A" by auto
    with False assms(2) A show ?thesis by (simp add: mem_ok_def completes_def finish_def)
  qed
qed

lemma completes_frame [simp]:
  "issued (completes c i at h s) = issued s" "issue_cycle (completes c i at h s) = issue_cycle s"
  "now_cycle (completes c i at h s) = now_cycle s" "retire_head (completes c i at h s) = retire_head s"
  "next_admit (completes c i at h s) = next_admit s" "admitted (completes c i at h s) = admitted s"
  "retired (completes c i at h s) = retired s" "max_occupancy (completes c i at h s) = max_occupancy s"
  "issue_slots (completes c i at h s) = issue_slots s"
  "free_branches (completes c i at h s) = free_branches s"
  "free_jumps (completes c i at h s) = free_jumps s" "completion_heap (completes c i at h s) = h"
  "completed (completes c i at h s) = (completed s)[i := True]"
  "complete_cycle (completes c i at h s) = (complete_cycle s)[i := at]"
  "feed_clock (completes c i at h s) = feed_clock s"
  by (simp_all add: completes_def finish_def)

lemma completes_inv:
  assumes "sched_inv c b s" "in_flight c s i" "issue_cycle s ! i \<le> at" "at \<le> now_cycle s"
    and "\<not> is_store (ins c i) \<Longrightarrow> at = issue_cycle s ! i + latency (ins c i)"
    and store: "is_store (ins c i) \<Longrightarrow>
      issue_cycle s ! i < at \<and> (\<forall>j < i. completed s ! j \<and> complete_cycle s ! j < at)"
    and "sorted h" "distinct h"
    and "set h = event_of c s ` {j. in_flight c s j \<and> j \<noteq> i \<and> \<not> is_store (ins c j)}"
  shows "sched_inv c b (completes c i at h s)"
proof -
  note inv = assms(1) [unfolded sched_inv_unfold]
  have l: "lens c s" and sh: "shape c s" using inv by simp_all
  have i: "i < count_of c" "issued s ! i" "\<not> completed s ! i" "\<not> i < retire_head s" "\<not> free c i"
    using assms(2) in_flight_not_free [OF sh assms(2)] by (auto simp: in_flight_def)
  have len: "length (completed s) = count_of c" "length (complete_cycle s) = count_of c"
    using l by (simp_all add: lens_def)
  let ?t = "completes c i at h s"
  have comp: "(completed s)[i := True] ! j \<longleftrightarrow> completed s ! j \<or> j = i" for j
    using len(1) i(1) by (auto simp: nth_list_update)
  have ev: "event_of c ?t = event_of c s" by (simp add: event_of_def fun_eq_iff)
  have iss: "issued_at c ?t = issued_at c s" by (simp add: issued_at_def fun_eq_iff)
  have "lens c ?t" using l by (simp add: lens_def)
  moreover have "shape c ?t"
    using sh i(1,2) unfolding shape_def completes_frame comp by blast
  moreover have "heap_ok c ?t"
    using assms(7-9) in_flight_completes [OF l i(1), of at h] by (simp add: heap_ok_def ev conj_assoc)
  moreover have "mem_ok c ?t" using completes_mem_ok [OF l _ assms(2)] inv by simp
  moreover have "times c b ?t"
    using inv i len assms(3-5) by (auto simp: times_def nth_list_update)
  moreover have "dataflow c ?t"
  proof -
    have D: "dataflow c s" using inv by simp
    show ?thesis unfolding dataflow_def
    proof (intro allI impI ballI)
      fix j d assume j: "j < count_of c" "issued ?t ! j \<and> \<not> free c j" "d \<in> set (di_deps (ins c j))"
      with D have "completed s ! d \<and> complete_cycle s ! d \<le> issue_cycle s ! j"
        by (simp add: dataflow_def)
      with i(3) show "completed ?t ! d \<and> complete_cycle ?t ! d \<le> issue_cycle ?t ! j"
        by (cases "d = i") simp_all
    qed
  qed
  moreover have "completion_order c ?t"
  proof -
    have O: "completion_order c s" using inv by simp
    show ?thesis unfolding completion_order_def
    proof (intro allI impI)
      fix j assume j: "j < count_of c" "completed ?t ! j"
      show "(free c j \<longrightarrow> complete_cycle ?t ! j = issue_cycle ?t ! j) \<and>
          (is_store (ins c j) \<longrightarrow> issue_cycle ?t ! j < complete_cycle ?t ! j \<and>
             (\<forall>k < j. completed ?t ! k \<and> complete_cycle ?t ! k < complete_cycle ?t ! j))"
      proof (cases "j = i")
        case True
        with store i len show ?thesis by simp
      next
        case False
        with j comp have "completed s ! j" by simp
        with O j(1) i(3) False show ?thesis unfolding completion_order_def completes_frame
          by (metis nth_list_update_neq)
      qed
    qed
  qed
  moreover have "mem_order c ?t" using inv by (simp add: mem_order_def)
  moreover have "serial_before c ?t"
    using inv i(3) unfolding serial_before_def completes_frame by (metis nth_list_update_neq)
  moreover have "serial_after c ?t"
    using inv i(3) unfolding serial_after_def completes_frame by (metis nth_list_update_neq)
  moreover have "width_ok c ?t" using inv by (simp add: width_ok_def iss)
  moreover have "window_ok c ?t" using inv by (simp add: window_ok_def)
  moreover have "slots_ok c ?t" using inv by (simp add: slots_ok_def)
  moreover have "mem_active ?t \<le> 3" using inv by (simp add: completes_def finish_def)
  ultimately show ?thesis by (simp add: sched_inv_unfold)
qed

lemma complete_phase_inv: "sched_inv c b s \<Longrightarrow> sched_inv c b (complete_phase c s)"
proof (induction c s rule: complete_phase.induct)
  case (1 c s)
  note inv = 1(2) [unfolded sched_inv_unfold]
  show ?case
  proof (cases "pop_due heappeek heappop (now_cycle s) (completion_heap s)")
    case None
    with 1(2) show ?thesis by (subst complete_phase.simps) simp
  next
    case (Some er)
    obtain e rest where er: "er = (e, rest)" by (cases er)
    have hp: "sorted (completion_heap s)" "distinct (completion_heap s)"
      "set (completion_heap s) = event_of c s ` {j. in_flight c s j \<and> \<not> is_store (ins c j)}"
      using inv by (simp_all add: heap_ok_def)
    from heap.pop_due_Some [OF hp(1) Some [unfolded er]]
    have pop: "sorted rest" "mset (completion_heap s) = add_mset e (mset rest)" "due e \<le> now_cycle s"
      by simp_all
    have dist: "distinct (e # rest)" using hp(2) pop(2) by (metis mset.simps(2) mset_eq_imp_distinct_iff)
    have sets: "set (completion_heap s) = insert e (set rest)" using pop(2)
      by (metis set_mset_add_mset_insert set_mset_mset)
    with hp(3) obtain i where i: "e = event_of c s i" "in_flight c s i" "\<not> is_store (ins c i)"
      by blast
    have inj: "event_of c s j = event_of c s k \<Longrightarrow> j = k" for j k by (simp add: event_of_def)
    have rest: "set rest = event_of c s ` {j. in_flight c s j \<and> j \<noteq> i \<and> \<not> is_store (ins c j)}"
      using hp(3) sets dist i inj by auto
    have step: "complete_event c e (s\<lparr>completion_heap := rest\<rparr>) = completes c i (due e) rest s"
      using i by (simp add: complete_event_def completes_def event_of_def in_flight_def)
    have le: "issue_cycle s ! i \<le> due e"
      using i latency_pos(2) [of "ins c i"] by (simp add: event_of_def del: latency_pos)
    have "sched_inv c b (completes c i (due e) rest s)"
      by (rule completes_inv [OF 1(2) i(2) le pop(3) _ _ pop(1)]) (use dist rest i in \<open>simp_all add: event_of_def\<close>)
    then show ?thesis using 1(1) [OF Some er [symmetric]] Some er step
      by (subst complete_phase.simps) simp
  qed
qed

lemma complete_phase_frame [simp]:
  "issued (complete_phase c s) = issued s" "retire_head (complete_phase c s) = retire_head s"
  "next_admit (complete_phase c s) = next_admit s" "feed_clock (complete_phase c s) = feed_clock s"
  "issue_cycle (complete_phase c s) = issue_cycle s"
  by (induction c s rule: complete_phase.induct;
      subst complete_phase.simps; simp add: complete_event_def finish_def split: option.splits)+

section \<open>The store buffer, admission and the occupancy counters\<close>

lemma store_phase_inv:
  assumes "sched_inv c b s" "b \<le> now_cycle s"
  shows "sched_inv c b (store_phase c s)"
proof (cases "retire_head s < count_of c \<and> issued s ! retire_head s \<and>
    is_store (ins c (retire_head s)) \<and> \<not> completed s ! retire_head s")
  case True
  let ?h = "retire_head s"
  note inv = assms(1) [unfolded sched_inv_unfold]
  have fl: "in_flight c s ?h" using True by (simp add: in_flight_def)
  have eq: "store_phase c s = completes c ?h (now_cycle s) (completion_heap s) s"
    using True store_is_mem by (simp add: store_phase_def completes_def finish_def Let_def)
  have times: "issue_cycle s ! ?h \<le> now_cycle s" using inv True by (simp add: times_def)
  have store: "issue_cycle s ! ?h < now_cycle s" using inv True assms(2) store_not_free [of c ?h] by (auto simp: times_def)
  have older: "completed s ! j \<and> complete_cycle s ! j < now_cycle s" if "j < ?h" for j
  proof -
    have "j < count_of c" using that True by simp
    with that inv show ?thesis unfolding times_def shape_def by blast
  qed
  have "{j. in_flight c s j \<and> \<not> is_store (ins c j)} =
      {j. in_flight c s j \<and> j \<noteq> ?h \<and> \<not> is_store (ins c j)}"
    using True by auto
  with inv True times store older show ?thesis unfolding eq
    by (intro completes_inv [OF assms(1) fl]) (simp_all add: heap_ok_def)
next
  case False
  with assms(1) show ?thesis by (auto simp: store_phase_def Let_def)
qed

lemma admit_one_in_flight:
  assumes "lens c s" "shape c s" "next_admit s < count_of c"
  shows "in_flight c (admit_one c s) = in_flight c s"
proof
  fix j
  have "\<not> issued s ! next_admit s" using assms(2,3) by (auto simp: shape_def)
  with assms show "in_flight c (admit_one c s) j = in_flight c s j"
    by (cases "j = next_admit s") (auto simp: in_flight_def admit_one_def Let_def lens_def)
qed

lemma admit_one_slots:
  assumes "lens c s" "shape c s" "slots_ok c s" "next_admit s < count_of c"
  shows "slots_ok c (admit_one c s)"
proof -
  let ?k = "next_admit s" and ?t = "admit_one c s"
  have "\<not> issued s ! ?k" using assms(2,4) by (auto simp: shape_def)
  then have "{i. i < count_of c \<and> issued ?t ! i \<and> \<not> free c i} =
      {i. i < count_of c \<and> issued s ! i \<and> \<not> free c i}"
    using assms(1,4) by (auto simp: admit_one_def Let_def lens_def nth_list_update)
  moreover have "{i. i < Suc ?k \<and> P i} = (if P ?k then insert ?k {i. i < ?k \<and> P i} else {i. i < ?k \<and> P i})" for P
    by (auto simp: less_Suc_eq)
  ultimately show ?thesis
    using assms(3) by (simp add: slots_ok_def admit_one_def Let_def)
qed

lemma admit_one_fields:
  assumes "lens c s" "next_admit s < count_of c"
  shows "issued (admit_one c s) ! j \<longleftrightarrow> issued s ! j \<or> (j = next_admit s \<and> free c j)"
    "completed (admit_one c s) ! j \<longleftrightarrow> completed s ! j \<or> (j = next_admit s \<and> free c j)"
    "admitted (admit_one c s) ! j \<longleftrightarrow> admitted s ! j \<or> j = next_admit s"
    "issue_cycle (admit_one c s) ! j =
       (if j = next_admit s \<and> free c j then now_cycle s else issue_cycle s ! j)"
    "complete_cycle (admit_one c s) ! j =
       (if j = next_admit s \<and> free c j then now_cycle s else complete_cycle s ! j)"
    "retired (admit_one c s) = retired s" "retire_head (admit_one c s) = retire_head s"
    "next_admit (admit_one c s) = Suc (next_admit s)" "now_cycle (admit_one c s) = now_cycle s"
    "completion_heap (admit_one c s) = completion_heap s" "mem_active (admit_one c s) = mem_active s"
    "max_occupancy (admit_one c s) = max_occupancy s" "feed_clock (admit_one c s) = feed_clock s"
  using assms by (auto simp: admit_one_def Let_def lens_def nth_list_update)

lemma admit_one_issued_at:
  assumes "lens c s" "shape c s" "next_admit s < count_of c"
  shows "issued_at c (admit_one c s) t = issued_at c s t"
  unfolding issued_at_def
  by (rule filter_cong) (use assms in \<open>auto simp: admit_one_fields\<close>)

lemma admit_one_inv:
  assumes "sched_inv c b s" "next_admit s < count_of c" "int (occupancy s) < capacity c"
  shows "sched_inv c b (admit_one c s)"
proof -
  note inv = assms(1) [unfolded sched_inv_unfold]
  have l: "lens c s" and sh: "shape c s" using inv by simp_all
  note f = admit_one_fields [OF l assms(2)]
  have fl: "in_flight c (admit_one c s) = in_flight c s"
    by (rule admit_one_in_flight [OF l sh assms(2)])
  have fresh: "\<not> issued s ! next_admit s" "\<not> completed s ! next_admit s"
    using sh assms(2) by (auto simp: shape_def)
  have keep: "issued (admit_one c s) ! j \<and> \<not> free c j \<longleftrightarrow> issued s ! j \<and> \<not> free c j"
    "issued (admit_one c s) ! j \<and> \<not> free c j \<and> Q \<longleftrightarrow> issued s ! j \<and> \<not> free c j \<and> Q"
    "issued (admit_one c s) ! j \<and> Q \<and> \<not> free c j \<longleftrightarrow> issued s ! j \<and> Q \<and> \<not> free c j" for j Q
    by (auto simp: f(1))
  have same: "completed s ! j \<Longrightarrow> completed (admit_one c s) ! j"
    "completed s ! j \<Longrightarrow> complete_cycle (admit_one c s) ! j = complete_cycle s ! j"
    "issued s ! j \<Longrightarrow> issue_cycle (admit_one c s) ! j = issue_cycle s ! j" for j
    using fresh by (auto simp: f)
  have ev: "event_of c (admit_one c s) j = event_of c s j" if "in_flight c s j" for j
    using that fresh by (auto simp: event_of_def f in_flight_def)
  have "lens c (admit_one c s)" using l by (simp add: lens_def admit_one_def Let_def)
  moreover have "shape c (admit_one c s)"
    using sh assms(2) unfolding shape_def f by (auto simp: less_Suc_eq)
  moreover have "heap_ok c (admit_one c s)"
    using inv ev unfolding heap_ok_def f fl by (metis (mono_tags, lifting) image_cong mem_Collect_eq)
  moreover have "mem_ok c (admit_one c s)" using inv unfolding mem_ok_def f fl by simp
  moreover have "times c b (admit_one c s)"
  proof -
    have T: "times c b s" using inv by simp
    then have "start_cycle c \<le> now_cycle s" by (simp add: times_def)
    moreover have "i < retire_head s \<Longrightarrow> i \<noteq> next_admit s" for i
      using sh by (auto simp: shape_def)
    ultimately show ?thesis using T store_not_free unfolding times_def f by auto
  qed
  moreover have "completion_order c (admit_one c s)"
    using inv fresh store_not_free unfolding completion_order_def f by auto
  moreover have "dataflow c (admit_one c s)"
    using inv unfolding dataflow_def keep by (auto simp: same)
  moreover have "mem_order c (admit_one c s)"
    using inv unfolding mem_order_def keep by (auto simp: same f(1))
  moreover have "serial_before c (admit_one c s)"
    using inv unfolding serial_before_def keep by (auto simp: same)
  moreover have "serial_after c (admit_one c s)"
    using inv unfolding serial_after_def keep by (auto simp: same)
  moreover have "width_ok c (admit_one c s)"
    using inv by (simp add: width_ok_def admit_one_issued_at [OF l sh assms(2)])
  moreover have "window_ok c (admit_one c s)"
    using inv assms(3) sh by (auto simp: window_ok_def f shape_def)
  moreover have "slots_ok c (admit_one c s)"
    by (rule admit_one_slots [OF l sh _ assms(2)]) (use inv in simp)
  moreover have "mem_active (admit_one c s) \<le> 3" using inv by (simp add: f)
  ultimately show ?thesis by (simp add: sched_inv_unfold)
qed

lemma admit_phase_inv: "sched_inv c b s \<Longrightarrow> sched_inv c b (admit_phase c n s)"
proof (induction n arbitrary: s)
  case 0
  then show ?case by simp
next
  case (Suc n)
  show ?case
  proof (cases "next_admit s < count_of c \<and> int (occupancy s) < capacity c \<and>
      releases c ! next_admit s \<le> feed_clock s")
    case True
    with Suc admit_one_inv show ?thesis by simp
  next
    case False
    then have "admit_phase c (Suc n) s = s" by auto
    with Suc.prems show ?thesis by simp
  qed
qed

lemma occupancy_phase_inv:
  assumes "sched_inv c b s"
  shows "sched_inv c b (occupancy_phase c s)"
proof -
  let ?t = "occupancy_phase c s"
  have fr: "issued ?t = issued s" "completed ?t = completed s" "issue_cycle ?t = issue_cycle s"
    "complete_cycle ?t = complete_cycle s" "now_cycle ?t = now_cycle s" "retired ?t = retired s"
    "admitted ?t = admitted s" "next_admit ?t = next_admit s" "retire_head ?t = retire_head s"
    "completion_heap ?t = completion_heap s" "mem_active ?t = mem_active s"
    "issue_slots ?t = issue_slots s" "free_branches ?t = free_branches s"
    "free_jumps ?t = free_jumps s" "max_occupancy ?t = max (max_occupancy s) (occupancy s)"
    by (simp_all add: occupancy_phase_def)
  have same: "in_flight c ?t = in_flight c s" "event_of c ?t = event_of c s" "issued_at c ?t = issued_at c s"
    by (simp_all add: in_flight_def event_of_def issued_at_def fr fun_eq_iff)
  have "window_ok c s" using assms by (simp add: sched_inv_unfold)
  then have "window_ok c ?t" by (auto simp: window_ok_def fr)
  with assms show ?thesis
    unfolding sched_inv_unfold lens_def shape_def heap_ok_def mem_ok_def times_def dataflow_def completion_order_def
      mem_order_def serial_before_def serial_after_def width_ok_def slots_ok_def same fr
    by (elim conjE, intro conjI) assumption+
qed

end
