(* ===== verification/IssueLoop.thy ===== *)
theory IssueLoop
  imports IssueInvariants
begin

text \<open>
  The invariants through the issue phase, the whole cycle and the loop. The issue phase is a batch:
  every member of the group is \<open>issuable\<close> in the state the group was chosen in, and issuing one
  member keeps the others issuable.
\<close>

section \<open>Issuing one instruction of the group\<close>

definition issuable :: "sched_cfg \<Rightarrow> sched_state \<Rightarrow> nat \<Rightarrow> bool" where
  "issuable c s i \<longleftrightarrow>
     i < next_admit s \<and> \<not> issued s ! i \<and> \<not> free c i \<and>
     (\<forall>d \<in> set (di_deps (ins c i)). completed s ! d \<and> complete_cycle s ! d \<le> now_cycle s) \<and>
     (\<forall>m. di_previous_mem (ins c i) = Some m \<longrightarrow> issued s ! m \<and> issue_cycle s ! m < now_cycle s) \<and>
     (is_persistent_hard (ins c i) \<longrightarrow>
        (\<forall>j < i. completed s ! j \<and> complete_cycle s ! j < now_cycle s)) \<and>
     (\<forall>k < i. is_persistent_hard (ins c k) \<longrightarrow>
        completed s ! k \<and> complete_cycle s ! k < now_cycle s)"

lemma issue_one_frame [simp]:
  "completed (issue_one c s i) = completed s" "complete_cycle (issue_one c s i) = complete_cycle s"
  "now_cycle (issue_one c s i) = now_cycle s" "retire_head (issue_one c s i) = retire_head s"
  "next_admit (issue_one c s i) = next_admit s" "admitted (issue_one c s i) = admitted s"
  "retired (issue_one c s i) = retired s" "max_occupancy (issue_one c s i) = max_occupancy s"
  "issue_slots (issue_one c s i) = issue_slots s" "feed_clock (issue_one c s i) = feed_clock s"
  "free_branches (issue_one c s i) = free_branches s" "free_jumps (issue_one c s i) = free_jumps s"
  "issued (issue_one c s i) = (issued s)[i := True]"
  "issue_cycle (issue_one c s i) = (issue_cycle s)[i := now_cycle s]"
  by (simp_all add: issue_one_def)

lemma issued_update: "i < length xs \<Longrightarrow> xs[i := True] ! j \<longleftrightarrow> xs ! j \<or> j = i"
  by (auto simp: nth_list_update)

lemma issuable_other:
  assumes "issuable c s j" "j \<noteq> i" "i < length (issued s)" "\<not> issued s ! i"
  shows "issuable c (issue_one c s i) j"
  using assms unfolding issuable_def issue_one_frame issued_update [OF assms(3)]
  by (metis nth_list_update_neq)

lemma issuable_bounds:
  assumes "lens c s" "shape c s" "issuable c s i"
  shows "i < count_of c" "i < length (issued s)" "i < length (issue_cycle s)" "i < next_admit s"
    "\<not> issued s ! i" "\<not> completed s ! i" "\<not> free c i" "\<not> in_flight c s i"
proof -
  show "i < next_admit s" "\<not> issued s ! i" "\<not> free c i" using assms(3) by (simp_all add: issuable_def)
  moreover from this assms(2) show "i < count_of c" by (simp add: shape_def)
  ultimately show "\<not> completed s ! i" using assms(2) unfolding shape_def by blast
  show "i < length (issued s)" "i < length (issue_cycle s)"
    using \<open>i < count_of c\<close> assms(1) by (simp_all add: lens_def)
  show "\<not> in_flight c s i" using \<open>\<not> issued s ! i\<close> by (simp add: in_flight_def)
qed

lemma issue_one_in_flight:
  assumes "lens c s" "shape c s" "issuable c s i"
  shows "in_flight c (issue_one c s i) j \<longleftrightarrow> in_flight c s j \<or> j = i"
proof -
  have i: "i < count_of c" "\<not> completed s ! i" "i < length (issued s)"
    using issuable_bounds [OF assms] by simp_all
  show ?thesis
    unfolding in_flight_def issue_one_frame issued_update [OF i(3)] using i(1,2) by blast
qed

lemma issue_one_mem_ok:
  assumes "lens c s" "shape c s" "mem_ok c s" "issuable c s i"
  shows "mem_ok c (issue_one c s i)"
proof -
  let ?A = "{j. in_flight c s j \<and> is_mem (ins c j)}"
  have fin: "finite ?A" by (rule finite_subset [of _ "{..<count_of c}"]) (auto simp: in_flight_def)
  have i: "i \<notin> ?A" using issuable_bounds [OF assms(1,2,4)] by simp
  have m: "mem_active (issue_one c s i) = (if is_mem (ins c i) then mem_active s + 1 else mem_active s)"
    by (simp add: issue_one_def)
  have "{j. in_flight c (issue_one c s i) j \<and> is_mem (ins c j)} =
      (if is_mem (ins c i) then insert i ?A else ?A)"
    using issue_one_in_flight [OF assms(1,2,4)] by auto
  then show ?thesis
    using assms(3) card_insert_disjoint [OF fin i] by (simp add: mem_ok_def m)
qed

lemma issue_one_heap_ok:
  assumes "lens c s" "shape c s" "heap_ok c s" "issuable c s i"
  shows "heap_ok c (issue_one c s i)"
proof -
  let ?t = "issue_one c s i"
  let ?F = "\<lambda>s. {j. in_flight c s j \<and> \<not> is_store (ins c j)}"
  have i: "i < length (issue_cycle s)" "\<not> in_flight c s i"
    using issuable_bounds [OF assms(1,2,4)] by simp_all
  have F: "?F ?t = (if is_store (ins c i) then ?F s else insert i (?F s))"
    using issue_one_in_flight [OF assms(1,2,4)] by auto
  have old: "event_of c ?t j = event_of c s j" if "j \<in> ?F s" for j
    using that i(2) by (cases "j = i") (auto simp: event_of_def)
  have new: "event_of c ?t i = Completion (now_cycle s + latency (ins c i)) i"
    using i(1) by (simp add: event_of_def)
  have img: "event_of c ?t ` ?F s = event_of c s ` ?F s" by (rule image_cong) (simp_all add: old)
  have fresh: "Completion (now_cycle s + latency (ins c i)) i \<notin> event_of c s ` ?F s"
    using i(2) by (auto simp: event_of_def)
  have H: "sorted (completion_heap s)" "distinct (completion_heap s)"
    "set (completion_heap s) = event_of c s ` ?F s"
    using assms(3) by (simp_all add: heap_ok_def)
  have hp: "completion_heap ?t = (if is_store (ins c i) then completion_heap s
      else heappush (Completion (now_cycle s + latency (ins c i)) i) (completion_heap s))"
    by (simp add: issue_one_def)
  show ?thesis
  proof (cases "is_store (ins c i)")
    case True
    with H hp F img show ?thesis by (simp add: heap_ok_def)
  next
    case False
    with H hp F img fresh new show ?thesis by (simp add: heap_ok_def heap.invar_push)
  qed
qed

lemma issue_one_core:
  assumes "sched_core c (now_cycle s + 1) s" "issuable c s i"
  shows "sched_core c (now_cycle s + 1) (issue_one c s i)"
proof -
  let ?t = "issue_one c s i" and ?b = "now_cycle s + 1"
  note inv = assms(1) [unfolded sched_core_def]
  have l: "lens c s" and sh: "shape c s" and tm: "times c ?b s" and df: "dataflow c s"
    and mo: "mem_order c s" and sb: "serial_before c s" and sa: "serial_after c s"
    using inv by simp_all
  note iss = assms(2) [unfolded issuable_def]
  have i: "i < count_of c" "i < length (issued s)" "i < length (issue_cycle s)"
    "i < next_admit s" "\<not> issued s ! i" "\<not> completed s ! i" "\<not> free c i"
    using issuable_bounds [OF l sh assms(2)] by simp_all
  note upd = issued_update [OF i(2)]
  have cyc: "issue_cycle ?t ! j = (if j = i then now_cycle s else issue_cycle s ! j)" for j
    using i(3) by simp
  note t = issue_one_frame(1-11,13) upd cyc
  have "lens c ?t" using l by (simp add: lens_def)
  moreover have "shape c ?t"
    using sh i(4) unfolding shape_def t by (elim conjE, intro conjI) (assumption | blast)+
  moreover have "heap_ok c ?t" by (rule issue_one_heap_ok [OF l sh _ assms(2)]) (use inv in simp)
  moreover have "mem_ok c ?t" by (rule issue_one_mem_ok [OF l sh _ assms(2)]) (use inv in simp)
  moreover have "times c ?b ?t" using tm i(5,6) unfolding times_def t by auto
  moreover have "completion_order c ?t" using inv i(6) unfolding completion_order_def t by auto
  moreover have "dataflow c ?t" using df iss unfolding dataflow_def t by auto
  moreover have "mem_order c ?t" using mo iss unfolding mem_order_def t by auto
  moreover have "serial_before c ?t" using sb iss unfolding serial_before_def t by auto
  moreover have "serial_after c ?t" using sa iss unfolding serial_after_def t by auto
  moreover have "window_ok c ?t" using inv by (simp add: window_ok_def)
  ultimately show ?thesis by (simp add: sched_core_def)
qed

lemma issue_all_core:
  assumes "sched_core c (now_cycle s + 1) s" "distinct G" "\<forall>i \<in> set G. issuable c s i"
  shows "sched_core c (now_cycle s + 1) (foldl (issue_one c) s G)"
  using assms
proof (induction G arbitrary: s)
  case Nil
  then show ?case by simp
next
  case (Cons i G)
  have i: "issuable c s i" "\<not> issued s ! i" using Cons.prems by (auto simp: issuable_def)
  have len: "i < length (issued s)" using Cons.prems(1) i
    by (auto simp: sched_core_def lens_def shape_def issuable_def)
  have "\<forall>j \<in> set G. issuable c (issue_one c s i) j"
    using Cons.prems issuable_other [OF _ _ len i(2)] by auto
  with Cons.IH [of "issue_one c s i"] issue_one_core [OF Cons.prems(1) i(1)] Cons.prems(2)
  show ?case by simp
qed

section \<open>The chosen group is issuable\<close>

lemma find_upt_Some_least:
  assumes "P k" "a \<le> k" "k < b"
  shows "\<exists>i. find P [a..<b] = Some i \<and> i \<le> k"
proof -
  from assms obtain i where i: "find P [a..<b] = Some i"
    by (metis atLeastLessThan_iff find_None_iff not_Some_eq set_upt)
  then obtain n where n: "n < b - a" "i = a + n" "\<forall>j < n. \<not> P (a + j)"
    by (auto simp: find_Some_iff)
  have "i \<le> k"
  proof (rule ccontr)
    assume "\<not> i \<le> k"
    with n(2) assms(2) have "k - a < n" "a + (k - a) = k" by auto
    with n(3) assms(1) show False by metis
  qed
  with i show ?thesis by blast
qed

lemma barrier_blocks:
  assumes "shape c s" "i \<in> set (waiting c s)" "k < i" "is_persistent_hard (ins c k)"
  shows "k < retire_head s"
proof (rule ccontr)
  assume "\<not> k < retire_head s"
  then have k: "retire_head s \<le> k" by simp
  have i: "i < next_admit s" "int i \<le> barrier_cutoff c s"
    using assms(2) by (auto simp: waiting_def set_unissued)
  have "k < count_of c" using assms(1,3) i(1) by (simp add: shape_def)
  then have "\<not> retired s ! k" using assms(1) k by (simp add: shape_def)
  then obtain k' where "find (\<lambda>i. is_persistent_hard (ins c i) \<and> \<not> retired s ! i)
      [retire_head s..<next_admit s] = Some k'" "k' \<le> k"
    using find_upt_Some_least [of "\<lambda>i. is_persistent_hard (ins c i) \<and> \<not> retired s ! i" k
        "retire_head s" "next_admit s"] assms(3,4) k i(1) by auto
  with i(2) assms(3) show False by (simp add: barrier_cutoff_def)
qed

lemma waiting_ready_issuable:
  assumes inv: "sched_core c (now_cycle s) s" and wf: "wf_stream (instructions c)"
    and w: "i \<in> set (waiting c s)" and r: "ready c s i"
  shows "issuable c s i"
proof -
  have sh: "shape c s" and tm: "times c (now_cycle s) s" using inv by (simp_all add: sched_core_def)
  have i: "i < next_admit s" "\<not> issued s ! i" using w by (simp_all add: waiting_def set_unissued)
  then have n: "i < count_of c" using sh by (simp add: shape_def)
  have below: "completed s ! j \<and> complete_cycle s ! j < now_cycle s" if "j < retire_head s" for j
  proof -
    have "j < count_of c" using that sh by (simp add: shape_def)
    with that sh tm show ?thesis unfolding shape_def times_def by blast
  qed
  have "\<not> free c i" using i n sh unfolding shape_def by blast
  moreover have "completed s ! d \<and> complete_cycle s ! d \<le> now_cycle s"
    if "d \<in> set (di_deps (ins c i))" for d
  proof -
    have "d < count_of c" using that wf n unfolding wf_stream_def by force
    moreover have "completed s ! d" using that r by (simp add: ready_def)
    ultimately show ?thesis using tm unfolding times_def by blast
  qed
  moreover have "issued s ! m \<and> issue_cycle s ! m < now_cycle s"
    if "di_previous_mem (ins c i) = Some m" for m
  proof -
    have m: "m < i" "is_mem (ins c m)" using that wf n unfolding wf_stream_def by blast+
    moreover have "issued s ! m" using that r by (simp add: ready_def)
    moreover have "m < count_of c" "\<not> free c m" using m n mem_not_free [of c m] by auto
    ultimately show ?thesis using tm unfolding times_def by blast
  qed
  moreover have "completed s ! j \<and> complete_cycle s ! j < now_cycle s"
    if "is_persistent_hard (ins c i)" "j < i" for j
    using that below r by (simp add: ready_def)
  moreover have "completed s ! k \<and> complete_cycle s ! k < now_cycle s"
    if "k < i" "is_persistent_hard (ins c k)" for k
    by (rule below [OF barrier_blocks [OF sh w that]])
  ultimately show ?thesis using i by (simp add: issuable_def)
qed

section \<open>Pipes, slots and memory operations of the issued group\<close>

lemma issue_all_frame [simp]:
  "completed (foldl (issue_one c) s G) = completed s"
  "complete_cycle (foldl (issue_one c) s G) = complete_cycle s"
  "retire_head (foldl (issue_one c) s G) = retire_head s"
  "next_admit (foldl (issue_one c) s G) = next_admit s"
  "issue_slots (foldl (issue_one c) s G) = issue_slots s"
  "feed_clock (foldl (issue_one c) s G) = feed_clock s"
  "free_branches (foldl (issue_one c) s G) = free_branches s"
  "free_jumps (foldl (issue_one c) s G) = free_jumps s"
  "length (issued (foldl (issue_one c) s G)) = length (issued s)"
  by (induction G arbitrary: s) simp_all

lemma issue_all_issued:
  assumes "\<forall>i \<in> set G. i < length (issued s)"
  shows "issued (foldl (issue_one c) s G) ! j \<longleftrightarrow> issued s ! j \<or> j \<in> set G"
  using assms by (induction G arbitrary: s) (auto simp: issued_update)

lemma issue_all_cycle:
  assumes "\<forall>i \<in> set G. i < length (issue_cycle s)"
  shows "issue_cycle (foldl (issue_one c) s G) ! j =
    (if j \<in> set G then now_cycle s else issue_cycle s ! j)"
  using assms by (induction G arbitrary: s) (auto simp: nth_list_update)

lemma issue_all_mem:
  "mem_active (foldl (issue_one c) s G) = mem_active s + int (length (filter (\<lambda>i. is_mem (ins c i)) G))"
  by (induction G arbitrary: s) (auto simp: issue_one_def)

lemma matching_one_mem:
  assumes "matching (pipe_table c) {} G a"
  shows "length (filter (\<lambda>i. is_mem (ins c i)) G) \<le> 1"
proof -
  have m: "map fst a = G" "\<forall>(i, p) \<in> set a. p \<in> set (pipe_table c i)" "distinct (map snd a)"
    using assms by (auto simp: matching_def)
  let ?f = "filter (\<lambda>x. is_mem (ins c (fst x))) a"
  have "length (filter (\<lambda>i. is_mem (ins c i)) G) = length ?f"
    by (simp add: m(1) [symmetric] filter_map o_def)
  moreover have "distinct (map snd ?f)" using m(3) by (rule distinct_map_filter)
  then have "length ?f = card (set (map snd ?f))" by (metis distinct_card length_map)
  moreover have "card (set (map snd ?f)) \<le> card {2::nat}"
    by (rule card_mono) (use m(2) in \<open>auto simp: pipe_table_def pipe_options_def\<close>)
  ultimately show ?thesis by simp
qed

lemma filter_upt_sorted_set:
  assumes "sorted_wrt (<) G" "set G = {i. i < n \<and> P i}"
  shows "filter P [0..<n] = (G :: nat list)"
proof (rule sorted_distinct_set_unique)
  show "sorted (filter P [0..<n])" "distinct (filter P [0..<n])"
    by (simp_all add: sorted_wrt_filter)
  show "sorted G" "distinct G" using assms(1) by (simp_all add: strict_sorted_iff)
  show "set (filter P [0..<n]) = set G" using assms(2) by auto
qed

section \<open>The issue phase\<close>

lemma issue_one_counters:
  "issue_one c (s\<lparr>issue_slots := x\<rparr>) i = (issue_one c s i)\<lparr>issue_slots := x\<rparr>"
  "issue_one c (s\<lparr>skipped_oldest_cycles := x\<rparr>) i = (issue_one c s i)\<lparr>skipped_oldest_cycles := x\<rparr>"
  "issue_one c (s\<lparr>max_skip_distance := x\<rparr>) i = (issue_one c s i)\<lparr>max_skip_distance := x\<rparr>"
  by (simp_all add: issue_one_def)

lemma issue_all_counters [simp]:
  "foldl (issue_one c) (s\<lparr>issue_slots := x\<rparr>) G = (foldl (issue_one c) s G)\<lparr>issue_slots := x\<rparr>"
  "foldl (issue_one c) (s\<lparr>skipped_oldest_cycles := x\<rparr>) G =
     (foldl (issue_one c) s G)\<lparr>skipped_oldest_cycles := x\<rparr>"
  "foldl (issue_one c) (s\<lparr>max_skip_distance := x\<rparr>) G =
     (foldl (issue_one c) s G)\<lparr>max_skip_distance := x\<rparr>"
  by (induction G arbitrary: s) (simp_all add: issue_one_counters)

lemma counters_frame [simp]:
  "in_flight c (s\<lparr>issue_slots := x\<rparr>) = in_flight c s"
  "in_flight c (s\<lparr>skipped_oldest_cycles := x\<rparr>) = in_flight c s"
  "in_flight c (s\<lparr>max_skip_distance := x\<rparr>) = in_flight c s"
  "in_flight c (s\<lparr>no_issue_cycles := x\<rparr>) = in_flight c s"
  "event_of c (s\<lparr>issue_slots := x\<rparr>) = event_of c s"
  "event_of c (s\<lparr>skipped_oldest_cycles := x\<rparr>) = event_of c s"
  "event_of c (s\<lparr>max_skip_distance := x\<rparr>) = event_of c s"
  "event_of c (s\<lparr>no_issue_cycles := x\<rparr>) = event_of c s"
  "issued_at c (s\<lparr>issue_slots := x\<rparr>) = issued_at c s"
  "issued_at c (s\<lparr>skipped_oldest_cycles := x\<rparr>) = issued_at c s"
  "issued_at c (s\<lparr>max_skip_distance := x\<rparr>) = issued_at c s"
  "issued_at c (s\<lparr>no_issue_cycles := x\<rparr>) = issued_at c s"
  by (simp_all add: fun_eq_iff in_flight_def event_of_def issued_at_def)

lemma sched_core_cong:
  assumes "admitted t = admitted s" "issued t = issued s" "completed t = completed s"
    "retired t = retired s" "issue_cycle t = issue_cycle s" "complete_cycle t = complete_cycle s"
    "completion_heap t = completion_heap s" "next_admit t = next_admit s"
    "retire_head t = retire_head s" "now_cycle t = now_cycle s" "mem_active t = mem_active s"
    "max_occupancy t = max_occupancy s"
  shows "sched_core c b t = sched_core c b s"
proof -
  have same: "in_flight c t = in_flight c s" "event_of c t = event_of c s"
    by (simp_all add: in_flight_def event_of_def assms fun_eq_iff)
  show ?thesis unfolding sched_core_def inv_defs assms same by (rule refl)
qed

lemma counters_core [simp]:
  "sched_core c b (s\<lparr>issue_slots := x\<rparr>) = sched_core c b s"
  "sched_core c b (s\<lparr>skipped_oldest_cycles := x\<rparr>) = sched_core c b s"
  "sched_core c b (s\<lparr>max_skip_distance := x\<rparr>) = sched_core c b s"
  "sched_core c b (s\<lparr>no_issue_cycles := x\<rparr>) = sched_core c b s"
  by (rule sched_core_cong; simp)+

lemma core_weaken: "sched_core c b s \<Longrightarrow> b \<le> b' \<Longrightarrow> sched_core c b' s"
  unfolding sched_core_def times_def by force

lemma issue_all_width:
  assumes core: "sched_core c (now_cycle s) s" and w: "width_ok c s"
    and G: "sorted_wrt (<) G" "\<forall>i \<in> set G. issuable c s i" "matching (pipe_table c) {} G a"
  shows "width_ok c (foldl (issue_one c) s G)"
  unfolding width_ok_def
proof
  fix t
  let ?t = "foldl (issue_one c) s G"
  have l: "lens c s" and sh: "shape c s" and tm: "times c (now_cycle s) s"
    using core by (simp_all add: sched_core_def)
  have b: "\<forall>i \<in> set G. i < count_of c \<and> i < length (issued s) \<and> i < length (issue_cycle s) \<and>
      \<not> issued s ! i \<and> \<not> free c i"
    using G(2) issuable_bounds [OF l sh] by blast
  then have f: "issued ?t ! j \<longleftrightarrow> issued s ! j \<or> j \<in> set G"
    "issue_cycle ?t ! j = (if j \<in> set G then now_cycle s else issue_cycle s ! j)" for j
    using issue_all_issued [of G s c j] issue_all_cycle [of G s c j] by blast+
  show "\<exists>a. matching (pipe_table c) {} (issued_at c ?t t) a"
  proof (cases "t = now_cycle s")
    case True
    have "issued_at c ?t t = G" unfolding issued_at_def f
    proof (rule filter_upt_sorted_set [OF G(1)])
      have "issue_cycle s ! i \<noteq> now_cycle s" if "i < count_of c" "issued s ! i" "\<not> free c i" for i
        using that tm unfolding times_def by force
      then show "set G = {i. i < count_of c \<and> (issued s ! i \<or> i \<in> set G) \<and> \<not> free c i \<and>
          (if i \<in> set G then now_cycle s else issue_cycle s ! i) = t}"
        using b True by auto
    qed
    with G(3) show ?thesis by auto
  next
    case False
    then have "issued_at c ?t t = issued_at c s t"
      unfolding issued_at_def f by (intro filter_cong) (use b in auto)
    with w show ?thesis by (simp add: width_ok_def)
  qed
qed

lemma issue_all_slots:
  assumes l: "lens c s" and sh: "shape c s" and "slots_ok c s" "distinct G" "\<forall>i \<in> set G. issuable c s i"
  shows "slots_ok c ((foldl (issue_one c) s G)\<lparr>issue_slots := issue_slots s + length G\<rparr>)"
proof -
  let ?A = "{i. i < count_of c \<and> issued s ! i \<and> \<not> free c i}"
  have b: "\<forall>i \<in> set G. i < count_of c \<and> i < length (issued s) \<and> \<not> issued s ! i \<and> \<not> free c i"
    using assms(5) issuable_bounds [OF l sh] by blast
  then have "issued (foldl (issue_one c) s G) ! j \<longleftrightarrow> issued s ! j \<or> j \<in> set G" for j
    using issue_all_issued [of G s c j] by blast
  then have "{i. i < count_of c \<and> issued (foldl (issue_one c) s G) ! i \<and> \<not> free c i} = ?A \<union> set G"
    using b by auto
  moreover have "card (?A \<union> set G) = card ?A + length G"
    using b distinct_card [OF assms(4)] by (subst card_Un_disjoint) auto
  ultimately show ?thesis using assms(3) by (simp add: slots_ok_def)
qed

lemma group_facts:
  assumes core: "sched_core c (now_cycle s) s" and wf: "wf_stream (instructions c)"
    and g: "choose_group c s = g" "g \<noteq> []"
  shows "sorted_wrt (<) (map fst g)" "\<forall>i \<in> set (map fst g). issuable c s i"
    "matching (pipe_table c) {} (map fst g) g"
    "\<forall>i \<in> set (map fst g). i \<in> set (unissued s) \<and> ready c s i"
proof -
  note spec = choose_group_spec [OF g]
  show "sorted_wrt (<) (map fst g)" using spec by simp
  have sub: "i \<in> set (waiting c s) \<and> ready c s i" if "i \<in> set (map fst g)" for i using spec that by blast
  then show "\<forall>i \<in> set (map fst g). issuable c s i" using waiting_ready_issuable [OF core wf] by blast
  show "\<forall>i \<in> set (map fst g). i \<in> set (unissued s) \<and> ready c s i" using sub by (auto simp: waiting_def)
  have "pipe_table c = (\<lambda>i. pipe_options (ins c i))" by (simp add: pipe_table_def fun_eq_iff)
  then show "matching (pipe_table c) {} (map fst g) g"
    using spec by (simp add: pipe_assignment_def assign_sound(1))
qed

text \<open>The group's oldest unissued instruction always exists, so \<open>next(...)\<close> never fails.\<close>

definition issue_group :: "sched_cfg \<Rightarrow> sched_state \<Rightarrow> nat list \<Rightarrow> sched_state" where
  "issue_group c s G = (foldl (issue_one c) s G)\<lparr>issue_slots := issue_slots s + length G\<rparr>"

lemma issue_phase_cases:
  assumes "sched_core c (now_cycle s) s" "wf_stream (instructions c)" "choose_group c s = g"
  shows "g = [] \<Longrightarrow>
      issue_phase c s = Inr (if occupancy s \<noteq> 0 then s\<lparr>no_issue_cycles := no_issue_cycles s + 1\<rparr> else s)"
    and "g \<noteq> [] \<Longrightarrow> \<exists>x y. issue_phase c s =
      Inr ((issue_group c s (map fst g))\<lparr>skipped_oldest_cycles := x, max_skip_distance := y\<rparr>)"
proof -
  show "issue_phase c s = Inr (if occupancy s \<noteq> 0 then s\<lparr>no_issue_cycles := no_issue_cycles s + 1\<rparr> else s)"
    if "g = []"
    using that assms(3) by (simp add: issue_phase_def)
  assume g: "g \<noteq> []"
  note f = group_facts [OF assms g]
  have "hd (map fst g) \<in> set (unissued s)" using f(4) g by (cases g) auto
  then have "find (\<lambda>i. admitted s ! i \<and> \<not> issued s ! i) [retire_head s..<next_admit s] \<noteq> None"
    by (auto simp: find_None_iff set_unissued)
  then obtain old where old: "find (\<lambda>i. admitted s ! i \<and> \<not> issued s ! i) [retire_head s..<next_admit s] = Some old"
    by blast
  have srt: "sort (map fst g) = map fst g"
    using f(1) by (simp add: sorted_sort_id strict_sorted_iff)
  have same: "t = t\<lparr>skipped_oldest_cycles := skipped_oldest_cycles t, max_skip_distance := max_skip_distance t\<rparr>"
    for t :: sched_state by simp
  show "\<exists>x y. issue_phase c s =
      Inr ((issue_group c s (map fst g))\<lparr>skipped_oldest_cycles := x, max_skip_distance := y\<rparr>)"
  proof (cases "old \<notin> fst ` set g")
    case True
    then show ?thesis
      using g assms(3) srt by (auto simp: issue_phase_def Let_def old issue_group_def)
  next
    case False
    then have "issue_phase c s = Inr (issue_group c s (map fst g))"
      using g assms(3) srt by (auto simp: issue_phase_def Let_def old issue_group_def)
    with same [of "issue_group c s (map fst g)"] show ?thesis by metis
  qed
qed

lemma issue_group_inv:
  assumes inv: "sched_inv c (now_cycle s) s" and wf: "wf_stream (instructions c)"
    and g: "choose_group c s = g" "g \<noteq> []"
  shows "sched_inv c (now_cycle s + 1) (issue_group c s (map fst g))"
proof -
  let ?G = "map fst g"
  have core: "sched_core c (now_cycle s) s" "width_ok c s" "slots_ok c s" "mem_active s \<le> 3"
    using inv by (simp_all add: sched_inv_def)
  then have ls: "lens c s" "shape c s" by (simp_all add: sched_core_def)
  note f = group_facts [OF core(1) wf g]
  have d: "distinct ?G" using f(1) by (simp add: strict_sorted_iff)
  have "sched_core c (now_cycle s + 1) (issue_group c s ?G)"
    using issue_all_core [OF core_weaken [OF core(1)] d f(2)] by (simp add: issue_group_def)
  moreover have "width_ok c (issue_group c s ?G)"
    using issue_all_width [OF core(1,2) f(1-3)] by (simp add: issue_group_def width_ok_def)
  moreover have "slots_ok c (issue_group c s ?G)"
    unfolding issue_group_def by (rule issue_all_slots [OF ls core(3) d f(2)])
  moreover have "mem_active (issue_group c s ?G) \<le> 3"
  proof (cases "filter (\<lambda>i. is_mem (ins c i)) ?G")
    case Nil
    with core(4) show ?thesis by (simp add: issue_group_def issue_all_mem)
  next
    case (Cons i ys)
    then have "i \<in> set (filter (\<lambda>i. is_mem (ins c i)) ?G)" by simp
    then have "i \<in> set ?G \<and> is_mem (ins c i)" by simp
    with f(4) have "mem_active s < 3" by (auto simp: ready_def)
    with matching_one_mem [OF f(3)] show ?thesis by (simp add: issue_group_def issue_all_mem)
  qed
  ultimately show ?thesis by (simp add: sched_inv_def)
qed

lemma skip_counters_inv [simp]:
  "sched_inv c b (s\<lparr>skipped_oldest_cycles := x\<rparr>) = sched_inv c b s"
  "sched_inv c b (s\<lparr>max_skip_distance := x\<rparr>) = sched_inv c b s"
  "sched_inv c b (s\<lparr>no_issue_cycles := x\<rparr>) = sched_inv c b s"
  by (simp_all add: sched_inv_def width_ok_def slots_ok_def)

lemma inv_weaken: "sched_inv c b s \<Longrightarrow> b \<le> b' \<Longrightarrow> sched_inv c b' s"
  unfolding sched_inv_def using core_weaken by blast

lemma issue_phase_inv:
  assumes "sched_inv c (now_cycle s) s" "wf_stream (instructions c)"
  shows "\<exists>t. issue_phase c s = Inr t \<and> sched_inv c (now_cycle s + 1) t"
proof -
  have core: "sched_core c (now_cycle s) s" using assms(1) by (simp add: sched_inv_def)
  note cs = issue_phase_cases [OF core assms(2) refl]
  show ?thesis
  proof (cases "choose_group c s = []")
    case True
    with cs(1) inv_weaken [OF assms(1)] show ?thesis by simp
  next
    case False
    with cs(2) issue_group_inv [OF assms refl] show ?thesis by fastforce
  qed
qed

section \<open>One cycle and the loop\<close>

lemma clock_phase_inv:
  assumes "sched_inv c (now_cycle s + 1) s"
  shows "sched_inv c (now_cycle (clock_phase c blocked s)) (clock_phase c blocked s)"
    "settled c (clock_phase c blocked s)"
proof -
  let ?t = "clock_phase c blocked s"
  have fr: "issued ?t = issued s" "completed ?t = completed s" "issue_cycle ?t = issue_cycle s"
    "complete_cycle ?t = complete_cycle s" "now_cycle ?t = now_cycle s + 1" "retired ?t = retired s"
    "admitted ?t = admitted s" "next_admit ?t = next_admit s" "retire_head ?t = retire_head s"
    "completion_heap ?t = completion_heap s" "mem_active ?t = mem_active s"
    "issue_slots ?t = issue_slots s" "free_branches ?t = free_branches s"
    "free_jumps ?t = free_jumps s" "max_occupancy ?t = max_occupancy s"
    by (simp_all add: clock_phase_def)
  have same: "in_flight c ?t = in_flight c s" "event_of c ?t = event_of c s" "issued_at c ?t = issued_at c s"
    by (simp_all add: in_flight_def event_of_def issued_at_def fr fun_eq_iff)
  have tm: "times c (now_cycle s + 1) s" using assms by (simp add: sched_inv_unfold)
  then have "times c (now_cycle s + 1) ?t" unfolding times_def fr by force
  with assms show "sched_inv c (now_cycle ?t) ?t"
    unfolding sched_inv_unfold lens_def shape_def heap_ok_def mem_ok_def dataflow_def completion_order_def
      mem_order_def serial_before_def serial_after_def width_ok_def slots_ok_def window_ok_def same fr
    by (elim conjE, intro conjI) assumption+
  from tm show "settled c ?t" unfolding settled_def times_def fr by force
qed

lemma sched_step_inv:
  assumes "sched_inv c (now_cycle s) s" "settled c s" "wf_stream (instructions c)"
  shows "\<exists>t. sched_step c s = Inr t \<and> sched_inv c (now_cycle t) t \<and> settled c t"
proof -
  let ?s1 = "retire_phase c 3 s"
  let ?s4 = "admit_phase c 3 (store_phase c (complete_phase c ?s1))"
  let ?s5 = "occupancy_phase c ?s4"
  have "sched_inv c (now_cycle s) ?s1" using retire_phase_inv assms(1,2) by blast
  then have "sched_inv c (now_cycle s) ?s5"
    by (intro occupancy_phase_inv admit_phase_inv store_phase_inv complete_phase_inv) simp_all
  moreover have now: "now_cycle ?s5 = now_cycle s"
    by (simp add: occupancy_phase_def store_phase_def Let_def)
  ultimately obtain t where t: "issue_phase c ?s5 = Inr t" "sched_inv c (now_cycle ?s5 + 1) t"
    using issue_phase_inv [of c ?s5] assms(3) by auto
  then have "sched_inv c (now_cycle t + 1) t" using now_issue_phase by simp
  note clk = clock_phase_inv [OF this, of "feed_blocked c ?s4"]
  have "sched_step c s = Inr (clock_phase c (feed_blocked c ?s4) t)"
    using t(1) by (simp add: sched_step_def Let_def)
  with clk show ?thesis by blast
qed

text \<open>Every state the loop returns satisfies the invariants; the only error is the stuck guard.\<close>

lemma sched_loop_inv:
  assumes "sched_inv c (now_cycle s) s" "settled c s" "wf_stream (instructions c)"
  shows "case sched_loop c s of
      Inr t \<Rightarrow> sched_inv c (now_cycle t) t \<and> settled c t \<and> retire_head t = count_of c
    | Inl e \<Rightarrow> \<exists>k. e = NoProgress (policy c) k"
  using assms
proof (induction c s rule: sched_loop.induct)
  case (1 c s)
  show ?case
  proof (cases "retire_head s < count_of c")
    case False
    have "shape c s" using 1(2) by (simp add: sched_inv_unfold)
    then have "retire_head s = count_of c" using False by (simp add: shape_def)
    with 1(2,3) show ?thesis by (subst sched_loop.simps) simp
  next
    case True
    obtain t where t: "sched_step c s = Inr t" "sched_inv c (now_cycle t) t" "settled c t"
      using sched_step_inv [OF 1(2-4)] by blast
    show ?thesis
    proof (cases "cycle_limit c < now_cycle t - start_cycle c")
      case stuck: True
      with True t(1) show ?thesis by (subst sched_loop.simps) simp
    next
      case False
      have "sched_loop c s = sched_loop c t"
        using True t(1) False by (subst sched_loop.simps) simp
      with 1(1) [OF True t(1) False t(2,3) 1(4)] show ?thesis by simp
    qed
  qed
qed

lemma schedule_run_inv:
  assumes "wf_stream (instructions c)" "schedule_run c = Inr t"
  shows "sched_inv c (now_cycle t) t \<and> settled c t \<and> retire_head t = count_of c"
proof -
  have "sched_loop c (sched_init c) = Inr t"
    using assms(2) by (auto simp: schedule_run_def split: if_splits)
  moreover have "now_cycle (sched_init c) = start_cycle c"
    by (simp add: sched_init_def start_cycle_def Let_def)
  ultimately show ?thesis
    using sched_loop_inv [of c "sched_init c"] sched_init_inv [of c] sched_init_settled [of c] assms(1)
    by simp
qed

section \<open>The pace of the loop\<close>

lemma retire_phase_head: "retire_head (retire_phase c n s) \<le> retire_head s + n"
proof (induction n arbitrary: s)
  case 0
  then show ?case by simp
next
  case (Suc n)
  from Suc [of "s\<lparr>retired := (retired s)[retire_head s := True], retire_head := Suc (retire_head s)\<rparr>"]
  show ?case by (simp add: Let_def)
qed

lemma head_admit_phase [simp]: "retire_head (admit_phase c n s) = retire_head s"
  by (induction n arbitrary: s) (auto simp: admit_one_def Let_def)

lemma head_store_phase [simp]: "retire_head (store_phase c s) = retire_head s"
  by (simp add: store_phase_def Let_def)

lemma head_issue_phase: "issue_phase c s = Inr t \<Longrightarrow> retire_head t = retire_head s"
  by (auto simp: issue_phase_def Let_def split: if_splits)

lemma head_step: "sched_step c s = Inr t \<Longrightarrow> retire_head t = retire_head (retire_phase c 3 s)"
  by (auto simp: sched_step_def Let_def clock_phase_def occupancy_phase_def dest!: head_issue_phase)

definition paced :: "sched_cfg \<Rightarrow> sched_state \<Rightarrow> bool" where
  "paced c s \<longleftrightarrow> int (retire_head s) \<le> 3 * (now_cycle s - start_cycle c) \<and>
     now_cycle s - start_cycle c \<le> cycle_limit c"

lemma sched_loop_paced:
  assumes "sched_loop c s = Inr t" "paced c s"
  shows "paced c t"
  using assms
proof (induction c s rule: sched_loop.induct)
  case (1 c s)
  show ?case
  proof (cases "retire_head s < count_of c")
    case False
    with 1(2,3) show ?thesis by (subst (asm) sched_loop.simps) simp
  next
    case True
    from 1(2) True obtain u where u: "sched_step c s = Inr u"
      and lim: "\<not> cycle_limit c < now_cycle u - start_cycle c" and rest: "sched_loop c u = Inr t"
      by (subst (asm) sched_loop.simps) (auto split: if_splits)
    have "paced c u"
      using 1(3) lim head_step [OF u] now_step [OF u] retire_phase_head [of c 3 s]
      by (simp add: paced_def)
    with 1(1) [OF True u lim rest] show ?thesis .
  qed
qed

lemma schedule_run_paced:
  assumes "schedule_run c = Inr t"
  shows "paced c t"
proof -
  have "sched_loop c (sched_init c) = Inr t"
    using assms by (auto simp: schedule_run_def split: if_splits)
  moreover have "paced c (sched_init c)"
    by (simp add: paced_def sched_init_def start_cycle_def cycle_limit_def Let_def)
  ultimately show ?thesis by (rule sched_loop_paced)
qed

section \<open>What a finished run is\<close>

text \<open>At the end every instruction has issued and completed, and the invariants speak of all of them.\<close>

lemma shape_completed_issued:
  assumes "shape c s" "i < count_of c" "completed s ! i"
  shows "issued s ! i"
proof -
  from assms(1) have "\<forall>i < count_of c. completed s ! i \<longrightarrow> issued s ! i" unfolding shape_def by (elim conjE)
  with assms(2,3) show ?thesis by simp
qed

lemma run_done:
  assumes "wf_stream (instructions c)" "schedule_run c = Inr t" "i < count_of c"
  shows "issued t ! i" "completed t ! i"
proof -
  have sh: "shape c t" "retire_head t = count_of c"
    using schedule_run_inv [OF assms(1,2)] by (simp_all add: sched_inv_unfold)
  from sh(1) have "\<forall>i < count_of c. i < retire_head t \<longrightarrow> completed t ! i"
    unfolding shape_def by (elim conjE)
  with sh(2) assms(3) show "completed t ! i" by simp
  then show "issued t ! i" by (rule shape_completed_issued [OF sh(1) assms(3)])
qed

lemma run_facts:
  assumes "wf_stream (instructions c)" "schedule_run c = Inr t"
  shows "shape c t" "times c (now_cycle t) t" "dataflow c t" "mem_order c t" "serial_before c t"
    "serial_after c t" "window_ok c t" "width_ok c t" "slots_ok c t" "retire_head t = count_of c"
    "next_admit t = count_of c" "completion_order c t"
proof -
  show "shape c t" "times c (now_cycle t) t" "dataflow c t" "mem_order c t" "serial_before c t"
    "serial_after c t" "window_ok c t" "width_ok c t" "slots_ok c t" "retire_head t = count_of c" "completion_order c t"
    using schedule_run_inv [OF assms] unfolding sched_inv_unfold by blast+
  then have "count_of c \<le> next_admit t" "next_admit t \<le> count_of c"
    unfolding shape_def by (elim conjE, simp only:)+
  then show "next_admit t = count_of c" by (rule le_antisym [rotated])
qed

text \<open>Memory instructions issue in program order, one a cycle.\<close>

lemma run_mem_order:
  assumes wf: "wf_stream (instructions c)" and run: "schedule_run c = Inr t"
  shows "j < count_of c \<Longrightarrow> i < j \<Longrightarrow> is_mem (ins c i) \<Longrightarrow> is_mem (ins c j) \<Longrightarrow>
    issue_cycle t ! i < issue_cycle t ! j"
proof (induction j rule: less_induct)
  case (less j)
  obtain m where m: "di_previous_mem (ins c j) = Some m" "i \<le> m"
    using wf less.prems unfolding wf_stream_def by blast
  then have m2: "m < j" "is_mem (ins c m)" using wf less.prems unfolding wf_stream_def by blast+
  have "issue_cycle t ! m < issue_cycle t ! j"
    using run_facts(4) [OF wf run] run_done(1) [OF wf run less.prems(1)] less.prems m(1) mem_not_free
    unfolding mem_order_def by blast
  moreover have "issue_cycle t ! i \<le> issue_cycle t ! m"
  proof (cases "i = m")
    case False
    with less.IH [OF m2(1)] less.prems m m2 show ?thesis by simp
  qed simp
  ultimately show ?case by simp
qed

end
