(* ===== verification/IssueExperiment.thy ===== *)
theory IssueExperiment
  imports IssueWindow
begin

text \<open>
  \<open>main\<close> of \<open>tools/issue_window_experiment.py\<close> after its arguments are parsed: the four schedules, the
  latency medians and the projection. Quotients stay pairs of integers (numerator, denominator).
\<close>

datatype experiment_error =
    LoadFailed load_error
  | ScheduleFailed sched_error
  | ProjectionZero

definition lift_left :: "('e \<Rightarrow> 'f) \<Rightarrow> 'e + 'a \<Rightarrow> 'f + 'a" where
  "lift_left f x = (case x of Inl e \<Rightarrow> Inl (f e) | Inr v \<Rightarrow> Inr v)"

text \<open>\<open>statistics.median\<close> of a non-empty list of integers, 0 for an empty one.\<close>

definition median_or_0 :: "int list \<Rightarrow> int \<times> int" where
  "median_or_0 values =
     (let data = sort values; n = length data in
      if n = 0 then (0, 1)
      else if odd n then (data ! (n div 2), 1)
      else (data ! (n div 2 - 1) + data ! (n div 2), 2))"

record experiment_args =
  arg_capacity :: int
  arg_free_branches :: bool
  arg_free_jumps :: bool

definition feed_cfg ::
  "experiment_args \<Rightarrow> dyn_instr list \<Rightarrow> int list \<Rightarrow> string \<Rightarrow> bool \<Rightarrow> sched_cfg" where
  "feed_cfg args xs release pol debackpressured =
     \<lparr>instructions = xs, releases = release, policy = pol, capacity = arg_capacity args,
      pausable_feed = debackpressured, free_perfect_branches = arg_free_branches args,
      free_perfect_jumps = arg_free_jumps args\<rparr>"

record latency_medians =
  alu_median :: "int \<times> int"
  load_median :: "int \<times> int"
  store_median :: "int \<times> int"

definition latency_median :: "dyn_instr list \<Rightarrow> latency_medians" where
  "latency_median xs =
     \<lparr>alu_median = median_or_0 (map latency (filter (\<lambda>i. \<not> is_mem i) xs)),
      load_median = median_or_0 (map latency (filter (\<lambda>i. is_mem i \<and> \<not> is_store i) xs)),
      store_median = median_or_0 (map latency (filter is_store xs))\<rparr>"

record projection =
  calibration_cycles :: int
  selection_delta_cycles :: int
  selection_only_cycles :: int
  selection_only_ipc :: "int \<times> int"
  strict_buffered_cycles :: int
  strict_buffered_ipc :: "int \<times> int"
  issue_window_cycles :: int
  issue_window_ipc :: "int \<times> int"
  issue_window_saved_cycles :: int

definition project ::
  "int \<Rightarrow> int \<Rightarrow> sched_result \<Rightarrow> sched_result \<Rightarrow> sched_result \<Rightarrow> experiment_error + projection" where
  "project cycles nretired observed_strict buffered_strict buffered_window =
     (let calibration = cycles - r_cycles observed_strict;
          selection_delta = r_cycles buffered_strict - r_cycles buffered_window;
          projected_cycles = r_cycles buffered_window + calibration;
          strict_cycles = r_cycles buffered_strict + calibration
      in if cycles - selection_delta = 0 \<or> strict_cycles = 0 \<or> projected_cycles = 0
         then Inl ProjectionZero
         else Inr \<lparr>calibration_cycles = calibration, selection_delta_cycles = selection_delta,
                   selection_only_cycles = cycles - selection_delta,
                   selection_only_ipc = (nretired, cycles - selection_delta),
                   strict_buffered_cycles = strict_cycles,
                   strict_buffered_ipc = (nretired, strict_cycles),
                   issue_window_cycles = projected_cycles,
                   issue_window_ipc = (nretired, projected_cycles),
                   issue_window_saved_cycles = cycles - projected_cycles\<rparr>)"

record experiment_output =
  results :: "(string \<times> sched_result) list"
  medians :: latency_medians
  projected :: projection

definition run_experiment ::
  "experiment_args \<Rightarrow> string list list \<Rightarrow> experiment_error + experiment_output" where
  "run_experiment args lines =
     bindE (lift_left LoadFailed (load_trace lines)) (\<lambda>(xs, st).
     let observed = monotonic_release di_observed_release xs;
         intrinsic = monotonic_release di_intrinsic_release xs;
         run = (\<lambda>release pol de. lift_left ScheduleFailed (schedule (feed_cfg args xs release pol de)))
     in bindE (run observed ''strict'' False) (\<lambda>observed_strict.
        bindE (run observed ''window'' False) (\<lambda>observed_window.
        bindE (run intrinsic ''strict'' True) (\<lambda>buffered_strict.
        bindE (run intrinsic ''window'' True) (\<lambda>buffered_window.
        bindE (project (total_cycles st) (actual_retired st) observed_strict buffered_strict
                 buffered_window) (\<lambda>p.
          Inr \<lparr>results = [(''observed_feed_strict'', observed_strict),
                          (''observed_feed_window'', observed_window),
                          (''debackpressured_feed_strict'', buffered_strict),
                          (''debackpressured_feed_window'', buffered_window)],
               medians = latency_median xs, projected = p\<rparr>))))))"

lemma lift_left_Inr [simp]: "lift_left f x = Inr v \<longleftrightarrow> x = Inr v"
  by (cases x) (simp_all add: lift_left_def)

end
