(* ===== verification/IssueProps.thy ===== *)
theory IssueProps
  imports IssueLoop IssueExperiment
begin

text \<open>
  The properties of the issue-window experiment: the loader, the pipe search, the group choice and the
  schedule. A demonstration stream of five instructions serves the examples: an addition, a load and a
  store through its result, a branch and a jump.
\<close>

section \<open>A demonstration stream\<close>

definition demo_instr :: "int \<Rightarrow> bool \<Rightarrow> nat \<Rightarrow> bool \<Rightarrow> nat \<Rightarrow> int \<Rightarrow> dyn_instr" where
  "demo_instr bits uses reg writes dest lat =
     \<lparr>di_uid = 0, di_pc = 0, di_bits = bits, di_uses_rs1 = uses, di_uses_rs2 = False, di_rs1 = reg,
      di_rs2 = 0, di_writes_rd = writes, di_rd = dest, di_observed_release = 0,
      di_intrinsic_release = 0, di_actual_issue = 0, di_actual_complete = lat, di_actual_retire = lat,
      di_actual_pipe = 0, di_deps = [], di_previous_mem = None\<rparr>"

definition demo_stream :: "dyn_instr list" where
  "demo_stream = link 0 (replicate 32 None) None
     [demo_instr 0x13 False 0 True 1 1, demo_instr 0x03 True 1 True 2 2, demo_instr 0x23 True 2 False 0 1,
      demo_instr 0x63 True 1 False 0 1, demo_instr 0x6f False 0 False 0 1]"

definition demo_cfg :: sched_cfg where
  "demo_cfg = \<lparr>instructions = demo_stream, releases = [0, 0, 0, 0, 0], policy = ''window'',
     capacity = 4, pausable_feed = False, free_perfect_branches = False, free_perfect_jumps = False\<rparr>"

lemma demo_linked: "linked demo_stream"
  unfolding demo_stream_def by (rule link_linked) (simp_all add: regs_ok_def demo_instr_def)


definition demo_final :: sched_state where
  "demo_final = (case schedule_run demo_cfg of Inr t \<Rightarrow> t | Inl _ \<Rightarrow> sched_init demo_cfg)"

lemma demo_run: "schedule_run demo_cfg = Inr demo_final"
proof -
  have "(case schedule_run demo_cfg of Inr _ \<Rightarrow> True | Inl _ \<Rightarrow> False)" by code_simp
  then show ?thesis by (simp add: demo_final_def split: sum.splits)
qed

lemma demo_instructions [simp]: "instructions demo_cfg = demo_stream" "length demo_stream = 5"
  by (simp add: demo_cfg_def) code_simp

lemma demo_final_cycles:
  "issue_cycle demo_final = [0, 1, 3, 1, 5]" "complete_cycle demo_final = [1, 3, 4, 2, 6]"
  by code_simp+

section \<open>The loader\<close>

text \<open>
  C7: whatever trace \<open>load_trace\<close> accepts, the stream it returns is linked: the dependencies of
  instruction \<open>i\<close> are exactly the youngest earlier writers of the non-zero source registers it reads,
  and a memory instruction's \<open>previous_mem\<close> is the youngest earlier memory instruction. The stream has
  one instruction per committed uid, as many as the retire counts add up to.
\<close>

theorem load_trace_linked:
  assumes "load_trace lines = Inr (xs, st)"
  shows "linked xs \<and> map di_uid xs = committed st \<and> int (length xs) = actual_retired st"
proof -
  from assms obtain instrs where p: "xs = link 0 (replicate 32 None) None instrs"
    "mapE (build_instr st) (committed st) = Inr instrs" "meta_ok st"
    "int (length instrs) = actual_retired st"
    by (rule load_trace_parts)
  have "map di_uid instrs = committed st"
    by (rule nth_equalityI) (use mapE_length [OF p(2)] mapE_nth [OF p(2)] build_instr_ok p(3) in auto)
  moreover have "map di_uid xs = map di_uid instrs"
  proof (rule nth_equalityI)
    fix i assume "i < length (map di_uid xs)"
    with link_update [of i instrs 0 "replicate 32 None" None] p(1)
    show "map di_uid xs ! i = map di_uid instrs ! i" by auto
  qed (simp add: p(1))
  ultimately show ?thesis
    using link_linked load_trace_regs_ok [OF p(2,3)] p(1,4) by auto
qed

lemma running_max_props:
  "length (running_max p vs) = length vs"
  "i < length vs \<Longrightarrow> running_max p vs ! i = Max (insert p (set (take (Suc i) vs)))"
proof (induction vs arbitrary: p i)
  case Nil
  { case 1 show ?case by simp next case 2 then show ?case by simp }
next
  case (Cons v vs)
  { case 1 show ?case by (simp add: Let_def Cons.IH(1)) }
  { case 2
    show ?case
    proof (cases i)
      case 0
      then show ?thesis by (simp add: Let_def max.commute)
    next
      case (Suc j)
      with 2 Cons.IH(2) [of j "max p v"] show ?thesis
        by (cases "take (Suc j) vs = []") (simp_all add: Let_def Max_insert max.assoc insert_commute)
    qed }
qed

text \<open>
  \<open>monotonic_release\<close> is the least monotone sequence above the observed releases: entry \<open>i\<close> is
  the maximum of the field over the instructions up to \<open>i\<close>, or the start value \<open>-10**18\<close>.
\<close>

theorem monotonic_release_is_prefix_max:
  "monotonic_release field xs =
     map (\<lambda>i. Max (insert (- (10 ^ 18)) (field ` set (take (Suc i) xs)))) [0..<length xs]"
  by (rule nth_equalityI)
    (simp_all add: monotonic_release_def running_max_props take_map del: take_Suc)

section \<open>The pipe search and the group choice\<close>

text \<open>
  C6: the backtracking \<open>pipe_assignment\<close> is sound and complete: its answer assigns exactly the
  selected instructions, each one of its own pipe options and no pipe twice, and it answers None only
  when no such assignment exists.
\<close>

theorem pipe_assignment_correct:
  "case pipe_assignment xs sel of
     Some a \<Rightarrow> map fst a = sel \<and> (\<forall>(i, p) \<in> set a. p \<in> set (pipe_options (xs ! i))) \<and> distinct (map snd a)
   | None \<Rightarrow> \<not> (\<exists>a. map fst a = sel \<and> (\<forall>(i, p) \<in> set a. p \<in> set (pipe_options (xs ! i))) \<and>
       distinct (map snd a))"
  using assign_sound(1) [of "\<lambda>i. pipe_options (xs ! i)" sel "{}"]
    assign_complete(1) [of "\<lambda>i. pipe_options (xs ! i)" sel "{}"]
  by (auto simp: pipe_assignment_def matching_def split: option.split)

text \<open>A valid group of the window policy: at most three ready waiting instructions in order.\<close>

definition valid_group :: "sched_cfg \<Rightarrow> sched_state \<Rightarrow> nat list \<Rightarrow> bool" where
  "valid_group c s sel \<longleftrightarrow>
     sel \<noteq> [] \<and> length sel \<le> 3 \<and> sorted_wrt (<) sel \<and>
     set sel \<subseteq> {i \<in> set (waiting c s). ready c s i} \<and>
     \<not> splits_group (hard_at c) sel \<and> pipe_assignment (instructions c) sel \<noteq> None"

lemma valid_group_enumerated:
  assumes "valid_group c s sel"
  shows "sel \<in> set (combinations (length sel) (filter (ready c s) (waiting c s)))"
    "length sel \<le> length (filter (ready c s) (waiting c s))"
proof -
  let ?rs = "filter (ready c s) (waiting c s)"
  have v: "sorted_wrt (<) sel" "set sel \<subseteq> set ?rs" using assms by (auto simp: valid_group_def)
  have srt: "sorted_wrt (<) ?rs" by (rule sorted_wrt_filter) simp
  show "sel \<in> set (combinations (length sel) ?rs)" by (rule combinations_complete [OF v srt])
  have "distinct sel" using v(1) by (simp add: strict_sorted_iff)
  then have "length sel = card (set sel)" by (simp add: distinct_card)
  also have "\<dots> \<le> card (set ?rs)" by (rule card_mono [OF _ v(2)]) simp
  also have "\<dots> \<le> length ?rs" by (rule card_length)
  finally show "length sel \<le> length ?rs" .
qed

text \<open>
  C2: the window policy issues a widest valid group, and among the widest the lexicographically
  least: every valid group is at most as long as the chosen one, and one of the same length is not
  smaller in list order.
\<close>

theorem window_group_is_widest_then_oldest:
  assumes "policy c \<noteq> ''strict''" "valid_group c s sel"
  shows "valid_group c s (map fst (choose_group c s)) \<and> length sel \<le> length (choose_group c s) \<and>
    (length (choose_group c s) \<le> length sel \<longrightarrow> map fst (choose_group c s) \<le> sel)"
proof -
  let ?rs = "filter (ready c s) (waiting c s)" and ?g = "choose_group c s"
  let ?att = "pipe_assignment (instructions c)"
  note en = valid_group_enumerated [OF assms(2)]
  have sel: "sel \<noteq> []" "length sel \<le> 3" "group_ok ?att (hard_at c) sel"
    "set sel \<subseteq> set ?rs"
    using assms(2) by (auto simp: valid_group_def group_ok_def)
  then obtain x where x: "x \<in> set ?rs" by (metis list.set_sel(1) subsetD)
  then have "?rs \<noteq> []" by (metis empty_iff empty_set)
  moreover have "unissued s \<noteq> []" using x by (auto simp: waiting_def)
  ultimately have "?rs \<noteq> []" "unissued s \<noteq> []" by simp_all
  then have g: "widest_group ?att (hard_at c) ?rs (min 3 (length ?rs)) = ?g"
    using assms(1) by (simp add: choose_group_alt Let_def)
  have "?g \<noteq> []" using pipes.widest_group_nonempty [of ?rs "min 3 (length ?rs)"] g \<open>?rs \<noteq> []\<close>
    by (metis (no_types, lifting) length_greater_0_conv min_less_iff_conj zero_less_numeral)
  from pipes.widest_group_spec [OF g this] obtain k b where k: "0 < k" "k \<le> min 3 (length ?rs)"
    "b \<in> set (combinations k ?rs)" "group_ok ?att (hard_at c) b" "?att b = Some ?g"
    "\<forall>x \<in> set (combinations k ?rs). group_ok ?att (hard_at c) x \<longrightarrow> b \<le> x"
    "\<forall>j. k < j \<and> j \<le> min 3 (length ?rs) \<longrightarrow>
      (\<forall>x \<in> set (combinations j ?rs). \<not> group_ok ?att (hard_at c) x)"
    by blast
  have b: "map fst ?g = b" by (rule pipes.attempt_keys [OF k(5)])
  have lb: "length b = k" "set b \<subseteq> set ?rs" using combinations_props [OF k(3)] by auto
  then have lg: "length ?g = k" using b by (metis length_map)
  have "sorted_wrt (<) ?rs" by (rule sorted_wrt_filter) simp
  then have "sorted_wrt (<) b" by (rule combinations_sorted [OF k(3)])
  then have "valid_group c s b"
    using k lb by (auto simp: valid_group_def group_ok_def)
  moreover have len: "length sel \<le> k"
    using k(7) sel(2,3) en by (meson min.bounded_iff not_le)
  moreover have "b \<le> sel" if "k \<le> length sel"
    using that len k(6) sel(3) en(1) by auto
  ultimately show ?thesis using b lg by simp
qed

theorem window_group_is_widest_then_oldest_witness:
  "map fst (choose_group demo_cfg (admit_phase demo_cfg 3 (sched_init demo_cfg))) \<le> [0]"
proof -
  let ?s = "admit_phase demo_cfg 3 (sched_init demo_cfg)"
  have "policy demo_cfg \<noteq> ''strict''" by (simp add: demo_cfg_def)
  moreover have "valid_group demo_cfg ?s [0]" by code_simp
  ultimately have "length (choose_group demo_cfg ?s) \<le> length [0::nat] \<longrightarrow>
      map fst (choose_group demo_cfg ?s) \<le> [0]"
    using window_group_is_widest_then_oldest [of demo_cfg ?s "[0]"] by blast
  moreover have "length (choose_group demo_cfg ?s) \<le> length [0::nat]" by code_simp
  ultimately show ?thesis by blast
qed

section \<open>The schedule\<close>

lemma demo_wf: "wf_stream (instructions demo_cfg)"
  using linked_wf_stream [OF demo_linked] by simp

text \<open>
  C1: in a finished schedule of a linked stream every instruction has issued and completed. One that is not free
  control issued no earlier than each producer of its operands completed. A free control transfer completes in the
  cycle it issues; a store completes later than its issue and later than every older instruction completed, with no
  latency of its own; every other instruction completes exactly its traced latency after it issued.
\<close>

theorem schedule_respects_raw_dependencies:
  assumes "linked (instructions c)" "schedule_run c = Inr t" "i < count_of c"
  shows "issued t ! i \<and> completed t ! i \<and>
    (\<not> is_free_control c i \<longrightarrow> (\<forall>p \<in> raw_producers (instructions c) i. complete_cycle t ! p \<le> issue_cycle t ! i)) \<and>
    (if is_free_control c i then complete_cycle t ! i = issue_cycle t ! i
     else if is_store (ins c i)
     then issue_cycle t ! i < complete_cycle t ! i \<and> (\<forall>j < i. complete_cycle t ! j < complete_cycle t ! i)
     else complete_cycle t ! i = issue_cycle t ! i + latency (ins c i))"
proof -
  have wf: "wf_stream (instructions c)" by (rule linked_wf_stream [OF assms(1)])
  note d = run_done [OF wf assms(2,3)] and f = run_facts [OF wf assms(2)]
  have deps: "set (di_deps (ins c i)) = raw_producers (instructions c) i"
    using assms(1,3) by (simp add: linked_def)
  show ?thesis
  proof (intro conjI ballI impI d)
    show "complete_cycle t ! p \<le> issue_cycle t ! i" if "\<not> is_free_control c i" "p \<in> raw_producers (instructions c) i" for p
      using f(3) d(1) assms(3) that deps unfolding dataflow_def by blast
    show "if is_free_control c i then complete_cycle t ! i = issue_cycle t ! i
        else if is_store (ins c i)
        then issue_cycle t ! i < complete_cycle t ! i \<and> (\<forall>j < i. complete_cycle t ! j < complete_cycle t ! i)
        else complete_cycle t ! i = issue_cycle t ! i + latency (ins c i)"
      using f(2,12) d(2) assms(3) unfolding times_def completion_order_def by auto
  qed
qed

theorem schedule_respects_raw_dependencies_witness:
  "complete_cycle demo_final ! 0 \<le> issue_cycle demo_final ! 1"
proof -
  have "\<not> is_free_control demo_cfg 1" "0 \<in> raw_producers (instructions demo_cfg) 1"
    by code_simp+
  then show ?thesis
    using schedule_respects_raw_dependencies [OF _ demo_run, of 1] demo_linked by auto
qed

text \<open>
  C5: memory instructions issue in program order, one a cycle, so never out of order with an older
  load, store or atomic; at most three are in flight.
\<close>

theorem schedule_orders_memory:
  assumes "linked (instructions c)" "schedule_run c = Inr t"
    "i < j" "j < count_of c" "is_mem (ins c i)" "is_mem (ins c j)"
  shows "issue_cycle t ! i < issue_cycle t ! j"
  using run_mem_order [OF linked_wf_stream [OF assms(1)] assms(2,4,3,5,6)] .

theorem schedule_orders_memory_witness: "issue_cycle demo_final ! 1 < issue_cycle demo_final ! 2"
proof -
  have "is_mem (ins demo_cfg 1)" "is_mem (ins demo_cfg 2)" by code_simp+
  then show ?thesis using schedule_orders_memory [OF _ demo_run, of 1 2] demo_linked by simp
qed

text \<open>
  C4: a jump, fence or system instruction (unless free) serialises the machine: everything older has
  completed before it issues, and it has completed before anything younger that is not free issues.
\<close>

theorem schedule_serialises_hard:
  assumes "linked (instructions c)" "schedule_run c = Inr t"
    "i < count_of c" "is_persistent_hard (ins c i)" "\<not> is_free_control c i"
  shows "\<forall>j < count_of c. (j < i \<longrightarrow> complete_cycle t ! j < issue_cycle t ! i) \<and>
    (i < j \<and> \<not> is_free_control c j \<longrightarrow> complete_cycle t ! i < issue_cycle t ! j)"
proof (intro allI impI conjI)
  have wf: "wf_stream (instructions c)" by (rule linked_wf_stream [OF assms(1)])
  note d = run_done [OF wf assms(2)] and f = run_facts [OF wf assms(2)]
  fix j assume j: "j < count_of c"
  show "complete_cycle t ! j < issue_cycle t ! i" if "j < i"
    using f(5) d(1) [OF assms(3)] that assms(3-5) unfolding serial_before_def by blast
  show "complete_cycle t ! i < issue_cycle t ! j" if "i < j \<and> \<not> is_free_control c j"
    using f(6) d(1) [OF j] that j assms(4) unfolding serial_after_def by blast
qed

theorem schedule_serialises_hard_witness: "complete_cycle demo_final ! 2 < issue_cycle demo_final ! 4"
proof -
  have "is_persistent_hard (ins demo_cfg 4)" "\<not> is_free_control demo_cfg 4" by code_simp+
  then show ?thesis using schedule_serialises_hard [OF _ demo_run, of 4] demo_linked by auto
qed

text \<open>
  C3: in every cycle the instructions issued then (free control apart) fit the three pipes: there is an
  assignment of each to one of its own pipes with no pipe used twice, hence at most three issue in a
  cycle, at most one of them a memory instruction.
\<close>

theorem schedule_fits_the_pipes:
  assumes "linked (instructions c)" "schedule_run c = Inr t"
    "grp = filter (\<lambda>i. \<not> is_free_control c i \<and> issue_cycle t ! i = cycle) [0..<count_of c]"
  shows "(\<exists>a. pipe_assignment (instructions c) grp = Some a) \<and> length grp \<le> 3 \<and>
    length (filter (\<lambda>i. is_mem (ins c i)) grp) \<le> 1"
proof -
  have wf: "wf_stream (instructions c)" by (rule linked_wf_stream [OF assms(1)])
  have "issued_at c t cycle = grp" unfolding issued_at_def assms(3)
    by (rule filter_cong) (use run_done(1) [OF wf assms(2)] in auto)
  then obtain a where a: "matching (pipe_table c) {} grp a"
    using run_facts(8) [OF wf assms(2)] unfolding width_ok_def by metis
  have "pipe_table c = (\<lambda>i. pipe_options (ins c i))" by (simp add: pipe_table_def fun_eq_iff)
  with a have "\<exists>a. pipe_assignment (instructions c) grp = Some a"
    by (subst pipes.attempt_iff) auto
  with pipes.attempt_width matching_one_mem [OF a] show ?thesis by blast
qed

theorem schedule_fits_the_pipes_witness:
  "filter (\<lambda>i. \<not> is_free_control demo_cfg i \<and> issue_cycle demo_final ! i = 1) [0..<count_of demo_cfg] = [1, 3] \<and>
   (\<exists>a. pipe_assignment (instructions demo_cfg) [1, 3] = Some a)"
proof -
  have "filter (\<lambda>i. \<not> is_free_control demo_cfg i \<and> issue_cycle demo_final ! i = 1) [0..<count_of demo_cfg] = [1, 3]"
    unfolding demo_final_cycles by code_simp
  with schedule_fits_the_pipes [OF _ demo_run, of "[1, 3]" 1] demo_linked show ?thesis by simp
qed

lemma schedule_sums:
  assumes "linked (instructions c)" "schedule c = Inr r"
  shows "r_issued r + r_free_branches r + r_free_jumps r = count_of c \<and>
    int (r_max_occupancy r) \<le> max 0 (capacity c) \<and> 0 < r_cycles r \<and> r_cycles r \<le> cycle_limit c \<and>
    fst (r_ipc r) = int (count_of c) \<and> snd (r_ipc r) = r_cycles r \<and> int (count_of c) \<le> 3 * r_cycles r"
proof -
  have wf: "wf_stream (instructions c)" by (rule linked_wf_stream [OF assms(1)])
  from assms(2) obtain t where t: "schedule_run c = Inr t" "now_cycle t - start_cycle c \<noteq> 0"
    "r_cycles r = now_cycle t - start_cycle c" "r_ipc r = (int (count_of c), now_cycle t - start_cycle c)"
    "r_issued r = issue_slots t" "r_max_occupancy r = max_occupancy t"
    "r_free_branches r = free_branches t" "r_free_jumps r = free_jumps t"
    by (auto simp: schedule_def Let_def split: if_splits)
  note f = run_facts [OF wf t(1)]
  let ?N = "{i. i < count_of c \<and> \<not> is_free_control c i}"
  let ?B = "{i. i < count_of c \<and> is_free_control c i \<and> is_branch (ins c i)}"
  let ?J = "{i. i < count_of c \<and> is_free_control c i \<and> \<not> is_branch (ins c i)}"
  have "{i. i < count_of c \<and> issued t ! i \<and> \<not> is_free_control c i} = ?N"
    using run_done(1) [OF wf t(1)] by auto
  then have counts: "issue_slots t = card ?N" "free_branches t = card ?B" "free_jumps t = card ?J"
    using f(9,11) by (simp_all add: slots_ok_def)
  have "card ?N + (card ?B + card ?J) = card (?N \<union> (?B \<union> ?J))"
    by (subst card_Un_disjoint, simp, simp, fastforce, subst card_Un_disjoint) auto
  also have "?N \<union> (?B \<union> ?J) = {..<count_of c}" by auto
  finally have "card ?N + card ?B + card ?J = count_of c" by simp
  moreover have "paced c t" by (rule schedule_run_paced [OF t(1)])
  ultimately show ?thesis
    using t f(7,10) counts by (auto simp: paced_def window_ok_def)
qed

text \<open>
  C8: the result record adds up: issue slots and free control instructions together are the whole
  stream, the window never holds more than its capacity, the cycle count is positive, within the stuck
  guard, and at least a third of the instruction count (retirement is three wide), so the reported IPC
  is at most three.
\<close>

theorem schedule_result_adds_up:
  assumes "linked (instructions c)" "schedule c = Inr r"
  shows "r_issued r + r_free_branches r + r_free_jumps r = count_of c \<and>
    int (r_max_occupancy r) \<le> max 0 (capacity c) \<and> 0 < r_cycles r \<and> r_cycles r \<le> cycle_limit c \<and>
    fst (r_ipc r) = int (count_of c) \<and> snd (r_ipc r) = r_cycles r \<and> int (count_of c) \<le> 3 * r_cycles r"
  by (rule schedule_sums [OF assms])

theorem schedule_result_adds_up_witness:
  "\<exists>r. schedule demo_cfg = Inr r \<and> r_issued r + r_free_branches r + r_free_jumps r = 5 \<and> r_cycles r = 8"
proof -
  have "case schedule demo_cfg of Inr r \<Rightarrow> r_cycles r = 8 | Inl _ \<Rightarrow> False" by code_simp
  then obtain r where r: "schedule demo_cfg = Inr r" "r_cycles r = 8" by (auto split: sum.splits)
  with schedule_result_adds_up [OF _ r(1)] demo_linked show ?thesis by simp
qed

text \<open>
  C9: for a linked stream with a release for each instruction the only errors are the stuck guard and
  the division by zero of an empty stream; \<open>next(...)\<close> for the oldest unissued instruction never
  raises \<open>StopIteration\<close>.
\<close>

theorem schedule_errors:
  assumes "linked (instructions c)" "releases c \<noteq> []" "count_of c \<le> length (releases c)"
    "schedule c = Inl e"
  shows "(\<exists>k. e = NoProgress (policy c) k) \<or> (e = ZeroDivision \<and> instructions c = [])"
proof (cases "schedule_run c")
  case (Inl e')
  then have "sched_loop c (sched_init c) = Inl e'" and e: "e = e'"
    using assms(2-4) by (auto simp: schedule_run_def schedule_def)
  moreover have "now_cycle (sched_init c) = start_cycle c"
    by (simp add: sched_init_def start_cycle_def Let_def)
  ultimately show ?thesis
    using sched_loop_inv [of c "sched_init c"] sched_init_inv [of c] sched_init_settled [of c]
      linked_wf_stream [OF assms(1)] by auto
next
  case (Inr t)
  then have z: "e = ZeroDivision" "now_cycle t = start_cycle c"
    using assms(4) by (auto simp: schedule_def Let_def split: if_splits)
  have "paced c t" "retire_head t = count_of c"
    using schedule_run_paced [OF Inr] run_facts(10) [OF linked_wf_stream [OF assms(1)] Inr] by simp_all
  with z show ?thesis by (simp add: paced_def)
qed

text \<open>Two additions released 1000 cycles apart: nothing is stuck, yet the guard stops the run.\<close>

definition sparse_cfg :: sched_cfg where
  "sparse_cfg = demo_cfg\<lparr>instructions := take 2 demo_stream, releases := [0, 1000]\<rparr>"

lemma sparse_linked: "linked (instructions sparse_cfg)"
proof -
  have "instructions sparse_cfg = link 0 (replicate 32 None) None
      [demo_instr 0x13 False 0 True 1 1, demo_instr 0x03 True 1 True 2 2]" by code_simp
  then show ?thesis by (simp only:) (rule link_linked; simp add: regs_ok_def demo_instr_def)
qed

theorem schedule_errors_witness:
  "\<exists>e k. schedule sparse_cfg = Inl e \<and> e = NoProgress ''window'' k"
proof -
  have "case schedule sparse_cfg of Inl _ \<Rightarrow> True | Inr _ \<Rightarrow> False" by code_simp
  then obtain e where e: "schedule sparse_cfg = Inl e" by (auto split: sum.splits)
  have "releases sparse_cfg \<noteq> []" "count_of sparse_cfg \<le> length (releases sparse_cfg)"
    "instructions sparse_cfg \<noteq> []" "policy sparse_cfg = ''window''" by code_simp+
  with schedule_errors [OF sparse_linked _ _ e] e show ?thesis by auto
qed

section \<open>The whole experiment\<close>

text \<open>
  An experiment that returns scheduled a linked stream four times, and every one of the four
  results accounts for the same instructions: its issue slots and free control instructions add up to
  the retire count of the trace, within the window capacity and at most three a cycle; the projected
  cycle count is the measured one less the cycles selection and buffering save against the calibrated
  strict model.
\<close>

theorem experiment_is_consistent:
  assumes "run_experiment args lines = Inr e"
  shows "\<exists>xs st. load_trace lines = Inr (xs, st) \<and> length (results e) = 4 \<and>
    (\<forall>(name, r) \<in> set (results e).
       int (r_issued r + r_free_branches r + r_free_jumps r) = actual_retired st \<and>
       int (r_max_occupancy r) \<le> max 0 (arg_capacity args) \<and> actual_retired st \<le> 3 * r_cycles r) \<and>
    issue_window_saved_cycles (projected e) =
      the (map_of (map (\<lambda>(n, r). (n, r_cycles r)) (results e)) ''observed_feed_strict'') -
      the (map_of (map (\<lambda>(n, r). (n, r_cycles r)) (results e)) ''debackpressured_feed_window'')"
proof -
  from assms obtain xs st os ow bs bw p where
    l: "load_trace lines = Inr (xs, st)" and
    r: "schedule (feed_cfg args xs (monotonic_release di_observed_release xs) ''strict'' False) = Inr os"
      "schedule (feed_cfg args xs (monotonic_release di_observed_release xs) ''window'' False) = Inr ow"
      "schedule (feed_cfg args xs (monotonic_release di_intrinsic_release xs) ''strict'' True) = Inr bs"
      "schedule (feed_cfg args xs (monotonic_release di_intrinsic_release xs) ''window'' True) = Inr bw" and
    p: "project (total_cycles st) (actual_retired st) os bs bw = Inr p" and
    e: "results e = [(''observed_feed_strict'', os), (''observed_feed_window'', ow),
          (''debackpressured_feed_strict'', bs), (''debackpressured_feed_window'', bw)]" "projected e = p"
    unfolding run_experiment_def Let_def by (auto simp: split: prod.splits)
  obtain instrs where instrs: "xs = link 0 (replicate 32 None) None instrs" "linked xs"
    "int (length xs) = actual_retired st"
    by (rule load_trace_parts [OF l]) (auto simp: link_linked load_trace_regs_ok)
  have one: "int (r_issued r + r_free_branches r + r_free_jumps r) = actual_retired st \<and>
      int (r_max_occupancy r) \<le> max 0 (arg_capacity args) \<and> actual_retired st \<le> 3 * r_cycles r"
    if "schedule (feed_cfg args xs rel pol de) = Inr r" for rel pol de r
    using schedule_sums [OF _ that] instrs(2,3) by (simp add: feed_cfg_def)
  have "issue_window_saved_cycles p = r_cycles os - r_cycles bw"
    using p by (auto simp: project_def Let_def split: if_splits)
  with one [OF r(1)] one [OF r(2)] one [OF r(3)] one [OF r(4)] show ?thesis
    using l by (intro exI [of _ xs] exI [of _ st]) (simp add: e)
qed

text \<open>A trace of one addition: fetched, queued, issued, completed and retired in successive cycles.\<close>

definition demo_lines :: "string list list" where
  "demo_lines =
     [required_fields @ [''f0_uid'', ''q0_uid'', ''q0_pc'', ''q0_instr'', ''i0_uid'', ''c0_uid'', ''r0_uid''],
      [''0'', ''1'', ''1'', ''0'', ''0'', ''0'', ''0'', ''0'', ''0'', ''0'', ''0'', ''0'', ''0'',
       ''7'', ''0'', ''0'', ''0'', ''0'', ''0'', ''0''],
      [''1'', ''0'', ''0'', ''1'', ''1'', ''0'', ''0'', ''1'', ''0'', ''1'', ''2'', ''0'', ''3'',
       ''0'', ''7'', ''80'', ''13'', ''7'', ''0'', ''0''],
      [''2'', ''0'', ''0'', ''0'', ''0'', ''1'', ''0'', ''0'', ''0'', ''0'', ''0'', ''0'', ''0'',
       ''0'', ''0'', ''0'', ''0'', ''0'', ''7'', ''0''],
      [''3'', ''0'', ''0'', ''0'', ''0'', ''0'', ''1'', ''0'', ''0'', ''0'', ''0'', ''0'', ''0'',
       ''0'', ''0'', ''0'', ''0'', ''0'', ''0'', ''7'']]"

definition demo_args :: experiment_args where
  "demo_args = \<lparr>arg_capacity = 16, arg_free_branches = False, arg_free_jumps = False\<rparr>"

theorem experiment_is_consistent_witness:
  "\<exists>e. run_experiment demo_args demo_lines = Inr e \<and> length (results e) = 4"
proof -
  have "case run_experiment demo_args demo_lines of Inr _ \<Rightarrow> True | Inl _ \<Rightarrow> False" by code_simp
  then obtain e where e: "run_experiment demo_args demo_lines = Inr e" by (auto split: sum.splits)
  from experiment_is_consistent [OF e] e show ?thesis by blast
qed

theorem load_trace_linked_witness:
  "\<exists>xs st. load_trace demo_lines = Inr (xs, st) \<and> linked xs \<and> map di_uid xs = [7]"
proof -
  have "case load_trace demo_lines of Inr (xs, st) \<Rightarrow> committed st = [7] | Inl _ \<Rightarrow> False" by code_simp
  then obtain xs st where l: "load_trace demo_lines = Inr (xs, st)" "committed st = [7]"
    by (auto split: sum.splits)
  from load_trace_linked [OF l(1)] l show ?thesis by auto
qed

theorem pipe_assignment_correct_witness:
  "\<exists>a. pipe_assignment demo_stream [1, 3] = Some a \<and> map fst a = [1, 3] \<and> distinct (map snd a)"
proof -
  have "pipe_assignment demo_stream [1, 3] = Some [(1, 2), (3, 0)]" by code_simp
  with pipe_assignment_correct [where xs = demo_stream and sel = "[1, 3]"] show ?thesis by simp
qed

end
