(* ===== verification/ByteCodec.thy ===== *)
theory ByteCodec
  imports PyBase
begin

text \<open>
  Bytes, little-endian integers and byte images. \<open>int.to_bytes(n, "little")\<close> is \<open>le_bytes\<close> and
  \<open>int.from_bytes(..., "little")\<close> is \<open>le_val\<close>; \<open>poke\<close> and \<open>peek\<close> are the slice assignment and
  the slice the image builders and the ELF readers use. The interface \<open>field_codec\<close> is what they rely on:
  an encoding of a fixed width that its decoder inverts. From it follow the read-over-write laws of an
  image, and of a whole list of writes; it is interpreted on the codecs of 2, 4 and 8 bytes.
\<close>

type_synonym byte = "8 word"

section \<open>Little-endian integers\<close>

fun le_bytes :: "nat \<Rightarrow> nat \<Rightarrow> byte list" where
  "le_bytes 0 v = []"
| "le_bytes (Suc n) v = word_of_nat (v mod 256) # le_bytes n (v div 256)"

fun le_val :: "byte list \<Rightarrow> nat" where
  "le_val [] = 0"
| "le_val (b # bs) = unat b + 256 * le_val bs"

lemma length_le_bytes [simp]: "length (le_bytes n v) = n"
  by (induction n arbitrary: v) auto

lemma unat_byte_lt [simp]: "unat (b :: byte) < 256"
  using unsigned_less [of b] by simp

lemma unat_byte_of_nat [simp]: "unat (word_of_nat (v mod 256) :: byte) = v mod 256"
  by (simp add: unat_of_nat)

lemma le_val_le_bytes: "v < 256 ^ n \<Longrightarrow> le_val (le_bytes n v) = v"
proof (induction n arbitrary: v)
  case 0
  then show ?case by simp
next
  case (Suc n)
  then have "v div 256 < 256 ^ n" by (simp add: div_less_iff_less_mult mult.commute)
  with Suc.IH [of "v div 256"] show ?case by simp
qed

lemma le_bytes_le_val [simp]: "le_bytes (length bs) (le_val bs) = bs"
proof (induction bs)
  case (Cons b bs)
  have "(unat b + 256 * le_val bs) div 256 = le_val bs" by (simp add: div_add1_eq)
  moreover have "word_of_nat ((unat b + 256 * le_val bs) mod 256) = b" by simp
  ultimately show ?case using Cons by simp
qed simp

lemma le_val_less: "le_val bs < 256 ^ length bs"
proof (induction bs)
  case (Cons b bs)
  have "unat b + 256 * le_val bs < 256 + 256 * le_val bs" by simp
  also have "\<dots> = 256 * (le_val bs + 1)" by simp
  also have "\<dots> \<le> 256 * 256 ^ length bs" using Cons by (intro mult_le_mono2) simp
  finally show ?case by simp
qed simp

lemma le_val_append: "le_val (xs @ ys) = le_val xs + 256 ^ length xs * le_val ys"
  by (induction xs) (auto simp: algebra_simps)

lemma le_val_zeros [simp]: "le_val (replicate n 0) = 0"
  by (induction n) auto

lemma le_val_inj: "length xs = length ys \<Longrightarrow> le_val xs = le_val ys \<Longrightarrow> xs = ys"
  by (metis le_bytes_le_val)

section \<open>Images\<close>

definition poke :: "nat \<Rightarrow> byte list \<Rightarrow> byte list \<Rightarrow> byte list" where
  "poke offset bs img = slice_assign offset (offset + length bs) bs img"

definition peek :: "nat \<Rightarrow> nat \<Rightarrow> byte list \<Rightarrow> byte list" where
  "peek offset n img = slice offset (offset + n) img"

lemma length_poke [simp]: "offset + length bs \<le> length img \<Longrightarrow> length (poke offset bs img) = length img"
  by (simp add: poke_def length_slice_assign)

lemma nth_poke:
  "offset + length bs \<le> length img \<Longrightarrow> i < length img \<Longrightarrow>
   poke offset bs img ! i = (if offset \<le> i \<and> i < offset + length bs then bs ! (i - offset) else img ! i)"
  by (simp add: poke_def nth_slice_assign)

lemma peek_poke_same: "offset + length bs \<le> length img \<Longrightarrow> peek offset (length bs) (poke offset bs img) = bs"
  by (simp add: peek_def poke_def slice_slice_assign_same)

lemma peek_poke_other:
  assumes "offset + length bs \<le> length img" "a + n \<le> length img"
    "a + n \<le> offset \<or> offset + length bs \<le> a"
  shows "peek a n (poke offset bs img) = peek a n img"
  using assms by (simp add: peek_def poke_def slice_slice_assign_other)

lemma length_peek [simp]: "a + n \<le> length img \<Longrightarrow> length (peek a n img) = n"
  by (simp add: peek_def)

lemma peek_replicate: "a + n \<le> k \<Longrightarrow> peek a n (replicate k x) = replicate n x"
  by (simp add: peek_def slice_def)

lemma peek_eqI:
  assumes "a + n \<le> length x" "a + n \<le> length y" "\<And>i. a \<le> i \<Longrightarrow> i < a + n \<Longrightarrow> x ! i = y ! i"
  shows "peek a n x = peek a n y"
  unfolding peek_def by (rule slice_eqI) (use assms in auto)

section \<open>Fields of a fixed width\<close>

definition write_all :: "('v \<Rightarrow> byte list) \<Rightarrow> (nat \<times> 'v) list \<Rightarrow> byte list \<Rightarrow> byte list" where
  "write_all enc ws img = foldl (\<lambda>im (offset, v). poke offset (enc v) im) img ws"

lemma write_all_simps [simp]:
  "write_all enc [] img = img"
  "write_all enc ((offset, v) # ws) img = write_all enc ws (poke offset (enc v) img)"
  by (simp_all add: write_all_def)

lemma write_all_append: "write_all enc (xs @ ys) img = write_all enc ys (write_all enc xs img)"
  by (simp add: write_all_def)

locale field_codec =
  fixes width :: nat and enc :: "nat \<Rightarrow> byte list" and dec_f :: "byte list \<Rightarrow> nat"
  assumes length_enc: "length (enc v) = width"
    and dec_enc: "v < 256 ^ width \<Longrightarrow> dec_f (enc v) = v"
    and width_pos: "0 < width"
begin

lemma read_same:
  "offset + width \<le> length img \<Longrightarrow> v < 256 ^ width \<Longrightarrow>
   dec_f (peek offset width (poke offset (enc v) img)) = v"
  using peek_poke_same [of offset "enc v" img] by (simp add: length_enc dec_enc)

lemma read_other:
  "offset + width \<le> length img \<Longrightarrow> a + n \<le> length img \<Longrightarrow> a + n \<le> offset \<or> offset + width \<le> a \<Longrightarrow>
   peek a n (poke offset (enc v) img) = peek a n img"
  by (rule peek_poke_other) (simp_all add: length_enc)

lemma length_write_all:
  "\<forall>(offset, v) \<in> set ws. offset + width \<le> length img \<Longrightarrow> length (write_all enc ws img) = length img"
  by (induction ws arbitrary: img) (auto simp: length_enc)

text \<open>Bytes outside every written field keep their value.\<close>

lemma write_all_frame:
  assumes "\<forall>(offset, v) \<in> set ws. offset + width \<le> length img" "a + n \<le> length img"
    "\<forall>(offset, v) \<in> set ws. a + n \<le> offset \<or> offset + width \<le> a"
  shows "peek a n (write_all enc ws img) = peek a n img"
  using assms
proof (induction ws arbitrary: img)
  case Nil
  then show ?case by simp
next
  case (Cons w ws)
  obtain x v where w: "w = (x, v)" by (cases w)
  let ?im = "poke x (enc v) img"
  have len: "length ?im = length img" using Cons.prems(1) w by (simp add: length_enc)
  have "peek a n (write_all enc ws ?im) = peek a n ?im"
    by (rule Cons.IH) (use Cons.prems len in auto)
  also have "\<dots> = peek a n img"
    by (rule read_other) (use Cons.prems w in auto)
  finally show ?case using w by simp
qed

text \<open>
  A field read after a list of aligned writes is the last value written to it, or what was there
  before.
\<close>

lemma read_write_all:
  assumes "\<forall>(x, v) \<in> set ws. x + width \<le> length img \<and> v < 256 ^ width \<and> width dvd x"
    "offset + width \<le> length img" "width dvd offset"
  shows "dec_f (peek offset width (write_all enc ws img)) =
    (case map_of (rev ws) offset of Some v \<Rightarrow> v | None \<Rightarrow> dec_f (peek offset width img))"
  using assms(1)
proof (induction ws rule: rev_induct)
  case Nil
  then show ?case by simp
next
  case (snoc w ws)
  obtain x v where w: "w = (x, v)" by (cases w)
  let ?im = "write_all enc ws img"
  have len: "length ?im = length img" by (rule length_write_all) (use snoc.prems in auto)
  have x: "x + width \<le> length img" "v < 256 ^ width" "width dvd x" using snoc.prems w by auto
  show ?case
  proof (cases "x = offset")
    case True
    with read_same [of offset ?im v] x len w show ?thesis by (simp add: write_all_append)
  next
    case False
    have "offset + width \<le> x \<or> x + width \<le> offset"
    proof (cases "offset < x")
      case True
      with x(3) assms(3) have "width \<le> x - offset" by (intro dvd_imp_le) auto
      with True show ?thesis by simp
    next
      case nle: False
      with False x(3) assms(3) have "width \<le> offset - x" "x < offset" by (auto intro: dvd_imp_le)
      with nle have "x + width \<le> offset" by arith
      then show ?thesis by simp
    qed
    then have "peek offset width (poke x (enc v) ?im) = peek offset width ?im"
      by (intro read_other) (use x len assms(2) in auto)
    with snoc False w show ?thesis by (simp add: write_all_append)
  qed
qed

end

interpretation u64: field_codec 8 "le_bytes 8" le_val
  by unfold_locales (simp_all add: le_val_le_bytes)

interpretation u32: field_codec 4 "le_bytes 4" le_val
  by unfold_locales (simp_all add: le_val_le_bytes)

interpretation u16: field_codec 2 "le_bytes 2" le_val
  by unfold_locales (simp_all add: le_val_le_bytes)

text \<open>The integer field at an offset (\<open>struct.unpack_from("<Q", ...)\<close> and its narrower kin).\<close>

definition field_at :: "nat \<Rightarrow> nat \<Rightarrow> byte list \<Rightarrow> nat" where
  "field_at n offset img = le_val (peek offset n img)"

section \<open>Tables of fixed-size records\<close>

definition write_table :: "nat \<Rightarrow> ('a \<Rightarrow> byte list) \<Rightarrow> nat \<Rightarrow> 'a list \<Rightarrow> byte list \<Rightarrow> byte list" where
  "write_table width enc base vs img =
     foldl (\<lambda>im (i, v). poke (base + i * width) (enc v) im) img (zip [0..<length vs] vs)"

lemma write_table_snoc:
  "write_table width enc base (vs @ [v]) img =
     poke (base + length vs * width) (enc v) (write_table width enc base vs img)"
proof -
  have "zip [0..<length (vs @ [v])] (vs @ [v]) = zip [0..<length vs] vs @ [(length vs, v)]"
    by (simp add: zip_append1)
  then show ?thesis by (simp add: write_table_def)
qed

lemma write_table_Nil [simp]: "write_table width enc base [] img = img"
  by (simp add: write_table_def)

locale record_codec =
  fixes width :: nat and enc :: "'a \<Rightarrow> byte list" and dec_r :: "byte list \<Rightarrow> 'a" and valid :: "'a \<Rightarrow> bool"
  assumes length_enc: "valid v \<Longrightarrow> length (enc v) = width"
    and dec_enc: "valid v \<Longrightarrow> dec_r (enc v) = v"
begin

lemma length_write_table:
  "\<forall>v \<in> set vs. valid v \<Longrightarrow> base + length vs * width \<le> length img \<Longrightarrow>
   length (write_table width enc base vs img) = length img"
proof (induction vs rule: rev_induct)
  case (snoc v vs)
  then have "length (write_table width enc base vs img) = length img" by simp
  with snoc.prems show ?case by (simp add: write_table_snoc length_enc)
qed simp

lemma table_frame:
  "\<forall>v \<in> set vs. valid v \<Longrightarrow> base + length vs * width \<le> length img \<Longrightarrow> a + n \<le> length img \<Longrightarrow>
   a + n \<le> base \<or> base + length vs * width \<le> a \<Longrightarrow>
   peek a n (write_table width enc base vs img) = peek a n img"
proof (induction vs rule: rev_induct)
  case (snoc v vs)
  have len: "length (write_table width enc base vs img) = length img"
    by (rule length_write_table) (use snoc.prems in auto)
  have "peek a n (poke (base + length vs * width) (enc v) (write_table width enc base vs img)) =
      peek a n (write_table width enc base vs img)"
    by (rule peek_poke_other) (use snoc.prems len length_enc in auto)
  with snoc show ?case by (auto simp: write_table_snoc)
qed simp

lemma table_read:
  "\<forall>v \<in> set vs. valid v \<Longrightarrow> base + length vs * width \<le> length img \<Longrightarrow> i < length vs \<Longrightarrow>
   peek (base + i * width) width (write_table width enc base vs img) = enc (vs ! i)"
proof (induction vs rule: rev_induct)
  case (snoc v vs)
  let ?im = "write_table width enc base vs img"
  have len: "length ?im = length img" by (rule length_write_table) (use snoc.prems in auto)
  have v: "length (enc v) = width" using snoc.prems(1) by (simp add: length_enc)
  show ?case
  proof (cases "i = length vs")
    case True
    have "peek (base + i * width) (length (enc v)) (poke (base + length vs * width) (enc v) ?im) = enc v"
      unfolding True by (rule peek_poke_same) (use snoc.prems len v in auto)
    with True v show ?thesis by (simp add: write_table_snoc)
  next
    case False
    then have i: "i < length vs" using snoc.prems(3) by simp
    then have "Suc i * width \<le> length vs * width" by (intro mult_le_mono1) simp
    then have "peek (base + i * width) width (poke (base + length vs * width) (enc v) ?im) =
        peek (base + i * width) width ?im"
      by (intro peek_poke_other) (use snoc.prems len v in auto)
    also have "\<dots> = enc (vs ! i)" by (rule snoc.IH) (use snoc.prems i in auto)
    finally show ?thesis using i by (simp add: write_table_snoc nth_append)
  qed
qed simp

lemma table_decodes:
  assumes "\<forall>v \<in> set vs. valid v" "base + length vs * width \<le> length img"
  shows "map (\<lambda>i. dec_r (peek (base + i * width) width (write_table width enc base vs img))) [0..<length vs] = vs"
  by (rule nth_equalityI) (use assms in \<open>simp_all add: table_read dec_enc\<close>)

end

end
