(* ===== verification/Readmemh.thy ===== *)
theory Readmemh
  imports ByteCodec
begin

text \<open>
  Hexadecimal text of bytes and words, and the specification of the Verilog loader \<open>$readmemh\<close> the
  memory-image tools write for: a line \<open>@hex\<close> sets the word address, any other line is the word at
  the current address, which then advances by one.
\<close>

section \<open>bytes.hex()\<close>

definition hex_byte :: "byte \<Rightarrow> string" where
  "hex_byte b = [digit_char (unat b div 16), digit_char (unat b mod 16)]"

definition bytes_hex :: "byte list \<Rightarrow> string" where
  "bytes_hex bs = concat (map hex_byte bs)"

lemma length_bytes_hex [simp]: "length (bytes_hex bs) = 2 * length bs"
  by (induction bs) (auto simp: bytes_hex_def hex_byte_def)

lemma read_digits_hex_byte:
  "read_digits 16 (hex_byte b @ rest) acc f = read_digits 16 rest (acc * 256 + unat b) True"
proof -
  have "unat b div 16 < 16" by (rule less_mult_imp_div_less) simp
  moreover have "unat b mod 16 < 36" by (rule less_le_trans [of _ 16]) simp_all
  moreover have "acc * 256 + unat b = (acc * 16 + unat b div 16) * 16 + unat b mod 16"
    by (simp add: algebra_simps)
  ultimately show ?thesis by (simp add: hex_byte_def ac_simps)
qed

lemma read_digits_bytes_hex:
  "read_digits 16 (bytes_hex bs) acc f =
     (if bs = [] \<and> \<not> f then None else Some (foldl (\<lambda>a b. a * 256 + unat b) acc bs))"
proof (induction bs arbitrary: acc f)
  case Nil
  then show ?case by (simp add: bytes_hex_def)
next
  case (Cons b bs)
  have "bytes_hex (b # bs) = hex_byte b @ bytes_hex bs" by (simp add: bytes_hex_def)
  then show ?case using Cons by (simp only: read_digits_hex_byte) simp
qed

lemma foldl_be_rev: "foldl (\<lambda>a b. a * 256 + unat (b :: byte)) 0 (rev bs) = le_val bs"
  by (induction bs) simp_all

text \<open>\<open>words[index][::-1].hex()\<close> reads back as the little-endian word.\<close>

lemma read_word_hex: "bs \<noteq> [] \<Longrightarrow> read_digits 16 (bytes_hex (rev bs)) 0 False = Some (le_val bs)"
  by (simp add: read_digits_bytes_hex foldl_be_rev)

lemma bytes_hex_head:
  assumes "bs \<noteq> []"
  shows "\<exists>d < 16. \<exists>rest. bytes_hex bs = digit_char d # rest"
proof -
  obtain b rest where "bs = b # rest" using assms by (cases bs) auto
  moreover have "unat b div 16 < 16" by (rule less_mult_imp_div_less) simp
  ultimately show ?thesis by (auto simp: bytes_hex_def hex_byte_def)
qed

section \<open>Zero-padded words\<close>

lemma read_zeros: "read_digits b (replicate k CHR ''0'' @ s) 0 f = read_digits b s 0 (f \<or> 0 < k)" if "0 < b"
proof (induction k arbitrary: f)
  case 0
  then show ?case by simp
next
  case (Suc k)
  have "digit_val CHR ''0'' = Some 0" by (simp add: digit_val_def)
  with Suc that show ?case by simp
qed

lemma hex0_nat: "hex0 w (int n) = replicate (w - length (nat_str 16 n)) CHR ''0'' @ nat_str 16 n"
  by (simp add: hex0_def Let_def)

lemma read_hex0: "read_digits 16 (hex0 w (int n)) 0 f = Some n"
  by (simp add: hex0_nat read_zeros read_digits_nat_str)

lemma digit_char_at: "digit_char d \<noteq> CHR ''@''" if "d < 16"
proof
  assume "digit_char d = CHR ''@''"
  then have "(of_char (digit_char d) :: nat) = of_char (CHR ''@'')" by simp
  with that show False by (simp add: of_char_digit_char split: if_splits)
qed

lemma zero_digit_char: "CHR ''0'' = digit_char 0"
  by code_simp

lemma hex0_chars: "c \<in> set (hex0 w (int n)) \<Longrightarrow> \<exists>d < 16. c = digit_char d"
proof -
  assume "c \<in> set (hex0 w (int n))"
  then have "c = CHR ''0'' \<or> c \<in> set (nat_str 16 n)" by (auto simp: hex0_nat split: if_splits)
  then show "\<exists>d < 16. c = digit_char d"
  proof
    assume "c = CHR ''0''"
    then show ?thesis using zero_digit_char by (intro exI [of _ 0]) simp
  next
    assume "c \<in> set (nat_str 16 n)"
    then show ?thesis by (intro nat_str_digits) simp_all
  qed
qed

lemma hex0_no_at: "hex0 w (int n) = c # rest \<Longrightarrow> c \<noteq> CHR ''@''"
  using hex0_chars [of c w n] digit_char_at by auto

section \<open>The loader\<close>

fun readmemh :: "nat \<Rightarrow> string list \<Rightarrow> (nat \<times> nat) list option" where
  "readmemh address [] = Some []"
| "readmemh address (line # rest) =
     (case line of
        [] \<Rightarrow> None
      | c # digits \<Rightarrow>
          if c = CHR ''@''
          then (case read_digits 16 digits 0 False of
                  None \<Rightarrow> None | Some a \<Rightarrow> readmemh a rest)
          else (case read_digits 16 line 0 False of
                  None \<Rightarrow> None
                | Some v \<Rightarrow> map_option ((#) (address, v)) (readmemh (Suc address) rest)))"

lemma readmemh_address:
  "readmemh a ((CHR ''@'' # nat_str 16 n) # rest) = readmemh n rest"
  by (simp add: read_digits_nat_str)

lemma readmemh_word:
  assumes "line = c # cs" "c \<noteq> CHR ''@''" "read_digits 16 line 0 False = Some v"
  shows "readmemh a (line # rest) = map_option ((#) (a, v)) (readmemh (Suc a) rest)"
  using assms by simp

end
