(* ===== verification/ElfImage.thy ===== *)
theory ElfImage
  imports Readmemh "HOL-Library.AList"
begin

text \<open>
  \<open>tools/elf2mem.py\<close>: the PT_LOAD segments of an ELF64 image as sparse memory words. \<open>load_elf\<close> reads
  the headers, \<open>image_words\<close> places every segment byte (zero-filled up to its memory size) and rejects
  conflicting overlaps, \<open>write_memh\<close> prints the words. A Python dict is the list of its items in
  insertion order.
\<close>

section \<open>Reading the ELF file\<close>

record segment =
  seg_address :: nat
  seg_data :: "byte list"
  seg_memory_size :: nat

datatype elf_error =
    NotElf
  | NotElf64
  | NotLittleEndian
  | NotRiscv nat
  | BadPhentsize nat
  | TruncatedProgramHeader nat
  | InvalidSegment nat
  | NoSegments
  | BadWordBytes
  | OutsideAperture nat nat
  | NegativeCount
  | ConflictingBytes nat nat nat

definition ELF_MAGIC :: "byte list" where "ELF_MAGIC = [0x7f, 0x45, 0x4c, 0x46]"
definition PT_LOAD :: nat where "PT_LOAD = 1"

text \<open>One iteration of the program-header loop; \<open>None\<close> is its \<open>continue\<close>.\<close>

definition program_header :: "byte list \<Rightarrow> nat \<Rightarrow> nat \<Rightarrow> nat \<Rightarrow> elf_error + segment option" where
  "program_header blob phoff phentsize index =
     (let offset = phoff + index * phentsize in
      if length blob < offset + 56 then Inl (TruncatedProgramHeader index)
      else
        let p_type = field_at 4 offset blob;
            p_offset = field_at 8 (offset + 8) blob;
            p_vaddr = field_at 8 (offset + 16) blob;
            p_paddr = field_at 8 (offset + 24) blob;
            p_filesz = field_at 8 (offset + 32) blob;
            p_memsz = field_at 8 (offset + 40) blob
        in if p_type \<noteq> PT_LOAD \<or> p_memsz = 0 then Inr None
           else if p_memsz < p_filesz \<or> length blob < p_offset + p_filesz then Inl (InvalidSegment index)
           else Inr (Some \<lparr>seg_address = (if p_paddr \<noteq> 0 then p_paddr else p_vaddr),
                           seg_data = slice p_offset (p_offset + p_filesz) blob,
                           seg_memory_size = p_memsz\<rparr>))"

definition load_elf :: "byte list \<Rightarrow> elf_error + (nat \<times> segment list)" where
  "load_elf blob =
     (if length blob < 64 \<or> slice 0 4 blob \<noteq> ELF_MAGIC then Inl NotElf
      else if blob ! 4 \<noteq> 2 then Inl NotElf64
      else if blob ! 5 \<noteq> 1 then Inl NotLittleEndian
      else
        let machine = field_at 2 18 blob;
            entry = field_at 8 24 blob;
            phoff = field_at 8 32 blob;
            phentsize = field_at 2 54 blob;
            phnum = field_at 2 56 blob
        in if machine \<noteq> 243 then Inl (NotRiscv machine)
           else if phentsize < 56 then Inl (BadPhentsize phentsize)
           else bindE (mapE (program_header blob phoff phentsize) [0..<phnum]) (\<lambda>headers.
             let segments = map the (filter (\<lambda>h. h \<noteq> None) headers) in
             if segments = [] then Inl NoSegments else Inr (entry, segments)))"

section \<open>Placing the bytes\<close>

record image_state =
  words :: "(nat \<times> byte list) list"
  owner :: "nat \<Rightarrow> (nat \<times> byte) option"

definition put_lane :: "nat \<Rightarrow> nat \<Rightarrow> byte \<Rightarrow> (nat \<times> byte list) list \<Rightarrow> (nat \<times> byte list) list" where
  "put_lane word_bytes offset value ws =
     (let word_index = offset div word_bytes; lane = offset mod word_bytes;
          word = (case map_of ws word_index of Some w \<Rightarrow> w | None \<Rightarrow> replicate word_bytes 0)
      in AList.update word_index (word[lane := value]) ws)"

definition place_byte ::
  "int \<Rightarrow> nat \<Rightarrow> nat \<Rightarrow> nat \<times> byte \<Rightarrow> image_state \<Rightarrow> elf_error + image_state" where
  "place_byte base word_bytes segment_index av st =
     (case av of (absolute, value) \<Rightarrow>
        let placed = \<lparr>words = put_lane word_bytes (nat (int absolute - base)) value (words st),
                      owner = (owner st)(absolute \<mapsto> (segment_index, value))\<rparr>
        in case owner st absolute of
             Some (previous, v) \<Rightarrow>
               if v \<noteq> value then Inl (ConflictingBytes absolute previous segment_index) else Inr placed
           | None \<Rightarrow> Inr placed)"

definition payload :: "segment \<Rightarrow> byte list" where
  "payload seg = seg_data seg @ replicate (seg_memory_size seg - length (seg_data seg)) 0"

definition place_segment ::
  "int \<Rightarrow> int \<Rightarrow> nat \<Rightarrow> nat \<times> segment \<Rightarrow> image_state \<Rightarrow> elf_error + image_state" where
  "place_segment base limit word_bytes entry st =
     (case entry of (segment_index, seg) \<Rightarrow>
        let first = seg_address seg; last_end = first + seg_memory_size seg in
        if int first < base \<or> limit < int last_end \<or> last_end < first
        then Inl (OutsideAperture first last_end)
        else if seg_memory_size seg < length (seg_data seg) then Inl NegativeCount
        else foldE (place_byte base word_bytes segment_index)
               (zip [first..<last_end] (payload seg)) st)"

definition image_words ::
  "segment list \<Rightarrow> int \<Rightarrow> int \<Rightarrow> nat \<Rightarrow> elf_error + (nat \<times> byte list) list" where
  "image_words segments base mem_size word_bytes =
     (if word_bytes \<noteq> 8 \<and> word_bytes \<noteq> 32 then Inl BadWordBytes
      else bindE (foldE (place_segment base (base + mem_size) word_bytes)
                    (zip [0..<length segments] segments) \<lparr>words = [], owner = Map.empty\<rparr>)
             (\<lambda>st. Inr (words st)))"

section \<open>Printing the words\<close>

fun memh_lines :: "int \<Rightarrow> (nat \<times> byte list) list \<Rightarrow> string list" where
  "memh_lines previous [] = []"
| "memh_lines previous ((index, word) # rest) =
     (if int index \<noteq> previous + 1 then [CHR ''@'' # nat_str 16 index] else []) @
     bytes_hex (rev word) # memh_lines (int index) rest"

definition sorted_items :: "(nat \<times> 'a) list \<Rightarrow> (nat \<times> 'a) list" where
  "sorted_items ws = map (\<lambda>k. (k, the (map_of ws k))) (sort (map fst ws))"

definition write_memh :: "(nat \<times> byte list) list \<Rightarrow> string list" where
  "write_memh ws = memh_lines (- 2) (sorted_items ws)"

section \<open>The manifest\<close>

record elf_manifest =
  mf_entry :: nat
  mf_ram_base :: int
  mf_ram_size :: int
  mf_word_bytes :: nat
  mf_loaded_start :: nat
  mf_loaded_end :: nat
  mf_segments :: nat

definition convert_elf ::
  "byte list \<Rightarrow> int \<Rightarrow> int \<Rightarrow> nat \<Rightarrow> elf_error + (string list \<times> elf_manifest)" where
  "convert_elf blob base mem_size word_bytes =
     bindE (load_elf blob) (\<lambda>(entry, segments).
     bindE (image_words segments base mem_size word_bytes) (\<lambda>ws.
       Inr (write_memh ws,
         \<lparr>mf_entry = entry, mf_ram_base = base, mf_ram_size = mem_size, mf_word_bytes = word_bytes,
          mf_loaded_start = Min (set (map seg_address segments)),
          mf_loaded_end = Max (set (map (\<lambda>s. seg_address s + seg_memory_size s) segments)),
          mf_segments = length segments\<rparr>)))"

section \<open>The placed bytes\<close>

definition read_byte :: "nat \<Rightarrow> (nat \<times> byte list) list \<Rightarrow> nat \<Rightarrow> byte option" where
  "read_byte word_bytes ws offset = map_option (\<lambda>w. w ! (offset mod word_bytes)) (map_of ws (offset div word_bytes))"

definition words_ok :: "nat \<Rightarrow> (nat \<times> byte list) list \<Rightarrow> bool" where
  "words_ok word_bytes ws \<longleftrightarrow> distinct (map fst ws) \<and> (\<forall>x \<in> set ws. length (snd x) = word_bytes)"

lemma map_of_put_lane:
  "map_of (put_lane wb off v ws) k =
     (if k = off div wb
      then Some ((case map_of ws k of Some w \<Rightarrow> w | None \<Rightarrow> replicate wb 0)[off mod wb := v])
      else map_of ws k)"
  by (simp add: put_lane_def Let_def update_conv)

lemma words_ok_length:
  assumes "words_ok wb ws" "map_of ws k = Some w"
  shows "length w = wb"
proof -
  have "(k, w) \<in> set ws" by (rule map_of_SomeD [OF assms(2)])
  with assms(1) have "length (snd (k, w)) = wb" unfolding words_ok_def by blast
  then show ?thesis by simp
qed

lemma words_ok_put_lane:
  assumes "words_ok wb ws"
  shows "words_ok wb (put_lane wb off v ws)"
proof -
  let ?w = "(case map_of ws (off div wb) of Some w \<Rightarrow> w | None \<Rightarrow> replicate wb 0)[off mod wb := v]"
  have "length ?w = wb" using words_ok_length [OF assms] by (auto split: option.split)
  moreover have "set (AList.update k w ws) \<subseteq> insert (k, w) (set ws)" for k and w :: "byte list"
    by (induction ws) auto
  ultimately have "\<forall>x \<in> set (put_lane wb off v ws). length (snd x) = wb"
    using assms unfolding put_lane_def Let_def words_ok_def by fastforce
  moreover have "distinct (map fst (put_lane wb off v ws))"
    using assms unfolding put_lane_def Let_def words_ok_def by (intro distinct_update) simp
  ultimately show ?thesis unfolding words_ok_def by blast
qed

lemma read_put_lane:
  assumes "words_ok wb ws" "0 < wb"
  shows "read_byte wb (put_lane wb off v ws) off' =
    (if off' = off then Some v
     else if off' div wb = off div wb \<and> map_of ws (off div wb) = None then Some 0
     else read_byte wb ws off')"
proof (cases "off' div wb = off div wb")
  case True
  have "off' mod wb = off mod wb \<longleftrightarrow> off' = off" using True by (metis div_mult_mod_eq)
  moreover have "off mod wb < wb" "off' mod wb < wb" using assms(2) by simp_all
  ultimately show ?thesis
    using True words_ok_length [OF assms(1)]
    by (auto simp: read_byte_def map_of_put_lane nth_list_update split: option.split)
next
  case False
  then show ?thesis by (auto simp: read_byte_def map_of_put_lane)
qed

text \<open>\<open>P\<close> is the set of (address, value) pairs placed so far.\<close>

definition image_inv :: "int \<Rightarrow> nat \<Rightarrow> (nat \<times> byte) set \<Rightarrow> image_state \<Rightarrow> bool" where
  "image_inv base wb P st \<longleftrightarrow>
     words_ok wb (words st) \<and>
     (\<forall>a v. (\<exists>i. owner st a = Some (i, v)) \<longleftrightarrow> (a, v) \<in> P) \<and>
     (\<forall>(a, v) \<in> P. base \<le> int a \<and> read_byte wb (words st) (nat (int a - base)) = Some v) \<and>
     (\<forall>off v. read_byte wb (words st) off = Some v \<longrightarrow>
        v = 0 \<or> (\<exists>a. nat (int a - base) = off \<and> (a, v) \<in> P)) \<and>
     (\<forall>k. k \<in> fst ` set (words st) \<longleftrightarrow> (\<exists>(a, v) \<in> P. nat (int a - base) div wb = k))"

lemma place_byte_inv:
  assumes inv: "image_inv base wb P st" and wb: "0 < wb" and a: "base \<le> int a"
    and step: "place_byte base wb i (a, v) st = Inr st'"
  shows "image_inv base wb (insert (a, v) P) st'"
proof -
  let ?off = "nat (int a - base)"
  note I = inv [unfolded image_inv_def]
  have same: "\<And>j w. owner st a = Some (j, w) \<Longrightarrow> w = v"
    and st': "words st' = put_lane wb ?off v (words st)" "owner st' = (owner st)(a \<mapsto> (i, v))"
    using step by (auto simp: place_byte_def Let_def split: option.splits if_splits)
  have ok: "words_ok wb (words st)" using I by simp
  note rd = read_put_lane [OF ok wb]
  have uniq: "w = v" if "(a, w) \<in> P" for w using I same that by metis
  have inj: "nat (int b - base) = ?off \<longleftrightarrow> b = a" if "base \<le> int b" for b using a that by auto
  have own: "(\<exists>j. owner st' b = Some (j, w)) \<longleftrightarrow> (b, w) \<in> insert (a, v) P" for b w
    using I uniq by (auto simp: st'(2))
  have reads: "base \<le> int b \<and> read_byte wb (words st') (nat (int b - base)) = Some w"
    if "(b, w) \<in> insert (a, v) P" for b w
  proof (cases "b = a")
    case True
    with that uniq a show ?thesis by (auto simp: st'(1) rd)
  next
    case False
    with that have p: "(b, w) \<in> P" by simp
    with I have "base \<le> int b" "read_byte wb (words st) (nat (int b - base)) = Some w" by auto
    moreover from this have "map_of (words st) (nat (int b - base) div wb) \<noteq> None" by (auto simp: read_byte_def)
    ultimately show ?thesis using False inj by (auto simp: st'(1) rd)
  qed
  have only: "w = 0 \<or> (\<exists>b. nat (int b - base) = off \<and> (b, w) \<in> insert (a, v) P)"
    if "read_byte wb (words st') off = Some w" for off w
  proof (cases "off = ?off")
    case True
    with that a show ?thesis by (auto simp: st'(1) rd)
  next
    case False
    with that have "w = 0 \<or> read_byte wb (words st) off = Some w"
      by (auto simp: st'(1) rd split: if_splits)
    moreover have "read_byte wb (words st) off = Some w \<Longrightarrow>
        w = 0 \<or> (\<exists>b. nat (int b - base) = off \<and> (b, w) \<in> P)" using I by blast
    ultimately show ?thesis by blast
  qed
  have keys: "k \<in> fst ` set (words st') \<longleftrightarrow> (\<exists>(b, w) \<in> insert (a, v) P. nat (int b - base) div wb = k)" for k
  proof -
    have "fst ` set (words st') = insert (?off div wb) (fst ` set (words st))"
    proof -
      have "dom (map_of (words st')) = insert (?off div wb) (dom (map_of (words st)))"
        unfolding st'(1) by (auto simp: map_of_put_lane)
      then show ?thesis by (simp only: dom_map_of_conv_image_fst)
    qed
    moreover have "k \<in> fst ` set (words st) \<longleftrightarrow> (\<exists>(b, w) \<in> P. nat (int b - base) div wb = k)"
      using I by (elim conjE) (erule spec)
    ultimately have "k \<in> fst ` set (words st') \<longleftrightarrow>
        k = ?off div wb \<or> (\<exists>(b, w) \<in> P. nat (int b - base) div wb = k)" by (simp only: insert_iff)
    then show ?thesis by (simp only: bex_simps prod.case) blast
  qed
  show ?thesis unfolding image_inv_def
    using words_ok_put_lane [OF ok] own reads only keys unfolding st'(1) by blast
qed

section \<open>The segments\<close>

definition segment_byte :: "segment \<Rightarrow> nat \<Rightarrow> byte option" where
  "segment_byte seg a =
     (if seg_address seg \<le> a \<and> a < seg_address seg + seg_memory_size seg
      then Some (if a - seg_address seg < length (seg_data seg) then seg_data seg ! (a - seg_address seg) else 0)
      else None)"

definition segment_ok :: "int \<Rightarrow> int \<Rightarrow> segment \<Rightarrow> bool" where
  "segment_ok base mem_size seg \<longleftrightarrow>
     base \<le> int (seg_address seg) \<and> int (seg_address seg + seg_memory_size seg) \<le> base + mem_size \<and>
     length (seg_data seg) \<le> seg_memory_size seg"

definition bytes_of :: "segment \<Rightarrow> (nat \<times> byte) set" where
  "bytes_of seg = {(a, v). segment_byte seg a = Some v}"

lemma set_zip_payload:
  assumes "length (seg_data seg) \<le> seg_memory_size seg"
  shows "set (zip [seg_address seg..<seg_address seg + seg_memory_size seg] (payload seg)) = bytes_of seg"
proof -
  have len: "length (payload seg) = seg_memory_size seg" using assms by (simp add: payload_def)
  have nth: "payload seg ! i = (if i < length (seg_data seg) then seg_data seg ! i else 0)" if "i < seg_memory_size seg" for i
    using that assms by (simp add: payload_def nth_append)
  show ?thesis
  proof (intro equalityI subsetI)
    fix p assume "p \<in> set (zip [seg_address seg..<seg_address seg + seg_memory_size seg] (payload seg))"
    then obtain i where "i < seg_memory_size seg" "p = (seg_address seg + i, payload seg ! i)"
      using len by (auto simp: set_zip)
    then show "p \<in> bytes_of seg" by (simp add: bytes_of_def segment_byte_def nth)
  next
    fix p assume "p \<in> bytes_of seg"
    then obtain a v where p: "p = (a, v)" "segment_byte seg a = Some v" by (auto simp: bytes_of_def)
    let ?i = "a - seg_address seg"
    have "?i < seg_memory_size seg" "a = seg_address seg + ?i" "v = payload seg ! ?i"
      using p(2) nth by (auto simp: segment_byte_def split: if_splits)
    then show "p \<in> set (zip [seg_address seg..<seg_address seg + seg_memory_size seg] (payload seg))"
      using len p(1) by (auto simp: set_zip intro: exI [of _ ?i])
  qed
qed

lemma place_bytes:
  assumes "image_inv base wb P st" "0 < wb" "\<forall>(a, v) \<in> set xs. base \<le> int a"
  shows "case foldE (place_byte base wb i) xs st of
      Inr st' \<Rightarrow> image_inv base wb (P \<union> set xs) st'
    | Inl e \<Rightarrow> \<exists>a v w. (a, v) \<in> P \<union> set xs \<and> (a, w) \<in> set xs \<and> v \<noteq> w"
  using assms
proof (induction xs arbitrary: P st)
  case Nil
  then show ?case by simp
next
  case (Cons x xs)
  obtain a v where x: "x = (a, v)" by (cases x)
  show ?case
  proof (cases "place_byte base wb i x st")
    case (Inl e)
    then obtain j w where "owner st a = Some (j, w)" "w \<noteq> v"
      by (auto simp: x place_byte_def Let_def split: option.splits if_splits)
    then have "(a, w) \<in> P" using Cons.prems(1) unfolding image_inv_def by blast
    with Inl x \<open>w \<noteq> v\<close> show ?thesis by auto
  next
    case (Inr t)
    have "image_inv base wb (insert x P) t" unfolding x
      by (rule place_byte_inv [OF Cons.prems(1,2)]) (use Cons.prems(3) Inr x in auto)
    from Cons.IH [OF this Cons.prems(2)] Cons.prems(3) Inr show ?thesis
      by (auto split: sum.splits)
  qed
qed

lemma place_segments:
  assumes "image_inv base wb P st" "0 < wb"
  shows "case foldE (place_segment base (base + mem_size) wb) xs st of
      Inr st' \<Rightarrow> (\<forall>(i, seg) \<in> set xs. segment_ok base mem_size seg) \<and>
        image_inv base wb (P \<union> (\<Union>(i, seg) \<in> set xs. bytes_of seg)) st'
    | Inl e \<Rightarrow> (\<exists>(i, seg) \<in> set xs. \<not> segment_ok base mem_size seg) \<or>
        (\<exists>a v w. (a, v) \<in> P \<union> (\<Union>(i, seg) \<in> set xs. bytes_of seg) \<and>
           (a, w) \<in> (\<Union>(i, seg) \<in> set xs. bytes_of seg) \<and> v \<noteq> w)"
  using assms
proof (induction xs arbitrary: P st)
  case Nil
  then show ?case by simp
next
  case (Cons x xs)
  obtain i seg where x: "x = (i, seg)" by (cases x)
  show ?case
  proof (cases "segment_ok base mem_size seg")
    case False
    then have "\<exists>e. place_segment base (base + mem_size) wb x st = Inl e"
      by (auto simp: x place_segment_def segment_ok_def Let_def)
    with False x show ?thesis by auto
  next
    case True
    let ?bs = "zip [seg_address seg..<seg_address seg + seg_memory_size seg] (payload seg)"
    have bs: "set ?bs = bytes_of seg" using True by (intro set_zip_payload) (simp add: segment_ok_def)
    have step: "place_segment base (base + mem_size) wb x st = foldE (place_byte base wb i) ?bs st"
      using True by (auto simp: x place_segment_def segment_ok_def Let_def)
    have "\<forall>(a, v) \<in> set ?bs. base \<le> int a"
      using True unfolding bs by (auto simp: bytes_of_def segment_byte_def segment_ok_def split: if_splits)
    note pb = place_bytes [OF Cons.prems this, of i, unfolded bs]
    show ?thesis
    proof (cases "foldE (place_byte base wb i) ?bs st")
      case (Inl e)
      with pb step x show ?thesis by auto
    next
      case (Inr t)
      with pb have "image_inv base wb (P \<union> bytes_of seg) t" by simp
      note ih = Cons.IH [OF this Cons.prems(2)]
      have fold: "foldE (place_segment base (base + mem_size) wb) (x # xs) st =
          foldE (place_segment base (base + mem_size) wb) xs t" using Inr step by simp
      let ?U = "\<Union>(i, seg) \<in> set xs. bytes_of seg"
      have un: "(\<Union>(i, seg) \<in> set (x # xs). bytes_of seg) = bytes_of seg \<union> ?U"
        and all: "(\<forall>(i, seg) \<in> set (x # xs). segment_ok base mem_size seg) \<longleftrightarrow>
          (\<forall>(i, seg) \<in> set xs. segment_ok base mem_size seg)"
        and ex: "(\<exists>(i, seg) \<in> set (x # xs). \<not> segment_ok base mem_size seg) \<longleftrightarrow>
          (\<exists>(i, seg) \<in> set xs. \<not> segment_ok base mem_size seg)"
        using x True by auto
      show ?thesis
        unfolding fold un all ex Un_assoc [symmetric] using ih
        by (cases "foldE (place_segment base (base + mem_size) wb) xs t") (simp_all, blast)
    qed
  qed
qed

lemma image_inv_empty: "image_inv base wb {} \<lparr>words = [], owner = Map.empty\<rparr>"
  by (simp add: image_inv_def words_ok_def read_byte_def)

lemma image_words_cases:
  assumes "wb = 8 \<or> wb = 32"
  shows "case image_words segs base mem_size wb of
      Inr ws \<Rightarrow> (\<forall>seg \<in> set segs. segment_ok base mem_size seg) \<and>
        (\<exists>st. words st = ws \<and> image_inv base wb (\<Union>seg \<in> set segs. bytes_of seg) st)
    | Inl e \<Rightarrow> (\<exists>seg \<in> set segs. \<not> segment_ok base mem_size seg) \<or>
        (\<exists>s \<in> set segs. \<exists>t \<in> set segs. \<exists>a v w. segment_byte s a = Some v \<and> segment_byte t a = Some w \<and> v \<noteq> w)"
proof -
  let ?xs = "zip [0..<length segs] segs"
  have segs: "set segs = snd ` set ?xs" by (metis length_upt map_snd_zip minus_nat.diff_0 set_map)
  have un: "(\<Union>(i, seg) \<in> set ?xs. bytes_of seg) = (\<Union>seg \<in> set segs. bytes_of seg)"
    unfolding segs by auto
  have all: "(\<forall>(i, seg) \<in> set ?xs. Q seg) \<longleftrightarrow> (\<forall>seg \<in> set segs. Q seg)" for Q
    unfolding segs by auto
  have ex: "(\<exists>(i, seg) \<in> set ?xs. Q seg) \<longleftrightarrow> (\<exists>seg \<in> set segs. Q seg)" for Q
    unfolding segs by force
  have pos: "0 < wb" using assms by auto
  note ps = place_segments [OF image_inv_empty pos, where xs = ?xs and base = base and mem_size = mem_size, unfolded un all ex]
  show ?thesis
  proof (cases "foldE (place_segment base (base + mem_size) wb) ?xs \<lparr>words = [], owner = Map.empty\<rparr>")
    case (Inl e)
    then have "image_words segs base mem_size wb = Inl e" using assms by (auto simp: image_words_def)
    with Inl ps show ?thesis by (simp add: bytes_of_def) blast
  next
    case (Inr st)
    then have "image_words segs base mem_size wb = Inr (words st)" using assms by (auto simp: image_words_def)
    with Inr ps show ?thesis by auto
  qed
qed

section \<open>The printed text\<close>

lemma readmemh_memh_lines:
  assumes "\<forall>(k, w) \<in> set items. w \<noteq> []" "previous \<noteq> - 2 \<Longrightarrow> int a = previous + 1"
  shows "readmemh a (memh_lines previous items) = Some (map (\<lambda>(k, w). (k, le_val w)) items)"
  using assms
proof (induction items arbitrary: previous a)
  case Nil
  then show ?case by simp
next
  case (Cons x items)
  obtain k w where x: "x = (k, w)" by (cases x)
  have w: "rev w \<noteq> []" using Cons.prems(1) x by auto
  obtain d rest where d: "bytes_hex (rev w) = digit_char d # rest" "d < 16" using bytes_hex_head [OF w] by blast
  have "read_digits 16 (bytes_hex (rev w)) 0 False = Some (le_val w)" using w by (simp add: read_word_hex)
  note word = readmemh_word [OF d(1) digit_char_at [OF d(2)] this]
  have ih: "readmemh (Suc k) (memh_lines (int k) items) = Some (map (\<lambda>(k, w). (k, le_val w)) items)"
    by (rule Cons.IH) (use Cons.prems(1) in auto)
  show ?case
  proof (cases "int k = previous + 1")
    case True
    then have "a = k" using Cons.prems(2) by (cases "previous = - 2") simp_all
    with True word [of a] ih x show ?thesis by simp
  next
    case False
    with readmemh_address [of a k] word [of k] ih x show ?thesis
      by (simp del: readmemh.simps)
  qed
qed

lemma sorted_items_nth:
  assumes "distinct (map fst ws)"
  shows "set (sorted_items ws) = set ws" "sorted_wrt (<) (map fst (sorted_items ws))"
proof -
  have "(k, the (map_of ws k)) \<in> set ws" if "k \<in> fst ` set ws" for k
    using that assms by (auto simp: map_of_is_SomeI)
  then show "set (sorted_items ws) = set ws"
    using assms by (force simp: sorted_items_def map_of_is_SomeI)
  show "sorted_wrt (<) (map fst (sorted_items ws))"
    using assms by (simp add: sorted_items_def o_def strict_sorted_iff)
qed

lemma map_of_sorted_items:
  assumes "distinct (map fst ws)"
  shows "map_of (sorted_items ws) = map_of ws"
proof -
  have "distinct (map fst (sorted_items ws))"
    using sorted_items_nth(2) [OF assms] by (simp add: strict_sorted_iff)
  with assms sorted_items_nth(1) [OF assms] show ?thesis by (metis map_of_inject_set)
qed

text \<open>
  The printed text is a faithful image of the words: read by \<open>$readmemh\<close>, it gives exactly the
  dictionary's words, in ascending order of their index, whatever the gaps between them.
\<close>

theorem write_memh_reads_back:
  assumes "words_ok word_bytes ws" "0 < word_bytes"
  shows "\<exists>mem. readmemh 0 (write_memh ws) = Some mem \<and> sorted_wrt (<) (map fst mem) \<and>
    map_of mem = (\<lambda>k. map_option le_val (map_of ws k))"
proof -
  have d: "distinct (map fst ws)" using assms(1) by (simp add: words_ok_def)
  have "\<forall>(k, w) \<in> set (sorted_items ws). w \<noteq> []"
    unfolding sorted_items_nth(1) [OF d] using assms by (fastforce simp: words_ok_def)
  then have "readmemh 0 (write_memh ws) = Some (map (\<lambda>(k, w). (k, le_val w)) (sorted_items ws))"
    unfolding write_memh_def by (rule readmemh_memh_lines) simp
  moreover have "map fst (map (\<lambda>(k, w). (k, le_val w)) (sorted_items ws)) = map fst (sorted_items ws)"
    by (simp add: case_prod_beta)
  moreover have "map_of (map (\<lambda>(k, w). (k, le_val w)) (sorted_items ws)) = (\<lambda>k. map_option le_val (map_of ws k))"
    by (simp add: map_of_map map_of_sorted_items [OF d] fun_eq_iff)
  ultimately show ?thesis using sorted_items_nth(2) [OF d] by (metis (no_types, lifting))
qed

theorem write_memh_reads_back_witness:
  "\<exists>mem. readmemh 0 (write_memh [(5, [1, 0]), (2, [7, 1])]) = Some mem \<and> map_of mem 2 = Some 263"
proof -
  have "words_ok 2 [(5, [1, 0]), (2, [7, 1])]" by (simp add: words_ok_def)
  from write_memh_reads_back [OF this] obtain mem where
    "readmemh 0 (write_memh [(5, [1, 0]), (2, [7, 1])]) = Some mem"
    "map_of mem = (\<lambda>k. map_option le_val (map_of [(5, [1, 0]), (2, [7, 1])] k))" by auto
  then show ?thesis by simp
qed

section \<open>From segments to memory\<close>

text \<open>
  The words hold exactly the segments. When \<open>image_words\<close> succeeds, every segment lies in the RAM
  aperture; every byte of a segment, zero-filled tail included, is in its word and lane; and any
  non-zero byte of any word comes from a segment.
\<close>

theorem image_words_hold_the_segments:
  assumes "image_words segs base mem_size word_bytes = Inr ws"
  shows "words_ok word_bytes ws \<and> (\<forall>seg \<in> set segs. segment_ok base mem_size seg) \<and>
    (\<forall>seg \<in> set segs. \<forall>a v. segment_byte seg a = Some v \<longrightarrow>
       read_byte word_bytes ws (nat (int a - base)) = Some v) \<and>
    (\<forall>off v. read_byte word_bytes ws off = Some v \<and> v \<noteq> 0 \<longrightarrow>
       (\<exists>seg \<in> set segs. \<exists>a. nat (int a - base) = off \<and> segment_byte seg a = Some v))"
proof -
  have wb: "word_bytes = 8 \<or> word_bytes = 32" using assms by (auto simp: image_words_def split: if_splits)
  from image_words_cases [OF wb, of segs base mem_size] assms obtain st where
    ok: "\<forall>seg \<in> set segs. segment_ok base mem_size seg" and st: "words st = ws"
    "image_inv base word_bytes (\<Union>seg \<in> set segs. bytes_of seg) st" by auto
  note inv = st(2) [unfolded image_inv_def st(1)]
  have "words_ok word_bytes ws" using inv by simp
  moreover have "read_byte word_bytes ws (nat (int a - base)) = Some v"
    if "seg \<in> set segs" "segment_byte seg a = Some v" for seg a v
  proof -
    have "(a, v) \<in> (\<Union>seg \<in> set segs. bytes_of seg)" using that by (auto simp: bytes_of_def)
    then show ?thesis using inv by blast
  qed
  moreover have "\<exists>seg \<in> set segs. \<exists>a. nat (int a - base) = off \<and> segment_byte seg a = Some v"
    if "read_byte word_bytes ws off = Some v" "v \<noteq> 0" for off v
  proof -
    from that inv have "\<exists>a. nat (int a - base) = off \<and> (a, v) \<in> (\<Union>seg \<in> set segs. bytes_of seg)" by blast
    then show ?thesis by (auto simp: bytes_of_def)
  qed
  ultimately show ?thesis using ok by blast
qed

definition demo_segments :: "segment list" where
  "demo_segments =
     [\<lparr>seg_address = 19, seg_data = [5, 6], seg_memory_size = 4\<rparr>,
      \<lparr>seg_address = 20, seg_data = [6], seg_memory_size = 1\<rparr>]"

theorem image_words_hold_the_segments_witness:
  "\<exists>ws. image_words demo_segments 16 64 8 = Inr ws \<and> read_byte 8 ws 4 = Some 6"
proof -
  have "case image_words demo_segments 16 64 8 of Inr _ \<Rightarrow> True | Inl _ \<Rightarrow> False" by code_simp
  then obtain ws where i: "image_words demo_segments 16 64 8 = Inr ws" by (auto split: sum.splits)
  have "segment_byte (demo_segments ! 0) 20 = Some 6" "demo_segments ! 0 \<in> set demo_segments"
    by (simp_all add: demo_segments_def segment_byte_def)
  with image_words_hold_the_segments [OF i] have "read_byte 8 ws (nat (int 20 - 16)) = Some 6" by blast
  with i show ?thesis by auto
qed

text \<open>
  Overlapping segments are accepted exactly when they agree: for segments inside the aperture
  \<open>image_words\<close> succeeds if and only if no address is given two different bytes.
\<close>

theorem image_words_conflicts:
  assumes "word_bytes = 8 \<or> word_bytes = 32" "\<forall>seg \<in> set segs. segment_ok base mem_size seg"
  shows "(\<exists>ws. image_words segs base mem_size word_bytes = Inr ws) \<longleftrightarrow>
    (\<forall>s \<in> set segs. \<forall>t \<in> set segs. \<forall>a v w.
       segment_byte s a = Some v \<and> segment_byte t a = Some w \<longrightarrow> v = w)"
proof (cases "image_words segs base mem_size word_bytes")
  case (Inl e)
  with image_words_cases [OF assms(1), of segs base mem_size] assms(2) show ?thesis by auto
next
  case (Inr ws)
  with image_words_cases [OF assms(1), of segs base mem_size] obtain st where
    "image_inv base word_bytes (\<Union>seg \<in> set segs. bytes_of seg) st" by auto
  note own = this [unfolded image_inv_def, THEN conjunct2, THEN conjunct1, rule_format]
  have "v = w" if "s \<in> set segs" "t \<in> set segs" "segment_byte s a = Some v" "segment_byte t a = Some w" for s t a v w
  proof -
    have "(a, v) \<in> (\<Union>seg \<in> set segs. bytes_of seg)" "(a, w) \<in> (\<Union>seg \<in> set segs. bytes_of seg)"
      using that by (auto simp: bytes_of_def)
    then show ?thesis using own [of a v] own [of a w] by auto
  qed
  with Inr show ?thesis by blast
qed

theorem image_words_conflicts_witness:
  "\<not> (\<exists>ws. image_words [\<lparr>seg_address = 0, seg_data = [1], seg_memory_size = 1\<rparr>,
                      \<lparr>seg_address = 0, seg_data = [2], seg_memory_size = 1\<rparr>] 0 8 8 = Inr ws)"
proof -
  let ?s = "\<lparr>seg_address = 0, seg_data = [1], seg_memory_size = 1\<rparr>"
  let ?t = "\<lparr>seg_address = 0, seg_data = [2], seg_memory_size = 1\<rparr>"
  have "\<forall>seg \<in> set [?s, ?t]. segment_ok 0 8 seg" by (simp add: segment_ok_def)
  moreover have "segment_byte ?s 0 = Some 1" "segment_byte ?t 0 = Some 2" "(1 :: byte) \<noteq> 2"
    by (simp_all add: segment_byte_def)
  ultimately show ?thesis using image_words_conflicts [of 8 "[?s, ?t]" 0 8] by fastforce
qed

text \<open>The printed words of a segment list, read back, hold every segment byte in the lane of its address.\<close>

lemma printed_words_hold:
  assumes i: "image_words segs base mem_size word_bytes = Inr ws"
  shows "\<exists>mem. readmemh 0 (write_memh ws) = Some mem \<and> (word_bytes = 8 \<or> word_bytes = 32) \<and>
    (\<forall>seg \<in> set segs. \<forall>a v. segment_byte seg a = Some v \<longrightarrow>
       base \<le> int a \<and> int a < base + mem_size \<and>
       (\<exists>word. map_of mem (nat (int a - base) div word_bytes) = Some word \<and>
          le_bytes word_bytes word ! (nat (int a - base) mod word_bytes) = v))"
proof -
  have wb: "word_bytes = 8 \<or> word_bytes = 32" using i by (auto simp: image_words_def split: if_splits)
  from image_words_cases [OF wb, of segs base mem_size] i obtain st where
    seg_ok: "\<forall>seg \<in> set segs. segment_ok base mem_size seg" and
    st: "words st = ws" "image_inv base word_bytes (\<Union>seg \<in> set segs. bytes_of seg) st" by auto
  note inv = st(2) [unfolded image_inv_def st(1)]
  have ok: "words_ok word_bytes ws" using inv by simp
  obtain mem where m: "readmemh 0 (write_memh ws) = Some mem" "map_of mem = (\<lambda>k. map_option le_val (map_of ws k))"
    using write_memh_reads_back [OF ok] wb by auto
  have "base \<le> int a \<and> int a < base + mem_size \<and> (\<exists>word. map_of mem (nat (int a - base) div word_bytes) = Some word \<and>
        le_bytes word_bytes word ! (nat (int a - base) mod word_bytes) = v)"
    if s: "seg \<in> set segs" and b: "segment_byte seg a = Some v" for seg a v
  proof -
    have "seg_address seg \<le> a" "a < seg_address seg + seg_memory_size seg"
      using b by (auto simp: segment_byte_def split: if_splits)
    moreover have "segment_ok base mem_size seg" using seg_ok s by blast
    moreover have "(a, v) \<in> (\<Union>seg \<in> set segs. bytes_of seg)" using s b by (auto simp: bytes_of_def)
    then have "read_byte word_bytes ws (nat (int a - base)) = Some v" using inv by blast
    then obtain w where w: "map_of ws (nat (int a - base) div word_bytes) = Some w"
      "w ! (nat (int a - base) mod word_bytes) = v" by (auto simp: read_byte_def)
    moreover have "le_bytes word_bytes (le_val w) = w" using words_ok_length [OF ok w(1)] by auto
    ultimately show ?thesis using m(2) by (auto simp: segment_ok_def)
  qed
  with m(1) wb show ?thesis by blast
qed

text \<open>
  C10: end to end: when an ELF file is converted, the memory that \<open>$readmemh\<close> builds from the printed
  lines holds every byte of every loadable segment, in the lane its address names, and the manifest's
  bounds enclose all of them.
\<close>

theorem converted_elf_loads:
  assumes "convert_elf blob base mem_size word_bytes = Inr (lines, mf)"
  shows "\<exists>segs mem. load_elf blob = Inr (mf_entry mf, segs) \<and> readmemh 0 lines = Some mem \<and>
    (\<forall>seg \<in> set segs. \<forall>a v. segment_byte seg a = Some v \<longrightarrow>
       mf_loaded_start mf \<le> a \<and> a < mf_loaded_end mf \<and>
       (\<exists>word. map_of mem (nat (int a - base) div word_bytes) = Some word \<and>
          le_bytes word_bytes word ! (nat (int a - base) mod word_bytes) = v))"
proof -
  from assms obtain segs ws where
    l: "load_elf blob = Inr (mf_entry mf, segs)" and i: "image_words segs base mem_size word_bytes = Inr ws" and
    o: "lines = write_memh ws" "mf_loaded_start mf = Min (set (map seg_address segs))"
      "mf_loaded_end mf = Max (set (map (\<lambda>s. seg_address s + seg_memory_size s) segs))"
    by (auto simp: convert_elf_def)
  have "mf_loaded_start mf \<le> a \<and> a < mf_loaded_end mf"
    if s: "seg \<in> set segs" and b: "segment_byte seg a = Some v" for seg a v
  proof -
    have "seg_address seg \<le> a" "a < seg_address seg + seg_memory_size seg"
      using b by (auto simp: segment_byte_def split: if_splits)
    moreover have "mf_loaded_start mf \<le> seg_address seg" "seg_address seg + seg_memory_size seg \<le> mf_loaded_end mf"
      using s by (auto simp: o(2,3))
    ultimately show ?thesis by linarith
  qed
  with printed_words_hold [OF i] l o(1) show ?thesis by blast
qed

definition demo_elf :: "byte list" where
  "demo_elf =
     ELF_MAGIC @ [2, 1] @ replicate 10 0 @ le_bytes 2 2 @ le_bytes 2 243 @ le_bytes 4 1 @ le_bytes 8 16 @
     le_bytes 8 64 @ le_bytes 8 0 @ le_bytes 4 0 @ le_bytes 2 64 @ le_bytes 2 56 @ le_bytes 2 1 @ replicate 6 0 @
     le_bytes 4 1 @ le_bytes 4 5 @ le_bytes 8 120 @ le_bytes 8 16 @ le_bytes 8 0 @ le_bytes 8 2 @ le_bytes 8 4 @
     le_bytes 8 1 @ [9, 7]"

theorem converted_elf_loads_witness:
  "\<exists>lines mf mem. convert_elf demo_elf 8 64 8 = Inr (lines, mf) \<and> readmemh 0 lines = Some mem"
proof -
  have "case convert_elf demo_elf 8 64 8 of Inr _ \<Rightarrow> True | Inl _ \<Rightarrow> False" by code_simp
  then obtain lines mf where c: "convert_elf demo_elf 8 64 8 = Inr (lines, mf)" by (auto split: sum.splits)
  from converted_elf_loads [OF c] c show ?thesis by blast
qed

end
