(* ===== verification/BinImage.thy ===== *)
theory BinImage
  imports Readmemh
begin

text \<open>
  \<open>tools/bin2mem.py\<close>: a flat binary as fixed-width memory words. The theorem reads the written lines
  back through the \<open>$readmemh\<close> specification and finds the binary, padded with zeros to the memory size.
\<close>

datatype bin_error = BadWordSize | BadMemorySize | BinaryTooLarge nat int

text \<open>\<open>value <= 0 or value & (value - 1)\<close> rejects every word size that is not a power of two.\<close>

definition convert :: "byte list \<Rightarrow> int \<Rightarrow> int \<Rightarrow> bin_error + (string list \<times> nat)" where
  "convert data mem_size word_bytes =
     (if word_bytes \<le> 0 \<or> and word_bytes (word_bytes - 1) \<noteq> 0 then Inl BadWordSize
      else if mem_size \<le> 0 \<or> mem_size mod word_bytes \<noteq> 0 then Inl BadMemorySize
      else if mem_size < int (length data) then Inl (BinaryTooLarge (length data) mem_size)
      else
        let img = slice_assign 0 (length data) data (replicate (nat mem_size) 0);
            wb = nat word_bytes
        in Inr (map (\<lambda>k. hex0 (wb * 2) (int (le_val (slice (k * wb) (k * wb + wb) img))))
                  [0..<nat mem_size div wb],
                length data))"

lemma image_padded:
  "length data \<le> n \<Longrightarrow>
   slice_assign 0 (length data) data (replicate n (0 :: byte)) = data @ replicate (n - length data) 0"
  by (simp add: slice_assign_def)

lemma readmemh_words:
  "readmemh a (map (\<lambda>v. hex0 w (int v)) vs) = Some (zip [a..<a + length vs] vs)"
proof (induction vs arbitrary: a)
  case Nil
  then show ?case by simp
next
  case (Cons v vs)
  have "hex0 w (int v) \<noteq> []" by (simp add: hex0_nat)
  then obtain c cs where c: "hex0 w (int v) = c # cs" by (cases "hex0 w (int v)") auto
  then have "c \<noteq> CHR ''@''" by (rule hex0_no_at)
  from readmemh_word [OF c this read_hex0] Cons [of "Suc a"] show ?case
    by (simp add: upt_rec)
qed

lemma concat_chunks:
  "concat (map (\<lambda>k. slice (k * w) (k * w + w) xs) [0..<n]) = take (n * w) xs"
proof (induction n)
  case (Suc n)
  have "slice (n * w) (n * w + w) xs = take w (drop (n * w) xs)" by (simp add: slice_def)
  moreover have "take (Suc n * w) xs = take (n * w) xs @ take w (drop (n * w) xs)"
    by (metis add.commute mult_Suc take_add)
  ultimately show ?case using Suc by simp
qed simp

text \<open>
  When the conversion succeeds, loading the written lines with \<open>$readmemh\<close> gives \<open>size / word_bytes\<close>
  words at consecutive addresses from 0 whose little-endian bytes, put together, are the binary padded
  with zeros to \<open>size\<close>; the returned count is the binary's length.
\<close>

theorem convert_reads_back:
  assumes "convert data mem_size word_bytes = Inr (lines, n)"
  shows "n = length data \<and>
    (\<exists>ws. readmemh 0 lines = Some ws \<and> map fst ws = [0..<nat mem_size div nat word_bytes] \<and>
       concat (map (\<lambda>(a, v). le_bytes (nat word_bytes) v) ws) =
         data @ replicate (nat mem_size - length data) 0)"
proof -
  let ?wb = "nat word_bytes" and ?n = "nat mem_size div nat word_bytes"
  let ?img = "data @ replicate (nat mem_size - length data) 0"
  have ok: "0 < word_bytes" "mem_size mod word_bytes = 0" "0 < mem_size" "int (length data) \<le> mem_size" and n: "n = length data"
    using assms by (auto simp: convert_def Let_def split: if_splits)
  then have len: "length data \<le> nat mem_size" by simp
  let ?vs = "map (\<lambda>k. le_val (slice (k * ?wb) (k * ?wb + ?wb) ?img)) [0..<?n]"
  have "lines = map (\<lambda>v. hex0 (?wb * 2) (int v)) ?vs"
    using assms by (auto simp: convert_def Let_def image_padded [OF len] split: if_splits)
  then have r: "readmemh 0 lines = Some (zip [0..<?n] ?vs)"
    using readmemh_words [of 0 "?wb * 2" ?vs] by (simp del: map_map)
  have dv: "?n * ?wb = nat mem_size"
  proof -
    have "int (nat mem_size mod ?wb) = mem_size mod word_bytes" using ok by (simp add: zmod_int)
    then show ?thesis using ok(2) div_mult_mod_eq [of "nat mem_size" ?wb] by simp
  qed
  have chunk: "le_bytes ?wb (le_val (slice (k * ?wb) (k * ?wb + ?wb) ?img)) =
      slice (k * ?wb) (k * ?wb + ?wb) ?img" if "k < ?n" for k
  proof -
    have "Suc k * ?wb \<le> ?n * ?wb" using that by (intro mult_le_mono1) simp
    then have "k * ?wb + ?wb \<le> length ?img" using dv len by simp
    then have "length (slice (k * ?wb) (k * ?wb + ?wb) ?img) = ?wb" by (subst length_slice) arith
    then show ?thesis by (metis le_bytes_le_val)
  qed
  have "map (\<lambda>(a, v). le_bytes ?wb v) (zip [0..<?n] ?vs) =
      map (\<lambda>k. slice (k * ?wb) (k * ?wb + ?wb) ?img) [0..<?n]"
    by (rule nth_equalityI) (simp_all add: chunk)
  then have "concat (map (\<lambda>(a, v). le_bytes ?wb v) (zip [0..<?n] ?vs)) = ?img"
    using dv len by (simp only: concat_chunks) simp
  with r n show ?thesis by (intro conjI exI [of _ "zip [0..<?n] ?vs"]) simp_all
qed

theorem convert_reads_back_witness:
  "\<exists>lines. convert [1, 2, 3] 4 2 = Inr (lines, 3) \<and> lines = [''0201'', ''0003''] \<and>
     (\<exists>ws. readmemh 0 lines = Some ws \<and> map fst ws = [0, 1])"
proof -
  have c: "convert [1, 2, 3] 4 2 = Inr ([''0201'', ''0003''], 3)" by code_simp
  have idx: "[0..<nat 4 div nat 2] = [0, 1]" by (simp add: upt_rec)
  from convert_reads_back [OF c, THEN conjunct2] obtain ws where
    w: "readmemh 0 [''0201'', ''0003''] = Some ws" "map fst ws = [0..<nat 4 div nat 2]"
    by (elim exE conjE)
  from w(2) idx have "map fst ws = [0, 1]" by (rule trans)
  with w(1) c show ?thesis by (intro exI conjI) (assumption | rule refl)+
qed

end
