(* ===== verification/Sv39.thy ===== *)
theory Sv39
  imports ByteCodec
begin

unbundle bit_operations_syntax

text \<open>
  What the two Sv39 image builders (\<open>tools/make_shared_sv39_image.py\<close> and
  \<open>tools/make_4h_sv39_image.py\<close>) share: their identical helpers \<open>pte\<close> and \<open>put_u64\<close> and layout
  constants, and the specification they are checked against: an Sv39 page walk of the RISC-V privileged
  architecture over a memory image loaded at \<open>PHYSICAL_BASE\<close>.
\<close>

section \<open>The helpers of the builders\<close>

datatype sv39_error = TemplateTooLarge nat | ToBytesOverflow

definition PHYSICAL_BASE :: nat where "PHYSICAL_BASE = 0x80000000"
definition VIRTUAL_BASE :: nat where "VIRTUAL_BASE = 0x40000000"
definition MAPPED_BYTES :: nat where "MAPPED_BYTES = 0x20000"
definition ROOT_OFFSET :: nat where "ROOT_OFFSET = 0x20000"
definition LEVEL1_OFFSET :: nat where "LEVEL1_OFFSET = 0x21000"
definition LEVEL0_OFFSET :: nat where "LEVEL0_OFFSET = 0x22000"
definition PTE_FLAGS_RWXAD :: nat where "PTE_FLAGS_RWXAD = 0xCF"
definition PTE_FLAGS_RWAD :: nat where "PTE_FLAGS_RWAD = 0xC7"

lemmas layout_defs = PHYSICAL_BASE_def VIRTUAL_BASE_def MAPPED_BYTES_def ROOT_OFFSET_def
  LEVEL1_OFFSET_def LEVEL0_OFFSET_def PTE_FLAGS_RWXAD_def PTE_FLAGS_RWAD_def

definition pte :: "nat \<Rightarrow> nat \<Rightarrow> nat" where
  "pte pointer_or_page flags = push_bit 10 (drop_bit 12 pointer_or_page) OR flags"

text \<open>\<open>value.to_bytes(8, "little")\<close> raises \<open>OverflowError\<close> when the value does not fit.\<close>

definition put_u64 :: "byte list \<Rightarrow> nat \<Rightarrow> nat \<Rightarrow> sv39_error + byte list" where
  "put_u64 img offset value =
     (if value < 256 ^ 8 then Inr (slice_assign offset (offset + 8) (le_bytes 8 value) img)
      else Inl ToBytesOverflow)"

lemma pte_eq:
  assumes "flags < 1024"
  shows "pte p flags = (p div 4096) * 1024 + flags"
proof -
  have "push_bit 10 (drop_bit 12 p) AND flags = 0"
  proof (rule bit_eqI)
    fix n
    have "\<not> bit flags n" if "10 \<le> n"
    proof -
      have "(1024::nat) \<le> 2 ^ n" using that power_increasing [of 10 n "2::nat"] by simp
      with assms have "flags < 2 ^ n" by simp
      then show ?thesis by (simp add: bit_iff_odd)
    qed
    then show "bit (push_bit 10 (drop_bit 12 p) AND flags) n \<longleftrightarrow> bit (0::nat) n"
      by (auto simp: bit_simps)
  qed
  then have "pte p flags = push_bit 10 (drop_bit 12 p) + flags"
    by (simp add: pte_def disjunctive_add_eq_or)
  then show ?thesis by (simp add: push_bit_eq_mult drop_bit_eq_div)
qed

lemma pte_less: "p < 2 ^ 60 \<Longrightarrow> flags < 1024 \<Longrightarrow> pte p flags < 256 ^ 8"
  by (simp add: pte_eq)

lemma put_u64_poke:
  "value < 256 ^ 8 \<Longrightarrow> put_u64 img offset value = Inr (poke offset (le_bytes 8 value) img)"
  by (simp add: put_u64_def poke_def)

section \<open>The page walk\<close>

definition phys_read :: "byte list \<Rightarrow> nat \<Rightarrow> nat option" where
  "phys_read img p =
     (if PHYSICAL_BASE \<le> p \<and> p - PHYSICAL_BASE + 8 \<le> length img
      then Some (field_at 8 (p - PHYSICAL_BASE) img) else None)"

definition vpn :: "nat \<Rightarrow> nat \<Rightarrow> nat" where
  "vpn level va = (va div (4096 * 512 ^ level)) mod 512"

definition pte_flags :: "nat \<Rightarrow> nat" where
  "pte_flags e = e mod 1024"

definition pte_ppn :: "nat \<Rightarrow> nat" where
  "pte_ppn e = e div 1024"

text \<open>
  \<open>sv39_walk read level table va\<close>: an invalid entry faults; an entry with any of R, W, X is a leaf,
  whose page number must be aligned to its size; otherwise it points to the next level.
\<close>

fun sv39_walk :: "(nat \<Rightarrow> nat option) \<Rightarrow> nat \<Rightarrow> nat \<Rightarrow> nat \<Rightarrow> (nat \<times> nat) option" where
  "sv39_walk rd 0 table va =
     (case rd (table + 8 * vpn 0 va) of
        None \<Rightarrow> None
      | Some e \<Rightarrow>
          if even e \<or> pte_flags e AND 0xE = 0 then None
          else Some (4096 * pte_ppn e + va mod 4096, pte_flags e))"
| "sv39_walk rd (Suc level) table va =
     (case rd (table + 8 * vpn (Suc level) va) of
        None \<Rightarrow> None
      | Some e \<Rightarrow>
          if even e then None
          else if pte_flags e AND 0xE \<noteq> 0
          then if pte_ppn e mod 512 ^ Suc level = 0
               then Some (4096 * pte_ppn e + va mod (4096 * 512 ^ Suc level), pte_flags e) else None
          else sv39_walk rd level (4096 * pte_ppn e) va)"

definition canonical :: "nat \<Rightarrow> bool" where
  "canonical va \<longleftrightarrow> va < 2 ^ 38 \<or> (2 ^ 64 - 2 ^ 38 \<le> va \<and> va < 2 ^ 64)"

definition translate :: "byte list \<Rightarrow> nat \<Rightarrow> nat \<Rightarrow> (nat \<times> nat) option" where
  "translate img root va = (if canonical va then sv39_walk (phys_read img) 2 root va else None)"

section \<open>The table the builders lay out\<close>

text \<open>
  One root entry, one level-1 entry and a run of level-0 leaves below \<open>prefix\<close>; \<open>leaf k\<close> is the
  entry of page \<open>k\<close>.
\<close>

definition table_at :: "byte list \<Rightarrow> nat \<Rightarrow> (nat \<Rightarrow> nat) \<Rightarrow> bool" where
  "table_at img prefix leaf \<longleftrightarrow>
     prefix + 0x23000 \<le> length img \<and>
     (\<forall>k < 512. field_at 8 (prefix + ROOT_OFFSET + 8 * k) img =
        (if k = 1 then pte (PHYSICAL_BASE + prefix + LEVEL1_OFFSET) 1 else 0)) \<and>
     (\<forall>k < 512. field_at 8 (prefix + LEVEL1_OFFSET + 8 * k) img =
        (if k = 0 then pte (PHYSICAL_BASE + prefix + LEVEL0_OFFSET) 1 else 0)) \<and>
     (\<forall>k < 512. field_at 8 (prefix + LEVEL0_OFFSET + 8 * k) img = (if k < 32 then leaf k else 0))"

lemma map_of_table:
  "map_of (rev (map (\<lambda>p. (b + p * 8, f p)) [0..<n])) x =
     (if b \<le> x \<and> 8 dvd x - b \<and> (x - b) div 8 < n then Some (f ((x - b) div 8)) else None)"
proof (induction n)
  case 0
  then show ?case by simp
next
  case (Suc n)
  show ?case
  proof (cases "x = b + n * 8")
    case True
    then show ?thesis by simp
  next
    case False
    then have "map_of (rev (map (\<lambda>p. (b + p * 8, f p)) [0..<Suc n])) x =
        map_of (rev (map (\<lambda>p. (b + p * 8, f p)) [0..<n])) x" by simp
    moreover have "b \<le> x \<Longrightarrow> 8 dvd x - b \<Longrightarrow> (x - b) div 8 = n \<Longrightarrow> False"
      using False by (metis add_diff_inverse_nat dvd_div_mult_self not_less)
    ultimately show ?thesis using Suc.IH by (auto simp: less_Suc_eq)
  qed
qed

lemma vpn_less [simp]: "vpn l va < 512"
  by (simp add: vpn_def)

lemma walk_reads:
  assumes "table_at img prefix leaf" "prefix mod 4096 = 0" "k < 512"
  shows "phys_read img (PHYSICAL_BASE + prefix + ROOT_OFFSET + 8 * k) =
      Some (if k = 1 then pte (PHYSICAL_BASE + prefix + LEVEL1_OFFSET) 1 else 0)"
    "phys_read img (PHYSICAL_BASE + prefix + LEVEL1_OFFSET + 8 * k) =
      Some (if k = 0 then pte (PHYSICAL_BASE + prefix + LEVEL0_OFFSET) 1 else 0)"
    "phys_read img (PHYSICAL_BASE + prefix + LEVEL0_OFFSET + 8 * k) = Some (if k < 32 then leaf k else 0)"
proof -
  have r: "phys_read img (PHYSICAL_BASE + prefix + off + 8 * k) = Some (field_at 8 (prefix + off + 8 * k) img)"
    if "off + 4096 \<le> 0x23000" for off
    using assms(1,3) that by (simp add: phys_read_def table_at_def add.assoc)
  show "phys_read img (PHYSICAL_BASE + prefix + ROOT_OFFSET + 8 * k) =
      Some (if k = 1 then pte (PHYSICAL_BASE + prefix + LEVEL1_OFFSET) 1 else 0)"
    using assms(1,3) r [of ROOT_OFFSET] by (simp add: table_at_def ROOT_OFFSET_def)
  show "phys_read img (PHYSICAL_BASE + prefix + LEVEL1_OFFSET + 8 * k) =
      Some (if k = 0 then pte (PHYSICAL_BASE + prefix + LEVEL0_OFFSET) 1 else 0)"
    using assms(1,3) r [of LEVEL1_OFFSET] by (simp add: table_at_def LEVEL1_OFFSET_def)
  show "phys_read img (PHYSICAL_BASE + prefix + LEVEL0_OFFSET + 8 * k) = Some (if k < 32 then leaf k else 0)"
    using assms(1,3) r [of LEVEL0_OFFSET] by (simp add: table_at_def LEVEL0_OFFSET_def)
qed

lemma pte_fields:
  assumes "flags < 1024"
  shows "even (pte p flags) \<longleftrightarrow> even flags" "pte_flags (pte p flags) = flags"
    "pte_ppn (pte p flags) = p div 4096"
  using assms by (auto simp: pte_eq pte_flags_def pte_ppn_def)

lemma va_digits:
  fixes va :: nat
  obtains c b a r where "va = c * 1073741824 + b * 2097152 + a * 4096 + r" "b < 512" "a < 512" "r < 4096"
proof
  let ?q = "va div 4096"
  show "va = (?q div 262144) * 1073741824 + (?q div 512 mod 512) * 2097152 + (?q mod 512) * 4096 + va mod 4096"
  proof -
    have "?q div 262144 = ?q div 512 div 512" by (simp flip: div_mult2_eq)
    then show ?thesis
      using div_mult_mod_eq [of va 4096] div_mult_mod_eq [of ?q 512] div_mult_mod_eq [of "?q div 512" 512]
      by linarith
  qed
qed simp_all

lemma window_vpn:
  assumes "canonical va"
  shows "VIRTUAL_BASE \<le> va \<and> va < VIRTUAL_BASE + MAPPED_BYTES \<longleftrightarrow>
    vpn 2 va = 1 \<and> vpn 1 va = 0 \<and> vpn 0 va < 32"
    and "VIRTUAL_BASE \<le> va \<and> va < VIRTUAL_BASE + MAPPED_BYTES \<Longrightarrow>
      vpn 0 va * 4096 + va mod 4096 = va - VIRTUAL_BASE \<and> vpn 0 va = (va - VIRTUAL_BASE) div 4096"
proof -
  obtain c b a r where va: "va = c * 1073741824 + b * 2097152 + a * 4096 + r"
    and bnd: "b < 512" "a < 512" "r < 4096" by (rule va_digits)
  have v: "vpn 2 va = c mod 512" "vpn 1 va = b" "vpn 0 va = a" "va mod 4096 = r"
  proof -
    have "va = r + 4096 * (a + 512 * (b + 512 * c))" by (simp add: va)
    moreover have "(r + 4096 * x) div 4096 = x" "(r + 4096 * x) mod 4096 = r" for x using bnd by simp_all
    ultimately have "va div 4096 = a + 512 * (b + 512 * c)" "va mod 4096 = r" by presburger+
    moreover have "(a + 512 * x) div 512 = x" "(a + 512 * x) mod 512 = a" for x using bnd by simp_all
    ultimately have "va div 4096 mod 512 = a" "va div 4096 div 512 = b + 512 * c" "va mod 4096 = r"
      by presburger+
    moreover from this(2) have "va div 4096 div 512 mod 512 = b" "va div 4096 div 512 div 512 = c"
      using bnd by simp_all
    moreover have "va div 2097152 = va div 4096 div 512" "va div 1073741824 = va div 4096 div 512 div 512"
      by (simp_all flip: div_mult2_eq)
    ultimately show "vpn 2 va = c mod 512" "vpn 1 va = b" "vpn 0 va = a" "va mod 4096 = r"
      by (simp_all add: vpn_def)
  qed
  have c: "c < 256 \<or> (17179869184 - 256 \<le> c \<and> c < 17179869184)"
    using assms bnd va by (auto simp: canonical_def)
  then have c1: "c mod 512 = 1 \<longleftrightarrow> c = 1"
  proof
    assume "17179869184 - 256 \<le> c \<and> c < 17179869184"
    then obtain d where d: "c = d + 512 * 33554431" "256 \<le> d" "d < 512"
      by (intro that [of "c - 512 * 33554431"]) auto
    then have "c mod 512 = d" by (simp only: mod_mult_self2) simp
    with d show ?thesis by auto
  qed auto
  have win: "VIRTUAL_BASE \<le> va \<and> va < VIRTUAL_BASE + MAPPED_BYTES \<longleftrightarrow> c = 1 \<and> b = 0 \<and> a < 32"
  proof
    assume "VIRTUAL_BASE \<le> va \<and> va < VIRTUAL_BASE + MAPPED_BYTES"
    then have w: "1073741824 \<le> va" "va < 1073872896" by (simp_all add: layout_defs)
    have "c < 2" using w(2) va by linarith
    moreover have "0 < c"
    proof (rule ccontr)
      assume "\<not> 0 < c"
      then have "c = 0" by simp
      with w(1) va bnd show False by linarith
    qed
    ultimately have c: "c = 1" by linarith
    have "b < 1" using w(2) va c by linarith
    moreover from this have "a < 32" using w(2) va c by linarith
    ultimately show "c = 1 \<and> b = 0 \<and> a < 32" using c by simp
  qed (use bnd in \<open>auto simp: va layout_defs\<close>)
  show "VIRTUAL_BASE \<le> va \<and> va < VIRTUAL_BASE + MAPPED_BYTES \<longleftrightarrow>
    vpn 2 va = 1 \<and> vpn 1 va = 0 \<and> vpn 0 va < 32"
    unfolding win v c1 by (rule refl)
  show "vpn 0 va * 4096 + va mod 4096 = va - VIRTUAL_BASE \<and> vpn 0 va = (va - VIRTUAL_BASE) div 4096"
    if "VIRTUAL_BASE \<le> va \<and> va < VIRTUAL_BASE + MAPPED_BYTES"
  proof -
    have "c = 1" "b = 0" using that win by simp_all
    then have "va - VIRTUAL_BASE = r + 4096 * a" by (simp add: va layout_defs)
    moreover have "(r + 4096 * a) div 4096 = a" using bnd by simp
    ultimately show ?thesis unfolding v by simp
  qed
qed

text \<open>The walk over such a table maps exactly the window.\<close>

lemma table_translates:
  assumes tab: "table_at img prefix leaf" and pre: "prefix mod 4096 = 0"
    and leaf: "\<forall>k < 32. odd (leaf k) \<and> pte_flags (leaf k) AND 0xE \<noteq> 0"
  shows "translate img (PHYSICAL_BASE + prefix + ROOT_OFFSET) va =
    (if canonical va \<and> VIRTUAL_BASE \<le> va \<and> va < VIRTUAL_BASE + MAPPED_BYTES
     then let e = leaf ((va - VIRTUAL_BASE) div 4096) in Some (4096 * pte_ppn e + va mod 4096, pte_flags e)
     else None)"
proof (cases "canonical va")
  case True
  note r = walk_reads [OF tab pre vpn_less]
  have next_table: "4096 * pte_ppn (pte (PHYSICAL_BASE + prefix + LEVEL1_OFFSET) 1) = PHYSICAL_BASE + prefix + LEVEL1_OFFSET"
    "4096 * pte_ppn (pte (PHYSICAL_BASE + prefix + LEVEL0_OFFSET) 1) = PHYSICAL_BASE + prefix + LEVEL0_OFFSET"
    using pre by (auto simp: pte_fields layout_defs mult_div_mod_eq [symmetric])
  have r2: "phys_read img (PHYSICAL_BASE + prefix + ROOT_OFFSET + 8 * vpn 2 va) =
      Some (if vpn 2 va = 1 then pte (PHYSICAL_BASE + prefix + LEVEL1_OFFSET) 1 else 0)" by (rule r(1))
  have r1: "phys_read img (PHYSICAL_BASE + prefix + LEVEL1_OFFSET + 8 * vpn 1 va) =
      Some (if vpn 1 va = 0 then pte (PHYSICAL_BASE + prefix + LEVEL0_OFFSET) 1 else 0)" by (rule r(2))
  have w0: "sv39_walk (phys_read img) 0 (PHYSICAL_BASE + prefix + LEVEL0_OFFSET) va =
      (if vpn 0 va < 32 then let e = leaf (vpn 0 va) in Some (4096 * pte_ppn e + va mod 4096, pte_flags e) else None)"
    using leaf by (auto simp: r(3) Let_def)
  have w1: "sv39_walk (phys_read img) 1 (PHYSICAL_BASE + prefix + LEVEL1_OFFSET) va =
      (if vpn 1 va = 0 then sv39_walk (phys_read img) 0 (PHYSICAL_BASE + prefix + LEVEL0_OFFSET) va else None)"
    unfolding One_nat_def sv39_walk.simps(2) using r1 next_table(2)
    by (simp add: pte_fields del: sv39_walk.simps)
  have w2: "sv39_walk (phys_read img) 2 (PHYSICAL_BASE + prefix + ROOT_OFFSET) va =
      (if vpn 2 va = 1 then sv39_walk (phys_read img) 1 (PHYSICAL_BASE + prefix + LEVEL1_OFFSET) va else None)"
  proof -
    have two: "Suc 1 = 2" by simp
    have "sv39_walk (phys_read img) (Suc 1) (PHYSICAL_BASE + prefix + ROOT_OFFSET) va =
      (if vpn 2 va = 1 then sv39_walk (phys_read img) 1 (PHYSICAL_BASE + prefix + LEVEL1_OFFSET) va else None)"
      unfolding sv39_walk.simps(2) unfolding two r2 using next_table(1)
      by (simp add: pte_fields del: sv39_walk.simps One_nat_def)
    then show ?thesis unfolding two .
  qed
  show ?thesis
    unfolding translate_def w2 w1 w0 using True window_vpn [OF True] by (auto simp: Let_def)
next
  case False
  then show ?thesis by (simp add: translate_def)
qed

section \<open>Runs of writes\<close>

lemma foldE_put:
  assumes "\<forall>x \<in> set xs. g x < 256 ^ 8"
  shows "foldE (\<lambda>x img. put_u64 img (f x) (g x)) xs img =
    Inr (write_all (le_bytes 8) (map (\<lambda>x. (f x, g x)) xs) img)"
  using assms by (induction xs arbitrary: img) (simp_all add: put_u64_poke)

text \<open>The writes of one table, as the builders issue them.\<close>

definition table_writes :: "nat \<Rightarrow> (nat \<Rightarrow> nat) \<Rightarrow> (nat \<times> nat) list" where
  "table_writes prefix leaf =
     [(prefix + ROOT_OFFSET + 8, pte (PHYSICAL_BASE + prefix + LEVEL1_OFFSET) 1),
      (prefix + LEVEL1_OFFSET, pte (PHYSICAL_BASE + prefix + LEVEL0_OFFSET) 1)] @
     map (\<lambda>k. (prefix + LEVEL0_OFFSET + k * 8, leaf k)) [0..<32]"

lemma map_of_table_writes:
  "map_of (rev (table_writes prefix leaf)) x =
     (if prefix + LEVEL0_OFFSET \<le> x \<and> 8 dvd x - (prefix + LEVEL0_OFFSET) \<and>
         (x - (prefix + LEVEL0_OFFSET)) div 8 < 32
      then Some (leaf ((x - (prefix + LEVEL0_OFFSET)) div 8))
      else if x = prefix + LEVEL1_OFFSET then Some (pte (PHYSICAL_BASE + prefix + LEVEL0_OFFSET) 1)
      else if x = prefix + ROOT_OFFSET + 8 then Some (pte (PHYSICAL_BASE + prefix + LEVEL1_OFFSET) 1)
      else None)"
  unfolding table_writes_def rev_append map_of_append map_add_def map_of_table by simp

lemma table_writes_offsets:
  assumes "(x, v) \<in> set (table_writes prefix leaf)"
  shows "prefix + ROOT_OFFSET \<le> x" "x + 8 \<le> prefix + 0x23000" "8 dvd prefix \<Longrightarrow> 8 dvd x"
  using assms by (auto simp: table_writes_def layout_defs)

lemma table_writes_values:
  assumes "(x, v) \<in> set (table_writes prefix leaf)" "prefix < 2 ^ 40" "\<forall>k < 32. leaf k < 256 ^ 8"
  shows "v < 256 ^ 8"
  using assms pte_less by (auto simp: table_writes_def layout_defs)

text \<open>Written over three zero pages, they give the table.\<close>

lemma write_table_at:
  assumes "prefix + 0x23000 \<le> length img" "8 dvd prefix" "prefix < 2 ^ 40" "\<forall>k < 32. leaf k < 256 ^ 8"
    and zero: "\<forall>x. prefix + ROOT_OFFSET \<le> x \<and> x + 8 \<le> prefix + 0x23000 \<longrightarrow> field_at 8 x img = 0"
  shows "table_at (write_all (le_bytes 8) (table_writes prefix leaf) img) prefix leaf"
proof -
  let ?im = "write_all (le_bytes 8) (table_writes prefix leaf) img"
  have ws: "\<forall>(x, v) \<in> set (table_writes prefix leaf). x + 8 \<le> length img \<and> v < 256 ^ 8 \<and> 8 dvd x"
    using table_writes_offsets table_writes_values assms(1-4) by (auto, meson le_trans)
  have len: "length ?im = length img" by (rule u64.length_write_all) (use ws in auto)
  have rd: "field_at 8 x ?im = (case map_of (rev (table_writes prefix leaf)) x of Some v \<Rightarrow> v | None \<Rightarrow> 0)"
    if "prefix + ROOT_OFFSET \<le> x" "x + 8 \<le> prefix + 0x23000" "8 dvd x" for x
    using u64.read_write_all [OF ws _ that(3)] that zero assms(1)
    by (simp add: field_at_def split: option.split)
  show ?thesis
    unfolding table_at_def len
  proof (intro conjI allI impI)
    fix k :: nat assume k: "k < 512"
    have a: "8 dvd prefix + ROOT_OFFSET + 8 * k" "8 dvd prefix + LEVEL1_OFFSET + 8 * k"
      "8 dvd prefix + LEVEL0_OFFSET + 8 * k"
      using assms(2) by (auto simp: layout_defs)
    show "field_at 8 (prefix + ROOT_OFFSET + 8 * k) ?im =
        (if k = 1 then pte (PHYSICAL_BASE + prefix + LEVEL1_OFFSET) 1 else 0)"
      using k by (subst rd [OF _ _ a(1)]) (auto simp: map_of_table_writes layout_defs)
    show "field_at 8 (prefix + LEVEL1_OFFSET + 8 * k) ?im =
        (if k = 0 then pte (PHYSICAL_BASE + prefix + LEVEL0_OFFSET) 1 else 0)"
      using k by (subst rd [OF _ _ a(2)]) (auto simp: map_of_table_writes layout_defs)
    show "field_at 8 (prefix + LEVEL0_OFFSET + 8 * k) ?im = (if k < 32 then leaf k else 0)"
      using k by (subst rd [OF _ _ a(3)]) (auto simp: map_of_table_writes layout_defs)
  qed (rule assms(1))
qed

end
