(* ===== verification/Sv39Shared.thy ===== *)
theory Sv39Shared
  imports Sv39
begin

text \<open>
  \<open>tools/make_shared_sv39_image.py\<close>: one Sv39 root installed into a four-hart supervisor image, with
  the optional TLB-invalidation test pages. The theorems say what the walk over the built image
  translates, address by address, and that the program below the tables is untouched.
\<close>

section \<open>The builder\<close>

definition IMAGE_BYTES :: nat where "IMAGE_BYTES = LEVEL0_OFFSET + 0x1000"
definition TLBI_TARGET_PAGE :: nat where "TLBI_TARGET_PAGE = 24"
definition TLBI_NEW_PAGE :: nat where "TLBI_NEW_PAGE = 28"
definition TLBI_PTE_ALIAS_PAGE :: nat where "TLBI_PTE_ALIAS_PAGE = 31"
definition TLBI_OLD_VALUE :: nat where "TLBI_OLD_VALUE = 0x1111222233334444"
definition TLBI_NEW_VALUE :: nat where "TLBI_NEW_VALUE = 0xAAAABBBBCCCCDDDD"

lemmas tlbi_defs = TLBI_TARGET_PAGE_def TLBI_NEW_PAGE_def TLBI_PTE_ALIAS_PAGE_def
  TLBI_OLD_VALUE_def TLBI_NEW_VALUE_def

definition build_shared :: "byte list \<Rightarrow> bool \<Rightarrow> sv39_error + byte list" where
  "build_shared template tlbi_test =
     (if IMAGE_BYTES < length template then Inl (TemplateTooLarge (length template))
      else
        let img0 = slice_assign 0 (length template) template (replicate IMAGE_BYTES 0);
            img1 = slice_assign ROOT_OFFSET IMAGE_BYTES (replicate (IMAGE_BYTES - ROOT_OFFSET) 0) img0
        in bindE (put_u64 img1 (ROOT_OFFSET + 1 * 8) (pte (PHYSICAL_BASE + LEVEL1_OFFSET) 0x1)) (\<lambda>img2.
           bindE (put_u64 img2 LEVEL1_OFFSET (pte (PHYSICAL_BASE + LEVEL0_OFFSET) 0x1)) (\<lambda>img3.
           bindE (foldE (\<lambda>page img.
                    put_u64 img (LEVEL0_OFFSET + page * 8)
                      (pte (PHYSICAL_BASE + page * 0x1000) PTE_FLAGS_RWXAD))
                  [0..<MAPPED_BYTES div 0x1000] img3) (\<lambda>img4.
           if tlbi_test
           then bindE (put_u64 img4 (LEVEL0_OFFSET + TLBI_PTE_ALIAS_PAGE * 8)
                        (pte (PHYSICAL_BASE + LEVEL0_OFFSET) PTE_FLAGS_RWAD)) (\<lambda>img5.
                bindE (put_u64 img5 (TLBI_TARGET_PAGE * 0x1000) TLBI_OLD_VALUE) (\<lambda>img6.
                put_u64 img6 (TLBI_NEW_PAGE * 0x1000) TLBI_NEW_VALUE))
           else Inr img4))))"

section \<open>The builder as a list of writes\<close>

definition shared_leaf :: "nat \<Rightarrow> nat" where
  "shared_leaf k = pte (PHYSICAL_BASE + k * 0x1000) PTE_FLAGS_RWXAD"

definition shared_base :: "byte list \<Rightarrow> byte list" where
  "shared_base template = template @ replicate (IMAGE_BYTES - length template) 0"

text \<open>The template is kept up to the root table, the three table pages are cleared.\<close>

definition cleared_base :: "byte list \<Rightarrow> byte list" where
  "cleared_base template =
     take ROOT_OFFSET (shared_base template) @ replicate (IMAGE_BYTES - ROOT_OFFSET) 0"

definition tlbi_writes :: "(nat \<times> nat) list" where
  "tlbi_writes =
     [(LEVEL0_OFFSET + TLBI_PTE_ALIAS_PAGE * 8, pte (PHYSICAL_BASE + LEVEL0_OFFSET) PTE_FLAGS_RWAD),
      (TLBI_TARGET_PAGE * 0x1000, TLBI_OLD_VALUE), (TLBI_NEW_PAGE * 0x1000, TLBI_NEW_VALUE)]"

lemma shared_leaf_less: "k < 32 \<Longrightarrow> shared_leaf k < 256 ^ 8"
  unfolding shared_leaf_def by (rule pte_less) (simp_all add: layout_defs)

lemma build_shared_writes:
  assumes "length template \<le> IMAGE_BYTES"
  shows "build_shared template tlbi =
    Inr (write_all (le_bytes 8) (table_writes 0 shared_leaf @ (if tlbi then tlbi_writes else []))
      (cleared_base template))"
proof -
  have base: "slice_assign ROOT_OFFSET IMAGE_BYTES (replicate (IMAGE_BYTES - ROOT_OFFSET) 0)
      (slice_assign 0 (length template) template (replicate IMAGE_BYTES 0)) = cleared_base template"
    using assms by (simp add: slice_assign_def cleared_base_def shared_base_def IMAGE_BYTES_def layout_defs)
  have lt: "pte (PHYSICAL_BASE + LEVEL1_OFFSET) 1 < 256 ^ 8" "pte (PHYSICAL_BASE + LEVEL0_OFFSET) 1 < 256 ^ 8"
    "pte (PHYSICAL_BASE + LEVEL0_OFFSET) PTE_FLAGS_RWAD < 256 ^ 8"
    by (rule pte_less; simp add: layout_defs)+
  have vals: "TLBI_OLD_VALUE < 256 ^ 8" "TLBI_NEW_VALUE < 256 ^ 8" by (simp_all add: tlbi_defs)
  note put = lt [THEN put_u64_poke] vals [THEN put_u64_poke]
  have fold: "foldE (\<lambda>page img. put_u64 img (LEVEL0_OFFSET + page * 8)
      (pte (PHYSICAL_BASE + page * 0x1000) PTE_FLAGS_RWXAD)) [0..<MAPPED_BYTES div 0x1000] img =
    Inr (write_all (le_bytes 8) (map (\<lambda>k. (0 + LEVEL0_OFFSET + k * 8, shared_leaf k)) [0..<32]) img)" for img
    using shared_leaf_less
    by (subst foldE_put) (auto simp: shared_leaf_def MAPPED_BYTES_def)
  show ?thesis
    using assms
    by (simp add: build_shared_def Let_def base fold put table_writes_def tlbi_writes_def
        write_all_append del: upt_rec_numeral One_nat_def)
qed

section \<open>What the built image is\<close>

lemma shared_length:
  assumes "length template \<le> IMAGE_BYTES"
  shows "length (cleared_base template) = IMAGE_BYTES"
  using assms by (simp add: cleared_base_def shared_base_def IMAGE_BYTES_def layout_defs)

lemma cleared_zero:
  assumes "length template \<le> IMAGE_BYTES" "ROOT_OFFSET \<le> x" "x + 8 \<le> 0x23000"
  shows "field_at 8 x (cleared_base template) = 0"
proof -
  have "length (take ROOT_OFFSET (shared_base template)) = ROOT_OFFSET"
    using assms(1) by (simp add: shared_base_def IMAGE_BYTES_def layout_defs)
  then have "peek x 8 (cleared_base template) = replicate 8 0"
    using assms(2,3) by (simp add: peek_def slice_def cleared_base_def IMAGE_BYTES_def LEVEL0_OFFSET_def)
  then show ?thesis by (simp add: field_at_def)
qed

definition built_leaf :: "bool \<Rightarrow> nat \<Rightarrow> nat" where
  "built_leaf tlbi k =
     (if tlbi \<and> k = TLBI_PTE_ALIAS_PAGE then pte (PHYSICAL_BASE + LEVEL0_OFFSET) PTE_FLAGS_RWAD
      else shared_leaf k)"

definition plain_image :: "byte list \<Rightarrow> byte list" where
  "plain_image template = write_all (le_bytes 8) (table_writes 0 shared_leaf) (cleared_base template)"

lemma plain_image_facts:
  assumes "length template \<le> IMAGE_BYTES"
  shows "table_at (plain_image template) 0 shared_leaf" "length (plain_image template) = IMAGE_BYTES"
proof -
  have len: "length (cleared_base template) = 0x23000"
    using shared_length [OF assms] by (simp add: IMAGE_BYTES_def layout_defs)
  show "table_at (plain_image template) 0 shared_leaf" unfolding plain_image_def
    by (rule write_table_at) (use cleared_zero [OF assms] shared_leaf_less len in auto)
  show "length (plain_image template) = IMAGE_BYTES" unfolding plain_image_def
    by (subst u64.length_write_all)
      (use table_writes_offsets [of _ _ 0] len shared_length [OF assms] in \<open>fastforce+\<close>)
qed

lemma tlbi_writes_ok:
  "\<forall>(x, v) \<in> set tlbi_writes. x + 8 \<le> 0x23000 \<and> v < 256 ^ 8 \<and> 8 dvd x"
  by (simp add: tlbi_writes_def tlbi_defs layout_defs pte_eq)

lemma build_shared_image:
  assumes "build_shared template tlbi = Inr img"
  shows "length template \<le> IMAGE_BYTES"
    "img = write_all (le_bytes 8) (if tlbi then tlbi_writes else []) (plain_image template)"
proof -
  show len: "length template \<le> IMAGE_BYTES"
    using assms by (cases "IMAGE_BYTES < length template") (simp_all add: build_shared_def)
  show "img = write_all (le_bytes 8) (if tlbi then tlbi_writes else []) (plain_image template)"
    using build_shared_writes [OF len, of tlbi] assms by (simp add: write_all_append plain_image_def)
qed

lemma built_table:
  assumes "build_shared template tlbi = Inr img"
  shows "table_at img 0 (built_leaf tlbi)" "length img = IMAGE_BYTES"
proof -
  note b = build_shared_image [OF assms]
  note p = plain_image_facts [OF b(1)]
  have len: "length (plain_image template) = 0x23000" using p(2) by (simp add: IMAGE_BYTES_def layout_defs)
  have "table_at img 0 (built_leaf tlbi) \<and> length img = IMAGE_BYTES"
  proof (cases tlbi)
    case False
    then have "built_leaf tlbi = shared_leaf" by (simp add: built_leaf_def fun_eq_iff)
    with False b p show ?thesis by simp
  next
    case True
    have ok: "\<forall>(x, v) \<in> set tlbi_writes. x + 8 \<le> length (plain_image template) \<and> v < 256 ^ 8 \<and> 8 dvd x"
      using tlbi_writes_ok len by simp
    have rd: "field_at 8 x img = (case map_of (rev tlbi_writes) x of Some v \<Rightarrow> v
        | None \<Rightarrow> field_at 8 x (plain_image template))" if "x + 8 \<le> 0x23000" "8 dvd x" for x
      using u64.read_write_all [OF ok _ that(2)] that(1) len b(2) True
      by (simp add: field_at_def split: option.split)
    have m: "map_of (rev tlbi_writes) x =
        (if x = 0x220F8 then Some (pte (PHYSICAL_BASE + LEVEL0_OFFSET) PTE_FLAGS_RWAD)
         else if x = 0x18000 then Some TLBI_OLD_VALUE else if x = 0x1C000 then Some TLBI_NEW_VALUE else None)" for x
      by (auto simp: tlbi_writes_def tlbi_defs layout_defs)
    have li: "length img = 0x23000"
      using True b(2) by simp (subst u64.length_write_all; use ok len in auto)
    have "table_at img 0 (built_leaf tlbi)"
      unfolding table_at_def li
    proof (intro conjI allI impI)
      fix k :: nat assume k: "k < 512"
      note t = p(1) [unfolded table_at_def, THEN conjunct2]
      show "field_at 8 (0 + ROOT_OFFSET + 8 * k) img =
          (if k = 1 then pte (PHYSICAL_BASE + 0 + LEVEL1_OFFSET) 1 else 0)"
        using k t by (subst rd) (auto simp: m layout_defs)
      show "field_at 8 (0 + LEVEL1_OFFSET + 8 * k) img =
          (if k = 0 then pte (PHYSICAL_BASE + 0 + LEVEL0_OFFSET) 1 else 0)"
        using k t by (subst rd) (auto simp: m layout_defs)
      show "field_at 8 (0 + LEVEL0_OFFSET + 8 * k) img = (if k < 32 then built_leaf tlbi k else 0)"
        using k t True by (subst rd) (auto simp: m layout_defs built_leaf_def TLBI_PTE_ALIAS_PAGE_def)
    qed simp
    with li show ?thesis by (simp add: IMAGE_BYTES_def layout_defs)
  qed
  then show "table_at img 0 (built_leaf tlbi)" "length img = IMAGE_BYTES" by simp_all
qed

lemma built_leaf_fields:
  assumes "k < 32"
  shows "odd (built_leaf tlbi k)" "pte_flags (built_leaf tlbi k) =
      (if tlbi \<and> k = TLBI_PTE_ALIAS_PAGE then PTE_FLAGS_RWAD else PTE_FLAGS_RWXAD)"
    "4096 * pte_ppn (built_leaf tlbi k) =
      (if tlbi \<and> k = TLBI_PTE_ALIAS_PAGE then PHYSICAL_BASE + LEVEL0_OFFSET else PHYSICAL_BASE + k * 4096)"
  by (simp_all add: built_leaf_def shared_leaf_def pte_fields layout_defs)

text \<open>
  C11: in every image the shared builder makes, the Sv39 walk from its root translates exactly the
  128 KiB window at \<open>VIRTUAL_BASE\<close> to the image's own first pages, read-write-execute; with the TLB
  test, page 31 of the window instead reaches the level-0 table itself, not executable. Every other
  address, canonical or not, faults.
\<close>

theorem shared_image_translates_window:
  assumes "build_shared template tlbi = Inr img"
  shows "translate img (PHYSICAL_BASE + ROOT_OFFSET) va =
    (if VIRTUAL_BASE \<le> va \<and> va < VIRTUAL_BASE + MAPPED_BYTES
     then if tlbi \<and> (va - VIRTUAL_BASE) div 4096 = TLBI_PTE_ALIAS_PAGE
          then Some (PHYSICAL_BASE + LEVEL0_OFFSET + va mod 4096, PTE_FLAGS_RWAD)
          else Some (PHYSICAL_BASE + (va - VIRTUAL_BASE), PTE_FLAGS_RWXAD)
     else None)"
proof -
  have leaf: "\<forall>k < 32. odd (built_leaf tlbi k) \<and> pte_flags (built_leaf tlbi k) AND 0xE \<noteq> 0"
    using built_leaf_fields by (auto simp: layout_defs)
  have can: "VIRTUAL_BASE \<le> va \<and> va < VIRTUAL_BASE + MAPPED_BYTES \<Longrightarrow> canonical va"
    by (simp add: canonical_def layout_defs)
  note t = table_translates [OF built_table(1) [OF assms] _ leaf, of va]
  show ?thesis
  proof (cases "VIRTUAL_BASE \<le> va \<and> va < VIRTUAL_BASE + MAPPED_BYTES")
    case True
    let ?k = "(va - VIRTUAL_BASE) div 4096"
    have k: "?k < 32" using window_vpn [OF can [OF True]] True by simp
    have "?k * 4096 + va mod 4096 = va - VIRTUAL_BASE" using window_vpn(2) [OF can [OF True] True] by simp
    then have pa: "PHYSICAL_BASE + ?k * 4096 + va mod 4096 = PHYSICAL_BASE + (va - VIRTUAL_BASE)" by linarith
    show ?thesis
    proof (cases "tlbi \<and> ?k = TLBI_PTE_ALIAS_PAGE")
      case hit: True
      with True t can [OF True] built_leaf_fields [OF k, of tlbi] show ?thesis by (simp add: Let_def)
    next
      case False
      with True t can [OF True] built_leaf_fields [OF k, of tlbi] pa show ?thesis by (simp only: Let_def) simp
    qed
  next
    case False
    with t show ?thesis by auto
  qed
qed

theorem shared_image_translates_window_witness:
  "\<exists>img. build_shared [1, 2, 3] True = Inr img \<and>
     translate img (PHYSICAL_BASE + ROOT_OFFSET) 0x40000123 = Some (0x80000123, 0xCF) \<and>
     translate img (PHYSICAL_BASE + ROOT_OFFSET) 0x4001F008 = Some (0x80022008, 0xC7) \<and>
     translate img (PHYSICAL_BASE + ROOT_OFFSET) 0x40020000 = None"
proof -
  have "length [1, 2, 3 :: byte] \<le> IMAGE_BYTES" by (simp add: IMAGE_BYTES_def layout_defs)
  from build_shared_writes [OF this, of True]
  obtain img where i: "build_shared [1, 2, 3] True = Inr img" by blast
  with shared_image_translates_window [OF i] show ?thesis
    by (auto simp: layout_defs tlbi_defs)
qed

lemma built_field:
  assumes "build_shared template tlbi = Inr img" "x + 8 \<le> ROOT_OFFSET" "8 dvd x"
  shows "field_at 8 x img =
    (if tlbi \<and> x = TLBI_TARGET_PAGE * 0x1000 then TLBI_OLD_VALUE
     else if tlbi \<and> x = TLBI_NEW_PAGE * 0x1000 then TLBI_NEW_VALUE
     else field_at 8 x (shared_base template))"
proof -
  note b = build_shared_image [OF assms(1)]
  let ?ws = "if tlbi then tlbi_writes else []"
  have len: "length (cleared_base template) = 0x23000" "length (plain_image template) = 0x23000"
    using shared_length [OF b(1)] plain_image_facts(2) [OF b(1)] by (simp_all add: IMAGE_BYTES_def layout_defs)
  have ok: "\<forall>(x, v) \<in> set ?ws. x + 8 \<le> length (plain_image template) \<and> v < 256 ^ 8 \<and> 8 dvd x"
    using tlbi_writes_ok len by simp
  have "\<forall>(y, v) \<in> set (table_writes 0 shared_leaf). x + 8 \<le> y \<or> y + 8 \<le> x"
    "\<forall>(y, v) \<in> set (table_writes 0 shared_leaf). y + 8 \<le> length (cleared_base template)"
    using table_writes_offsets [of _ _ 0] assms(2) len by (fastforce intro: order_trans)+
  then have "peek x 8 (plain_image template) = peek x 8 (cleared_base template)"
    unfolding plain_image_def using assms(2) len by (intro u64.write_all_frame) (auto simp: ROOT_OFFSET_def)
  also have "\<dots> = peek x 8 (shared_base template)"
    by (rule peek_eqI)
      (use assms(2) b(1) in \<open>auto simp: cleared_base_def shared_base_def nth_append IMAGE_BYTES_def layout_defs\<close>)
  finally have plain: "field_at 8 x (plain_image template) = field_at 8 x (shared_base template)"
    by (simp add: field_at_def)
  have "x + 8 \<le> length (plain_image template)" using assms(2) len by (simp add: ROOT_OFFSET_def)
  from u64.read_write_all [OF ok this assms(3)] plain b(2)
  have "field_at 8 x img = (case map_of (rev ?ws) x of Some v \<Rightarrow> v | None \<Rightarrow> field_at 8 x (shared_base template))"
    by (simp add: field_at_def split: option.split)
  then show ?thesis
    using assms(2) by (auto simp: tlbi_writes_def tlbi_defs layout_defs)
qed

text \<open>
  The shared builder fails exactly on a template larger than the image, and otherwise keeps the
  program: every aligned doubleword below the tables is the template's (zero beyond its end), except
  the two test values the TLB test places in its target page and its replacement page.
\<close>

theorem shared_image_keeps_program:
  "case build_shared template tlbi of
     Inl e \<Rightarrow> e = TemplateTooLarge (length template) \<and> IMAGE_BYTES < length template
   | Inr img \<Rightarrow> length template \<le> IMAGE_BYTES \<and> length img = IMAGE_BYTES \<and>
       (\<forall>x. x + 8 \<le> ROOT_OFFSET \<and> 8 dvd x \<longrightarrow>
          field_at 8 x img =
            (if tlbi \<and> x = TLBI_TARGET_PAGE * 0x1000 then TLBI_OLD_VALUE
             else if tlbi \<and> x = TLBI_NEW_PAGE * 0x1000 then TLBI_NEW_VALUE
             else field_at 8 x (template @ replicate (IMAGE_BYTES - length template) 0)))"
proof (cases "build_shared template tlbi")
  case (Inl e)
  then have "\<not> length template \<le> IMAGE_BYTES" using build_shared_writes by fastforce
  with Inl show ?thesis by (simp add: build_shared_def)
next
  case (Inr img)
  with build_shared_image(1) [OF Inr] built_table(2) [OF Inr] built_field [OF Inr]
  show ?thesis by (simp add: shared_base_def)
qed

theorem shared_image_keeps_program_witness:
  "\<exists>img. build_shared [7] True = Inr img \<and> field_at 8 0x18000 img = 0x1111222233334444"
proof -
  have "length [7 :: byte] \<le> IMAGE_BYTES" by (simp add: IMAGE_BYTES_def layout_defs)
  from build_shared_writes [OF this, of True]
  obtain img where i: "build_shared [7] True = Inr img" by blast
  with shared_image_keeps_program [where template = "[7]" and tlbi = True] show ?thesis
    by (auto simp: layout_defs tlbi_defs dest!: spec [of _ "0x18000"])
qed

end
