(* ===== verification/Sv39Harts.thy ===== *)
theory Sv39Harts
  imports Sv39
begin

text \<open>
  \<open>tools/make_4h_sv39_image.py\<close>: one Sv39 supervisor image replicated under four physical prefixes,
  each hart with a page table of its own. The theorems: every hart's walk maps the same virtual window
  to that hart's private copy, no two harts ever reach the same physical byte, and every copy holds the
  template.
\<close>

section \<open>The builder\<close>

definition HARTS :: nat where "HARTS = 4"
definition PREFIX_STRIDE :: nat where "PREFIX_STRIDE = 0x100000"
definition IMAGE_BYTES_4H :: nat where
  "IMAGE_BYTES_4H = (HARTS - 1) * PREFIX_STRIDE + LEVEL0_OFFSET + 0x1000"

lemmas harts_defs = HARTS_def PREFIX_STRIDE_def IMAGE_BYTES_4H_def layout_defs

definition build_hart :: "byte list \<Rightarrow> nat \<Rightarrow> byte list \<Rightarrow> sv39_error + byte list" where
  "build_hart template hart img =
     (let prefix = hart * PREFIX_STRIDE;
          physical_prefix = PHYSICAL_BASE + prefix;
          img0 = slice_assign prefix (prefix + length template) template img;
          root = prefix + ROOT_OFFSET;
          level1 = prefix + LEVEL1_OFFSET;
          level0 = prefix + LEVEL0_OFFSET;
          img1 = slice_assign root (root + 0x1000) (replicate 0x1000 0) img0;
          img2 = slice_assign level1 (level1 + 0x1000) (replicate 0x1000 0) img1;
          img3 = slice_assign level0 (level0 + 0x1000) (replicate 0x1000 0) img2
      in bindE (put_u64 img3 (root + 1 * 8) (pte (physical_prefix + LEVEL1_OFFSET) 0x1)) (\<lambda>img4.
         bindE (put_u64 img4 level1 (pte (physical_prefix + LEVEL0_OFFSET) 0x1)) (\<lambda>img5.
         foldE (\<lambda>page img.
             put_u64 img (level0 + page * 8) (pte (physical_prefix + page * 0x1000) PTE_FLAGS_RWXAD))
           [0..<MAPPED_BYTES div 0x1000] img5)))"

definition build_4h :: "byte list \<Rightarrow> sv39_error + byte list" where
  "build_4h template =
     (if LEVEL0_OFFSET + 0x1000 < length template then Inl (TemplateTooLarge (length template))
      else foldE (build_hart template) [0..<HARTS] (replicate IMAGE_BYTES_4H 0))"

section \<open>One hart's part\<close>

abbreviation prefix_of :: "nat \<Rightarrow> nat" where
  "prefix_of hart \<equiv> hart * PREFIX_STRIDE"

definition hart_leaf :: "nat \<Rightarrow> nat \<Rightarrow> nat" where
  "hart_leaf hart k = pte (PHYSICAL_BASE + prefix_of hart + k * 0x1000) PTE_FLAGS_RWXAD"

text \<open>The template and the three cleared pages, as byte pokes.\<close>

definition cleared_hart :: "byte list \<Rightarrow> nat \<Rightarrow> byte list \<Rightarrow> byte list" where
  "cleared_hart template hart img =
     poke (prefix_of hart + LEVEL0_OFFSET) (replicate 0x1000 0)
       (poke (prefix_of hart + LEVEL1_OFFSET) (replicate 0x1000 0)
         (poke (prefix_of hart + ROOT_OFFSET) (replicate 0x1000 0)
           (poke (prefix_of hart) template img)))"

definition hart_image :: "byte list \<Rightarrow> nat \<Rightarrow> byte list \<Rightarrow> byte list" where
  "hart_image template hart img =
     write_all (le_bytes 8) (table_writes (prefix_of hart) (hart_leaf hart)) (cleared_hart template hart img)"

lemma hart_leaf_less: "hart < 4 \<Longrightarrow> k < 32 \<Longrightarrow> hart_leaf hart k < 256 ^ 8"
  unfolding hart_leaf_def by (rule pte_less) (simp_all add: harts_defs)

lemma build_hart_image:
  assumes "hart < 4"
  shows "build_hart template hart img = Inr (hart_image template hart img)"
proof -
  have lt: "pte (PHYSICAL_BASE + prefix_of hart + LEVEL1_OFFSET) 1 < 256 ^ 8"
    "pte (PHYSICAL_BASE + prefix_of hart + LEVEL0_OFFSET) 1 < 256 ^ 8"
    by (rule pte_less; use assms in \<open>simp add: harts_defs\<close>)+
  note put = lt [THEN put_u64_poke]
  have fold: "foldE (\<lambda>page img. put_u64 img (prefix_of hart + LEVEL0_OFFSET + page * 8)
      (pte (PHYSICAL_BASE + prefix_of hart + page * 0x1000) PTE_FLAGS_RWXAD)) [0..<MAPPED_BYTES div 0x1000] img =
    Inr (write_all (le_bytes 8)
      (map (\<lambda>k. (prefix_of hart + LEVEL0_OFFSET + k * 8, hart_leaf hart k)) [0..<32]) img)" for img
    using hart_leaf_less [OF assms]
    by (subst foldE_put) (auto simp: hart_leaf_def MAPPED_BYTES_def)
  show ?thesis
    by (simp add: build_hart_def Let_def fold put table_writes_def hart_image_def cleared_hart_def poke_def
        del: upt_rec_numeral One_nat_def)
qed

lemma hart_bounds:
  assumes "hart < 4" "length img = IMAGE_BYTES_4H"
  shows "prefix_of hart + 0x23000 \<le> length img" "8 dvd prefix_of hart" "prefix_of hart < 2 ^ 40"
    "prefix_of hart mod 4096 = 0"
  using assms by (auto simp: harts_defs)

lemma cleared_hart_nth:
  assumes "hart < 4" "length img = IMAGE_BYTES_4H" "length template \<le> 0x23000"
  shows "length (cleared_hart template hart img) = IMAGE_BYTES_4H"
    "i < IMAGE_BYTES_4H \<Longrightarrow> cleared_hart template hart img ! i =
      (if prefix_of hart + ROOT_OFFSET \<le> i \<and> i < prefix_of hart + 0x23000 then 0
       else if prefix_of hart \<le> i \<and> i < prefix_of hart + length template then template ! (i - prefix_of hart)
       else img ! i)"
proof -
  note b = hart_bounds [OF assms(1,2)]
  show "length (cleared_hart template hart img) = IMAGE_BYTES_4H"
    using b(1) assms(2,3) by (simp add: cleared_hart_def layout_defs)
  show "cleared_hart template hart img ! i =
      (if prefix_of hart + ROOT_OFFSET \<le> i \<and> i < prefix_of hart + 0x23000 then 0
       else if prefix_of hart \<le> i \<and> i < prefix_of hart + length template then template ! (i - prefix_of hart)
       else img ! i)" if "i < IMAGE_BYTES_4H"
    using b(1) assms(2,3) that by (auto simp: cleared_hart_def nth_poke layout_defs)
qed

lemma table_writes_in:
  assumes "hart < 4" "length img = IMAGE_BYTES_4H"
  shows "\<forall>(x, v) \<in> set (table_writes (prefix_of hart) leaf). x + 8 \<le> length img"
  using table_writes_offsets(2) hart_bounds(1) [OF assms] by (fastforce intro: order_trans)

lemma hart_image_facts:
  assumes "hart < 4" "length img = IMAGE_BYTES_4H" "length template \<le> 0x23000"
  shows "length (hart_image template hart img) = IMAGE_BYTES_4H"
    "table_at (hart_image template hart img) (prefix_of hart) (hart_leaf hart)"
    "i < IMAGE_BYTES_4H \<Longrightarrow> i < prefix_of hart + ROOT_OFFSET \<or> prefix_of hart + 0x23000 \<le> i \<Longrightarrow>
      hart_image template hart img ! i = cleared_hart template hart img ! i"
proof -
  let ?c = "cleared_hart template hart img" and ?ws = "table_writes (prefix_of hart) (hart_leaf hart)"
  note c = cleared_hart_nth [OF assms]
  note b = hart_bounds [OF assms(1) c(1)]
  note wi = table_writes_in [OF assms(1) c(1), of "hart_leaf hart"]
  show len: "length (hart_image template hart img) = IMAGE_BYTES_4H"
    using u64.length_write_all [OF wi] c(1) by (simp add: hart_image_def)
  have zero: "field_at 8 x ?c = 0" if "prefix_of hart + ROOT_OFFSET \<le> x" "x + 8 \<le> prefix_of hart + 0x23000" for x
  proof -
    have "peek x 8 ?c = peek x 8 (replicate IMAGE_BYTES_4H 0)"
      by (rule peek_eqI) (use that b(1) c in auto)
    also have "\<dots> = replicate 8 0" by (rule peek_replicate) (use that b(1) c(1) in simp)
    finally show ?thesis by (simp add: field_at_def)
  qed
  show "table_at (hart_image template hart img) (prefix_of hart) (hart_leaf hart)"
    unfolding hart_image_def
    by (rule write_table_at [OF b(1-3)]) (use zero hart_leaf_less [OF assms(1)] in blast)+
  show "hart_image template hart img ! i = ?c ! i"
    if i: "i < IMAGE_BYTES_4H" and out: "i < prefix_of hart + ROOT_OFFSET \<or> prefix_of hart + 0x23000 \<le> i"
  proof -
    have "\<forall>(x, v) \<in> set ?ws. i + 1 \<le> x \<or> x + 8 \<le> i"
      using table_writes_offsets(1,2) out by (fastforce intro: order_trans)
    then have "peek i 1 (hart_image template hart img) = peek i 1 ?c"
      unfolding hart_image_def by (intro u64.write_all_frame [OF wi]) (use i c(1) in auto)
    with i len c(1) show ?thesis by (simp add: peek_def slice_def hd_drop_conv_nth take_Suc_conv_app_nth Cons_nth_drop_Suc [symmetric])
  qed
qed

section \<open>All harts\<close>

text \<open>What holds of the copies below \<open>n\<close> when the loop has built them.\<close>

definition built_upto :: "byte list \<Rightarrow> nat \<Rightarrow> byte list \<Rightarrow> bool" where
  "built_upto template n img \<longleftrightarrow>
     length img = IMAGE_BYTES_4H \<and>
     (\<forall>h < n. table_at img (prefix_of h) (hart_leaf h) \<and>
        (\<forall>i < ROOT_OFFSET. img ! (prefix_of h + i) = (if i < length template then template ! i else 0))) \<and>
     (\<forall>i < IMAGE_BYTES_4H. prefix_of n \<le> i \<longrightarrow> img ! i = 0)"

lemma table_at_cong:
  assumes "table_at x p leaf" "length y = length x" "\<And>i. p \<le> i \<Longrightarrow> i < p + 0x23000 \<Longrightarrow> y ! i = x ! i"
  shows "table_at y p leaf"
proof -
  have len: "p + 0x23000 \<le> length x" using assms(1) by (simp add: table_at_def)
  have "field_at 8 a y = field_at 8 a x" if "p \<le> a" "a + 8 \<le> p + 0x23000" for a
    unfolding field_at_def by (rule arg_cong [where f = le_val], rule peek_eqI) (use that len assms in auto)
  then show ?thesis using assms(1,2) by (simp add: table_at_def layout_defs)
qed

lemma built_upto_step:
  assumes "built_upto template n img" "n < 4" "length template \<le> 0x23000"
  shows "built_upto template (Suc n) (hart_image template n img)"
proof -
  let ?t = "hart_image template n img"
  have len: "length img = IMAGE_BYTES_4H" using assms(1) by (simp add: built_upto_def)
  note f = hart_image_facts [OF assms(2) len assms(3)] and c = cleared_hart_nth [OF assms(2) len assms(3)]
  have P: "prefix_of n + 0x23000 \<le> IMAGE_BYTES_4H" using assms(2) by (auto simp: harts_defs)
  have old: "?t ! i = img ! i" if "i < IMAGE_BYTES_4H" "i < prefix_of n \<or> prefix_of n + 0x23000 \<le> i" for i
    using f(3) [OF that(1)] c(2) [OF that(1)] that(2) assms(3) by (auto simp: ROOT_OFFSET_def)
  have below: "prefix_of h + 0x23000 \<le> prefix_of n" if "h < n" for h
  proof -
    have "Suc h * PREFIX_STRIDE \<le> n * PREFIX_STRIDE" using that by (intro mult_le_mono1) simp
    then show ?thesis by (simp add: PREFIX_STRIDE_def)
  qed
  have new: "?t ! (prefix_of n + i) = (if i < length template then template ! i else 0)" if "i < ROOT_OFFSET" for i
  proof -
    have i: "prefix_of n + i < IMAGE_BYTES_4H" using that P by (simp add: ROOT_OFFSET_def)
    then have "img ! (prefix_of n + i) = 0" using assms(1) by (simp add: built_upto_def)
    with f(3) [OF i] c(2) [OF i] that show ?thesis by simp
  qed
  have one: "table_at ?t (prefix_of h) (hart_leaf h) \<and>
      (\<forall>i < ROOT_OFFSET. ?t ! (prefix_of h + i) = (if i < length template then template ! i else 0))"
    if "h < Suc n" for h
  proof (cases "h = n")
    case True
    with f(2) new show ?thesis by simp
  next
    case False
    then have h: "h < n" using that by simp
    have same: "?t ! i = img ! i" if "prefix_of h \<le> i" "i < prefix_of h + 0x23000" for i
      by (rule old) (use that below [OF h] P in auto)
    have "table_at ?t (prefix_of h) (hart_leaf h)"
      by (rule table_at_cong [OF _ _ same]) (use assms(1) h len f(1) in \<open>auto simp: built_upto_def\<close>)
    moreover have "?t ! (prefix_of h + i) = img ! (prefix_of h + i)" if "i < ROOT_OFFSET" for i
      by (rule same) (use that in \<open>auto simp: ROOT_OFFSET_def\<close>)
    ultimately show ?thesis using assms(1) h by (simp add: built_upto_def)
  qed
  have rest: "?t ! i = 0" if "i < IMAGE_BYTES_4H" "prefix_of (Suc n) \<le> i" for i
  proof -
    have "prefix_of n + 0x23000 \<le> i" using that(2) by (simp add: PREFIX_STRIDE_def)
    with old [OF that(1)] assms(1) that(1) show ?thesis by (simp add: built_upto_def)
  qed
  show ?thesis unfolding built_upto_def using f(1) one rest by blast
qed

lemma build_4h_built:
  assumes "length template \<le> 0x23000"
  shows "\<exists>img. build_4h template = Inr img \<and> built_upto template 4 img"
proof -
  have "n \<le> 4 \<Longrightarrow> \<exists>img. foldE (build_hart template) [0..<n] (replicate IMAGE_BYTES_4H 0) = Inr img \<and>
      built_upto template n img" for n
  proof (induction n)
    case 0
    show ?case by (simp add: built_upto_def)
  next
    case (Suc n)
    then obtain img where img: "foldE (build_hart template) [0..<n] (replicate IMAGE_BYTES_4H 0) = Inr img"
      "built_upto template n img" by auto
    with built_upto_step [OF img(2) _ assms] build_hart_image [of n template img] Suc.prems
    show ?case by (simp add: foldE_append)
  qed
  from this [of 4] assms show ?thesis by (simp add: build_4h_def HARTS_def LEVEL0_OFFSET_def del: upt_rec_numeral)
qed

lemma build_4h_Inr:
  assumes "build_4h template = Inr img"
  shows "length template \<le> 0x23000" "built_upto template 4 img"
proof -
  show "length template \<le> 0x23000"
    using assms by (cases "LEVEL0_OFFSET + 0x1000 < length template") (simp_all add: build_4h_def LEVEL0_OFFSET_def)
  then show "built_upto template 4 img" using build_4h_built [of template] assms by auto
qed

lemma harts_walk:
  assumes "build_4h template = Inr img" "hart < HARTS"
  shows "translate img (PHYSICAL_BASE + hart * PREFIX_STRIDE + ROOT_OFFSET) va =
    (if VIRTUAL_BASE \<le> va \<and> va < VIRTUAL_BASE + MAPPED_BYTES
     then Some (PHYSICAL_BASE + hart * PREFIX_STRIDE + (va - VIRTUAL_BASE), PTE_FLAGS_RWXAD) else None)"
proof -
  have h: "hart < 4" using assms(2) by (simp add: HARTS_def)
  have tab: "table_at img (prefix_of hart) (hart_leaf hart)"
    using build_4h_Inr(2) [OF assms(1)] h by (simp add: built_upto_def)
  have len: "length img = IMAGE_BYTES_4H" using build_4h_Inr(2) [OF assms(1)] by (simp add: built_upto_def)
  have f: "odd (hart_leaf hart k)" "pte_flags (hart_leaf hart k) = PTE_FLAGS_RWXAD"
    "4096 * pte_ppn (hart_leaf hart k) = PHYSICAL_BASE + prefix_of hart + k * 4096" for k
    by (simp_all add: hart_leaf_def pte_fields harts_defs)
  have leaf: "\<forall>k < 32. odd (hart_leaf hart k) \<and> pte_flags (hart_leaf hart k) AND 0xE \<noteq> 0"
    by (simp add: f PTE_FLAGS_RWXAD_def)
  have can: "VIRTUAL_BASE \<le> va \<and> va < VIRTUAL_BASE + MAPPED_BYTES \<Longrightarrow> canonical va"
    by (simp add: canonical_def layout_defs)
  note t = table_translates [OF tab hart_bounds(4) [OF h len] leaf, of va]
  show ?thesis
  proof (cases "VIRTUAL_BASE \<le> va \<and> va < VIRTUAL_BASE + MAPPED_BYTES")
    case True
    let ?k = "(va - VIRTUAL_BASE) div 4096"
    have "?k * 4096 + va mod 4096 = va - VIRTUAL_BASE" using window_vpn(2) [OF can [OF True] True] by simp
    then have "PHYSICAL_BASE + prefix_of hart + ?k * 4096 + va mod 4096 =
        PHYSICAL_BASE + prefix_of hart + (va - VIRTUAL_BASE)" by linarith
    with t True can [OF True] show ?thesis by (simp only: Let_def f) simp
  next
    case False
    with t show ?thesis by auto
  qed
qed

text \<open>
  C12: whatever the template, if the four-hart builder accepts it then hart \<open>h\<close>'s walk from its own root
  translates exactly the 128 KiB window at \<open>VIRTUAL_BASE\<close> into hart \<open>h\<close>'s private copy, byte for byte,
  and that copy holds the template (padded with zeros) up to the page tables.
\<close>

theorem harts_image_translates_window:
  assumes "build_4h template = Inr img" "hart < HARTS"
  shows "translate img (PHYSICAL_BASE + hart * PREFIX_STRIDE + ROOT_OFFSET) va =
      (if VIRTUAL_BASE \<le> va \<and> va < VIRTUAL_BASE + MAPPED_BYTES
       then Some (PHYSICAL_BASE + hart * PREFIX_STRIDE + (va - VIRTUAL_BASE), PTE_FLAGS_RWXAD) else None) \<and>
    (\<forall>i < ROOT_OFFSET. img ! (hart * PREFIX_STRIDE + i) = (if i < length template then template ! i else 0))"
  using harts_walk [OF assms] build_4h_Inr(2) [OF assms(1)] assms(2)
  by (simp add: built_upto_def HARTS_def)

theorem harts_image_translates_window_witness:
  "\<exists>img. build_4h [1, 2] = Inr img \<and> img ! 0x200001 = 2 \<and>
     translate img (PHYSICAL_BASE + 3 * PREFIX_STRIDE + ROOT_OFFSET) 0x40000123 = Some (0x80300123, 0xCF)"
proof -
  obtain img where i: "build_4h [1, 2] = Inr img" using build_4h_built [of "[1, 2]"] by auto
  have "2 < HARTS" "3 < HARTS" by (simp_all add: HARTS_def)
  with harts_image_translates_window [OF i, of 2 0] harts_image_translates_window [OF i, of 3 "0x40000123"] i
  show ?thesis by (auto simp: harts_defs dest!: spec [of _ 1])
qed

text \<open>
  C13: the harts are isolated: two harts of one image never translate any addresses to the same physical
  byte, and no translation reaches a page table.
\<close>

theorem harts_are_isolated:
  assumes "build_4h template = Inr img" "g < HARTS" "h < HARTS"
    "translate img (PHYSICAL_BASE + g * PREFIX_STRIDE + ROOT_OFFSET) va = Some (pa, flags)"
    "translate img (PHYSICAL_BASE + h * PREFIX_STRIDE + ROOT_OFFSET) vb = Some (pb, flags')"
  shows "(pa = pb \<longleftrightarrow> g = h \<and> va = vb) \<and> pa < PHYSICAL_BASE + g * PREFIX_STRIDE + ROOT_OFFSET"
proof -
  have a: "VIRTUAL_BASE \<le> va" "va < VIRTUAL_BASE + MAPPED_BYTES"
      "pa = PHYSICAL_BASE + g * PREFIX_STRIDE + (va - VIRTUAL_BASE)"
    and b: "VIRTUAL_BASE \<le> vb" "vb < VIRTUAL_BASE + MAPPED_BYTES"
      "pb = PHYSICAL_BASE + h * PREFIX_STRIDE + (vb - VIRTUAL_BASE)"
    using assms(4,5) harts_walk [OF assms(1,2), of va] harts_walk [OF assms(1,3), of vb]
    by (auto split: if_splits)
  obtain x y where x: "va = VIRTUAL_BASE + x" "x < MAPPED_BYTES" and y: "vb = VIRTUAL_BASE + y" "y < MAPPED_BYTES"
    using a b by (metis add_less_cancel_left le_Suc_ex)
  have "(x + PREFIX_STRIDE * g) div PREFIX_STRIDE = g" "(y + PREFIX_STRIDE * h) div PREFIX_STRIDE = h"
    using x y by (simp_all add: PREFIX_STRIDE_def MAPPED_BYTES_def)
  then have "x + PREFIX_STRIDE * g = y + PREFIX_STRIDE * h \<longleftrightarrow> g = h \<and> x = y" by (metis add_right_cancel)
  then show ?thesis using a b x y by (auto simp: layout_defs PREFIX_STRIDE_def algebra_simps)
qed

theorem harts_are_isolated_witness:
  "\<exists>img. build_4h [] = Inr img \<and>
     fst (the (translate img (PHYSICAL_BASE + 0 * PREFIX_STRIDE + ROOT_OFFSET) 0x40000000)) \<noteq>
     fst (the (translate img (PHYSICAL_BASE + 1 * PREFIX_STRIDE + ROOT_OFFSET) 0x40000000))"
proof -
  obtain img where i: "build_4h [] = Inr img" using build_4h_built [of "[]"] by auto
  have H: "0 < HARTS" "1 < HARTS" by (simp_all add: HARTS_def)
  have "translate img (PHYSICAL_BASE + 0 * PREFIX_STRIDE + ROOT_OFFSET) 0x40000000 = Some (0x80000000, 0xCF)"
    "translate img (PHYSICAL_BASE + 1 * PREFIX_STRIDE + ROOT_OFFSET) 0x40000000 = Some (0x80100000, 0xCF)"
    using harts_walk [OF i H(1), of "0x40000000"] harts_walk [OF i H(2), of "0x40000000"] by (simp_all add: harts_defs)
  with harts_are_isolated [OF i H this] i show ?thesis by simp
qed

end
