(* ===== verification/SdImage.thy ===== *)
theory SdImage
  imports ByteCodec
begin

unbundle bit_operations_syntax

text \<open>
  \<open>tools/make-fpga-sd-image.py\<close>: the raw microSD boot image. A 512-byte header (magic, geometry, an
  entry table and its CRC32) is followed by the payloads, each on its own run of sectors. \<open>zlib.crc32\<close>
  is written out; \<open>hashlib.sha256\<close>, which only fills the JSON record, is an argument of \<open>manifest\<close>;
  the device-tree compiler is an external program, its output an argument of \<open>build_image\<close>.
\<close>

section \<open>CRC-32\<close>

definition crc_shift :: "32 word \<Rightarrow> 32 word" where
  "crc_shift c = (if bit c 0 then drop_bit 1 c XOR 0xEDB88320 else drop_bit 1 c)"

definition crc_byte :: "32 word \<Rightarrow> byte \<Rightarrow> 32 word" where
  "crc_byte c b = (crc_shift ^^ 8) (c XOR ucast b)"

definition crc32 :: "byte list \<Rightarrow> nat" where
  "crc32 bs = unat (NOT (foldl crc_byte (- 1) bs))"

lemma crc32_less: "crc32 bs < 256 ^ 4"
  using unsigned_less [of "NOT (foldl crc_byte (- 1) bs)"] by (simp add: crc32_def)

section \<open>The layout\<close>

definition SECTOR_BYTES :: nat where "SECTOR_BYTES = 512"
definition FIRST_PAYLOAD_LBA :: nat where "FIRST_PAYLOAD_LBA = 8"
definition MAGIC :: "byte list" where "MAGIC = [0x4f, 0x52, 0x56, 0x36, 0x34, 0x53, 0x44, 0x31]"
definition VERSION :: nat where "VERSION = 1"
definition HEADER_BYTES :: nat where "HEADER_BYTES = SECTOR_BYTES"
definition HEADER_CRC_OFFSET :: nat where "HEADER_CRC_OFFSET = HEADER_BYTES - 4"
definition ENTRY_OFFSET :: nat where "ENTRY_OFFSET = 64"
definition ENTRY_BYTES :: nat where "ENTRY_BYTES = 32"
definition LINUX_MAGIC_OFFSET :: nat where "LINUX_MAGIC_OFFSET = 0x38"
definition LINUX_MAGIC :: "byte list" where "LINUX_MAGIC = [0x52, 0x53, 0x43, 0x05]"
definition TRAMPOLINE_WORDS :: "nat list" where
  "TRAMPOLINE_WORDS =
     [0x000015B7, 0x8FF5859B, 0x01459593, 0x00000613, 0x000012B7, 0x8012829B, 0x01429293, 0x00028067]"

lemmas sd_consts = SECTOR_BYTES_def FIRST_PAYLOAD_LBA_def VERSION_def HEADER_BYTES_def
  HEADER_CRC_OFFSET_def ENTRY_OFFSET_def ENTRY_BYTES_def

record input_image =
  in_tag :: string
  in_load_address :: nat

record sd_entry =
  e_tag :: string
  e_lba :: nat
  e_sector_count :: nat
  e_load_address :: nat
  e_byte_length :: nat
  e_crc32 :: nat

datatype sd_error =
    StrictZip
  | NonAsciiTag string
  | TagTooLong string
  | StructError
  | ShortHeader
  | BadMagic
  | UnsupportedVersion nat
  | UnsupportedSizes
  | InvalidEntryCount nat
  | WrongImageLength nat nat
  | HeaderCrcMismatch nat nat
  | EntryNonAscii nat
  | EntryZero nat
  | EntryTooLong string
  | EntryOutside string
  | EntriesOverlap string string
  | NotSectorMultiple
  | EntryCrcMismatch string nat nat
  | PaddingNotZero string
  | MissingSource string
  | EmptyOpensbi
  | EmptyLinux
  | NoLinuxMagic

definition sectors_for :: "nat \<Rightarrow> nat" where
  "sectors_for byte_length = (byte_length + SECTOR_BYTES - 1) div SECTOR_BYTES"

fun entries_from :: "nat \<Rightarrow> (input_image \<times> byte list) list \<Rightarrow> sd_entry list" where
  "entries_from next_lba [] = []"
| "entries_from next_lba ((item, data) # rest) =
     \<lparr>e_tag = in_tag item, e_lba = next_lba, e_sector_count = sectors_for (length data),
      e_load_address = in_load_address item, e_byte_length = length data, e_crc32 = crc32 data\<rparr> #
     entries_from (next_lba + sectors_for (length data)) rest"

definition make_entries :: "input_image list \<Rightarrow> byte list list \<Rightarrow> sd_error + sd_entry list" where
  "make_entries inputs payloads =
     (if length inputs \<noteq> length payloads then Inl StrictZip
      else Inr (entries_from FIRST_PAYLOAD_LBA (zip inputs payloads)))"

section \<open>Encoding the header\<close>

definition ascii_char :: "char \<Rightarrow> bool" where
  "ascii_char c \<longleftrightarrow> (of_char c :: nat) < 128"

definition tag_bytes :: "string \<Rightarrow> byte list" where
  "tag_bytes tag = map (\<lambda>c. word_of_nat (of_char c)) tag"

text \<open>\<open>struct\<close>'s \<open>8s\<close>: cut or zero-padded to eight bytes.\<close>

definition pad8 :: "byte list \<Rightarrow> byte list" where
  "pad8 bs = take 8 (bs @ replicate 8 0)"

definition entry_bytes :: "sd_entry \<Rightarrow> byte list" where
  "entry_bytes e =
     pad8 (tag_bytes (e_tag e)) @ le_bytes 4 (e_lba e) @ le_bytes 4 (e_sector_count e) @
     le_bytes 8 (e_load_address e) @ le_bytes 4 (e_byte_length e) @ le_bytes 4 (e_crc32 e)"

definition entry_fits :: "sd_entry \<Rightarrow> bool" where
  "entry_fits e \<longleftrightarrow>
     e_lba e < 256 ^ 4 \<and> e_sector_count e < 256 ^ 4 \<and> e_load_address e < 256 ^ 8 \<and>
     e_byte_length e < 256 ^ 4 \<and> e_crc32 e < 256 ^ 4"

definition pack_entry :: "nat \<times> sd_entry \<Rightarrow> byte list \<Rightarrow> sd_error + byte list" where
  "pack_entry ie header =
     (case ie of (index, entry) \<Rightarrow>
        let offset = ENTRY_OFFSET + index * ENTRY_BYTES in
        if \<not> list_all ascii_char (e_tag entry) then Inl (NonAsciiTag (e_tag entry))
        else if 8 < length (e_tag entry) then Inl (TagTooLong (e_tag entry))
        else if entry_fits entry \<and> offset + ENTRY_BYTES \<le> length header
        then Inr (slice_assign offset (offset + ENTRY_BYTES) (entry_bytes entry) header)
        else Inl StructError)"

definition header_fields :: "nat \<Rightarrow> nat \<Rightarrow> byte list" where
  "header_fields entry_count image_bytes =
     MAGIC @ le_bytes 4 VERSION @ le_bytes 4 HEADER_BYTES @ le_bytes 4 ENTRY_BYTES @
     le_bytes 4 entry_count @ le_bytes 8 image_bytes"

definition encode_header :: "sd_entry list \<Rightarrow> nat \<Rightarrow> sd_error + byte list" where
  "encode_header entries image_bytes =
     (if length entries < 256 ^ 4 \<and> image_bytes < 256 ^ 8
      then
        let header = slice_assign 0 32 (header_fields (length entries) image_bytes) (replicate HEADER_BYTES 0)
        in bindE (foldE pack_entry (zip [0..<length entries] entries) header) (\<lambda>header.
             Inr (slice_assign HEADER_CRC_OFFSET (HEADER_CRC_OFFSET + 4)
                    (le_bytes 4 (crc32 (slice 0 HEADER_CRC_OFFSET header))) header))
      else Inl StructError)"

section \<open>Decoding and verifying\<close>

definition rstrip0 :: "byte list \<Rightarrow> byte list" where
  "rstrip0 bs = rev (dropWhile (\<lambda>b. b = 0) (rev bs))"

definition bytes_tag :: "byte list \<Rightarrow> string" where
  "bytes_tag bs = map (\<lambda>b. char_of (unat b)) bs"

text \<open>\<open>ENTRY_STRUCT.unpack_from\<close>: the record of one raw table entry.\<close>

definition unpack_entry :: "byte list \<Rightarrow> sd_entry" where
  "unpack_entry raw =
     \<lparr>e_tag = bytes_tag (rstrip0 (slice 0 8 raw)), e_lba = field_at 4 8 raw, e_sector_count = field_at 4 12 raw,
      e_load_address = field_at 8 16 raw, e_byte_length = field_at 4 24 raw, e_crc32 = field_at 4 28 raw\<rparr>"

definition decode_entry :: "byte list \<Rightarrow> nat \<Rightarrow> nat \<Rightarrow> sd_error + sd_entry" where
  "decode_entry header actual_image_bytes index =
     (let raw = peek (ENTRY_OFFSET + index * ENTRY_BYTES) ENTRY_BYTES header;
          e = unpack_entry raw
      in if \<not> list_all (\<lambda>b. unat b < 128) (rstrip0 (slice 0 8 raw)) then Inl (EntryNonAscii index)
         else if e_tag e = [] \<or> e_sector_count e = 0 \<or> e_byte_length e = 0 then Inl (EntryZero index)
         else if e_sector_count e * SECTOR_BYTES < e_byte_length e then Inl (EntryTooLong (e_tag e))
         else
           let start = e_lba e * SECTOR_BYTES;
               end_byte = start + e_sector_count e * SECTOR_BYTES
           in if e_lba e < FIRST_PAYLOAD_LBA \<or> actual_image_bytes < end_byte
              then Inl (EntryOutside (e_tag e)) else Inr e)"

definition entry_range :: "sd_entry \<Rightarrow> nat \<times> nat \<times> string" where
  "entry_range e = (e_lba e, e_lba e + e_sector_count e, e_tag e)"

fun check_ranges :: "(nat \<times> nat \<times> string) list \<Rightarrow> 'a \<Rightarrow> sd_error + 'a" where
  "check_ranges ((a, b, s) # (c, d, t) # rest) v =
     (if c < b then Inl (EntriesOverlap s t) else check_ranges ((c, d, t) # rest) v)"
| "check_ranges _ v = Inr v"

definition decode_header :: "byte list \<Rightarrow> nat \<Rightarrow> sd_error + sd_entry list" where
  "decode_header header actual_image_bytes =
     (if length header \<noteq> HEADER_BYTES then Inl ShortHeader
      else if slice 0 8 header \<noteq> MAGIC then Inl BadMagic
      else
        let version = field_at 4 8 header;
            header_bytes = field_at 4 12 header;
            entry_bytes = field_at 4 16 header;
            entry_count = field_at 4 20 header;
            image_bytes = field_at 8 24 header;
            maximum_entries = (HEADER_CRC_OFFSET - ENTRY_OFFSET) div ENTRY_BYTES;
            stored_crc = field_at 4 HEADER_CRC_OFFSET header;
            calculated_crc = crc32 (slice 0 HEADER_CRC_OFFSET header)
        in if version \<noteq> VERSION then Inl (UnsupportedVersion version)
           else if header_bytes \<noteq> HEADER_BYTES \<or> entry_bytes \<noteq> ENTRY_BYTES then Inl UnsupportedSizes
           else if \<not> (1 \<le> entry_count \<and> entry_count \<le> maximum_entries) then Inl (InvalidEntryCount entry_count)
           else if image_bytes \<noteq> actual_image_bytes then Inl (WrongImageLength image_bytes actual_image_bytes)
           else if stored_crc \<noteq> calculated_crc then Inl (HeaderCrcMismatch stored_crc calculated_crc)
           else bindE (mapE (decode_entry header actual_image_bytes) [0..<entry_count]) (\<lambda>entries.
                  check_ranges (sort (map entry_range entries)) entries))"

definition verify_entry :: "byte list \<Rightarrow> sd_entry \<Rightarrow> sd_error + unit" where
  "verify_entry img e =
     (let start = e_lba e * SECTOR_BYTES;
          data = slice start (start + e_byte_length e) img;
          calculated_crc = crc32 data;
          padding_end = start + e_sector_count e * SECTOR_BYTES
      in if calculated_crc \<noteq> e_crc32 e then Inl (EntryCrcMismatch (e_tag e) (e_crc32 e) calculated_crc)
         else if \<exists>b \<in> set (slice (start + e_byte_length e) padding_end img). b \<noteq> 0
         then Inl (PaddingNotZero (e_tag e)) else Inr ())"

record manifest_entry =
  m_tag :: string
  m_start_lba :: nat
  m_sector_count :: nat
  m_load_address :: string
  m_byte_length :: nat
  m_crc32 :: string
  m_sha256 :: string
  m_source :: "(string \<times> string) option"

record sd_manifest =
  m_image_bytes :: nat
  m_image_sectors :: nat
  m_image_sha256 :: string
  m_entries :: "manifest_entry list"

definition manifest_of ::
  "(byte list \<Rightarrow> string) \<Rightarrow> byte list \<Rightarrow> (string \<Rightarrow> (string \<times> byte list) option) option \<Rightarrow> sd_entry \<Rightarrow>
   sd_error + manifest_entry" where
  "manifest_of sha256 img sources e =
     (let start = e_lba e * SECTOR_BYTES;
          data = slice start (start + e_byte_length e) img;
          fields = (\<lambda>src. \<lparr>m_tag = e_tag e, m_start_lba = e_lba e, m_sector_count = e_sector_count e,
                      m_load_address = ''0x'' @ hex0 16 (int (e_load_address e)),
                      m_byte_length = e_byte_length e, m_crc32 = hex0 8 (int (e_crc32 e)),
                      m_sha256 = sha256 data, m_source = src\<rparr>)
      in case sources of
           None \<Rightarrow> Inr (fields None)
         | Some m \<Rightarrow>
             (case m (e_tag e) of
                None \<Rightarrow> Inl (MissingSource (e_tag e))
              | Some (name, source_data) \<Rightarrow> Inr (fields (Some (name, sha256 source_data)))))"

definition manifest ::
  "(byte list \<Rightarrow> string) \<Rightarrow> byte list \<Rightarrow> sd_entry list \<Rightarrow>
   (string \<Rightarrow> (string \<times> byte list) option) option \<Rightarrow> sd_error + sd_manifest" where
  "manifest sha256 img entries sources =
     bindE (mapE (manifest_of sha256 img sources) entries) (\<lambda>records.
       Inr \<lparr>m_image_bytes = length img, m_image_sectors = length img div SECTOR_BYTES,
            m_image_sha256 = sha256 img, m_entries = records\<rparr>)"

definition verify_bytes :: "(byte list \<Rightarrow> string) \<Rightarrow> byte list \<Rightarrow> sd_error + (sd_entry list \<times> sd_manifest)" where
  "verify_bytes sha256 img =
     (if length img mod SECTOR_BYTES \<noteq> 0 then Inl NotSectorMultiple
      else bindE (decode_header (slice 0 HEADER_BYTES img) (length img)) (\<lambda>entries.
           bindE (mapE (verify_entry img) entries) (\<lambda>_.
           bindE (manifest sha256 img entries None) (\<lambda>m. Inr (entries, m)))))"

section \<open>Building\<close>

definition trampoline :: "byte list" where
  "trampoline = concat (map (le_bytes 4) TRAMPOLINE_WORDS)"

definition boot_inputs :: "input_image list" where
  "boot_inputs =
     [\<lparr>in_tag = ''TRAMP'', in_load_address = 0x80000000\<rparr>,
      \<lparr>in_tag = ''OPENSBI'', in_load_address = 0x80100000\<rparr>,
      \<lparr>in_tag = ''LINUX'', in_load_address = 0x80200000\<rparr>,
      \<lparr>in_tag = ''FDT'', in_load_address = 0x8FF00000\<rparr>]"

definition place_payload :: "byte list \<Rightarrow> sd_entry \<times> byte list \<Rightarrow> byte list" where
  "place_payload img ed =
     (case ed of (entry, data) \<Rightarrow>
        let start = e_lba entry * SECTOR_BYTES in slice_assign start (start + length data) data img)"

definition assemble :: "input_image list \<Rightarrow> byte list list \<Rightarrow> sd_error + (sd_entry list \<times> byte list)" where
  "assemble inputs payloads =
     bindE (make_entries inputs payloads) (\<lambda>entries.
     let image_bytes = (e_lba (last entries) + e_sector_count (last entries)) * SECTOR_BYTES in
     bindE (encode_header entries image_bytes) (\<lambda>header.
       Inr (entries,
            foldl place_payload (slice_assign 0 HEADER_BYTES header (replicate image_bytes 0))
              (zip entries payloads))))"

definition build_image ::
  "(byte list \<Rightarrow> string) \<Rightarrow> (string \<Rightarrow> (string \<times> byte list) option) \<Rightarrow> byte list \<Rightarrow> byte list \<Rightarrow> byte list \<Rightarrow>
   sd_error + (byte list \<times> sd_manifest)" where
  "build_image sha256 source_map opensbi linux dtb =
     (if opensbi = [] then Inl EmptyOpensbi
      else if linux = [] then Inl EmptyLinux
      else if slice LINUX_MAGIC_OFFSET (LINUX_MAGIC_OFFSET + length LINUX_MAGIC) linux \<noteq> LINUX_MAGIC
      then Inl NoLinuxMagic
      else bindE (assemble boot_inputs [trampoline, opensbi, linux, dtb]) (\<lambda>(entries, img).
           bindE (verify_bytes sha256 img) (\<lambda>(verified_entries, _).
           bindE (manifest sha256 img verified_entries (Some source_map)) (\<lambda>record.
             Inr (img, record)))))"

end
