(* ===== verification/SdVerify.thy ===== *)
theory SdVerify
  imports SdImage
begin

text \<open>
  The proofs about the microSD image: the header codec inverts, verification accepts only well-placed,
  disjoint, intact payloads, and every image the builder assembles passes its own verification.
\<close>

section \<open>The entry codec\<close>

definition tag_ok :: "string \<Rightarrow> bool" where
  "tag_ok tag \<longleftrightarrow> tag \<noteq> [] \<and> length tag \<le> 8 \<and> list_all ascii_char tag \<and> last tag \<noteq> char_of (0 :: nat)"

definition entry_ok :: "sd_entry \<Rightarrow> bool" where
  "entry_ok e \<longleftrightarrow> tag_ok (e_tag e) \<and> entry_fits e"

lemma of_char_less: "(of_char c :: nat) < 256"
  by (metis char_of_char of_char_mod_256 mod_less_divisor zero_less_numeral)

lemma unat_tag_byte: "unat (word_of_nat (of_char c) :: byte) = of_char c"
  using of_char_less [of c] by (simp add: unat_of_nat)

lemma bytes_tag_bytes [simp]: "bytes_tag (tag_bytes t) = t"
  by (induction t) (simp_all add: bytes_tag_def tag_bytes_def unat_tag_byte)

lemma length_pad8 [simp]: "length (pad8 bs) = 8"
  by (simp add: pad8_def)

lemma dropWhile_zeros: "dropWhile (\<lambda>b. b = 0) (replicate n 0 @ xs) = dropWhile (\<lambda>b. b = 0) xs"
  by (induction n) auto

lemma rstrip0_zeros: "bs \<noteq> [] \<Longrightarrow> last bs \<noteq> 0 \<Longrightarrow> rstrip0 (bs @ replicate n 0) = bs"
  by (cases bs rule: rev_cases) (auto simp: rstrip0_def dropWhile_zeros)

lemma rstrip0_pad8:
  assumes "tag_ok t"
  shows "rstrip0 (pad8 (tag_bytes t)) = tag_bytes t"
proof -
  have t: "t \<noteq> []" "length t \<le> 8" "last t \<noteq> char_of (0 :: nat)" using assms by (auto simp: tag_ok_def)
  have "last (tag_bytes t) = word_of_nat (of_char (last t))" using t(1) by (simp add: tag_bytes_def last_map)
  moreover have "(word_of_nat (of_char (last t)) :: byte) \<noteq> 0"
  proof
    assume "(word_of_nat (of_char (last t)) :: byte) = 0"
    then have "(of_char (last t) :: nat) = 0" by (metis unat_tag_byte unsigned_0)
    then have "last t = char_of (0 :: nat)" by (metis char_of_char)
    with t(3) show False ..
  qed
  moreover have "pad8 (tag_bytes t) = tag_bytes t @ replicate (8 - length t) 0"
    using t(2) by (simp add: pad8_def tag_bytes_def)
  ultimately show ?thesis using t(1) by (simp add: rstrip0_zeros tag_bytes_def)
qed

lemma length_entry_bytes [simp]: "length (entry_bytes e) = 32"
  by (simp add: entry_bytes_def)

lemma unpack_entry_bytes:
  assumes "entry_ok e"
  shows "unpack_entry (entry_bytes e) = e" "slice 0 8 (entry_bytes e) = pad8 (tag_bytes (e_tag e))"
proof -
  have fit: "entry_fits e" and tag: "tag_ok (e_tag e)" using assms by (simp_all add: entry_ok_def)
  show s: "slice 0 8 (entry_bytes e) = pad8 (tag_bytes (e_tag e))" by (simp add: slice_def entry_bytes_def)
  have "field_at 4 8 (entry_bytes e) = e_lba e" "field_at 4 12 (entry_bytes e) = e_sector_count e"
    "field_at 8 16 (entry_bytes e) = e_load_address e" "field_at 4 24 (entry_bytes e) = e_byte_length e"
    "field_at 4 28 (entry_bytes e) = e_crc32 e"
    using fit le_val_le_bytes [of _ 4] le_val_le_bytes [of _ 8]
    by (simp_all add: field_at_def peek_def slice_def entry_bytes_def entry_fits_def del: le_bytes.simps)
  then show "unpack_entry (entry_bytes e) = e"
    using tag by (simp add: unpack_entry_def s rstrip0_pad8)
qed

interpretation sd_table: record_codec 32 entry_bytes unpack_entry entry_ok
  by unfold_locales (simp_all add: unpack_entry_bytes)

section \<open>The header codec\<close>

definition header_body :: "sd_entry list \<Rightarrow> nat \<Rightarrow> byte list" where
  "header_body entries image_bytes =
     write_table 32 entry_bytes 64 entries
       (poke 0 (header_fields (length entries) image_bytes) (replicate 512 0))"

definition header_of :: "sd_entry list \<Rightarrow> nat \<Rightarrow> byte list" where
  "header_of entries image_bytes =
     poke 508 (le_bytes 4 (crc32 (slice 0 508 (header_body entries image_bytes)))) (header_body entries image_bytes)"

lemma length_header_fields [simp]: "length (header_fields n m) = 32"
  by (simp add: header_fields_def MAGIC_def)

lemma pack_entry_ok:
  assumes "entry_ok e" "64 + i * 32 + 32 \<le> length header"
  shows "pack_entry (i, e) header = Inr (poke (64 + i * 32) (entry_bytes e) header)"
  using assms by (simp add: pack_entry_def entry_ok_def tag_ok_def Let_def sd_consts poke_def)

lemma pack_entries_ok:
  assumes "\<forall>e \<in> set entries. entry_ok e" "64 + length entries * 32 \<le> length header"
  shows "foldE pack_entry (zip [0..<length entries] entries) header =
    Inr (write_table 32 entry_bytes 64 entries header)"
  using assms
proof (induction entries rule: rev_induct)
  case Nil
  then show ?case by simp
next
  case (snoc e es)
  have len: "length (write_table 32 entry_bytes 64 es header) = length header"
    by (rule sd_table.length_write_table) (use snoc.prems in auto)
  have z: "zip [0..<length (es @ [e])] (es @ [e]) = zip [0..<length es] es @ [(length es, e)]"
    by (simp add: zip_append1)
  show ?case
    using snoc pack_entry_ok [of e "length es" "write_table 32 entry_bytes 64 es header"] len
    by (simp add: z foldE_append write_table_snoc)
qed

lemma encode_header_of:
  assumes "\<forall>e \<in> set entries. entry_ok e" "length entries \<le> 13" "image_bytes < 256 ^ 8"
  shows "encode_header entries image_bytes = Inr (header_of entries image_bytes)"
proof -
  have base: "slice_assign 0 32 (header_fields (length entries) image_bytes) (replicate HEADER_BYTES 0) =
      poke 0 (header_fields (length entries) image_bytes) (replicate 512 0)"
    by (simp add: poke_def sd_consts)
  have "64 + length entries * 32 \<le> length (poke 0 (header_fields (length entries) image_bytes) (replicate 512 0))"
    using assms(2) by simp
  note pk = pack_entries_ok [OF assms(1) this]
  show ?thesis
    using assms(2,3) unfolding encode_header_def base Let_def pk
    by (simp add: header_of_def header_body_def poke_def sd_consts)
qed

lemma header_lengths:
  assumes "\<forall>e \<in> set entries. entry_ok e" "length entries \<le> 13"
  shows "length (header_body entries n) = 512" "length (header_of entries n) = 512"
proof -
  show len: "length (header_body entries n) = 512" unfolding header_body_def
    by (subst sd_table.length_write_table) (use assms in auto)
  then show "length (header_of entries n) = 512" by (simp add: header_of_def)
qed

lemma header_reads:
  assumes ok: "\<forall>e \<in> set entries. entry_ok e" and n: "length entries \<le> 13" and m: "m < 256 ^ 8"
  shows "slice 0 8 (header_of entries m) = MAGIC" "field_at 4 8 (header_of entries m) = VERSION"
    "field_at 4 12 (header_of entries m) = HEADER_BYTES" "field_at 4 16 (header_of entries m) = ENTRY_BYTES"
    "field_at 4 20 (header_of entries m) = length entries" "field_at 8 24 (header_of entries m) = m"
    "field_at 4 508 (header_of entries m) = crc32 (slice 0 508 (header_of entries m))"
    "i < length entries \<Longrightarrow> peek (64 + i * 32) 32 (header_of entries m) = entry_bytes (entries ! i)"
proof -
  let ?b = "header_body entries m" and ?h = "header_of entries m"
  note len = header_lengths [OF ok n, of m]
  have below: "peek a k ?h = peek a k ?b" if "a + k \<le> 508" for a k
    unfolding header_of_def by (rule peek_poke_other) (use that len in auto)
  have head: "peek a k ?b = peek a k (header_fields (length entries) m)" if "a + k \<le> 32" for a k
  proof -
    have "peek a k ?b = peek a k (poke 0 (header_fields (length entries) m) (replicate 512 0))"
      unfolding header_body_def by (rule sd_table.table_frame) (use that ok n in auto)
    also have "\<dots> = peek a k (header_fields (length entries) m)"
      by (rule peek_eqI) (use that in \<open>auto simp: nth_poke\<close>)
    finally show ?thesis .
  qed
  have h: "peek a k ?h = peek a k (header_fields (length entries) m)" if "a + k \<le> 32" for a k
    using below [of a k] head [of a k] that by simp
  have lm: "length MAGIC = 8" by (simp add: MAGIC_def)
  show "slice 0 8 ?h = MAGIC"
    using h [of 0 8] lm by (simp add: peek_def header_fields_def slice_def)
  have v: "VERSION < 256 ^ 4" "HEADER_BYTES < 256 ^ 4" "ENTRY_BYTES < 256 ^ 4" "length entries < 256 ^ 4"
    using n by (simp_all add: sd_consts)
  have f: "field_at k a ?h = field_at k a (header_fields (length entries) m)" if "a + k \<le> 32" for a k
    using h [OF that] by (simp add: field_at_def)
  show "field_at 4 8 ?h = VERSION" "field_at 4 12 ?h = HEADER_BYTES" "field_at 4 16 ?h = ENTRY_BYTES"
    "field_at 4 20 ?h = length entries" "field_at 8 24 ?h = m"
    using v m le_val_le_bytes [of _ 4] le_val_le_bytes [of _ 8] lm
    by (subst f, simp, simp add: field_at_def peek_def slice_def header_fields_def del: le_bytes.simps)+
  show "peek (64 + i * 32) 32 ?h = entry_bytes (entries ! i)" if "i < length entries"
  proof -
    have "peek (64 + i * 32) 32 ?h = peek (64 + i * 32) 32 ?b" by (rule below) (use that n in auto)
    also have "\<dots> = entry_bytes (entries ! i)"
      unfolding header_body_def by (rule sd_table.table_read) (use that ok n in auto)
    finally show ?thesis .
  qed
  have "peek 0 508 ?h = peek 0 508 ?b" by (rule below) simp
  then have same: "slice 0 508 ?h = slice 0 508 ?b" by (simp add: peek_def)
  have "field_at 4 508 ?h = crc32 (slice 0 508 ?b)"
    unfolding field_at_def header_of_def by (rule u32.read_same) (use len crc32_less in auto)
  with same show "field_at 4 508 ?h = crc32 (slice 0 508 ?h)" by simp
qed

section \<open>Disjoint ranges\<close>

definition before :: "nat \<times> nat \<times> string \<Rightarrow> nat \<times> nat \<times> string \<Rightarrow> bool" where
  "before x y \<longleftrightarrow> fst (snd x) \<le> fst y"

definition areas_disjoint :: "sd_entry \<Rightarrow> sd_entry \<Rightarrow> bool" where
  "areas_disjoint a b \<longleftrightarrow> e_lba a + e_sector_count a \<le> e_lba b \<or> e_lba b + e_sector_count b \<le> e_lba a"

definition well_placed :: "nat \<Rightarrow> sd_entry \<Rightarrow> bool" where
  "well_placed image_bytes e \<longleftrightarrow>
     e_tag e \<noteq> [] \<and> 0 < e_sector_count e \<and> 0 < e_byte_length e \<and> e_byte_length e \<le> e_sector_count e * SECTOR_BYTES \<and>
     FIRST_PAYLOAD_LBA \<le> e_lba e \<and> (e_lba e + e_sector_count e) * SECTOR_BYTES \<le> image_bytes"

definition disjoint_areas :: "sd_entry list \<Rightarrow> bool" where
  "disjoint_areas es \<longleftrightarrow> distinct es \<and> (\<forall>a \<in> set es. \<forall>b \<in> set es. a \<noteq> b \<longrightarrow> areas_disjoint a b)"

lemma check_ranges_Inr:
  "check_ranges rs v = Inr w \<Longrightarrow> w = v \<and> successively before rs"
  by (induction rs v rule: check_ranges.induct) (auto simp: before_def split: if_splits)

lemma check_ranges_ok: "successively before rs \<Longrightarrow> check_ranges rs v = Inr v"
  by (induction rs v rule: check_ranges.induct) (auto simp: before_def)

lemma successively_before:
  assumes "successively before rs" "\<forall>x \<in> set rs. fst x < fst (snd x)"
  shows "sorted_wrt before rs"
  using assms
proof (induction rs)
  case (Cons x rs)
  have s: "sorted_wrt before rs" using Cons by (cases rs) auto
  have "before x y" if "y \<in> set rs" for y
  proof (cases rs)
    case Nil
    with that show ?thesis by simp
  next
    case (Cons z zs)
    with Cons.prems have xz: "before x z" by simp
    show ?thesis
    proof (cases "y = z")
      case True
      with xz show ?thesis by simp
    next
      case False
      with that Cons s have "before z y" by simp
      with xz Cons.prems(2) Cons show ?thesis by (fastforce simp: before_def)
    qed
  qed
  with s show ?case by simp
qed simp

lemma well_placed_range: "well_placed n e \<Longrightarrow> fst (entry_range e) < fst (snd (entry_range e))"
  by (simp add: well_placed_def entry_range_def)

text \<open>The sorted adjacent check is the pairwise one.\<close>

lemma check_ranges_disjoint:
  assumes "\<forall>e \<in> set es. well_placed n e"
  shows "check_ranges (sort (map entry_range es)) es = Inr es \<longleftrightarrow>
    distinct (map entry_range es) \<and> (\<forall>a \<in> set es. \<forall>b \<in> set es. entry_range a \<noteq> entry_range b \<longrightarrow> areas_disjoint a b)"
    (is "?ok \<longleftrightarrow> ?dis")
proof
  let ?rs = "sort (map entry_range es)"
  have pos: "\<forall>x \<in> set ?rs. fst x < fst (snd x)" using assms well_placed_range by auto
  {
    assume ok: ?ok
    have sw: "sorted_wrt before ?rs"
      by (rule successively_before [OF check_ranges_Inr [OF ok, THEN conjunct2] pos])
    have irr: "\<not> before x x" if "x \<in> set ?rs" for x using pos that by (auto simp: before_def)
    have d: "distinct ?rs"
      unfolding distinct_conv_nth
    proof (intro allI impI)
      fix i j assume ij: "i < length ?rs" "j < length ?rs" "i \<noteq> j"
      consider "i < j" | "j < i" using ij(3) by linarith
      then show "?rs ! i \<noteq> ?rs ! j"
      proof cases
        case 1
        with sorted_wrt_nth_less [OF sw 1 ij(2)] irr [OF nth_mem [OF ij(1)]] show ?thesis by auto
      next
        case 2
        with sorted_wrt_nth_less [OF sw 2 ij(1)] irr [OF nth_mem [OF ij(1)]] show ?thesis by auto
      qed
    qed
    have two: "before x y \<or> before y x" if xy: "x \<in> set ?rs" "y \<in> set ?rs" "x \<noteq> y" for x y
    proof -
      obtain i j where ij: "i < length ?rs" "?rs ! i = x" "j < length ?rs" "?rs ! j = y"
        using xy(1,2) by (metis in_set_conv_nth)
      with xy(3) have "i < j \<or> j < i" by (metis linorder_neqE_nat)
      with ij sorted_wrt_nth_less [OF sw] show ?thesis by blast
    qed
    have "areas_disjoint a b" if "a \<in> set es" "b \<in> set es" "entry_range a \<noteq> entry_range b" for a b
      using two [of "entry_range a" "entry_range b"] that by (simp add: before_def areas_disjoint_def entry_range_def)
    with d show ?dis by simp
  }
  assume ?dis
  then have d: "distinct ?rs" by simp
  have "before (?rs ! i) (?rs ! j)" if "i < j" "j < length ?rs" for i j
  proof -
    have mem: "?rs ! i \<in> entry_range ` set es" "?rs ! j \<in> entry_range ` set es"
      using that nth_mem [of i ?rs] nth_mem [of j ?rs] by (simp_all only: set_sort set_map)
    then obtain a b where ab: "a \<in> set es" "?rs ! i = entry_range a" "b \<in> set es" "?rs ! j = entry_range b" by blast
    have "?rs ! i \<noteq> ?rs ! j" using d that by (simp add: nth_eq_iff_index_eq)
    then have dj: "areas_disjoint a b" using \<open>?dis\<close> ab by auto
    have "?rs ! i \<le> ?rs ! j" by (rule sorted_nth_mono) (use that in auto)
    then have "e_lba a \<le> e_lba b" using ab by (auto simp: entry_range_def less_eq_prod_def)
    with dj well_placed_range [of n b] assms ab show ?thesis
      by (auto simp: areas_disjoint_def before_def entry_range_def)
  qed
  then have "successively before ?rs" by (simp add: successively_conv_nth)
  then show ?ok by (rule check_ranges_ok)
qed

lemma decode_entry_Inr:
  assumes "decode_entry header n i = Inr e"
  shows "well_placed n e" "e = unpack_entry (peek (64 + i * 32) 32 header)"
  using assms
  by (auto simp: decode_entry_def well_placed_def Let_def sd_consts algebra_simps split: if_splits)

text \<open>
  Header round trip: for one to thirteen well-placed entries with disjoint sector runs, whose tags
  are one to eight ASCII characters and whose fields fit, encoding succeeds and decoding the 512-byte
  result gives back exactly the entries; the CRC check passes.
\<close>

lemma decode_encoded:
  assumes ok: "\<forall>e \<in> set entries. entry_ok e \<and> well_placed n e" and len: "entries \<noteq> []" "length entries \<le> 13"
    and n: "n < 256 ^ 8" and dis: "distinct (map entry_range entries)"
      "\<forall>a \<in> set entries. \<forall>b \<in> set entries. entry_range a \<noteq> entry_range b \<longrightarrow> areas_disjoint a b"
  shows "decode_header (header_of entries n) n = Inr entries"
proof -
  have eok: "\<forall>e \<in> set entries. entry_ok e" using ok by simp
  note r = header_reads [OF eok len(2) n] and hl = header_lengths(2) [OF eok len(2), of n]
  have "decode_entry (header_of entries n) n i = Inr (entries ! i)" if i: "i < length entries" for i
  proof -
    let ?e = "entries ! i"
    have e: "entry_ok ?e" "well_placed n ?e" using ok i by auto
    have tag: "tag_ok (e_tag ?e)" using e(1) by (simp add: entry_ok_def)
    have "list_all (\<lambda>b. unat b < 128) (rstrip0 (pad8 (tag_bytes (e_tag ?e))))"
      using tag by (simp add: rstrip0_pad8)
        (auto simp: tag_ok_def tag_bytes_def list_all_iff ascii_char_def unat_tag_byte)
    with e r(8) [OF i] unpack_entry_bytes [OF e(1)] show ?thesis
      by (simp add: decode_entry_def Let_def sd_consts well_placed_def algebra_simps)
  qed
  then have "mapE (decode_entry (header_of entries n) n) [0..<length entries] = Inr (map ((!) entries) [0..<length entries])"
    by (intro mapE_total) simp
  then have m: "mapE (decode_entry (header_of entries n) n) [0..<length entries] = Inr entries" by (simp add: map_nth)
  have wp: "\<forall>e \<in> set entries. well_placed n e" using ok by simp
  have c: "check_ranges (sort (map entry_range entries)) entries = Inr entries"
    unfolding check_ranges_disjoint [OF wp] using dis by blast
  have "1 \<le> length entries" using len(1) by (cases entries) simp_all
  moreover have "(HEADER_CRC_OFFSET - ENTRY_OFFSET) div ENTRY_BYTES = 13" by (simp add: sd_consts)
  ultimately show ?thesis
    using len(2) m c r(1-7) hl
    by (simp add: decode_header_def Let_def HEADER_CRC_OFFSET_def HEADER_BYTES_def SECTOR_BYTES_def)
qed

section \<open>Placing the payloads\<close>

lemma sectors_for_props: "n \<le> sectors_for n * SECTOR_BYTES" "0 < n \<Longrightarrow> 0 < sectors_for n"
  "sectors_for n * SECTOR_BYTES < n + SECTOR_BYTES"
proof -
  have "n + 511 = (n + 511) div 512 * 512 + (n + 511) mod 512" by simp
  moreover have "(n + 511) mod 512 < 512" by simp
  ultimately show "n \<le> sectors_for n * SECTOR_BYTES" "0 < n \<Longrightarrow> 0 < sectors_for n"
    "sectors_for n * SECTOR_BYTES < n + SECTOR_BYTES"
    unfolding sectors_for_def SECTOR_BYTES_def by linarith+
qed

definition end_lba :: "nat \<Rightarrow> (input_image \<times> byte list) list \<Rightarrow> nat" where
  "end_lba lba xs = lba + sum_list (map (\<lambda>x. sectors_for (length (snd x))) xs)"

lemma end_lba_simps [simp]:
  "end_lba lba [] = lba" "end_lba lba (x # xs) = end_lba (lba + sectors_for (length (snd x))) xs"
  by (simp_all add: end_lba_def)

lemma end_lba_ge: "lba \<le> end_lba lba xs"
  by (simp add: end_lba_def)

lemma length_entries_from [simp]: "length (entries_from lba xs) = length xs"
  by (induction lba xs rule: entries_from.induct) auto

lemma entries_from_last:
  "xs \<noteq> [] \<Longrightarrow> e_lba (last (entries_from lba xs)) + e_sector_count (last (entries_from lba xs)) = end_lba lba xs"
proof (induction lba xs rule: entries_from.induct)
  case (2 lba item data rest)
  then show ?case by (cases rest) (auto simp: entries_from.simps)
qed simp

lemma entries_from_bounds:
  "e \<in> set (entries_from lba xs) \<Longrightarrow> lba \<le> e_lba e \<and> e_lba e + e_sector_count e \<le> end_lba lba xs"
proof (induction lba xs rule: entries_from.induct)
  case (2 lba item data rest)
  have "lba + sectors_for (length data) \<le> end_lba (lba + sectors_for (length data)) rest" by (rule end_lba_ge)
  with 2 show ?case by auto
qed simp

lemma entries_from_ordered: "sorted_wrt (\<lambda>a b. e_lba a + e_sector_count a \<le> e_lba b) (entries_from lba xs)"
  by (induction lba xs rule: entries_from.induct) (auto dest: entries_from_bounds)

text \<open>
  Every payload is where its entry says, the rest of its sectors is untouched, and nothing before the
  first payload changes.
\<close>

definition placed :: "nat \<Rightarrow> (input_image \<times> byte list) list \<Rightarrow> byte list \<Rightarrow> byte list" where
  "placed lba xs img = foldl place_payload img (zip (entries_from lba xs) (map snd xs))"

lemma placed_Cons:
  "placed lba ((item, data) # rest) img =
     placed (lba + sectors_for (length data)) rest (poke (lba * SECTOR_BYTES) data img)"
  by (simp add: placed_def place_payload_def poke_def Let_def)

lemma placed_frame:
  assumes "end_lba lba xs * SECTOR_BYTES \<le> length img"
  shows "length (placed lba xs img) = length img \<and>
    (\<forall>i < lba * SECTOR_BYTES. placed lba xs img ! i = img ! i)"
  using assms
proof (induction xs arbitrary: lba img)
  case Nil
  then show ?case by (simp add: placed_def)
next
  case (Cons x xs)
  obtain item data where x: "x = (item, data)" by (cases x)
  let ?lba = "lba + sectors_for (length data)" and ?im = "poke (lba * SECTOR_BYTES) data img"
  have "?lba \<le> end_lba ?lba xs" by (rule end_lba_ge)
  then have "?lba * SECTOR_BYTES \<le> end_lba ?lba xs * SECTOR_BYTES" by (rule mult_le_mono1)
  then have fit: "lba * SECTOR_BYTES + length data \<le> length img"
    using Cons.prems x sectors_for_props(1) [of "length data"] by (simp add: algebra_simps)
  have ih: "length (placed ?lba xs ?im) = length ?im \<and>
      (\<forall>i < ?lba * SECTOR_BYTES. placed ?lba xs ?im ! i = ?im ! i)"
    by (rule Cons.IH) (use Cons.prems x fit in simp)
  have "placed lba (x # xs) img ! i = img ! i" if "i < lba * SECTOR_BYTES" for i
  proof -
    have "i < ?lba * SECTOR_BYTES" using that by (simp add: algebra_simps)
    with ih have "placed lba (x # xs) img ! i = ?im ! i" by (simp add: x placed_Cons)
    with that fit show ?thesis by (simp add: nth_poke)
  qed
  with ih fit show ?case by (simp add: x placed_Cons)
qed

lemma placed_sector:
  assumes "end_lba lba xs * SECTOR_BYTES \<le> length img" "(e, data) \<in> set (zip (entries_from lba xs) (map snd xs))"
    "k < e_sector_count e * SECTOR_BYTES"
  shows "placed lba xs img ! (e_lba e * SECTOR_BYTES + k) =
    (if k < length data then data ! k else img ! (e_lba e * SECTOR_BYTES + k))"
  using assms
proof (induction xs arbitrary: lba img)
  case Nil
  then show ?case by simp
next
  case (Cons x xs)
  obtain item d where x: "x = (item, d)" by (cases x)
  let ?lba = "lba + sectors_for (length d)" and ?im = "poke (lba * SECTOR_BYTES) d img"
  have "?lba \<le> end_lba ?lba xs" by (rule end_lba_ge)
  then have le: "?lba * SECTOR_BYTES \<le> end_lba ?lba xs * SECTOR_BYTES" by (rule mult_le_mono1)
  then have fit: "lba * SECTOR_BYTES + length d \<le> length img"
    using Cons.prems(1) x sectors_for_props(1) [of "length d"] by (simp add: algebra_simps)
  have rest: "end_lba ?lba xs * SECTOR_BYTES \<le> length ?im" using Cons.prems(1) x fit by simp
  show ?case
  proof (cases "(e, data) \<in> set (zip (entries_from ?lba xs) (map snd xs))")
    case True
    have "?lba \<le> e_lba e" using entries_from_bounds [OF set_zip_leftD [OF True]] by simp
    then have "?lba * SECTOR_BYTES \<le> e_lba e * SECTOR_BYTES" by (rule mult_le_mono1)
    then have ge: "lba * SECTOR_BYTES + length d \<le> e_lba e * SECTOR_BYTES + k"
      using sectors_for_props(1) [of "length d"] by (simp add: algebra_simps)
    have "e_lba e + e_sector_count e \<le> end_lba ?lba xs" using entries_from_bounds [OF set_zip_leftD [OF True]] by simp
    then have "(e_lba e + e_sector_count e) * SECTOR_BYTES \<le> end_lba ?lba xs * SECTOR_BYTES" by (rule mult_le_mono1)
    then have "e_lba e * SECTOR_BYTES + k < length img"
      using Cons.prems(1,3) x by (simp add: algebra_simps)
    then have "?im ! (e_lba e * SECTOR_BYTES + k) = img ! (e_lba e * SECTOR_BYTES + k)"
      using ge fit by (simp add: nth_poke)
    with Cons.IH [OF rest True Cons.prems(3)] show ?thesis by (simp add: x placed_Cons)
  next
    case False
    with Cons.prems(2) x have e: "e_lba e = lba" "e_sector_count e = sectors_for (length d)" "data = d" by auto
    have "lba * SECTOR_BYTES + k < ?lba * SECTOR_BYTES" using Cons.prems(3) e by (simp add: algebra_simps)
    with placed_frame [OF rest] have "placed lba (x # xs) img ! (lba * SECTOR_BYTES + k) = ?im ! (lba * SECTOR_BYTES + k)"
      by (simp add: x placed_Cons)
    moreover have "lba * SECTOR_BYTES + k < length img"
      by (rule less_le_trans [OF \<open>lba * SECTOR_BYTES + k < ?lba * SECTOR_BYTES\<close>], rule le_trans [OF le])
        (use Cons.prems(1) x in simp)
    ultimately show ?thesis using e fit by (simp add: nth_poke)
  qed
qed

section \<open>The assembled image\<close>

lemma ordered_ranges:
  assumes "sorted_wrt (\<lambda>a b. e_lba a + e_sector_count a \<le> e_lba b) es" "\<forall>e \<in> set es. 0 < e_sector_count e"
  shows "distinct (map entry_range es) \<and>
    (\<forall>a \<in> set es. \<forall>b \<in> set es. entry_range a \<noteq> entry_range b \<longrightarrow> areas_disjoint a b)"
  using assms
proof (induction es)
  case (Cons e es)
  have "entry_range e \<noteq> entry_range b \<and> areas_disjoint e b \<and> areas_disjoint b e" if "b \<in> set es" for b
    using Cons.prems that by (fastforce simp: entry_range_def areas_disjoint_def)
  with Cons show ?case by auto
qed simp

lemma entries_from_data:
  "(e, data) \<in> set (zip (entries_from lba xs) (map snd xs)) \<Longrightarrow>
   e_byte_length e = length data \<and> e_crc32 e = crc32 data \<and> e_sector_count e = sectors_for (length data) \<and>
   (\<exists>item. (item, data) \<in> set xs \<and> e_tag e = in_tag item \<and> e_load_address e = in_load_address item)"
proof (induction lba xs rule: entries_from.induct)
  case (2 lba item d rest)
  show ?case
  proof (cases "(e, data) \<in> set (zip (entries_from (lba + sectors_for (length d)) rest) (map snd rest))")
    case True
    from 2(1) [OF this] show ?thesis by (meson list.set_intros(2))
  next
    case False
    with 2(2) show ?thesis by auto
  qed
qed simp

lemma entries_from_mem:
  assumes "e \<in> set (entries_from lba xs)"
  shows "\<exists>data. (e, data) \<in> set (zip (entries_from lba xs) (map snd xs))"
proof -
  obtain i where "i < length xs" "e = entries_from lba xs ! i" using assms by (metis in_set_conv_nth length_entries_from)
  then have "(e, map snd xs ! i) \<in> set (zip (entries_from lba xs) (map snd xs))" by (auto simp: set_zip)
  then show ?thesis by blast
qed

lemma encode_header_fits:
  assumes "encode_header entries n = Inr h"
  shows "n < 256 ^ 8" "\<forall>e \<in> set entries. entry_fits e"
proof -
  show "n < 256 ^ 8" using assms by (simp add: encode_header_def split: if_splits)
  from assms obtain hb where f: "foldE pack_entry (zip [0..<length entries] entries)
      (slice_assign 0 32 (header_fields (length entries) n) (replicate HEADER_BYTES 0)) = Inr hb"
    by (auto simp: encode_header_def Let_def split: if_splits)
  have "entry_fits e" if e: "e \<in> set entries" for e
  proof -
    obtain i where "i < length entries" "e = entries ! i" using e by (metis in_set_conv_nth)
    then have "(i, e) \<in> set (zip [0..<length entries] entries)" by (auto simp: set_zip intro: exI [of _ i])
    from foldE_each [OF f this] show ?thesis by (auto simp: pack_entry_def Let_def split: if_splits)
  qed
  then show "\<forall>e \<in> set entries. entry_fits e" by blast
qed

lemma assembled:
  assumes a: "assemble inputs payloads = Inr (entries, img)"
    and n: "inputs \<noteq> []" "length inputs \<le> 13" and tags: "\<forall>item \<in> set inputs. tag_ok (in_tag item)"
    and data: "\<forall>data \<in> set payloads. data \<noteq> []"
  shows "decode_header (slice 0 HEADER_BYTES img) (length img) = Inr entries" (is ?decode)
    "length img mod SECTOR_BYTES = 0" "\<forall>e \<in> set entries. verify_entry img e = Inr ()"
    "length inputs = length payloads" "entries = entries_from FIRST_PAYLOAD_LBA (zip inputs payloads)"
    "\<forall>(e, d) \<in> set (zip entries payloads). slice (e_lba e * SECTOR_BYTES) (e_lba e * SECTOR_BYTES + length d) img = d"
proof -
  let ?xs = "zip inputs payloads"
  show len: "length inputs = length payloads"
    using a by (auto simp: assemble_def make_entries_def split: if_splits)
  from a len obtain header where
    es: "entries = entries_from FIRST_PAYLOAD_LBA ?xs" and
    h: "encode_header entries ((e_lba (last entries) + e_sector_count (last entries)) * SECTOR_BYTES) = Inr header" and
    img: "img = foldl place_payload (slice_assign 0 HEADER_BYTES header
        (replicate ((e_lba (last entries) + e_sector_count (last entries)) * SECTOR_BYTES) 0)) (zip entries payloads)"
    by (auto simp: assemble_def make_entries_def Let_def)
  show "entries = entries_from FIRST_PAYLOAD_LBA ?xs" by (rule es)
  let ?stop = "end_lba FIRST_PAYLOAD_LBA ?xs" and ?N = "end_lba FIRST_PAYLOAD_LBA ?xs * SECTOR_BYTES"
  have xs: "?xs \<noteq> []" "map snd ?xs = payloads" using n(1) len by auto
  have last: "e_lba (last entries) + e_sector_count (last entries) = ?stop"
    unfolding es by (rule entries_from_last [OF xs(1)])
  have "FIRST_PAYLOAD_LBA \<le> ?stop" by (rule end_lba_ge)
  then have N: "FIRST_PAYLOAD_LBA * SECTOR_BYTES \<le> ?N" by (rule mult_le_mono1)
  have ed: "\<exists>d. (e, d) \<in> set (zip entries payloads) \<and> d \<noteq> []" if "e \<in> set entries" for e
    using entries_from_mem [OF that [unfolded es]] xs(2) data es by (metis set_zip_rightD)
  note fd = entries_from_data [of _ _ FIRST_PAYLOAD_LBA ?xs, unfolded xs(2), folded es]
  have eok: "entry_ok e" if "e \<in> set entries" for e
    using ed [OF that] fd encode_header_fits(2) [OF h] that tags unfolding entry_ok_def
    by (metis set_zip_leftD)
  have wp: "well_placed ?N e" if e: "e \<in> set entries" for e
  proof -
    obtain d where d: "(e, d) \<in> set (zip entries payloads)" "d \<noteq> []" using ed [OF e] by blast
    have "(e_lba e + e_sector_count e) * SECTOR_BYTES \<le> ?N"
      using entries_from_bounds [OF e [unfolded es]] by (intro mult_le_mono1) simp
    moreover have "e_tag e \<noteq> []" using eok [OF e] by (simp add: entry_ok_def tag_ok_def)
    ultimately show ?thesis
      using fd [OF d(1)] d(2) sectors_for_props [of "length d"] entries_from_bounds [OF e [unfolded es]]
      by (simp add: well_placed_def)
  qed
  have el: "length entries \<le> 13" "entries \<noteq> []" using n len es xs(1) by (auto, metis length_0_conv length_entries_from)
  have nb: "?N < 256 ^ 8" using encode_header_fits(1) [OF h] last by simp
  have header: "header = header_of entries ?N"
    using h last encode_header_of [of entries ?N] eok el(1) nb by simp
  have hl: "length header = 512" unfolding header by (rule header_lengths(2)) (use eok el in auto)
  let ?base = "poke 0 header (replicate ?N 0)"
  have base: "slice_assign 0 HEADER_BYTES header (replicate ?N 0) = ?base"
    by (simp add: poke_def hl HEADER_BYTES_def SECTOR_BYTES_def)
  have ip: "img = placed FIRST_PAYLOAD_LBA ?xs ?base"
  proof -
    have "img = foldl place_payload ?base (zip entries payloads)" using img unfolding last base .
    then show ?thesis by (simp add: placed_def xs(2) es)
  qed
  have bl: "length ?base = ?N" using N hl by (simp add: FIRST_PAYLOAD_LBA_def SECTOR_BYTES_def)
  have fit: "?N \<le> length ?base" using bl by simp
  note pf = placed_frame [OF fit] and ps = placed_sector [OF fit, unfolded xs(2), folded es]
  have il: "length img = ?N" using pf ip bl by simp
  then show "length img mod SECTOR_BYTES = 0" by simp
  have "slice 0 HEADER_BYTES img = slice 0 512 ?base" unfolding HEADER_BYTES_def SECTOR_BYTES_def
    by (rule slice_eqI) (use pf ip il bl N in \<open>auto simp: FIRST_PAYLOAD_LBA_def SECTOR_BYTES_def\<close>)
  also have "\<dots> = header" using peek_poke_same [of 0 header "replicate ?N 0"] hl N
    by (simp add: peek_def FIRST_PAYLOAD_LBA_def SECTOR_BYTES_def)
  finally have hd: "slice 0 HEADER_BYTES img = header" .
  have srt: "sorted_wrt (\<lambda>a b. e_lba a + e_sector_count a \<le> e_lba b) entries" unfolding es by (rule entries_from_ordered)
  have rng: "distinct (map entry_range entries)"
    "\<forall>a \<in> set entries. \<forall>b \<in> set entries. entry_range a \<noteq> entry_range b \<longrightarrow> areas_disjoint a b"
    using ordered_ranges [OF srt] wp by (auto simp: well_placed_def)
  show ?decode unfolding hd il header
    by (rule decode_encoded [OF _ el(2,1) nb rng]) (use eok wp in blast)
  have zero: "?base ! i = 0" if "512 \<le> i" "i < ?N" for i
    using that hl N by (simp add: nth_poke FIRST_PAYLOAD_LBA_def SECTOR_BYTES_def)
  have sect: "slice (e_lba e * SECTOR_BYTES) (e_lba e * SECTOR_BYTES + length d) img = d \<and>
      (\<forall>b \<in> set (slice (e_lba e * SECTOR_BYTES + length d) (e_lba e * SECTOR_BYTES + e_sector_count e * SECTOR_BYTES) img). b = 0)"
    if d: "(e, d) \<in> set (zip entries payloads)" for e d
  proof -
    let ?s = "e_lba e * SECTOR_BYTES" and ?c = "e_sector_count e * SECTOR_BYTES"
    have e: "e \<in> set entries" by (rule set_zip_leftD [OF d])
    have w: "?s + ?c \<le> ?N" "512 \<le> ?s" "length d \<le> ?c"
      using wp [OF e] fd [OF d] by (auto simp: well_placed_def algebra_simps FIRST_PAYLOAD_LBA_def SECTOR_BYTES_def)
    have at: "img ! (?s + k) = (if k < length d then d ! k else 0)" if "k < ?c" for k
      using ps [OF d that] ip zero [of "?s + k"] w that by simp
    have "slice ?s (?s + length d) img = d"
      by (rule nth_equalityI) (use w il at in \<open>auto simp: nth_slice\<close>)
    moreover have "b = 0" if bm: "b \<in> set (slice (?s + length d) (?s + ?c) img)" for b
    proof -
      obtain k where k: "k < ?c - length d" "b = img ! (?s + length d + k)"
        using bm w il by (auto simp: in_set_conv_nth nth_slice)
      then show ?thesis using at [of "length d + k"] by (simp add: add.assoc)
    qed
    ultimately show ?thesis by blast
  qed
  then show "\<forall>(e, d) \<in> set (zip entries payloads). slice (e_lba e * SECTOR_BYTES) (e_lba e * SECTOR_BYTES + length d) img = d"
    by blast
  show "\<forall>e \<in> set entries. verify_entry img e = Inr ()"
  proof
    fix e assume "e \<in> set entries"
    then obtain d where "(e, d) \<in> set (zip entries payloads)" using ed by blast
    with sect fd show "verify_entry img e = Inr ()" by (auto simp: verify_entry_def Let_def)
  qed
qed

section \<open>What verification accepts\<close>

lemma mapE_unit: "(\<forall>x \<in> set xs. f x = Inr ()) \<Longrightarrow> mapE f xs = Inr (map (\<lambda>_. ()) xs)"
  by (rule mapE_total) simp

lemma manifest_None: "\<exists>m. manifest sha img es None = Inr m"
proof -
  have g: "\<exists>m. manifest_of sha img None e = Inr m" for e
    by (simp add: manifest_of_def Let_def)
  have "\<exists>ms. mapE (manifest_of sha img None) es = Inr ms"
  proof (induction es)
    case (Cons e es)
    then show ?case using g [of e] by auto
  qed simp
  then show ?thesis by (auto simp: manifest_def)
qed

lemma mapE_mem: "mapE f xs = Inr ys \<Longrightarrow> x \<in> set xs \<Longrightarrow> \<exists>y \<in> set ys. f x = Inr y"
  by (induction xs arbitrary: ys) (auto split: sum.splits)

lemma mapE_mem_result: "mapE f xs = Inr ys \<Longrightarrow> y \<in> set ys \<Longrightarrow> \<exists>x \<in> set xs. f x = Inr y"
  by (induction xs arbitrary: ys) (auto split: sum.splits)

text \<open>
  C15: verification is sound: an accepted image is a whole number of sectors with one to thirteen
  entries; every payload lies on its own run of sectors after the header area and inside the image,
  has the recorded CRC32 and only zeros in the rest of its last sector, and no two entries share a
  sector.
\<close>

theorem verified_image_is_sound:
  assumes "verify_bytes sha256 img = Inr (entries, m)"
  shows "length img mod SECTOR_BYTES = 0 \<and> entries \<noteq> [] \<and> length entries \<le> 13 \<and>
    (\<forall>e \<in> set entries. well_placed (length img) e \<and>
       crc32 (slice (e_lba e * SECTOR_BYTES) (e_lba e * SECTOR_BYTES + e_byte_length e) img) = e_crc32 e \<and>
       (\<forall>b \<in> set (slice (e_lba e * SECTOR_BYTES + e_byte_length e)
                     (e_lba e * SECTOR_BYTES + e_sector_count e * SECTOR_BYTES) img). b = 0)) \<and>
    (\<forall>i < length entries. \<forall>j < length entries. i \<noteq> j \<longrightarrow> areas_disjoint (entries ! i) (entries ! j))"
proof -
  from assms have sec: "length img mod SECTOR_BYTES = 0"
    and dec: "decode_header (slice 0 HEADER_BYTES img) (length img) = Inr entries"
    and v: "\<exists>us. mapE (verify_entry img) entries = Inr us"
    by (auto simp: verify_bytes_def split: if_splits)
  let ?h = "slice 0 HEADER_BYTES img" and ?n = "field_at 4 20 (slice 0 HEADER_BYTES img)"
  from dec obtain es where es: "mapE (decode_entry ?h (length img)) [0..<?n] = Inr es"
    and chk: "check_ranges (sort (map entry_range es)) es = Inr entries" and n: "1 \<le> ?n" "?n \<le> 13"
    by (auto simp: decode_header_def Let_def sd_consts split: if_splits)
  have same: "entries = es" using check_ranges_Inr [OF chk] by simp
  have len: "length entries = ?n" using mapE_length [OF es] same by simp
  have wp: "\<forall>e \<in> set entries. well_placed (length img) e"
    using mapE_mem_result [OF es] decode_entry_Inr(1) same by blast
  have dis: "distinct (map entry_range entries)"
    "\<forall>a \<in> set entries. \<forall>b \<in> set entries. entry_range a \<noteq> entry_range b \<longrightarrow> areas_disjoint a b"
    using check_ranges_disjoint [OF wp] chk same by auto
  have "areas_disjoint (entries ! i) (entries ! j)" if "i < length entries" "j < length entries" "i \<noteq> j" for i j
  proof -
    have "map entry_range entries ! i \<noteq> map entry_range entries ! j"
      using dis(1) that by (simp only: distinct_conv_nth length_map) blast
    with dis(2) that show ?thesis by simp
  qed
  moreover have "verify_entry img e = Inr ()" if "e \<in> set entries" for e
    using v mapE_mem [OF _ that, of "verify_entry img"] by auto
  then have "crc32 (slice (e_lba e * SECTOR_BYTES) (e_lba e * SECTOR_BYTES + e_byte_length e) img) = e_crc32 e \<and>
      (\<forall>b \<in> set (slice (e_lba e * SECTOR_BYTES + e_byte_length e)
                  (e_lba e * SECTOR_BYTES + e_sector_count e * SECTOR_BYTES) img). b = 0)"
    if "e \<in> set entries" for e
    using that by (fastforce simp: verify_entry_def Let_def split: if_splits)
  ultimately show ?thesis using sec wp len n by auto
qed

text \<open>
  Header round trip: for one to thirteen well-placed entries on disjoint sector runs, whose tags
  are one to eight ASCII characters and whose fields fit their widths, encoding succeeds with a
  512-byte header and decoding it gives back exactly the entries.
\<close>

theorem header_round_trip:
  assumes "\<forall>e \<in> set entries. entry_ok e \<and> well_placed n e" "entries \<noteq> []" "length entries \<le> 13" "n < 256 ^ 8"
    "\<forall>i < length entries. \<forall>j < i. areas_disjoint (entries ! i) (entries ! j)"
  shows "\<exists>h. encode_header entries n = Inr h \<and> length h = HEADER_BYTES \<and> decode_header h n = Inr entries"
proof -
  have eok: "\<forall>e \<in> set entries. entry_ok e" using assms(1) by simp
  have pd: "areas_disjoint (entries ! i) (entries ! j)" if "i < length entries" "j < length entries" "i \<noteq> j" for i j
    using assms(5) that by (metis areas_disjoint_def linorder_neqE_nat)
  have nov: "entry_range a \<noteq> entry_range b" if "areas_disjoint a b" "a \<in> set entries" for a b
    using that assms(1) by (fastforce simp: areas_disjoint_def entry_range_def well_placed_def)
  have "distinct (map entry_range entries)"
    unfolding distinct_conv_nth using pd nov by (metis length_map nth_map nth_mem)
  moreover have "areas_disjoint a b" if "a \<in> set entries" "b \<in> set entries" "entry_range a \<noteq> entry_range b" for a b
    using that pd by (metis in_set_conv_nth)
  ultimately have "decode_header (header_of entries n) n = Inr entries"
    by (intro decode_encoded [OF assms(1-4)]) blast+
  with encode_header_of [OF eok assms(3,4)] header_lengths(2) [OF eok assms(3), of n]
  show ?thesis by (simp add: HEADER_BYTES_def SECTOR_BYTES_def)
qed

definition demo_entry :: "string \<Rightarrow> nat \<Rightarrow> sd_entry" where
  "demo_entry tag lba = \<lparr>e_tag = tag, e_lba = lba, e_sector_count = 1, e_load_address = 64, e_byte_length = 5, e_crc32 = 77\<rparr>"

theorem header_round_trip_witness:
  "\<exists>h. encode_header [demo_entry ''A'' 9, demo_entry ''FDT'' 8] 5120 = Inr h \<and>
     decode_header h 5120 = Inr [demo_entry ''A'' 9, demo_entry ''FDT'' 8]"
proof -
  let ?es = "[demo_entry ''A'' 9, demo_entry ''FDT'' 8]"
  have "last ''FDT'' \<noteq> char_of (0 :: nat)" "last ''A'' \<noteq> char_of (0 :: nat)"
    "list_all ascii_char ''FDT''" "list_all ascii_char ''A''" by code_simp+
  then have "\<forall>e \<in> set ?es. entry_ok e \<and> well_placed 5120 e"
    by (simp add: entry_ok_def tag_ok_def entry_fits_def well_placed_def demo_entry_def sd_consts)
  moreover have "\<forall>i < length ?es. \<forall>j < i. areas_disjoint (?es ! i) (?es ! j)"
    by (simp add: areas_disjoint_def demo_entry_def less_Suc_eq)
  ultimately show ?thesis using header_round_trip [of ?es 5120] by auto
qed


section \<open>Building succeeds\<close>

lemma sectors_for_le: "sectors_for n \<le> n"
proof (cases n)
  case (Suc m)
  have "(n + 511) div 512 < n + 1" using Suc by (simp add: div_less_iff_less_mult)
  then show ?thesis by (simp add: sectors_for_def SECTOR_BYTES_def)
qed (simp add: sectors_for_def SECTOR_BYTES_def)

lemma sum_sectors_le:
  "sum_list (map (\<lambda>x. sectors_for (length (snd x))) xs) \<le> sum_list (map (\<lambda>x. length (snd x)) xs)"
  by (induction xs) (auto intro: add_mono sectors_for_le)

lemma entries_from_fit:
  assumes "e \<in> set (entries_from lba xs)" "lba + sum_list (map (\<lambda>x. length (snd x)) xs) < 256 ^ 4"
    "\<forall>x \<in> set xs. in_load_address (fst x) < 256 ^ 8"
  shows "entry_fits e"
proof -
  have b: "e_lba e + e_sector_count e \<le> end_lba lba xs" by (rule entries_from_bounds [OF assms(1), THEN conjunct2])
  also have "\<dots> \<le> lba + sum_list (map (\<lambda>x. length (snd x)) xs)"
    using sum_sectors_le [of xs] by (simp add: end_lba_def)
  finally have "e_lba e < 256 ^ 4" "e_sector_count e < 256 ^ 4" using assms(2) by linarith+
  moreover obtain d where d: "(e, d) \<in> set (zip (entries_from lba xs) (map snd xs))"
    using entries_from_mem [OF assms(1)] by blast
  from entries_from_data [OF d] obtain item where item: "(item, d) \<in> set xs" "e_load_address e = in_load_address item"
    "e_byte_length e = length d" "e_crc32 e = crc32 d" by blast
  have "length d \<le> sum_list (map (\<lambda>x. length (snd x)) xs)"
    using member_le_sum_list [of "length d" "map (\<lambda>x. length (snd x)) xs"] item(1) by force
  moreover have "in_load_address item < 256 ^ 8" using assms(3) item(1) by force
  ultimately show ?thesis using item assms(2) crc32_less [of d] by (simp add: entry_fits_def)
qed

lemma assemble_succeeds:
  assumes len: "length inputs = length payloads" "inputs \<noteq> []" "length inputs \<le> 13"
    and tags: "\<forall>item \<in> set inputs. tag_ok (in_tag item) \<and> in_load_address item < 256 ^ 8"
    and total: "sum_list (map length payloads) < 2 ^ 31"
  shows "\<exists>img. assemble inputs payloads = Inr (entries_from FIRST_PAYLOAD_LBA (zip inputs payloads), img)"
proof -
  let ?xs = "zip inputs payloads"
  let ?es = "entries_from FIRST_PAYLOAD_LBA ?xs"
  have sum: "sum_list (map (\<lambda>x. length (snd x)) ?xs) = sum_list (map length payloads)"
    using len(1) by (induction inputs payloads rule: list_induct2) auto
  have ne: "?xs \<noteq> []" using len by auto
  have small: "FIRST_PAYLOAD_LBA + sum_list (map (\<lambda>x. length (snd x)) ?xs) < 256 ^ 4"
    using total sum by (simp add: FIRST_PAYLOAD_LBA_def)
  have ok: "entry_ok e" if e: "e \<in> set ?es" for e
  proof -
    obtain d where "(e, d) \<in> set (zip ?es (map snd ?xs))" using entries_from_mem [OF e] by blast
    from entries_from_data [OF this] obtain item where "(item, d) \<in> set ?xs" "e_tag e = in_tag item" by blast
    then have "tag_ok (e_tag e)" using tags set_zip_leftD [of item d inputs payloads] by simp
    moreover have "entry_fits e"
      by (rule entries_from_fit [OF e small]) (use tags in \<open>auto dest: set_zip_leftD\<close>)
    ultimately show ?thesis by (simp add: entry_ok_def)
  qed
  let ?N = "(e_lba (last ?es) + e_sector_count (last ?es)) * SECTOR_BYTES"
  have "?N = end_lba FIRST_PAYLOAD_LBA ?xs * 512" by (simp add: entries_from_last [OF ne] SECTOR_BYTES_def)
  also have "\<dots> \<le> (FIRST_PAYLOAD_LBA + sum_list (map (\<lambda>x. length (snd x)) ?xs)) * 512"
    using sum_sectors_le [of ?xs] by (simp add: end_lba_def)
  also have "\<dots> < 256 ^ 8" using small by (simp add: FIRST_PAYLOAD_LBA_def)
  finally have n: "?N < 256 ^ 8" .
  have "encode_header ?es ?N = Inr (header_of ?es ?N)"
    by (rule encode_header_of) (use ok len n in auto)
  with len show ?thesis by (simp add: assemble_def make_entries_def Let_def)
qed

lemma boot_inputs_ok: "\<forall>item \<in> set boot_inputs. tag_ok (in_tag item) \<and> in_load_address item < 256 ^ 8"
proof -
  have "tag_ok ''TRAMP''" "tag_ok ''OPENSBI''" "tag_ok ''LINUX''" "tag_ok ''FDT''"
    unfolding tag_ok_def by code_simp+
  then show ?thesis by (simp add: boot_inputs_def)
qed

lemma length_trampoline: "length trampoline = 32"
  by (simp add: trampoline_def TRAMPOLINE_WORDS_def)

lemma verify_of_parts:
  assumes "decode_header (slice 0 HEADER_BYTES img) (length img) = Inr entries"
    "length img mod SECTOR_BYTES = 0" "\<forall>e \<in> set entries. verify_entry img e = Inr ()"
  shows "\<exists>m. verify_bytes sha img = Inr (entries, m)"
  using assms mapE_unit [of entries "verify_entry img"] manifest_None [of sha img entries]
  by (auto simp: verify_bytes_def)

lemma manifest_Some:
  assumes "\<forall>e \<in> set es. src (e_tag e) \<noteq> None"
  shows "\<exists>m. manifest sha img es (Some src) = Inr m"
proof -
  have "\<exists>ms. mapE (manifest_of sha img (Some src)) es = Inr ms"
    using assms by (induction es) (auto simp: manifest_of_def Let_def)
  then show ?thesis by (auto simp: manifest_def)
qed

text \<open>
  The builder always succeeds on proper inputs and what it writes verifies: for a non-empty
  OpenSBI, a Linux image with the RISC-V magic at its offset, a non-empty device tree and a total
  payload under 2 GiB, \<open>build_image\<close> returns an image that \<open>verify_bytes\<close> accepts, whose four entries
  carry the four tags in order at the fixed load addresses, and whose sectors hold the trampoline,
  OpenSBI, Linux and the device tree unchanged.
\<close>

lemma image_builds:
  assumes "opensbi \<noteq> []" "slice LINUX_MAGIC_OFFSET (LINUX_MAGIC_OFFSET + length LINUX_MAGIC) linux = LINUX_MAGIC"
    "dtb \<noteq> []" "length opensbi + length linux + length dtb < 2 ^ 31 - 32"
    "\<forall>tag \<in> {''TRAMP'', ''OPENSBI'', ''LINUX'', ''FDT''}. sources tag \<noteq> None"
  shows "\<exists>img record entries m. build_image sha256 sources opensbi linux dtb = Inr (img, record) \<and>
    verify_bytes sha256 img = Inr (entries, m) \<and>
    map (\<lambda>e. (e_tag e, e_load_address e)) entries =
      [(''TRAMP'', 0x80000000), (''OPENSBI'', 0x80100000), (''LINUX'', 0x80200000), (''FDT'', 0x8FF00000)] \<and>
    map (\<lambda>e. slice (e_lba e * SECTOR_BYTES) (e_lba e * SECTOR_BYTES + e_byte_length e) img) entries =
      [trampoline, opensbi, linux, dtb]"
proof -
  let ?ps = "[trampoline, opensbi, linux, dtb]"
  let ?xs = "zip boot_inputs ?ps"
  let ?es = "entries_from FIRST_PAYLOAD_LBA ?xs"
  have lin: "linux \<noteq> []" using assms(2) by (auto simp: slice_def LINUX_MAGIC_def)
  have l4: "length boot_inputs = 4" by (simp add: boot_inputs_def)
  have tr: "trampoline \<noteq> []" using length_trampoline by auto
  have "sum_list (map length ?ps) < 2 ^ 31" using assms(4) length_trampoline by simp
  then obtain img where a: "assemble boot_inputs ?ps = Inr (?es, img)"
    using assemble_succeeds [of boot_inputs ?ps] boot_inputs_ok l4 by fastforce
  have data: "\<forall>d \<in> set ?ps. d \<noteq> []" using tr lin assms(1,3) by simp
  have ne: "boot_inputs \<noteq> []" "length boot_inputs \<le> 13" using l4 by auto
  note as = assembled [OF a ne _ data]
  have tags: "\<forall>item \<in> set boot_inputs. tag_ok (in_tag item)" using boot_inputs_ok by blast
  obtain m where v: "verify_bytes sha256 img = Inr (?es, m)"
    using verify_of_parts [OF as(1) [OF tags] as(2) [OF tags] as(3) [OF tags]] by blast
  have tg: "map (\<lambda>e. (e_tag e, e_load_address e)) ?es =
      [(''TRAMP'', 0x80000000), (''OPENSBI'', 0x80100000), (''LINUX'', 0x80200000), (''FDT'', 0x8FF00000)]"
    by (simp add: boot_inputs_def)
  then have "map e_tag ?es = [''TRAMP'', ''OPENSBI'', ''LINUX'', ''FDT'']"
    by (auto simp: boot_inputs_def)
  then have "set (map e_tag ?es) = {''TRAMP'', ''OPENSBI'', ''LINUX'', ''FDT''}" by simp
  then have "\<forall>e \<in> set ?es. sources (e_tag e) \<noteq> None" using assms(5) by (metis imageI list.set_map)
  then obtain r where r: "manifest sha256 img ?es (Some sources) = Inr r" using manifest_Some by blast
  have "\<forall>(e, d) \<in> set (zip ?es ?ps). slice (e_lba e * SECTOR_BYTES) (e_lba e * SECTOR_BYTES + length d) img = d"
    by (rule as(6) [OF tags])
  then have "map (\<lambda>e. slice (e_lba e * SECTOR_BYTES) (e_lba e * SECTOR_BYTES + e_byte_length e) img) ?es = ?ps"
    by (simp add: boot_inputs_def del: One_nat_def)
  moreover have "build_image sha256 sources opensbi linux dtb = Inr (img, r)"
    using assms(1,2) lin a v r by (simp add: build_image_def)
  ultimately show ?thesis using v tg by (intro exI conjI)
qed


theorem verified_image_is_sound_witness:
  "\<exists>img e m. verify_bytes (\<lambda>_. []) img = Inr ([e], m) \<and> well_placed (length img) e \<and>
    crc32 (slice (e_lba e * SECTOR_BYTES) (e_lba e * SECTOR_BYTES + e_byte_length e) img) = e_crc32 e"
proof -
  let ?in = "[\<lparr>in_tag = ''FDT'', in_load_address = 64\<rparr>]" and ?ps = "[[7, 9]] :: byte list list"
  have tag: "tag_ok ''FDT''" unfolding tag_ok_def by code_simp
  then obtain img where a: "assemble ?in ?ps = Inr (entries_from FIRST_PAYLOAD_LBA (zip ?in ?ps), img)"
    using assemble_succeeds [of ?in ?ps] by auto
  then obtain e where e: "assemble ?in ?ps = Inr ([e], img)" by simp
  note as = assembled [OF e]
  obtain m where v: "verify_bytes (\<lambda>_. []) img = Inr ([e], m)"
    using verify_of_parts [of img "[e]" "\<lambda>_. []"] as(1-3) tag by auto
  from verified_image_is_sound [OF v] v show ?thesis by auto
qed

end
