(* ===== verification/ChaseRing.thy ===== *)
theory ChaseRing
  imports ByteCodec
begin

unbundle bit_operations_syntax

text \<open>
  \<open>tools/gen_multichase_ring.py\<close>: the pointer ring of the Multi-Chase benchmark. The generator takes
  its random generator as an argument, as the source does, so the shuffles are verified for every
  generator that draws within its limit (\<open>bounded_rng\<close>), and SplitMix64 is an instance. Assembler
  text is modelled as lines, whose bytes \<open>asm_bytes\<close> gives the meaning of \<open>.zero\<close> and \<open>.quad\<close>.
\<close>

datatype ring_error =
    NegativeLimit
  | ZeroDivision
  | IndexError
  | NotPermutation
  | RingClosesEarly
  | NotOneRing
  | NotPositive
  | BadStride
  | BytesNotMultiple
  | LocalityNotMultiple

section \<open>SplitMix64\<close>

definition rng_init :: "int \<Rightarrow> 64 word" where
  "rng_init seed = word_of_int seed"

definition rng_next :: "64 word \<Rightarrow> 64 word \<times> 64 word" where
  "rng_next state =
     (let state = state + 0x9E3779B97F4A7C15;
          v = state;
          v = (v XOR drop_bit 30 v) * 0xBF58476D1CE4E5B9;
          v = (v XOR drop_bit 27 v) * 0x94D049BB133111EB
      in (v XOR drop_bit 31 v, state))"

definition bounded :: "int \<Rightarrow> 64 word \<Rightarrow> ring_error + (nat \<times> 64 word)" where
  "bounded limit_inclusive state =
     (if limit_inclusive < 0 then Inl NegativeLimit
      else case rng_next state of (v, state') \<Rightarrow> Inr (unat v mod nat (limit_inclusive + 1), state'))"

section \<open>The shuffled order\<close>

type_synonym 's draw = "int \<Rightarrow> 's \<Rightarrow> ring_error + (nat \<times> 's)"

definition perm_step :: "'s draw \<Rightarrow> nat \<Rightarrow> nat \<Rightarrow> nat list \<times> 's \<Rightarrow> ring_error + (nat list \<times> 's)" where
  "perm_step draw base index ps =
     (case ps of (permutation, s) \<Rightarrow>
        bindE (draw (int index) s) (\<lambda>(target, s').
          Inr ((permutation[index := permutation ! target])[target := base + index], s')))"

definition random_permutation :: "'s draw \<Rightarrow> nat \<Rightarrow> nat \<Rightarrow> 's \<Rightarrow> ring_error + (nat list \<times> 's)" where
  "random_permutation draw cnt base s = foldE (perm_step draw base) [0..<cnt] (replicate cnt 0, s)"

definition order_step :: "'s draw \<Rightarrow> nat \<Rightarrow> nat \<Rightarrow> nat \<Rightarrow> nat list \<times> 's \<Rightarrow> ring_error + (nat list \<times> 's)" where
  "order_step draw nodes group_size g os =
     (case os of (order, s) \<Rightarrow>
        let base = g * group_size; cnt = min group_size (nodes - base) in
        bindE (random_permutation draw cnt base s) (\<lambda>(perm, s'). Inr (order @ perm, s')))"

definition make_order :: "'s draw \<Rightarrow> nat \<Rightarrow> nat \<Rightarrow> 's \<Rightarrow> ring_error + (nat list \<times> 's)" where
  "make_order draw nodes group_size s =
     (if group_size = 0 then Inl ZeroDivision
      else bindE (random_permutation draw ((nodes + group_size - 1) div group_size) 0 s) (\<lambda>(group_order, s).
           bindE (foldE (order_step draw nodes group_size) group_order ([], s)) (\<lambda>(order, s).
             if sort order \<noteq> [0..<nodes] then Inl NotPermutation else Inr (order, s))))"

section \<open>The ring\<close>

definition set_successor :: "nat list \<Rightarrow> nat \<times> nat \<Rightarrow> nat list \<Rightarrow> ring_error + nat list" where
  "set_successor order ni successors =
     (case ni of (index, node) \<Rightarrow>
        if node < length successors
        then Inr (successors[node := order ! ((index + 1) mod length order)])
        else Inl IndexError)"

definition visit :: "nat list \<Rightarrow> nat \<Rightarrow> nat set \<times> nat \<Rightarrow> ring_error + (nat set \<times> nat)" where
  "visit successors _ vn =
     (case vn of (visited, node) \<Rightarrow>
        if node \<in> visited then Inl RingClosesEarly
        else if node < length successors then Inr (insert node visited, successors ! node)
        else Inl IndexError)"

definition make_successors :: "nat list \<Rightarrow> ring_error + nat list" where
  "make_successors order =
     bindE (foldE (set_successor order) (enumerate 0 order) (replicate (length order) 0)) (\<lambda>successors.
     bindE (foldE (visit successors) order ({}, 0)) (\<lambda>(visited, node).
       if node \<noteq> 0 \<or> card visited \<noteq> length order then Inl NotOneRing else Inr successors))"

section \<open>The assembler file\<close>

datatype asm_line =
    AText string
  | ALabel string
  | AZero nat
  | AQuad nat

definition asm_text :: "asm_line \<Rightarrow> string" where
  "asm_text l =
     (case l of
        AText s \<Rightarrow> s
      | ALabel s \<Rightarrow> s @ '':''
      | AZero n \<Rightarrow> ''    .zero '' @ nat_str 10 n
      | AQuad n \<Rightarrow> ''    .quad pointer_chase_arena + '' @ nat_str 10 n)"

definition header_lines :: "nat \<Rightarrow> asm_line list" where
  "header_lines stride =
     map AText
       [''/*'', '' * Generated Google Multi-Chase-style pointer ring.'', '' *'',
        '' * Copyright 2015 Google Inc. All Rights Reserved.'', '' * SPDX-License-Identifier: Apache-2.0'',
        '' *'', '' * Modified for OpenRV64 into a static, deterministic ring.'',
        '' * Do not edit; regenerate with tools/gen_multichase_ring.py.'', '' */'', '''',
        ''.section .rodata.pointer_chase, '' @ [CHR 0x22] @ ''a'' @ [CHR 0x22], ''.balign '' @ nat_str 10 stride,
        ''.global pointer_chase_arena''] @
     [ALabel ''pointer_chase_arena'']"

definition node_lines :: "nat \<Rightarrow> nat list \<Rightarrow> nat \<times> nat \<Rightarrow> asm_line list" where
  "node_lines stride offsets ns =
     (case ns of (node, successor) \<Rightarrow>
        let offset = offsets ! node; tail = stride - offset - 8 in
        (if offset \<noteq> 0 then [AZero offset] else []) @
        (if node = 0 then [AText ''.global pointer_chase_start'', ALabel ''pointer_chase_start''] else []) @
        [AQuad (successor * stride + offsets ! successor)] @
        (if tail \<noteq> 0 then [AZero tail] else []))"

definition footer_lines :: "asm_line list" where
  "footer_lines = [AText ''.global pointer_chase_arena_end'', ALabel ''pointer_chase_arena_end'', AText '''']"

definition draw_offset :: "'s draw \<Rightarrow> nat \<Rightarrow> nat \<Rightarrow> nat list \<times> 's \<Rightarrow> ring_error + (nat list \<times> 's)" where
  "draw_offset draw slots _ os =
     (case os of (offsets, s) \<Rightarrow>
        bindE (draw (int slots - 1) s) (\<lambda>(k, s'). Inr (offsets @ [k * 8], s')))"

definition emit_lines :: "'s draw \<Rightarrow> 's \<Rightarrow> int \<Rightarrow> int \<Rightarrow> int \<Rightarrow> ring_error + asm_line list" where
  "emit_lines draw s byte_count stride locality =
     (if byte_count \<le> 0 \<or> stride \<le> 0 \<or> locality \<le> 0 then Inl NotPositive
      else if stride < 8 \<or> stride mod 8 \<noteq> 0 then Inl BadStride
      else if byte_count mod stride \<noteq> 0 then Inl BytesNotMultiple
      else if locality mod stride \<noteq> 0 then Inl LocalityNotMultiple
      else
        let nodes = nat (byte_count div stride) in
        bindE (make_order draw nodes (nat (locality div stride)) s) (\<lambda>(order, s).
        bindE (make_successors order) (\<lambda>successors.
        bindE (foldE (draw_offset draw (nat (stride div 8))) [0..<nodes] ([], s)) (\<lambda>(offsets, s).
          Inr (header_lines (nat stride) @
               concat (map (node_lines (nat stride) offsets) (enumerate 0 successors)) @
               footer_lines)))))"

definition emit :: "int \<Rightarrow> int \<Rightarrow> int \<Rightarrow> int \<Rightarrow> ring_error + string list" where
  "emit byte_count stride locality seed =
     bindE (emit_lines bounded (rng_init seed) byte_count stride locality) (\<lambda>lines. Inr (map asm_text lines))"

text \<open>What the assembler makes of the lines, the arena placed at address \<open>base\<close>.\<close>

definition line_bytes :: "nat \<Rightarrow> asm_line \<Rightarrow> byte list" where
  "line_bytes base l =
     (case l of AZero n \<Rightarrow> replicate n 0 | AQuad n \<Rightarrow> le_bytes 8 (base + n) | _ \<Rightarrow> [])"

definition asm_bytes :: "nat \<Rightarrow> asm_line list \<Rightarrow> byte list" where
  "asm_bytes base lines = concat (map (line_bytes base) lines)"

fun label_offset :: "string \<Rightarrow> asm_line list \<Rightarrow> nat option" where
  "label_offset name [] = None"
| "label_offset name (l # ls) =
     (if l = ALabel name then Some 0 else map_option ((+) (length (line_bytes 0 l))) (label_offset name ls))"

definition chase :: "nat \<Rightarrow> byte list \<Rightarrow> nat \<Rightarrow> nat" where
  "chase base arena p = field_at 8 (p - base) arena"

section \<open>Locality groups\<close>

definition locality_group :: "nat \<Rightarrow> nat \<Rightarrow> nat \<Rightarrow> nat list" where
  "locality_group nodes n g = [g * n..<g * n + min n (nodes - g * n)]"

lemma concat_groups: "concat (map (locality_group nodes n) [0..<k]) = [0..<min (k * n) nodes]"
proof (induction k)
  case (Suc k)
  have "[0..<min (Suc k * n) nodes] = [0..<min (k * n) nodes] @ locality_group nodes n k"
  proof (cases "k * n \<le> nodes")
    case True
    have "min (Suc k * n) nodes = k * n + min n (nodes - k * n)" using True by (auto simp: min_def)
    with True show ?thesis using upt_add_eq_append [of 0 "k * n"] by (simp add: locality_group_def)
  next
    case False
    then show ?thesis by (simp add: locality_group_def)
  qed
  with Suc show ?case by simp
qed simp

lemma ceil_groups: "0 < n \<Longrightarrow> nodes \<le> (nodes + n - 1) div n * n" for nodes n :: nat
proof -
  assume n: "0 < n"
  have "nodes + n - 1 = (nodes + n - 1) div n * n + (nodes + n - 1) mod n" by simp
  moreover have "(nodes + n - 1) mod n < n" using n by simp
  ultimately show ?thesis by linarith
qed

lemma mset_concat_perm: "mset xs = mset ys \<Longrightarrow> mset (concat (map f xs)) = mset (concat (map f ys))"
proof -
  have "mset (concat (map f zs)) = \<Sum>\<^sub># (image_mset (mset \<circ> f) (mset zs))" for zs
    by (induction zs) auto
  then show "mset xs = mset ys \<Longrightarrow> mset (concat (map f xs)) = mset (concat (map f ys))" by simp
qed

lemma mset_blocks:
  assumes "0 < n" "mset gs = mset [0..<(nodes + n - 1) div n]"
    "list_all2 (\<lambda>g b. mset b = mset (locality_group nodes n g)) gs blocks"
  shows "mset (concat blocks) = mset [0..<nodes]"
proof -
  have "mset (concat blocks) = mset (concat (map (locality_group nodes n) gs))"
    using assms(3) by (induction rule: list_all2_induct) auto
  also have "\<dots> = mset (concat (map (locality_group nodes n) [0..<(nodes + n - 1) div n]))"
    by (rule mset_concat_perm [OF assms(2)])
  also have "\<dots> = mset [0..<nodes]"
    using ceil_groups [OF assms(1), of nodes] unfolding concat_groups by (simp add: min_absorb2)
  finally show ?thesis .
qed

section \<open>Shuffles with any generator\<close>

locale bounded_rng =
  fixes draw :: "'s draw"
  assumes draw_within: "0 \<le> l \<Longrightarrow> \<exists>k s'. draw l s = Inr (k, s') \<and> int k \<le> l"
begin

lemma perm_step_ok:
  assumes "i < length p" "mset (take i p) = mset [base..<base + i]"
  shows "\<exists>p' s'. perm_step draw base i (p, s) = Inr (p', s') \<and> length p' = length p \<and>
    mset (take (Suc i) p') = mset [base..<base + Suc i]"
proof -
  obtain t s' where t: "draw (int i) s = Inr (t, s')" "t \<le> i" using draw_within [of "int i" s] by auto
  let ?p = "(p[i := p ! t])[t := base + i]"
  have "mset (take (Suc i) ?p) = mset (take i p) + {#base + i#}"
  proof (cases "t = i")
    case True
    with assms(1) show ?thesis by (simp add: take_Suc_conv_app_nth)
  next
    case False
    with t(2) have ti: "t < i" by simp
    have "take (Suc i) ?p = (take i p)[t := base + i] @ [p ! t]"
      using assms(1) ti by (simp add: take_Suc_conv_app_nth take_update_swap list_update_append)
    moreover have "mset ((take i p)[t := base + i]) = add_mset (base + i) (mset (take i p) - {#p ! t#})"
      using assms(1) ti mset_update [of t "take i p" "base + i"] by simp
    moreover have "p ! t \<in># mset (take i p)"
      using assms(1) ti nth_mem [of t "take i p"] by simp
    ultimately show ?thesis by simp
  qed
  then have "mset (take (Suc i) ?p) = mset [base..<base + Suc i]" using assms(2) by simp
  with t show ?thesis by (simp add: perm_step_def)
qed

lemma random_permutation_ok:
  "\<exists>p s'. random_permutation draw cnt base s = Inr (p, s') \<and> mset p = mset [base..<base + cnt]"
proof -
  have "\<exists>p s'. foldE (perm_step draw base) [0..<i] (replicate cnt 0, s) = Inr (p, s') \<and> length p = cnt \<and>
      mset (take i p) = mset [base..<base + i]" if "i \<le> cnt" for i
    using that
  proof (induction i)
    case (Suc i)
    then obtain p s1 where p: "foldE (perm_step draw base) [0..<i] (replicate cnt 0, s) = Inr (p, s1)"
      "length p = cnt" "mset (take i p) = mset [base..<base + i]" by auto
    from perm_step_ok [of i p base s1] p Suc.prems show ?case by (fastforce simp: foldE_append)
  qed simp
  from this [of cnt] show ?thesis by (auto simp: random_permutation_def)
qed

text \<open>The groups are shuffled, and every group's nodes are shuffled among themselves.\<close>

lemma order_steps_ok:
  "\<exists>blocks s'. foldE (order_step draw nodes n) gs (order, s) = Inr (order @ concat blocks, s') \<and>
    list_all2 (\<lambda>g b. mset b = mset (locality_group nodes n g)) gs blocks"
proof (induction gs arbitrary: order s)
  case (Cons g gs)
  obtain p s1 where p: "random_permutation draw (min n (nodes - g * n)) (g * n) s = Inr (p, s1)"
    "mset p = mset [g * n..<g * n + min n (nodes - g * n)]"
    using random_permutation_ok by blast
  obtain blocks s' where b: "foldE (order_step draw nodes n) gs (order @ p, s1) = Inr ((order @ p) @ concat blocks, s')"
    "list_all2 (\<lambda>g b. mset b = mset (locality_group nodes n g)) gs blocks"
    using Cons.IH by blast
  show ?case
    by (rule exI [of _ "p # blocks"], rule exI [of _ s'])
      (use p b in \<open>simp add: order_step_def [of draw nodes n g] Let_def locality_group_def\<close>)
qed simp

lemma make_order_ok:
  assumes "0 < n"
  shows "\<exists>order s' gs blocks. make_order draw nodes n s = Inr (order, s') \<and> mset order = mset [0..<nodes] \<and>
    mset gs = mset [0..<(nodes + n - 1) div n] \<and> order = concat blocks \<and>
    list_all2 (\<lambda>g b. mset b = mset (locality_group nodes n g)) gs blocks"
proof -
  let ?G = "(nodes + n - 1) div n"
  obtain gs s1 where g: "random_permutation draw ?G 0 s = Inr (gs, s1)" "mset gs = mset [0..<?G]"
    using random_permutation_ok [of ?G 0 s] by auto
  obtain blocks s' where b: "foldE (order_step draw nodes n) gs ([], s1) = Inr (concat blocks, s')"
    "list_all2 (\<lambda>g b. mset b = mset (locality_group nodes n g)) gs blocks"
    using order_steps_ok [of nodes n gs "[]" s1] by auto
  have m: "mset (concat blocks) = mset [0..<nodes]"
    by (rule mset_blocks [OF assms g(2) b(2)])
  then have "sort (concat blocks) = [0..<nodes]" by (intro properties_for_sort) simp_all
  with g b m assms show ?thesis by (auto simp: make_order_def)
qed

lemma draw_offsets_ok:
  assumes "0 < slots"
  shows "\<exists>os s'. foldE (draw_offset draw slots) ns (os0, s) = Inr (os0 @ os, s') \<and> length os = length ns \<and>
    (\<forall>x \<in> set os. 8 dvd x \<and> x + 8 \<le> slots * 8)"
proof (induction ns arbitrary: os0 s)
  case (Cons k ns)
  obtain d s1 where d: "draw (int slots - 1) s = Inr (d, s1)" "int d \<le> int slots - 1"
    using draw_within [of "int slots - 1" s] assms by auto
  obtain os s' where os: "foldE (draw_offset draw slots) ns (os0 @ [d * 8], s1) = Inr ((os0 @ [d * 8]) @ os, s')"
    "length os = length ns" "\<forall>x \<in> set os. 8 dvd x \<and> x + 8 \<le> slots * 8" using Cons.IH by blast
  show ?case
    by (rule exI [of _ "d * 8 # os"], rule exI [of _ s']) (use d os in \<open>auto simp: draw_offset_def [of draw slots k]\<close>)
qed simp

end

lemma bounded_within: "0 \<le> l \<Longrightarrow> \<exists>k s'. bounded l s = Inr (k, s') \<and> int k \<le> l"
proof -
  assume l: "0 \<le> l"
  obtain v s' where r: "rng_next s = (v, s')" by (cases "rng_next s")
  have "unat v mod nat (l + 1) < nat (l + 1)" using l by simp
  then have "int (unat v mod nat (l + 1)) \<le> l" by linarith
  with l r show "\<exists>k s'. bounded l s = Inr (k, s') \<and> int k \<le> l" by (simp add: bounded_def)
qed

interpretation split_mix: bounded_rng bounded
  by unfold_locales (rule bounded_within)


section \<open>One ring\<close>

definition ring_of :: "nat list \<Rightarrow> nat list \<Rightarrow> bool" where
  "ring_of order succ \<longleftrightarrow> length succ = length order \<and>
     (\<forall>i < length order. succ ! (order ! i) = order ! ((i + 1) mod length order))"

lemma perm_order:
  assumes "mset order = mset [0..<n]"
  shows "length order = n" "distinct order" "set order = {0..<n}"
proof -
  show "length order = n" using mset_eq_length [OF assms] by simp
  show "distinct order" using mset_eq_imp_distinct_iff [OF assms] by simp
  show "set order = {0..<n}" using mset_eq_setD [OF assms] by simp
qed

lemma ring_iterate:
  assumes r: "ring_of order succ" and i: "i < length order"
  shows "((!) succ ^^ k) (order ! i) = order ! ((i + k) mod length order)"
proof (induction k)
  case (Suc k)
  have "(i + k) mod length order < length order" using i by (cases order) simp_all
  then have "succ ! (order ! ((i + k) mod length order)) = order ! (((i + k) mod length order + 1) mod length order)"
    using r by (simp add: ring_of_def)
  then show ?case using Suc by (simp add: mod_Suc_eq)
qed (use i in simp)

lemma set_successors_ok:
  assumes "mset order = mset [0..<n]"
  shows "\<exists>succ. foldE (set_successor order) (enumerate 0 order) (replicate (length order) 0) = Inr succ \<and> ring_of order succ"
proof -
  note po = perm_order [OF assms]
  have "\<exists>succ. foldE (set_successor order) (take i (enumerate 0 order)) (replicate n 0) = Inr succ \<and> length succ = n \<and>
      (\<forall>j < i. succ ! (order ! j) = order ! ((j + 1) mod n))" if "i \<le> n" for i
    using that
  proof (induction i)
    case (Suc i)
    then obtain succ where s: "foldE (set_successor order) (take i (enumerate 0 order)) (replicate n 0) = Inr succ"
      "length succ = n" "\<forall>j < i. succ ! (order ! j) = order ! ((j + 1) mod n)" by auto
    have i: "i < length order" using Suc.prems po(1) by simp
    then have oi: "order ! i < n" using po(3) nth_mem [OF i] by simp
    have tk: "take (Suc i) (enumerate 0 order) = take i (enumerate 0 order) @ [(i, order ! i)]"
      using i by (simp add: take_Suc_conv_app_nth nth_enumerate_eq)
    have ne: "order ! i \<noteq> order ! j" if "j < i" for j
      using that i po(2) by (simp add: nth_eq_iff_index_eq)
    show ?case
      unfolding tk foldE_append s(1)
      by (rule exI [of _ "succ[order ! i := order ! ((i + 1) mod n)]"])
        (use s oi po(1) ne in \<open>auto simp: set_successor_def less_Suc_eq\<close>)
  qed simp
  from this [of n] show ?thesis using po(1) by (simp add: ring_of_def)
qed

lemma visits_ok:
  assumes m: "mset order = mset [0..<n]" and r: "ring_of order succ" and p: "p < n" "order ! p = 0"
  shows "length ks \<le> n \<Longrightarrow> foldE (visit succ) ks ({}, 0) =
    Inr ((\<lambda>j. order ! ((p + j) mod n)) ` {0..<length ks}, order ! ((p + length ks) mod n))"
proof (induction ks rule: rev_induct)
  case Nil
  then show ?case using p by simp
next
  case (snoc k ks)
  note po = perm_order [OF m]
  let ?at = "\<lambda>j. (p + j) mod n"
  have lt: "?at j < n" for j using p(1) by simp
  have new: "order ! ?at (length ks) \<noteq> order ! ?at j" if "j < length ks" for j
  proof -
    have "?at (length ks) \<noteq> ?at j"
    proof
      assume "?at (length ks) = ?at j"
      then have "n dvd (p + length ks) - (p + j)" using that by (metis mod_eq_dvd_iff_nat add_le_cancel_left less_imp_le)
      then have "n dvd length ks - j" by simp
      with that snoc.prems show False by (auto dest: dvd_imp_le)
    qed
    with po lt show ?thesis by (simp add: nth_eq_iff_index_eq)
  qed
  have node: "order ! ?at (length ks) < length succ"
    using r po lt nth_mem [of "?at (length ks)" order] by (simp add: ring_of_def)
  have step: "succ ! (order ! ?at (length ks)) = order ! ?at (Suc (length ks))"
    using r po lt [of "length ks"] by (simp add: ring_of_def mod_Suc_eq)
  have "order ! ?at (length ks) \<notin> (\<lambda>j. order ! ?at j) ` {0..<length ks}"
  proof
    assume "order ! ?at (length ks) \<in> (\<lambda>j. order ! ?at j) ` {0..<length ks}"
    then obtain j where "j < length ks" "order ! ?at (length ks) = order ! ?at j" by force
    with new show False by blast
  qed
  then have "visit succ k ((\<lambda>j. order ! ?at j) ` {0..<length ks}, order ! ?at (length ks)) =
      Inr (insert (order ! ?at (length ks)) ((\<lambda>j. order ! ?at j) ` {0..<length ks}), order ! ?at (Suc (length ks)))"
    using node step by (simp add: visit_def)
  with snoc show ?case by (simp add: foldE_append atLeastLessThanSuc)
qed

lemma make_successors_ok:
  assumes m: "mset order = mset [0..<n]"
  shows "\<exists>succ. make_successors order = Inr succ \<and> ring_of order succ"
proof -
  note po = perm_order [OF m]
  obtain succ where s: "foldE (set_successor order) (enumerate 0 order) (replicate (length order) 0) = Inr succ"
    "ring_of order succ" using set_successors_ok [OF m] by blast
  show ?thesis
  proof (cases "n = 0")
    case True
    with po s show ?thesis by (simp add: make_successors_def)
  next
    case False
    then have "0 \<in> set order" using po by simp
    then obtain p where p: "p < n" "order ! p = 0" using po by (metis in_set_conv_nth)
    have "foldE (visit succ) order ({}, 0) =
        Inr ((\<lambda>j. order ! ((p + j) mod n)) ` {0..<n}, order ! ((p + n) mod n))"
      using visits_ok [OF m s(2) p, of order] po(1) by simp
    moreover have "order ! ((p + n) mod n) = 0" using p by simp
    moreover have "card ((\<lambda>j. order ! ((p + j) mod n)) ` {0..<n}) = n"
    proof -
      have "inj_on (\<lambda>j. order ! ((p + j) mod n)) {0..<n}"
      proof (rule inj_onI)
        fix i j assume ij: "i \<in> {0..<n}" "j \<in> {0..<n}" "order ! ((p + i) mod n) = order ! ((p + j) mod n)"
        have "(p + i) mod n < n" "(p + j) mod n < n" using p(1) by simp_all
        with ij(3) po have eq: "(p + i) mod n = (p + j) mod n" by (simp add: nth_eq_iff_index_eq)
        have same: "a = b" if "a \<le> b" "b < n" "(p + a) mod n = (p + b) mod n" for a b
        proof -
          have "n dvd (p + b) - (p + a)" using that(1) that(3) [symmetric]
            by (subst (asm) mod_eq_dvd_iff_nat) simp_all
          then have "n dvd b - a" by simp
          moreover have "b - a < n" using that by simp
          ultimately have "b - a = 0" by (meson dvd_imp_le leD neq0_conv)
          with that show ?thesis by simp
        qed
        show "i = j"
        proof (cases "i \<le> j")
          case True
          with ij(2) show ?thesis by (intro same [OF _ _ eq]) simp_all
        next
          case False
          with ij(1) have "j = i" by (intro same [OF _ _ eq [symmetric]]) simp_all
          then show ?thesis ..
        qed
      qed
      then show ?thesis by (simp add: card_image)
    qed
    ultimately show ?thesis using s po(1) by (simp add: make_successors_def)
  qed
qed


section \<open>The emitted arena\<close>

lemma take_drop_concat:
  assumes "\<forall>b \<in> set bs. length b = w" "i < length bs"
  shows "take w (drop (i * w) (concat bs)) = bs ! i"
  using assms
proof (induction bs arbitrary: i)
  case (Cons b bs)
  then show ?case by (cases i) auto
qed simp

lemma length_concat_uniform: "\<forall>b \<in> set bs. length b = w \<Longrightarrow> length (concat bs) = length bs * w"
  by (induction bs) auto

lemma asm_bytes_simps [simp]:
  "asm_bytes base [] = []"
  "asm_bytes base (l # ls) = line_bytes base l @ asm_bytes base ls"
  "asm_bytes base (xs @ ys) = asm_bytes base xs @ asm_bytes base ys"
  by (simp_all add: asm_bytes_def)

lemma asm_bytes_concat: "asm_bytes base (concat (map f xs)) = concat (map (\<lambda>x. asm_bytes base (f x)) xs)"
  by (induction xs) simp_all

lemma line_bytes_simps [simp]:
  "line_bytes base (AText s) = []" "line_bytes base (ALabel s) = []"
  "line_bytes base (AZero n) = replicate n 0" "line_bytes base (AQuad n) = le_bytes 8 (base + n)"
  by (simp_all add: line_bytes_def)

lemma asm_bytes_frame [simp]: "asm_bytes base (header_lines stride) = []" "asm_bytes base footer_lines = []"
  by (simp_all add: header_lines_def footer_lines_def)

lemma node_bytes:
  "asm_bytes base (node_lines stride offsets (node, succ)) =
     replicate (offsets ! node) 0 @ le_bytes 8 (base + (succ * stride + offsets ! succ)) @
     replicate (stride - offsets ! node - 8) 0"
  by (simp add: node_lines_def Let_def del: le_bytes.simps)

definition arena_of :: "nat \<Rightarrow> nat \<Rightarrow> nat list \<Rightarrow> nat list \<Rightarrow> byte list" where
  "arena_of base stride offsets succ =
     concat (map (\<lambda>ns. asm_bytes base (node_lines stride offsets ns)) (enumerate 0 succ))"

lemma arena_chase:
  assumes ok: "length offsets = length succ" "\<forall>x \<in> set offsets. x + 8 \<le> stride" "\<forall>v \<in> set succ. v < length succ"
    and i: "i < length succ" and base: "base + length succ * stride \<le> 256 ^ 8"
  shows "length (arena_of base stride offsets succ) = length succ * stride"
    "chase base (arena_of base stride offsets succ) (base + (i * stride + offsets ! i)) =
       base + (succ ! i * stride + offsets ! (succ ! i))"
proof -
  let ?bs = "map (\<lambda>ns. asm_bytes base (node_lines stride offsets ns)) (enumerate 0 succ)"
  let ?b = "asm_bytes base (node_lines stride offsets (i, succ ! i))"
  have off: "offsets ! k + 8 \<le> stride" if "k < length succ" for k using ok(1,2) that by simp
  have w: "\<forall>b \<in> set ?bs. length b = stride"
  proof
    fix b assume "b \<in> set ?bs"
    then obtain k where "k < length succ" "b = asm_bytes base (node_lines stride offsets (k, succ ! k))"
      by (auto simp: in_set_conv_nth nth_enumerate_eq)
    with off [of k] show "length b = stride" by (simp add: node_bytes del: le_bytes.simps)
  qed
  show len: "length (arena_of base stride offsets succ) = length succ * stride"
    using length_concat_uniform [OF w] by (simp add: arena_of_def)
  have blk: "take stride (drop (i * stride) (arena_of base stride offsets succ)) = ?b"
    using take_drop_concat [OF w, of i] i by (simp add: arena_of_def nth_enumerate_eq)
  have "peek (i * stride + offsets ! i) 8 (arena_of base stride offsets succ) =
      take 8 (drop (offsets ! i) (take stride (drop (i * stride) (arena_of base stride offsets succ))))"
    using off [OF i] by (simp add: peek_def slice_def take_drop min_def add.commute)
  also have "\<dots> = le_bytes 8 (base + (succ ! i * stride + offsets ! (succ ! i)))"
    unfolding blk node_bytes by (simp del: le_bytes.simps)
  finally have p: "peek (i * stride + offsets ! i) 8 (arena_of base stride offsets succ) =
      le_bytes 8 (base + (succ ! i * stride + offsets ! (succ ! i)))" .
  have si: "succ ! i < length succ" using ok(3) i by simp
  then have "succ ! i * stride + stride \<le> length succ * stride" by (metis Suc_leI mult_Suc mult_le_mono1 add.commute)
  then have "base + (succ ! i * stride + offsets ! (succ ! i)) < 256 ^ 8" using off [OF si] base by linarith
  from le_val_le_bytes [OF this] show "chase base (arena_of base stride offsets succ) (base + (i * stride + offsets ! i)) =
       base + (succ ! i * stride + offsets ! (succ ! i))"
    unfolding chase_def field_at_def using p by (simp del: le_bytes.simps)
qed

lemma arena_chases:
  assumes ok: "length offsets = length succ" "\<forall>x \<in> set offsets. x + 8 \<le> stride" "\<forall>v \<in> set succ. v < length succ"
    and i: "i < length succ" and base: "base + length succ * stride \<le> 256 ^ 8"
  shows "((!) succ ^^ k) i < length succ \<and> (chase base (arena_of base stride offsets succ) ^^ k) (base + (i * stride + offsets ! i)) =
       base + (((!) succ ^^ k) i * stride + offsets ! (((!) succ ^^ k) i))"
proof (induction k)
  case (Suc k)
  let ?v = "((!) succ ^^ k) i"
  have v: "?v < length succ" using Suc by simp
  then have "succ ! ?v < length succ" using ok(3) by simp
  with Suc arena_chase(2) [OF ok v base] show ?case by simp
qed (use i in simp)

lemma start_label:
  assumes "succ \<noteq> []"
  shows "label_offset ''pointer_chase_start''
      (header_lines stride @ concat (map (node_lines stride offsets) (enumerate 0 succ)) @ footer_lines) = Some (offsets ! 0)"
proof -
  obtain s0 rest where s: "succ = s0 # rest" using assms by (cases succ) auto
  have "label_offset ''pointer_chase_start'' (node_lines stride offsets (0, s0) @ ls) = Some (offsets ! 0)" for ls
    by (simp add: node_lines_def Let_def)
  then show ?thesis by (simp add: s header_lines_def)
qed


lemma emit_lines_ok:
  assumes "0 < byte_count" "8 \<le> stride" "stride mod 8 = 0" "byte_count mod stride = 0" "0 < locality" "locality mod stride = 0"
  shows "\<exists>order succ offsets. emit_lines bounded s byte_count stride locality =
      Inr (header_lines (nat stride) @ concat (map (node_lines (nat stride) offsets) (enumerate 0 succ)) @ footer_lines) \<and>
    mset order = mset [0..<nat (byte_count div stride)] \<and> ring_of order succ \<and>
    length offsets = length succ \<and> (\<forall>x \<in> set offsets. 8 dvd x \<and> x + 8 \<le> nat stride)"
proof -
  let ?n = "nat (byte_count div stride)"
  have st: "0 < stride" using assms(2) by simp
  have g: "0 < nat (locality div stride)"
    using assms(5,6) st by (metis dvd_eq_mod_eq_0 pos_imp_zdiv_pos_iff zdvd_imp_le zero_less_nat_eq)
  obtain order s1 where o: "make_order bounded ?n (nat (locality div stride)) s = Inr (order, s1)"
    "mset order = mset [0..<?n]" using split_mix.make_order_ok [OF g, of ?n s] by blast
  obtain succ where sc: "make_successors order = Inr succ" "ring_of order succ"
    using make_successors_ok [OF o(2)] by blast
  have slots: "0 < nat (stride div 8)" using assms(2) by (simp add: pos_imp_zdiv_pos_iff)
  have slots8: "nat (stride div 8) * 8 = nat stride" 
  proof -
    have "stride div 8 * 8 = stride" using assms(3) div_mult_mod_eq [of stride 8] by simp
    then show ?thesis using assms(2) by linarith
  qed
  obtain os s2 where os: "foldE (draw_offset bounded (nat (stride div 8))) [0..<?n] ([], s1) = Inr (os, s2)"
    "length os = ?n" "\<forall>x \<in> set os. 8 dvd x \<and> x + 8 \<le> nat stride"
    using split_mix.draw_offsets_ok [OF slots, of "[0..<?n]" "[]" s1] slots8 by auto
  have "length succ = ?n" using sc(2) perm_order(1) [OF o(2)] by (simp add: ring_of_def)
  moreover have "emit_lines bounded s byte_count stride locality =
      Inr (header_lines (nat stride) @ concat (map (node_lines (nat stride) os) (enumerate 0 succ)) @ footer_lines)"
    using assms st o(1) sc(1) os(1) by (simp add: emit_lines_def Let_def)
  ultimately show ?thesis using o(2) sc(2) os(2,3) by (intro exI conjI) auto
qed

lemma arena_of_lines:
  "asm_bytes base (header_lines st @ concat (map (node_lines st offsets) (enumerate 0 succ)) @ footer_lines) =
   arena_of base st offsets succ"
  by (simp add: asm_bytes_concat arena_of_def)

text \<open>
  With a generator that draws within its limits, such as SplitMix64, \<open>make_order\<close> always returns a
  permutation of the nodes (its internal error is unreachable) that keeps the TLB groups together: the
  order is a shuffle of the groups, each a shuffle of its own consecutive nodes.
\<close>

theorem order_is_grouped_permutation:
  assumes "0 < group_size"
  shows "\<exists>order s' gs blocks. make_order bounded nodes group_size s = Inr (order, s') \<and>
    mset order = mset [0..<nodes] \<and> order = concat blocks \<and>
    mset gs = mset [0..<(nodes + group_size - 1) div group_size] \<and>
    list_all2 (\<lambda>g b. mset b = mset [g * group_size..<min (g * group_size + group_size) nodes]) gs blocks"
proof -
  obtain order s' gs blocks where o: "make_order bounded nodes group_size s = Inr (order, s')"
    "mset order = mset [0..<nodes]" "mset gs = mset [0..<(nodes + group_size - 1) div group_size]"
    "order = concat blocks" "list_all2 (\<lambda>g b. mset b = mset (locality_group nodes group_size g)) gs blocks"
    using split_mix.make_order_ok [OF assms] by blast
  have "mset [g * group_size..<min (g * group_size + group_size) nodes] = mset (locality_group nodes group_size g)" for g
  proof (cases "g * group_size \<le> nodes")
    case True
    then have "min (g * group_size + group_size) nodes = g * group_size + min group_size (nodes - g * group_size)"
      by (auto simp: min_def)
    then show ?thesis by (simp add: locality_group_def)
  next
    case False
    then show ?thesis by (simp add: locality_group_def)
  qed
  with o show ?thesis by (intro exI conjI) auto
qed

theorem order_is_grouped_permutation_witness:
  "\<exists>order s'. make_order bounded 10 4 (rng_init 1) = Inr (order, s') \<and> mset order = mset [0..<10]"
  using order_is_grouped_permutation [of 4 10 "rng_init 1"] by auto


lemma make_ring_facts:
  assumes "mset order = mset [0..<n]" "v < n"
  shows "\<exists>succ. make_successors order = Inr succ \<and> length succ = n \<and> ((!) succ ^^ n) v = v \<and>
    (\<lambda>k. ((!) succ ^^ k) v) ` {0..<n} = {0..<n}"
proof -
  note po = perm_order [OF assms(1)]
  obtain succ where s: "make_successors order = Inr succ" "ring_of order succ" using make_successors_ok [OF assms(1)] by blast
  obtain p where p: "p < n" "order ! p = v" using po assms(2) by (metis atLeastLessThan_iff in_set_conv_nth zero_le)
  have it: "((!) succ ^^ k) v = order ! ((p + k) mod n)" for k
    using ring_iterate [OF s(2), of p k] p po(1) by simp
  have "(\<lambda>k. ((!) succ ^^ k) v) ` {0..<n} = {0..<n}"
  proof (intro set_eqI iffI)
    fix x assume "x \<in> {0..<n}"
    then obtain q where q: "q < n" "order ! q = x" using po by (metis in_set_conv_nth)
    have "(p + (q + n - p) mod n) mod n = q"
      using p(1) q(1) by (simp add: mod_add_right_eq)
    then have "((!) succ ^^ ((q + n - p) mod n)) v = x" using it q(2) by simp
    moreover have "(q + n - p) mod n \<in> {0..<n}" using p(1) by simp
    ultimately show "x \<in> (\<lambda>k. ((!) succ ^^ k) v) ` {0..<n}" by (metis imageI)
  next
    fix x assume "x \<in> (\<lambda>k. ((!) succ ^^ k) v) ` {0..<n}"
    then obtain k where "x = order ! ((p + k) mod n)" using it by auto
    moreover have "(p + k) mod n < length order" using p(1) po(1) by simp
    ultimately show "x \<in> {0..<n}" using po(3) nth_mem by metis
  qed
  with s it [of n] p po(1) show ?thesis by (auto simp: ring_of_def)
qed

lemma ring_unique:
  assumes "mset order = mset [0..<n]" "ring_of order succ" "make_successors order = Inr succ'"
  shows "succ' = succ"
proof -
  note po = perm_order [OF assms(1)]
  have r: "ring_of order succ'" using make_successors_ok [OF assms(1)] assms(3) by auto
  show ?thesis
  proof (rule nth_equalityI)
    show len: "length succ' = length succ" using r assms(2) by (simp add: ring_of_def)
    fix v assume "v < length succ'"
    then have "v \<in> set order" using r po by (simp add: ring_of_def)
    then obtain i where "i < length order" "order ! i = v" by (metis in_set_conv_nth)
    with r assms(2) show "succ' ! v = succ ! v" by (auto simp: ring_of_def)
  qed
qed

text \<open>
  On a permutation of the nodes, \<open>make_successors\<close> never raises and its links form one ring: from
  any node, following them visits every node exactly once and comes back after exactly all of them.
\<close>

theorem successors_form_one_ring:
  assumes "mset order = mset [0..<n]" "v < n"
  shows "\<exists>succ. make_successors order = Inr succ \<and> length succ = n \<and> ((!) succ ^^ n) v = v \<and>
    (\<lambda>k. ((!) succ ^^ k) v) ` {0..<n} = {0..<n}"
  using make_ring_facts [OF assms] .

theorem successors_form_one_ring_witness:
  "\<exists>succ. make_successors [2, 0, 3, 1] = Inr succ \<and> ((!) succ ^^ 4) 1 = 1"
proof -
  have "mset [2, 0, 3, 1 :: nat] = mset [0..<4]" by (simp add: upt_rec numeral_eq_Suc)
  from successors_form_one_ring [OF this, of 1] show ?thesis by auto
qed


text \<open>
  C17: the emitted file is what the benchmark needs: for positive sizes with a stride that is a multiple
  of eight and divides the other two, the assembled arena has exactly \<open>byte_count\<close> bytes, and chasing
  the 64-bit pointers from \<open>pointer_chase_start\<close> visits every stride-sized element, each address
  8-byte aligned in the arena, and returns to the start after exactly as many loads as elements.
\<close>

theorem emitted_ring_chases:
  fixes base :: nat
  assumes "0 < byte_count" "8 \<le> stride" "stride mod 8 = 0" "byte_count mod stride = 0" "0 < locality"
    "locality mod stride = 0" "int base + byte_count \<le> 2 ^ 64"
  shows "\<exists>lines start. emit_lines bounded (rng_init seed) byte_count stride locality = Inr lines \<and>
    length (asm_bytes base lines) = nat byte_count \<and>
    label_offset ''pointer_chase_start'' lines = Some start \<and>
    (let next_p = chase base (asm_bytes base lines); nodes = nat (byte_count div stride) in
      (next_p ^^ nodes) (base + start) = base + start \<and>
      (\<lambda>k. ((next_p ^^ k) (base + start) - base) div nat stride) ` {0..<nodes} = {0..<nodes} \<and>
      (\<forall>k. 8 dvd (next_p ^^ k) (base + start) - base))"
proof -
  let ?n = "nat (byte_count div stride)" and ?st = "nat stride"
  obtain order succ offsets where e: "emit_lines bounded (rng_init seed) byte_count stride locality =
      Inr (header_lines ?st @ concat (map (node_lines ?st offsets) (enumerate 0 succ)) @ footer_lines)"
    and o: "mset order = mset [0..<?n]" "ring_of order succ" and off: "length offsets = length succ"
      "\<forall>x \<in> set offsets. 8 dvd x \<and> x + 8 \<le> ?st"
    using emit_lines_ok [OF assms(1-6), of "rng_init seed"] by blast
  note po = perm_order [OF o(1)]
  have st: "0 < stride" using assms(2) by simp
  then have n0: "0 < ?n"
    using assms(1,4) by (metis dvd_eq_mod_eq_0 pos_imp_zdiv_pos_iff zdvd_imp_le zero_less_nat_eq)
  have ln: "length succ = ?n" using o(2) po(1) by (simp add: ring_of_def)
  have "byte_count div stride * stride = byte_count" using assms(4) by (metis add.right_neutral div_mult_mod_eq)
  then have total: "?n * ?st = nat byte_count" using assms(1) st by (metis nat_mult_distrib pos_imp_zdiv_nonneg_iff less_imp_le)
  then have b: "base + length succ * ?st \<le> 256 ^ 8" using assms(1,7) ln by simp
  have rng: "\<forall>v \<in> set succ. v < length succ"
  proof
    fix v assume "v \<in> set succ"
    then obtain x where x: "x < ?n" "succ ! x = v" using ln by (metis in_set_conv_nth)
    then obtain i where i: "i < ?n" "order ! i = x" using po by (metis atLeastLessThan_iff in_set_conv_nth zero_le)
    have "v = order ! ((i + 1) mod ?n)" using o(2) i x po(1) by (auto simp: ring_of_def)
    moreover have "(i + 1) mod ?n < length order" using n0 po(1) by simp
    ultimately show "v < length succ" using po(3) nth_mem ln by (metis atLeastLessThan_iff)
  qed
  let ?a = "arena_of base ?st offsets succ"
  have o8: "\<forall>x \<in> set offsets. x + 8 \<le> ?st" using off(2) by blast
  have i0: "0 < length succ" using n0 ln by simp
  note ch = arena_chases [OF off(1) o8 rng i0 b, simplified]
  obtain succ' where ring: "make_successors order = Inr succ'" "((!) succ' ^^ ?n) 0 = 0"
    "(\<lambda>k. ((!) succ' ^^ k) 0) ` {0..<?n} = {0..<?n}"
    using make_ring_facts [OF o(1) n0] by blast
  have ss: "succ' = succ" using ring_unique [OF o ring(1)] .
  have off_k: "offsets ! v + 8 \<le> ?st" "8 dvd offsets ! v" if "v < length succ" for v using off that by auto
  have el: "((chase base ?a ^^ k) (base + offsets ! 0) - base) div ?st = ((!) succ ^^ k) 0" for k
    using ch [of k] off_k(1) [of "((!) succ ^^ k) 0"] by simp
  have "8 dvd (chase base ?a ^^ k) (base + offsets ! 0) - base" for k
  proof -
    have "8 dvd stride" using assms(3) by (simp add: dvd_eq_mod_eq_0)
    then have "8 dvd ?st" using st by (metis int_dvd_int_iff int_nat_eq less_imp_le of_nat_numeral)
    then show ?thesis using ch [of k] off_k(2) [of "((!) succ ^^ k) 0"] by simp
  qed
  moreover have "length ?a = nat byte_count" using arena_chase(1) [OF off(1) o8 rng i0 b] ln total by simp
  moreover have "(chase base ?a ^^ ?n) (base + offsets ! 0) = base + offsets ! 0"
    using ch [of ?n] ring(2) ss by simp
  moreover have "(\<lambda>k. ((chase base ?a ^^ k) (base + offsets ! 0) - base) div ?st) ` {0..<?n} = {0..<?n}"
    using el ring(3) ss by simp
  moreover have "succ \<noteq> []" using i0 by auto
  ultimately show ?thesis
    unfolding Let_def using e start_label [of succ ?st offsets]
    by (intro exI conjI) (assumption | simp only: arena_of_lines simp_thms)+
qed

theorem emitted_ring_chases_witness:
  "\<exists>lines start. emit_lines bounded (rng_init 1) 64 16 32 = Inr lines \<and>
    length (asm_bytes 0x1000 lines) = 64 \<and> label_offset ''pointer_chase_start'' lines = Some start \<and>
    (chase 0x1000 (asm_bytes 0x1000 lines) ^^ 4) (0x1000 + start) = 0x1000 + start"
proof -
  have n: "nat (64 div 16) = 4" by simp
  show ?thesis
    using emitted_ring_chases [of 64 16 32 "0x1000" 1, unfolded Let_def n] by auto
qed

text \<open>
  \<open>emit\<close> refuses exactly the parameters outside that domain, each with its own message, for every
  seed; it raises nothing else.
\<close>

theorem emit_errors:
  "emit byte_count stride locality seed = Inl e \<longleftrightarrow>
    (e = NotPositive \<and> (byte_count \<le> 0 \<or> stride \<le> 0 \<or> locality \<le> 0)) \<or>
    (e = BadStride \<and> 0 < byte_count \<and> 0 < stride \<and> 0 < locality \<and> (stride < 8 \<or> stride mod 8 \<noteq> 0)) \<or>
    (e = BytesNotMultiple \<and> 0 < byte_count \<and> 8 \<le> stride \<and> 0 < locality \<and> stride mod 8 = 0 \<and> byte_count mod stride \<noteq> 0) \<or>
    (e = LocalityNotMultiple \<and> 0 < byte_count \<and> 8 \<le> stride \<and> 0 < locality \<and> stride mod 8 = 0 \<and>
       byte_count mod stride = 0 \<and> locality mod stride \<noteq> 0)"
proof (cases "0 < byte_count \<and> 8 \<le> stride \<and> stride mod 8 = 0 \<and> byte_count mod stride = 0 \<and> 0 < locality \<and> locality mod stride = 0")
  case True
  have "\<exists>order succ offsets. emit_lines bounded (rng_init seed) byte_count stride locality =
      Inr (header_lines (nat stride) @ concat (map (node_lines (nat stride) offsets) (enumerate 0 succ)) @ footer_lines) \<and>
    mset order = mset [0..<nat (byte_count div stride)] \<and> ring_of order succ \<and>
    length offsets = length succ \<and> (\<forall>x \<in> set offsets. 8 dvd x \<and> x + 8 \<le> nat stride)"
    by (rule emit_lines_ok) (use True in simp_all)
  then obtain lines where "emit_lines bounded (rng_init seed) byte_count stride locality = Inr lines"
    by (elim exE conjE)
  with True show ?thesis by (simp add: emit_def)
next
  case False
  then show ?thesis by (auto simp: emit_def emit_lines_def)
qed


theorem emit_errors_witness: "emit 64 12 24 1 = Inl BadStride"
  by (simp add: emit_errors)

end
