(* ===== verification/ArchTrace.thy ===== *)
theory ArchTrace
  imports PyBase
begin

unbundle bit_operations_syntax

text \<open>
  \<open>tools/check_arch_trace.py\<close>: the validator of architectural retirement traces, and
  \<open>tools/branch_oracle_from_trace.py\<close>, which turns a retirement trace into the branch oracle. A trace is
  the list of its CSV lines; a path is the list of its components, and the file system the discovery walks
  is an argument.
\<close>

section \<open>The validator\<close>

definition FIELDS :: "string list" where
  "FIELDS = [''order'', ''cycle'', ''lane'', ''arch'', ''pc'', ''instr'', ''next_pc'', ''rd_write'', ''rd'',
     ''wdata'', ''exception'', ''cause'', ''mode'']"

datatype arch_error =
    HeaderMismatch
  | NoRows
  | BadColumns nat
  | NotInteger nat string
  | Negative nat string
  | WrongOrder nat int nat
  | CycleRegressed nat int int
  | WrongLane nat int int
  | LaneRange nat int
  | NotBits nat
  | NonArchWrite nat
  | RdRange nat int
  | CauseRange nat int
  | BadMode nat int
  | HexDigits nat string
  | Misaligned nat string
  | FileNotFound "string list"

definition parse_uint :: "string option \<Rightarrow> string \<Rightarrow> nat \<Rightarrow> nat \<Rightarrow> arch_error + int" where
  "parse_uint value name line base =
     (case value of
        None \<Rightarrow> Inl (NotInteger line name)
      | Some s \<Rightarrow>
          (case py_int base s of
             None \<Rightarrow> Inl (NotInteger line name)
           | Some parsed \<Rightarrow> if parsed < 0 then Inl (Negative line name) else Inr parsed))"

definition row_value :: "csv_row \<Rightarrow> string \<Rightarrow> string option" where
  "row_value row name = (case cell_of row name of None \<Rightarrow> None | Some v \<Rightarrow> v)"

definition is_hex_char :: "char \<Rightarrow> bool" where
  "is_hex_char c \<longleftrightarrow> c \<in> set ''0123456789abcdefABCDEF''"

definition hex_fields :: "(string \<times> nat) list" where
  "hex_fields = [(''pc'', 16), (''instr'', 8), (''next_pc'', 16), (''wdata'', 16)]"

definition check_hex :: "csv_row \<Rightarrow> nat \<Rightarrow> string \<times> nat \<Rightarrow> unit \<Rightarrow> arch_error + unit" where
  "check_hex row line nd _ =
     (case nd of (name, digits) \<Rightarrow>
        (case row_value row name of
           None \<Rightarrow> Inl (HexDigits line name)
         | Some v \<Rightarrow> if length v = digits \<and> list_all is_hex_char v then Inr () else Inl (HexDigits line name)))"

definition check_aligned :: "csv_row \<Rightarrow> nat \<Rightarrow> string \<Rightarrow> arch_error + unit" where
  "check_aligned row line name =
     (case row_value row name of
        None \<Rightarrow> Inl (NotInteger line name)
      | Some s \<Rightarrow> bindE (of_option (NotInteger line name) (py_int 16 s)) (\<lambda>v.
          if v AND 3 \<noteq> 0 then Inl (Misaligned line name) else Inr ()))"

definition row_complete :: "csv_row \<Rightarrow> bool" where
  "row_complete row \<longleftrightarrow> \<not> row_extra row \<and> list_all (\<lambda>name. row_value row name \<noteq> None) FIELDS"

definition validate_row :: "nat \<times> csv_row \<Rightarrow> int \<times> int \<Rightarrow> arch_error + (int \<times> int)" where
  "validate_row er prev =
     (case er of (expected_order, row) \<Rightarrow> case prev of (previous_cycle, previous_lane) \<Rightarrow>
      let line = expected_order + 2; uint = (\<lambda>name. parse_uint (row_value row name) name line 10) in
      if \<not> row_complete row then Inl (BadColumns line)
      else
        bindE (uint ''order'') (\<lambda>order. bindE (uint ''cycle'') (\<lambda>cycle. bindE (uint ''lane'') (\<lambda>lane.
        bindE (uint ''arch'') (\<lambda>arch. bindE (uint ''rd_write'') (\<lambda>rd_write. bindE (uint ''rd'') (\<lambda>rd.
        bindE (uint ''exception'') (\<lambda>exception. bindE (uint ''cause'') (\<lambda>cause. bindE (uint ''mode'') (\<lambda>mode.
        guardE (order = int expected_order) (WrongOrder line order expected_order) (
        guardE (previous_cycle \<le> cycle) (CycleRegressed line previous_cycle cycle) (
        let expected_lane = (if cycle = previous_cycle then previous_lane + 1 else 0) in
        guardE (lane = expected_lane) (WrongLane line lane expected_lane) (
        guardE (lane \<le> 2) (LaneRange line lane) (
        guardE (arch \<in> {0, 1} \<and> rd_write \<in> {0, 1} \<and> exception \<in> {0, 1}) (NotBits line) (
        guardE (\<not> (arch = 0 \<and> rd_write \<noteq> 0)) (NonArchWrite line) (
        guardE (rd \<le> 31) (RdRange line rd) (
        guardE (cause \<le> 31) (CauseRange line cause) (
        guardE (mode \<in> {0, 1, 3}) (BadMode line mode) (
        bindE (foldE (check_hex row line) hex_fields ()) (\<lambda>_.
        bindE (if arch \<noteq> 0 \<and> exception = 0
               then bindE (check_aligned row line ''pc'') (\<lambda>_. check_aligned row line ''next_pc'')
               else Inr ()) (\<lambda>_.
          Inr (cycle, lane))))))))))))))))))))))"

definition validate :: "string list list \<Rightarrow> arch_error + nat" where
  "validate lines =
     (case dict_reader lines of
        None \<Rightarrow> Inl HeaderMismatch
      | Some (fieldnames, rows) \<Rightarrow>
          if fieldnames \<noteq> FIELDS then Inl HeaderMismatch
          else if rows = [] then Inl NoRows
          else bindE (foldE validate_row (enumerate 0 rows) (- 1, - 1)) (\<lambda>_. Inr (length rows)))"

type_synonym fpath = "string list"

definition discover_path ::
  "(fpath \<Rightarrow> bool) \<Rightarrow> (fpath \<Rightarrow> bool) \<Rightarrow> (fpath \<Rightarrow> fpath list) \<Rightarrow> fpath \<Rightarrow> fpath list \<Rightarrow> arch_error + fpath list" where
  "discover_path is_file is_dir rglob path found =
     (if is_file path then Inr (found @ [path])
      else if is_dir path then Inr (found @ rglob path)
      else Inl (FileNotFound path))"

definition discover ::
  "(fpath \<Rightarrow> bool) \<Rightarrow> (fpath \<Rightarrow> bool) \<Rightarrow> (fpath \<Rightarrow> fpath list) \<Rightarrow> (fpath \<Rightarrow> fpath) \<Rightarrow> fpath list \<Rightarrow>
   arch_error + fpath list" where
  "discover is_file is_dir rglob resolve paths =
     bindE (foldE (discover_path is_file is_dir rglob) paths []) (\<lambda>found.
       Inr (sorted_distinct (map resolve found)))"

section \<open>The branch oracle\<close>

datatype oracle_error =
    MissingColumns "string list"
  | BadField string
  | FinalControl int
  | WrongCount nat nat

definition CONTROL_OPCODES :: "int list" where
  "CONTROL_OPCODES = [0x63, 0x6F, 0x67]"

definition oracle_required :: "string list" where
  "oracle_required =
     ''retire_valid'' # concat (map (\<lambda>lane. map (lane_col ''r'' lane) [''pc'', ''instr'']) lanes3)"

definition retire_lane :: "csv_row \<Rightarrow> int \<Rightarrow> nat \<Rightarrow> (int \<times> int) list \<Rightarrow> oracle_error + (int \<times> int) list" where
  "retire_lane row retire_valid lane retired =
     (if flag_bit retire_valid lane
      then bindE (int_cell BadField 16 row (lane_col ''r'' lane ''pc'')) (\<lambda>pc.
           bindE (int_cell BadField 16 row (lane_col ''r'' lane ''instr'')) (\<lambda>instr.
             Inr (retired @ [(pc, instr)])))
      else Inr retired)"

definition retire_row :: "csv_row \<Rightarrow> (int \<times> int) list \<Rightarrow> oracle_error + (int \<times> int) list" where
  "retire_row row retired =
     bindE (int_cell BadField 16 row ''retire_valid'') (\<lambda>retire_valid.
       foldE (retire_lane row retire_valid) lanes3 retired)"

definition is_control :: "int \<Rightarrow> bool" where
  "is_control instr \<longleftrightarrow> instr AND 0x7F \<in> set CONTROL_OPCODES"

fun oracle_records :: "(int \<times> int) list \<Rightarrow> oracle_error + int list" where
  "oracle_records [] = Inr []"
| "oracle_records ((pc, instr) # rest) =
     (if \<not> is_control instr then oracle_records rest
      else case rest of
             [] \<Rightarrow> Inl (FinalControl pc)
           | (actual_target, _) # _ \<Rightarrow>
               bindE (oracle_records rest) (\<lambda>records.
                 Inr ((push_bit 64 (of_bool (actual_target \<noteq> pc + 4)) OR actual_target) # records)))"

definition branch_oracle :: "string list list \<Rightarrow> nat option \<Rightarrow> oracle_error + (string list \<times> nat)" where
  "branch_oracle lines expect_count =
     (let (names, rows) = (case dict_reader lines of None \<Rightarrow> ([], []) | Some nr \<Rightarrow> nr);
          missing = sorted_distinct (filter (\<lambda>c. c \<notin> set names) oracle_required)
      in if missing \<noteq> [] then Inl (MissingColumns missing)
         else
           bindE (foldE retire_row rows []) (\<lambda>retired.
           bindE (oracle_records retired) (\<lambda>records.
             case expect_count of
               Some n \<Rightarrow> if length records \<noteq> n then Inl (WrongCount (length records) n)
                         else Inr (map (hex0 17) records, length retired)
             | None \<Rightarrow> Inr (map (hex0 17) records, length retired))))"

end
