(* ===== verification/ArchProps.thy ===== *)
theory ArchProps
  imports ArchTrace
begin

text \<open>
  What the trace validator accepts, stated without the order of its checks, and what the branch oracle
  records: the two properties and their witnesses.
\<close>

unbundle bit_operations_syntax

section \<open>Well-formed traces\<close>

definition field_is :: "csv_row \<Rightarrow> string \<Rightarrow> int \<Rightarrow> bool" where
  "field_is row name v \<longleftrightarrow> 0 \<le> v \<and> (\<exists>s. row_value row name = Some s \<and> py_int 10 s = Some v)"

definition hex_ok :: "csv_row \<Rightarrow> string \<Rightarrow> nat \<Rightarrow> bool" where
  "hex_ok row name digits \<longleftrightarrow> (\<exists>s. row_value row name = Some s \<and> length s = digits \<and> list_all is_hex_char s)"

definition aligned4 :: "csv_row \<Rightarrow> string \<Rightarrow> bool" where
  "aligned4 row name \<longleftrightarrow> (\<exists>s v. row_value row name = Some s \<and> py_int 16 s = Some v \<and> v mod 4 = 0)"

record arch_step =
  a_cycle :: int
  a_lane :: int

definition row_matches :: "nat \<Rightarrow> csv_row \<Rightarrow> arch_step \<Rightarrow> bool" where
  "row_matches i row st \<longleftrightarrow> row_complete row \<and>
     field_is row ''order'' (int i) \<and> field_is row ''cycle'' (a_cycle st) \<and> field_is row ''lane'' (a_lane st) \<and>
     a_lane st \<le> 2 \<and>
     (\<exists>arch rd_write rd exception cause mode.
        field_is row ''arch'' arch \<and> field_is row ''rd_write'' rd_write \<and> field_is row ''rd'' rd \<and>
        field_is row ''exception'' exception \<and> field_is row ''cause'' cause \<and> field_is row ''mode'' mode \<and>
        arch \<in> {0, 1} \<and> rd_write \<in> {0, 1} \<and> exception \<in> {0, 1} \<and> (arch = 0 \<longrightarrow> rd_write = 0) \<and> rd \<le> 31 \<and> cause \<le> 31 \<and>
        mode \<in> {0, 1, 3} \<and> (arch \<noteq> 0 \<and> exception = 0 \<longrightarrow> aligned4 row ''pc'' \<and> aligned4 row ''next_pc'')) \<and>
     hex_ok row ''pc'' 16 \<and> hex_ok row ''instr'' 8 \<and> hex_ok row ''next_pc'' 16 \<and> hex_ok row ''wdata'' 16"

text \<open>The order of retirement: lanes count up within a cycle, a later cycle starts at lane 0.\<close>

definition follows :: "arch_step \<Rightarrow> arch_step \<Rightarrow> bool" where
  "follows p q \<longleftrightarrow> (a_cycle q = a_cycle p \<and> a_lane q = a_lane p + 1) \<or> (a_cycle p < a_cycle q \<and> a_lane q = 0)"

lemma parse_uint_Inr: "parse_uint (row_value row name) name line 10 = Inr v \<longleftrightarrow> field_is row name v"
  by (auto simp: parse_uint_def field_is_def split: option.splits)

lemma field_is_unique: "field_is row name v \<Longrightarrow> field_is row name w \<Longrightarrow> v = w"
  by (auto simp: field_is_def)

lemma check_hex_Inr: "check_hex row line (name, n) u = Inr w \<longleftrightarrow> hex_ok row name n"
  by (auto simp: check_hex_def hex_ok_def split: option.splits)

lemma and3: "(v :: int) AND 3 = v mod 4"
  using take_bit_eq_mask [of 2 v] by (simp add: take_bit_eq_mod mask_eq_exp_minus_1)

lemma check_aligned_Inr: "check_aligned row line name = Inr w \<longleftrightarrow> aligned4 row name"
  by (cases "row_value row name"; cases "py_int 16 (the (row_value row name))")
    (auto simp: check_aligned_def aligned4_def and3)

lemma if_Inl: "(if b then Inl e else x) = Inr r \<longleftrightarrow> \<not> b \<and> x = Inr r"
  by simp

lemma if_check: "(if b then x else Inr ()) = Inr (u :: unit) \<longleftrightarrow> (b \<longrightarrow> x = Inr ())"
  by simp

lemma field_is_nonneg: "field_is row name v \<Longrightarrow> 0 \<le> v"
  by (simp add: field_is_def)

lemma validate_row_Inr:
  "validate_row (i, row) (c, l) = Inr (c', l') \<longleftrightarrow>
    row_matches i row \<lparr>a_cycle = c', a_lane = l'\<rparr> \<and> c \<le> c' \<and> l' = (if c' = c then l + 1 else 0)"
  (is "?L \<longleftrightarrow> ?R")
proof -
  note simps = if_Inl if_check bindE_eq_Inr guardE_eq_Inr parse_uint_Inr check_hex_Inr check_aligned_Inr hex_fields_def
  show ?thesis
  proof
    assume ?L
    then show ?R
      unfolding validate_row_def row_matches_def Let_def prod.case
      by (simp add: simps split del: if_split) blast
  next
    assume ?R
    then show ?L
      unfolding validate_row_def row_matches_def Let_def prod.case
      by (simp add: simps split del: if_split) blast
  qed
qed


lemma follows_iff:
  "follows \<lparr>a_cycle = c, a_lane = l\<rparr> \<lparr>a_cycle = c', a_lane = l'\<rparr> \<longleftrightarrow> c \<le> c' \<and> l' = (if c' = c then l + 1 else 0)"
  by (auto simp: follows_def)

lemma validate_rows_Inr:
  "(\<exists>s. foldE validate_row (enumerate k rows) (a_cycle p, a_lane p) = Inr s) \<longleftrightarrow>
    (\<exists>sts. list_all2 (\<lambda>ir st. row_matches (fst ir) (snd ir) st) (enumerate k rows) sts \<and> successively follows (p # sts))"
proof (induction rows arbitrary: k p)
  case (Cons row rows)
  obtain c l where p: "p = \<lparr>a_cycle = c, a_lane = l\<rparr>" by (cases p)
  let ?Q = "\<lambda>q sts. list_all2 (\<lambda>ir st. row_matches (fst ir) (snd ir) st) (enumerate (Suc k) rows) sts \<and> successively follows (q # sts)"
  have "(\<exists>s. foldE validate_row (enumerate k (row # rows)) (a_cycle p, a_lane p) = Inr s) \<longleftrightarrow>
      (\<exists>q :: arch_step. validate_row (k, row) (c, l) = Inr (a_cycle q, a_lane q) \<and>
         (\<exists>s. foldE validate_row (enumerate (Suc k) rows) (a_cycle q, a_lane q) = Inr s))"
    (is "?A \<longleftrightarrow> ?B")
  proof
    assume ?A
    then obtain c' l' s where s: "validate_row (k, row) (c, l) = Inr (c', l')"
      "foldE validate_row (enumerate (Suc k) rows) (c', l') = Inr s" by (auto simp: p)
    show ?B by (rule exI [of _ "\<lparr>a_cycle = c', a_lane = l'\<rparr>"]) (use s in simp)
  qed (auto simp: p)
  also have "\<dots> \<longleftrightarrow> (\<exists>q :: arch_step. row_matches k row q \<and> follows p q \<and> (\<exists>sts. ?Q q sts))"
  proof -
    have "validate_row (k, row) (c, l) = Inr (a_cycle q, a_lane q) \<longleftrightarrow> row_matches k row q \<and> follows p q" for q
      unfolding validate_row_Inr p by (cases q) (simp add: follows_iff)
    then show ?thesis unfolding Cons.IH by blast
  qed
  also have "\<dots> \<longleftrightarrow> (\<exists>sts. list_all2 (\<lambda>ir st. row_matches (fst ir) (snd ir) st) (enumerate k (row # rows)) sts \<and>
      successively follows (p # sts))"
  proof
    assume "\<exists>q :: arch_step. row_matches k row q \<and> follows p q \<and> (\<exists>sts. ?Q q sts)"
    then obtain q sts where "row_matches k row q" "follows p q" "?Q q sts" by blast
    then show "\<exists>sts. list_all2 (\<lambda>ir st. row_matches (fst ir) (snd ir) st) (enumerate k (row # rows)) sts \<and>
      successively follows (p # sts)" by (intro exI [of _ "q # sts"]) simp
  next
    assume "\<exists>sts. list_all2 (\<lambda>ir st. row_matches (fst ir) (snd ir) st) (enumerate k (row # rows)) sts \<and>
      successively follows (p # sts)"
    then obtain q sts where "row_matches k row q" "?Q q sts" "follows p q"
      by (auto simp: list_all2_Cons1)
    then show "\<exists>q :: arch_step. row_matches k row q \<and> follows p q \<and> (\<exists>sts. ?Q q sts)" by blast
  qed
  finally show ?case .
qed simp

lemma list_all2_enumerate:
  "list_all2 (\<lambda>ir st. P (fst ir) (snd ir) st) (enumerate 0 rows) sts \<longleftrightarrow>
    length sts = length rows \<and> (\<forall>i < length rows. P i (rows ! i) (sts ! i))"
  by (auto simp: list_all2_conv_all_nth nth_enumerate_eq)

lemma validate_Inr:
  "validate lines = Inr n \<longleftrightarrow>
    (\<exists>rows sts. dict_reader lines = Some (FIELDS, rows) \<and> rows \<noteq> [] \<and> n = length rows \<and> length sts = n \<and>
       (\<forall>i < n. row_matches i (rows ! i) (sts ! i)) \<and> a_lane (hd sts) = 0 \<and> successively follows sts)"
proof -
  have start: "successively follows (\<lparr>a_cycle = - 1, a_lane = - 1\<rparr> # sts) \<longleftrightarrow> a_lane (hd sts) = 0 \<and> successively follows sts"
    if "sts \<noteq> []" "0 \<le> a_cycle (hd sts)" for sts
    using that by (cases sts) (auto simp: follows_def)
  have pos: "0 \<le> a_cycle (hd sts)" if "rows \<noteq> []" "length sts = length rows" "\<forall>i < length rows. row_matches i (rows ! i) (sts ! i)"
    for rows :: "csv_row list" and sts
  proof -
    have "row_matches 0 (rows ! 0) (sts ! 0)" using that by simp
    moreover have "hd sts = sts ! 0" using that by (cases sts) auto
    ultimately show ?thesis by (auto simp: row_matches_def field_is_def)
  qed
  have "(\<exists>s. foldE validate_row (enumerate 0 rows) (- 1, - 1) = Inr s) \<longleftrightarrow>
      (\<exists>sts. length sts = length rows \<and> (\<forall>i < length rows. row_matches i (rows ! i) (sts ! i)) \<and>
         a_lane (hd sts) = 0 \<and> successively follows sts)" if "rows \<noteq> []" for rows
    using validate_rows_Inr [of 0 rows "\<lparr>a_cycle = - 1, a_lane = - 1\<rparr>"] that start pos
    unfolding list_all2_enumerate by (simp, metis length_0_conv)
  then show ?thesis
    by (auto simp: validate_def bindE_eq_Inr split: option.splits prod.splits if_splits)
qed

lemma row_matches_fields:
  "row_matches i row st \<Longrightarrow> field_is row ''cycle'' (a_cycle st) \<and> field_is row ''lane'' (a_lane st)"
  by (simp add: row_matches_def)

lemma follows_lex: "follows p q \<Longrightarrow> a_cycle p < a_cycle q \<or> a_cycle p = a_cycle q \<and> a_lane p < a_lane q"
  by (auto simp: follows_def)

lemma follows_sorted:
  "successively follows sts \<Longrightarrow> sorted_wrt (\<lambda>p q. a_cycle p < a_cycle q \<or> a_cycle p = a_cycle q \<and> a_lane p < a_lane q) sts"
proof (induction sts)
  case (Cons p sts)
  show ?case
  proof (cases sts)
    case (Cons q rest)
    with Cons.IH Cons.prems have "follows p q" and s: "sorted_wrt (\<lambda>p q. a_cycle p < a_cycle q \<or> a_cycle p = a_cycle q \<and> a_lane p < a_lane q) sts"
      by auto
    from follows_lex [OF this(1)] s show ?thesis unfolding Cons by auto
  qed simp
qed simp

text \<open>
  C18: the validator accepts exactly the well-formed traces: the declared header and at least one row;
  every row complete, with its index as order, lane at most 2, the flag, register, cause and privilege
  fields in range, the four hex fields of their exact width and aligned PCs on architectural rows; and
  the rows in retirement order, lanes counting up from 0 within each cycle and cycles never going back.
\<close>

theorem validate_accepts_exactly:
  "validate lines = Inr n \<longleftrightarrow>
    (\<exists>rows sts. dict_reader lines = Some (FIELDS, rows) \<and> rows \<noteq> [] \<and> n = length rows \<and> length sts = n \<and>
       (\<forall>i < n. row_matches i (rows ! i) (sts ! i)) \<and> a_lane (hd sts) = 0 \<and> successively follows sts)"
  by (rule validate_Inr)

definition demo_arch_row :: "string list" where
  "demo_arch_row = [''0'', ''7'', ''0'', ''1'', ''0000000000000040'', ''00000013'', ''0000000000000044'',
     ''1'', ''5'', ''00000000000000ff'', ''0'', ''0'', ''3'']"

theorem validate_accepts_exactly_witness:
  "\<exists>rows sts. dict_reader [FIELDS, demo_arch_row] = Some (FIELDS, rows) \<and> length sts = 1 \<and> row_matches 0 (rows ! 0) (sts ! 0)"
proof -
  have "validate [FIELDS, demo_arch_row] = Inr 1" by code_simp
  then show ?thesis using validate_accepts_exactly [of "[FIELDS, demo_arch_row]" 1] by auto
qed

text \<open>
  In an accepted trace the retirements are strictly ordered by cycle and lane, and no cycle retires
  more than three instructions.
\<close>

theorem validated_trace_is_ordered:
  assumes "validate lines = Inr n"
  shows "\<exists>rows (sts :: arch_step list). dict_reader lines = Some (FIELDS, rows) \<and> length rows = n \<and> length sts = n \<and>
    (\<forall>i < n. field_is (rows ! i) ''cycle'' (a_cycle (sts ! i)) \<and> field_is (rows ! i) ''lane'' (a_lane (sts ! i))) \<and>
    (\<forall>i j. i < j \<and> j < n \<longrightarrow> a_cycle (sts ! i) < a_cycle (sts ! j) \<or>
       a_cycle (sts ! i) = a_cycle (sts ! j) \<and> a_lane (sts ! i) < a_lane (sts ! j)) \<and>
    (\<forall>c. card {i. i < n \<and> a_cycle (sts ! i) = c} \<le> 3)"
proof -
  from assms obtain rows sts where r: "dict_reader lines = Some (FIELDS, rows)" "n = length rows" "length sts = n"
    "\<forall>i < n. row_matches i (rows ! i) (sts ! i)" "successively follows sts"
    unfolding validate_Inr by blast
  have s: "a_cycle (sts ! i) < a_cycle (sts ! j) \<or> a_cycle (sts ! i) = a_cycle (sts ! j) \<and> a_lane (sts ! i) < a_lane (sts ! j)"
    if "i < j" "j < n" for i j
    using sorted_wrt_nth_less [OF follows_sorted [OF r(5)] that(1)] that r(3) by simp
  have card3: "card {i. i < n \<and> a_cycle (sts ! i) = c} \<le> 3" for c
  proof -
    let ?S = "{i. i < n \<and> a_cycle (sts ! i) = c}"
    have "inj_on (\<lambda>i. a_lane (sts ! i)) ?S"
    proof (rule inj_onI)
      fix i j assume ij: "i \<in> ?S" "j \<in> ?S" "a_lane (sts ! i) = a_lane (sts ! j)"
      show "i = j" using ij s [of i j] s [of j i] by (cases i j rule: linorder_cases) auto
    qed
    moreover have "(\<lambda>i. a_lane (sts ! i)) ` ?S \<subseteq> {0..2}"
      using r(4) by (fastforce simp: row_matches_def field_is_def)
    ultimately have "card ?S \<le> card {0..2 :: int}" by (metis card_inj_on_le finite_atLeastAtMost_int)
    then show ?thesis by simp
  qed
  have "\<forall>i < n. field_is (rows ! i) ''cycle'' (a_cycle (sts ! i)) \<and> field_is (rows ! i) ''lane'' (a_lane (sts ! i))"
    using r(4) row_matches_fields by blast
  moreover have "\<forall>i j. i < j \<and> j < n \<longrightarrow> a_cycle (sts ! i) < a_cycle (sts ! j) \<or>
      a_cycle (sts ! i) = a_cycle (sts ! j) \<and> a_lane (sts ! i) < a_lane (sts ! j)" using s by blast
  ultimately show ?thesis using r(1,3) r(2) [symmetric] card3
    by (intro exI [of _ rows] exI [of _ sts] conjI) (assumption | rule allI)+
qed

theorem validated_trace_is_ordered_witness:
  "\<exists>rows (sts :: arch_step list). dict_reader [FIELDS, demo_arch_row] = Some (FIELDS, rows) \<and> length rows = 1 \<and> length sts = 1 \<and>
    field_is (rows ! 0) ''cycle'' (a_cycle (sts ! 0))"
proof -
  have "validate [FIELDS, demo_arch_row] = Inr 1" by code_simp
  from validated_trace_is_ordered [OF this] show ?thesis by auto
qed


section \<open>The branch oracle\<close>

lemma oracle_record_parts:
  fixes t :: int
  assumes "0 \<le> t" "t < 2 ^ 64"
  shows "(push_bit 64 (of_bool b) OR t) div 2 ^ 64 = of_bool b" "(push_bit 64 (of_bool b) OR t) mod 2 ^ 64 = t"
proof -
  have t: "take_bit 64 t = t" using assms by (simp add: take_bit_int_eq_self)
  have "drop_bit 64 t = 0" using assms by (simp add: drop_bit_eq_div)
  then have "drop_bit 64 (push_bit 64 (of_bool b) OR t) = of_bool b"
    by (simp add: drop_bit_or drop_bit_push_bit)
  then show "(push_bit 64 (of_bool b) OR t) div 2 ^ 64 = of_bool b" by (simp add: drop_bit_eq_div)
  have "take_bit 64 (push_bit 64 (of_bool b) OR t) = t" using t by (simp add: take_bit_or take_bit_push_bit)
  then show "(push_bit 64 (of_bool b) OR t) mod 2 ^ 64 = t" by (simp add: take_bit_eq_mod)
qed

definition control_pairs :: "(int \<times> int) list \<Rightarrow> ((int \<times> int) \<times> (int \<times> int)) list" where
  "control_pairs retired = filter (\<lambda>(a, b). is_control (snd a)) (zip retired (tl retired))"

lemma oracle_records_cases:
  "oracle_records retired =
     (if retired \<noteq> [] \<and> is_control (snd (last retired)) then Inl (FinalControl (fst (last retired)))
      else Inr (map (\<lambda>((pc, _), (t, _)). push_bit 64 (of_bool (t \<noteq> pc + 4)) OR t) (control_pairs retired)))"
proof (induction retired rule: oracle_records.induct)
  case (2 pc instr rest)
  show ?case
  proof (cases rest)
    case Nil
    then show ?thesis by (simp add: control_pairs_def)
  next
    case (Cons n rest')
    obtain t i where n: "n = (t, i)" by (cases n)
    have pairs: "control_pairs ((pc, instr) # rest) =
        (if is_control instr then [((pc, instr), (t, i))] else []) @ control_pairs rest"
      by (simp add: control_pairs_def Cons n)
    have last: "last ((pc, instr) # rest) = last rest" "rest \<noteq> []" using Cons by simp_all
    show ?thesis
    proof (cases "is_control instr")
      case True
      have "oracle_records ((pc, instr) # rest) =
          bindE (oracle_records rest) (\<lambda>records. Inr ((push_bit 64 (of_bool (t \<noteq> pc + 4)) OR t) # records))"
        unfolding Cons n by (subst oracle_records.simps(2)) (simp only: True simp_thms if_False list.case prod.case)
      then show ?thesis unfolding pairs last 2(2) [unfolded not_not, OF True Cons n [symmetric]] using True last by simp
    next
      case False
      then have "oracle_records ((pc, instr) # rest) = oracle_records rest" by simp
      then show ?thesis unfolding pairs last 2(1) [OF False] using False last by simp
    qed
  qed
qed (simp add: control_pairs_def)

text \<open>
  C19: the oracle follows the retired path: it is refused exactly when the last retired instruction is a
  control (its target is unknown); otherwise it has one record per retired branch, JAL or JALR, in order,
  whose low 64 bits are the PC retired next and whose bit 64 says that this is not the fall-through.
\<close>

theorem oracle_follows_retirement:
  assumes "\<forall>x \<in> set retired. 0 \<le> fst x \<and> fst x < 2 ^ 64"
  shows "((\<exists>records. oracle_records retired = Inr records) \<longleftrightarrow> (retired = [] \<or> \<not> is_control (snd (last retired)))) \<and>
    (\<forall>records. oracle_records retired = Inr records \<longrightarrow>
      map (\<lambda>r. (r div 2 ^ 64, r mod 2 ^ 64)) records =
      map (\<lambda>(a, b). (of_bool (fst b \<noteq> fst a + 4), fst b)) (filter (\<lambda>(a, b). is_control (snd a)) (zip retired (tl retired))))"
proof (intro conjI allI impI)
  show "(\<exists>records. oracle_records retired = Inr records) \<longleftrightarrow> (retired = [] \<or> \<not> is_control (snd (last retired)))"
    by (auto simp: oracle_records_cases)
  fix records assume r: "oracle_records retired = Inr records"
  have rng: "0 \<le> fst b \<and> fst b < 2 ^ 64" if "(a, b) \<in> set (control_pairs retired)" for a b
  proof -
    have "b \<in> set (tl retired)" using that by (auto simp: control_pairs_def dest: set_zip_rightD)
    then have "b \<in> set retired" by (cases retired) auto
    with assms show ?thesis by blast
  qed
  show "map (\<lambda>r. (r div 2 ^ 64, r mod 2 ^ 64)) records =
      map (\<lambda>(a, b). (of_bool (fst b \<noteq> fst a + 4), fst b)) (filter (\<lambda>(a, b). is_control (snd a)) (zip retired (tl retired)))"
    unfolding control_pairs_def [symmetric]
    using r rng oracle_record_parts by (auto simp: oracle_records_cases split: if_splits)
qed

theorem oracle_follows_retirement_witness:
  "map (\<lambda>r. (r div 2 ^ 64, r mod 2 ^ 64)) (projr (oracle_records [(0, 0x63), (4, 0x63), (16, 0x13)])) = [(0, 4), (1, 16 :: int)]"
proof -
  have r: "oracle_records [(0, 0x63), (4, 0x63), (16, 0x13)] = Inr (projr (oracle_records [(0, 0x63), (4, 0x63), (16, 0x13)]))"
    by (simp add: is_control_def CONTROL_OPCODES_def)
  show ?thesis
    using oracle_follows_retirement [of "[(0, 0x63), (4, 0x63), (16, 0x13)]"] r by (simp add: is_control_def CONTROL_OPCODES_def)
qed

end
