(* ===== verification/PyFormat.thy ===== *)
theory PyFormat
  imports PyBase
begin

text \<open>
  Python numbers as report text. A finite float is the exact rational \<open>(n, d)\<close> it stands for; \<open>int / int\<close>
  and a product are rounded to 53 significant bits, ties to even (\<open>dbl\<close>), and the codes \<open>.Nf\<close> and \<open>.N%\<close>
  print the exact value rounded to \<open>N\<close> decimals, ties to even. Overflow, subnormals and infinities cannot
  arise from the counters the tools divide and are left out.
\<close>

section \<open>Floats\<close>

type_synonym py_float = "int \<times> int"

definition round_half_even :: "int \<Rightarrow> int \<Rightarrow> int" where
  "round_half_even n d =
     (let q = n div d; r = n mod d
      in if 2 * r < d then q else if d < 2 * r then q + 1 else if even q then q else q + 1)"

function bit_length :: "int \<Rightarrow> nat" where
  "bit_length n = (if n \<le> 0 then 0 else Suc (bit_length (n div 2)))"
  by pat_completeness auto
termination by (relation "measure nat") auto

declare bit_length.simps [simp del]

definition dbl :: "int \<Rightarrow> int \<Rightarrow> py_float" where
  "dbl n d =
     (if n = 0 then (0, 1)
      else
        let a = \<bar>n\<bar>;
            s0 = 52 - (int (bit_length a) - int (bit_length d));
            s = (if a * 2 ^ nat s0 < 2 ^ 52 * d * 2 ^ nat (- s0) then s0 + 1 else s0);
            m = round_half_even (a * 2 ^ nat s) (d * 2 ^ nat (- s))
        in (sgn n * m * 2 ^ nat (- s), 2 ^ nat s))"

definition float_div :: "int \<Rightarrow> int \<Rightarrow> py_float" where
  "float_div a b = dbl (sgn b * a) \<bar>b\<bar>"

definition float_mul :: "py_float \<Rightarrow> py_float \<Rightarrow> py_float" where
  "float_mul x y = dbl (fst x * fst y) (snd x * snd y)"

definition float_sub :: "py_float \<Rightarrow> py_float \<Rightarrow> py_float" where
  "float_sub x y = dbl (fst x * snd y - fst y * snd x) (snd x * snd y)"

definition float_add :: "py_float \<Rightarrow> py_float \<Rightarrow> py_float" where
  "float_add x y = dbl (fst x * snd y + fst y * snd x) (snd x * snd y)"

definition float_quot :: "py_float \<Rightarrow> py_float \<Rightarrow> py_float" where
  "float_quot x y = dbl (sgn (fst y) * fst x * snd y) (snd x * \<bar>fst y\<bar>)"

definition float_less :: "py_float \<Rightarrow> py_float \<Rightarrow> bool" where
  "float_less x y \<longleftrightarrow> fst x * snd y < fst y * snd x"

definition float_of :: "int \<Rightarrow> py_float" where
  "float_of n = dbl n 1"

section \<open>Format codes\<close>

definition zero_pad :: "nat \<Rightarrow> string \<Rightarrow> string" where
  "zero_pad w s = replicate (w - length s) CHR ''0'' @ s"

definition fixed :: "nat \<Rightarrow> py_float \<Rightarrow> string" where
  "fixed n x =
     (let r = round_half_even (\<bar>fst x\<bar> * 10 ^ n) (snd x);
          s = dec (r div 10 ^ n) @ (if n = 0 then [] else CHR ''.'' # zero_pad n (dec (r mod 10 ^ n)))
      in if fst x < 0 then CHR ''-'' # s else s)"

definition percent :: "nat \<Rightarrow> py_float \<Rightarrow> string" where
  "percent n x = fixed n (float_mul x (100, 1)) @ ''%''"

definition dec_w :: "nat \<Rightarrow> int \<Rightarrow> string" where
  "dec_w w i = rjust w (dec i)"

definition clip :: "nat \<Rightarrow> string \<Rightarrow> string" where
  "clip w s = ljust w (take w s)"

fun str_join :: "string \<Rightarrow> string list \<Rightarrow> string" where
  "str_join sep [] = []"
| "str_join sep [x] = x"
| "str_join sep (x # y # zs) = x @ sep @ str_join sep (y # zs)"

definition count_if :: "('a \<Rightarrow> bool) \<Rightarrow> 'a list \<Rightarrow> int" where
  "count_if P xs = int (length (filter P xs))"

definition ends_with :: "string \<Rightarrow> string \<Rightarrow> bool" where
  "ends_with suf s \<longleftrightarrow> length suf \<le> length s \<and> drop (length s - length suf) s = suf"

definition starts_with :: "string \<Rightarrow> string \<Rightarrow> bool" where
  "starts_with pre s \<longleftrightarrow> take (length pre) s = pre"

definition upper_char :: "char \<Rightarrow> char" where
  "upper_char c = (let n = of_char c :: nat in if 97 \<le> n \<and> n \<le> 122 then char_of (n - 32) else c)"

definition upper :: "string \<Rightarrow> string" where
  "upper s = map upper_char s"

definition lower_char :: "char \<Rightarrow> char" where
  "lower_char c = (let n = of_char c :: nat in if 65 \<le> n \<and> n \<le> 90 then char_of (n + 32) else c)"

definition lower :: "string \<Rightarrow> string" where
  "lower s = map lower_char s"

text \<open>The comma of a format code: \<open>:,\<close> and \<open>:,.Nf\<close> group the digits before the point by three.\<close>

fun by_three :: "string \<Rightarrow> string" where
  "by_three (a # b # c # d # s) = a # b # c # CHR '','' # by_three (d # s)"
| "by_three s = s"

definition thousands :: "string \<Rightarrow> string" where
  "thousands s = rev (by_three (rev s))"

definition dec_sep :: "int \<Rightarrow> string" where
  "dec_sep i = (if i < 0 then CHR ''-'' # thousands (dec (- i)) else thousands (dec i))"

definition fixed_sep :: "nat \<Rightarrow> py_float \<Rightarrow> string" where
  "fixed_sep n x =
     (let s = fixed n (\<bar>fst x\<bar>, snd x);
          t = thousands (takeWhile (\<lambda>c. c \<noteq> CHR ''.'') s) @ dropWhile (\<lambda>c. c \<noteq> CHR ''.'') s
      in if fst x < 0 then CHR ''-'' # t else t)"

section \<open>Laws\<close>

lemma round_half_even_near:
  assumes "0 < d"
  shows "2 * \<bar>round_half_even n d * d - n\<bar> \<le> d"
proof -
  define q r where "q = n div d" and "r = n mod d"
  have r: "0 \<le> r" "r < d" using assms by (simp_all add: r_def)
  have "q * d + r = n" by (simp add: q_def r_def)
  then have e: "q * d = n - r" "(q + 1) * d = n - r + d" by (simp_all add: algebra_simps)
  have "round_half_even n d = q \<and> 2 * r \<le> d \<or> round_half_even n d = q + 1 \<and> d \<le> 2 * r"
    by (auto simp: round_half_even_def Let_def q_def r_def)
  then show ?thesis
  proof (elim disjE conjE)
    assume "round_half_even n d = q" "2 * r \<le> d"
    then show ?thesis using e r by simp
  next
    assume h: "round_half_even n d = q + 1" "d \<le> 2 * r"
    have "\<bar>(q + 1) * d - n\<bar> = d - r" unfolding e(2) using r by simp
    then show ?thesis using h by simp
  qed
qed

lemma bit_length_bounds: "0 < n \<Longrightarrow> 2 ^ (bit_length n - 1) \<le> n \<and> n < 2 ^ bit_length n"
proof (induction n rule: bit_length.induct)
  case (1 n)
  show ?case
  proof (cases "n = 1")
    case True
    then show ?thesis by (simp add: bit_length.simps)
  next
    case False
    with 1(2) have h: "0 < n div 2" by auto
    with 1 have ih: "2 ^ (bit_length (n div 2) - 1) \<le> n div 2 \<and> n div 2 < 2 ^ bit_length (n div 2)" by simp
    have "0 < bit_length (n div 2)" using h by (subst bit_length.simps) simp
    then obtain k where k: "bit_length (n div 2) = Suc k" by (cases "bit_length (n div 2)") auto
    have "bit_length n = Suc (bit_length (n div 2))" using 1(2) by (subst bit_length.simps) simp
    with ih k show ?thesis by auto
  qed
qed

end
