(* ===== verification/CycleTrace.thy ===== *)
theory CycleTrace
  imports PyFormat "HOL-Library.AList"
begin

unbundle bit_operations_syntax

text \<open>
  \<open>tools/pipeline_trace.py\<close>: the report over an openrv64-cycle-v1 trace. Reading the CSV rows, gathering
  the instructions they show, and the four sections of the report as lists of lines. The dictionary of
  instructions is an association list in insertion order (the retire log sorts it stably).
\<close>

section \<open>Rows\<close>

definition SCHEMA :: string where "SCHEMA = ''openrv64-cycle-v1''"
definition STAGES :: "string list" where "STAGES = [''IF'', ''ID'', ''EX'', ''MEM'', ''WB'']"
definition EVENTS :: "string list" where
  "EVENTS = [''redirect'', ''trap'', ''irq'', ''mret'', ''sret'', ''restart'', ''halt'', ''reset'']"
definition STALL_CAUSES :: "string list" where
  "STALL_CAUSES = [''raw'', ''waw'', ''scoreboard'', ''if-memory'', ''data-memory'', ''execute'', ''frontend-held'',
     ''serializing'']"

datatype trace_error =
    NoHeader
  | MissingColumns "string list"
  | UnsupportedSchema nat
  | InvalidValue nat string
  | NoneValue string
  | NoCycleRows
  | UidZero int string
  | PcChanged int int int int
  | InstrChanged int int int int
  | RetireWithoutWb int
  | EmptySelection

record stage_value =
  sv_valid :: bool
  sv_uid :: int
  sv_pc :: int
  sv_instr :: int

record cycle_row =
  r_cycle :: int
  r_valid :: int
  r_stall :: int
  r_flush :: int
  r_advance :: int
  r_events :: int
  r_stall_causes :: int
  r_stages :: "stage_value list"
  r_retire_valid :: bool
  r_retire_arch :: bool
  r_retire_exception :: bool
  r_retire_cause :: int
  r_retire_next_pc :: int
  r_retire_rd_write :: bool
  r_retire_rd :: int
  r_retire_wdata :: int

record instruction =
  i_uid :: int
  i_pc :: "int option"
  i_instr :: "int option"
  i_stage_cycles :: "string \<Rightarrow> int list"
  i_stall_cycles :: int
  i_retire_cycle :: "int option"
  i_retire_arch :: bool
  i_exception :: bool
  i_cause :: int
  i_next_pc :: int
  i_rd_write :: bool
  i_rd :: int
  i_wdata :: int

definition new_instruction :: "int \<Rightarrow> instruction" where
  "new_instruction uid =
     \<lparr>i_uid = uid, i_pc = None, i_instr = None, i_stage_cycles = (\<lambda>_. []), i_stall_cycles = 0, i_retire_cycle = None,
      i_retire_arch = False, i_exception = False, i_cause = 0, i_next_pc = 0, i_rd_write = False, i_rd = 0, i_wdata = 0\<rparr>"

definition parse_int :: "string option \<Rightarrow> nat \<Rightarrow> string \<Rightarrow> nat \<Rightarrow> trace_error + int" where
  "parse_int value base field_name line_number =
     (case value of
        None \<Rightarrow> Inl (NoneValue field_name)
      | Some s \<Rightarrow> of_option (InvalidValue line_number field_name) (py_int base s))"

definition stage_prefixes :: "string list" where
  "stage_prefixes = [''if'', ''id'', ''ex'', ''mem'', ''wb'']"

definition required_columns :: "string list" where
  "required_columns =
     [''schema'', ''cycle'', ''valid'', ''stall'', ''flush'', ''advance'', ''events'', ''stall_causes'', ''retire_valid'',
      ''retire_arch'', ''retire_exception'', ''retire_cause'', ''retire_next_pc'', ''retire_rd_write'', ''retire_rd'',
      ''retire_wdata''] @
     concat (map (\<lambda>stage. [stage @ ''_uid'', stage @ ''_pc'', stage @ ''_instr'']) stage_prefixes)"

definition raw_cell :: "csv_row \<Rightarrow> string \<Rightarrow> string option" where
  "raw_cell raw name = (case cell_of raw name of None \<Rightarrow> None | Some v \<Rightarrow> v)"

definition load_stage :: "csv_row \<Rightarrow> nat \<Rightarrow> int \<Rightarrow> nat \<times> string \<Rightarrow> trace_error + stage_value" where
  "load_stage raw line_number valid iname =
     (case iname of (index, name) \<Rightarrow>
        let field = (\<lambda>suf. parse_int (raw_cell raw (name @ suf)) 16 (name @ suf) line_number) in
        bindE (field ''_uid'') (\<lambda>uid. bindE (field ''_pc'') (\<lambda>pc. bindE (field ''_instr'') (\<lambda>instr.
          Inr \<lparr>sv_valid = flag_bit valid index, sv_uid = uid, sv_pc = pc, sv_instr = instr\<rparr>))))"

definition load_cycle_row :: "nat \<times> csv_row \<Rightarrow> trace_error + cycle_row" where
  "load_cycle_row lraw =
     (case lraw of (line_number, raw) \<Rightarrow>
      let int_field = (\<lambda>name base. parse_int (raw_cell raw name) base name line_number) in
      guardE (raw_cell raw ''schema'' = Some SCHEMA) (UnsupportedSchema line_number) (
      bindE (int_field ''valid'' 16) (\<lambda>valid.
      bindE (mapE (load_stage raw line_number valid) (enumerate 0 stage_prefixes)) (\<lambda>stages.
      bindE (int_field ''cycle'' 10) (\<lambda>cycle. bindE (int_field ''stall'' 16) (\<lambda>stall.
      bindE (int_field ''flush'' 16) (\<lambda>flush. bindE (int_field ''advance'' 16) (\<lambda>advance.
      bindE (int_field ''events'' 16) (\<lambda>events. bindE (int_field ''stall_causes'' 16) (\<lambda>stall_causes.
      bindE (int_field ''retire_valid'' 10) (\<lambda>retire_valid. bindE (int_field ''retire_arch'' 10) (\<lambda>retire_arch.
      bindE (int_field ''retire_exception'' 10) (\<lambda>retire_exception. bindE (int_field ''retire_cause'' 16) (\<lambda>retire_cause.
      bindE (int_field ''retire_next_pc'' 16) (\<lambda>retire_next_pc. bindE (int_field ''retire_rd_write'' 10) (\<lambda>retire_rd_write.
      bindE (int_field ''retire_rd'' 10) (\<lambda>retire_rd. bindE (int_field ''retire_wdata'' 16) (\<lambda>retire_wdata.
        Inr \<lparr>r_cycle = cycle, r_valid = valid, r_stall = stall, r_flush = flush, r_advance = advance, r_events = events,
             r_stall_causes = stall_causes, r_stages = stages, r_retire_valid = (retire_valid \<noteq> 0),
             r_retire_arch = (retire_arch \<noteq> 0), r_retire_exception = (retire_exception \<noteq> 0),
             r_retire_cause = retire_cause, r_retire_next_pc = retire_next_pc,
             r_retire_rd_write = (retire_rd_write \<noteq> 0), r_retire_rd = retire_rd, r_retire_wdata = retire_wdata\<rparr>))))))))))))))))))"

definition load_rows :: "string list list \<Rightarrow> trace_error + cycle_row list" where
  "load_rows lines =
     (case dict_reader lines of
        None \<Rightarrow> Inl NoHeader
      | Some (fieldnames, raws) \<Rightarrow>
          let missing = sorted_distinct (filter (\<lambda>c. c \<notin> set fieldnames) required_columns) in
          if missing \<noteq> [] then Inl (MissingColumns missing)
          else bindE (mapE load_cycle_row (enumerate 2 raws)) (\<lambda>rows.
            if rows = [] then Inl NoCycleRows else Inr rows))"

section \<open>Instructions\<close>

type_synonym instructions = "(int \<times> instruction) list"

definition setdefault_instr :: "instructions \<Rightarrow> int \<Rightarrow> instruction \<Rightarrow> instructions" where
  "setdefault_instr d key r = (if map_of d key = None then AList.update key r d else d)"

definition available :: "nat \<Rightarrow> stage_value \<Rightarrow> bool" where
  "available index stage \<longleftrightarrow> index \<noteq> 0 \<or> sv_instr stage \<noteq> 0"

definition pc_changed :: "instruction \<Rightarrow> stage_value \<Rightarrow> bool" where
  "pc_changed r stage \<longleftrightarrow> i_pc r \<noteq> None \<and> i_pc r \<noteq> Some (sv_pc stage)"

definition instr_changed :: "nat \<Rightarrow> instruction \<Rightarrow> stage_value \<Rightarrow> bool" where
  "instr_changed index r stage \<longleftrightarrow> available index stage \<and> i_instr r \<noteq> None \<and> i_instr r \<noteq> Some (sv_instr stage)"

definition flushed_key :: "cycle_row \<Rightarrow> nat \<Rightarrow> stage_value \<Rightarrow> int" where
  "flushed_key row index stage =
     push_bit 68 (r_cycle row + 1) OR push_bit 64 (int index) OR sv_uid stage"

text \<open>The record of a stage seen in a row, once its identity has been checked.\<close>

definition see_stage :: "cycle_row \<Rightarrow> nat \<Rightarrow> stage_value \<Rightarrow> instruction \<Rightarrow> instruction" where
  "see_stage row index stage r =
     r\<lparr>i_pc := Some (sv_pc stage),
       i_instr := (if available index stage then Some (sv_instr stage) else i_instr r),
       i_stage_cycles := (i_stage_cycles r)(STAGES ! index := i_stage_cycles r (STAGES ! index) @ [r_cycle row]),
       i_stall_cycles := (if flag_bit (r_stall row) index then i_stall_cycles r + 1 else i_stall_cycles r)\<rparr>"

definition collect_stage :: "cycle_row \<Rightarrow> nat \<times> stage_value \<Rightarrow> instructions \<Rightarrow> trace_error + instructions" where
  "collect_stage row istage d =
     (case istage of (index, stage) \<Rightarrow>
      if \<not> sv_valid stage then Inr d
      else if sv_uid stage = 0 then Inl (UidZero (r_cycle row) (STAGES ! index))
      else
        let d = setdefault_instr d (sv_uid stage) (new_instruction (sv_uid stage));
            r = the (map_of d (sv_uid stage))
        in if (pc_changed r stage \<or> instr_changed index r stage) \<and> flag_bit (r_flush row) index
           then Inr (AList.update (flushed_key row index stage)
                       (see_stage row index stage (new_instruction (sv_uid stage))) d)
           else if pc_changed r stage then Inl (PcChanged (r_cycle row) (sv_uid stage) (the (i_pc r)) (sv_pc stage))
           else if instr_changed index r stage
           then Inl (InstrChanged (r_cycle row) (sv_uid stage) (the (i_instr r)) (sv_instr stage))
           else Inr (AList.update (sv_uid stage) (see_stage row index stage r) d))"

definition retire_record :: "cycle_row \<Rightarrow> instruction \<Rightarrow> instruction" where
  "retire_record row r =
     r\<lparr>i_retire_cycle := Some (r_cycle row), i_retire_arch := r_retire_arch row, i_exception := r_retire_exception row,
       i_cause := r_retire_cause row, i_next_pc := r_retire_next_pc row, i_rd_write := r_retire_rd_write row,
       i_rd := r_retire_rd row, i_wdata := r_retire_wdata row\<rparr>"

definition collect_retire :: "cycle_row \<Rightarrow> instructions \<Rightarrow> trace_error + instructions" where
  "collect_retire row d =
     (if \<not> r_retire_valid row then Inr d
      else
        let wb = r_stages row ! 4 in
        if \<not> sv_valid wb \<or> sv_uid wb = 0 then Inl (RetireWithoutWb (r_cycle row))
        else
          let d = setdefault_instr d (sv_uid wb) (new_instruction (sv_uid wb)) in
          Inr (AList.update (sv_uid wb) (retire_record row (the (map_of d (sv_uid wb)))) d))"

definition collect_row :: "cycle_row \<Rightarrow> instructions \<Rightarrow> trace_error + instructions" where
  "collect_row row d = bindE (foldE (collect_stage row) (enumerate 0 (r_stages row)) d) (collect_retire row)"

definition collect_instructions :: "cycle_row list \<Rightarrow> trace_error + instructions" where
  "collect_instructions rows = foldE collect_row rows []"


section \<open>The report\<close>

definition bit_names :: "int \<Rightarrow> string list \<Rightarrow> string" where
  "bit_names m names =
     (let selected = map snd (filter (\<lambda>(index, _). flag_bit m index) (enumerate 0 names))
      in if selected \<noteq> [] then str_join '','' selected else ''-'')"

definition range_text :: "int \<times> int \<Rightarrow> string" where
  "range_text sp = (case sp of (start, previous) \<Rightarrow>
     if start = previous then dec start else dec start @ ''-'' @ dec previous)"

fun ranges_from :: "int \<Rightarrow> int \<Rightarrow> int list \<Rightarrow> (int \<times> int) list" where
  "ranges_from start previous [] = [(start, previous)]"
| "ranges_from start previous (cycle # rest) =
     (if cycle = previous + 1 then ranges_from start cycle rest
      else (start, previous) # ranges_from cycle cycle rest)"

definition ranges_of :: "int list \<Rightarrow> (int \<times> int) list" where
  "ranges_of cycles = (case sorted_distinct cycles of [] \<Rightarrow> [] | c # rest \<Rightarrow> ranges_from c c rest)"

definition cycle_ranges :: "int list \<Rightarrow> string" where
  "cycle_ranges cycles =
     (if cycles = [] then ''-'' else str_join '','' (map range_text (ranges_of cycles)))"

definition completed_ids :: "instructions \<Rightarrow> int list" where
  "completed_ids d = map fst (filter (\<lambda>(_, r). i_retire_cycle r \<noteq> None) d)"

definition ratio_text :: "nat \<Rightarrow> int \<Rightarrow> int \<Rightarrow> string" where
  "ratio_text w a b = rjust w (percent 2 (float_div a b))"

definition stage_summary :: "cycle_row list \<Rightarrow> instructions \<Rightarrow> nat \<times> string \<Rightarrow> string" where
  "stage_summary rows d iname =
     (case iname of (index, name) \<Rightarrow>
      let cycles = int (length rows);
          occupied = count_if (\<lambda>row. flag_bit (r_valid row) index) rows;
          completed = count_if (\<lambda>row. sv_valid (r_stages row ! index) \<and>
                                  sv_uid (r_stages row ! index) \<in> set (completed_ids d)) rows;
          stalls = count_if (\<lambda>row. flag_bit (r_stall row) index) rows;
          advances = count_if (\<lambda>row. flag_bit (r_advance row) index) rows
      in ''  '' @ ljust 5 name @ '' '' @ dec_w 5 occupied @ ''/'' @ ljust 5 (dec cycles) @ '' '' @
         ratio_text 7 occupied cycles @ '' '' @ dec_w 5 completed @ ''/'' @ ljust 5 (dec cycles) @ '' '' @
         dec_w 9 (occupied - completed) @ '' '' @ dec_w 8 stalls @ '' '' @ dec_w 9 advances)"

definition write_summary :: "cycle_row list \<Rightarrow> instructions \<Rightarrow> string list" where
  "write_summary rows d =
     (let cycles = int (length rows);
          retired = count_if r_retire_arch rows;
          exceptions = count_if r_retire_exception rows;
          cause_counts = map (\<lambda>index. count_if (\<lambda>row. flag_bit (r_stall_causes row) index) rows)
                           [0..<length STALL_CAUSES];
          active_causes = map (\<lambda>(name, n). name @ ''='' @ dec n)
                            (filter (\<lambda>(_, n). n \<noteq> 0) (zip STALL_CAUSES cause_counts))
      in [''SUMMARY'',
          ''  cycles='' @ dec cycles @ '' range='' @ dec (r_cycle (hd rows)) @ ''-'' @ dec (r_cycle (last rows)) @
          '' fetched_uids='' @ dec (int (length d)) @ '' arch_retired='' @ dec retired @
          '' exceptions='' @ dec exceptions @ '' IPC='' @ fixed 4 (float_div retired cycles),
          ''  stage  occupied completed  not_done   stalls  advances''] @
         map (stage_summary rows d) (enumerate 0 STAGES) @
         [''  stall_causes: '' @ (if active_causes \<noteq> [] then str_join '', '' active_causes else ''-''), ''''])"

definition stage_cell :: "cycle_row \<Rightarrow> nat \<Rightarrow> string" where
  "stage_cell row index =
     (let stage = r_stages row ! index in
      if \<not> sv_valid stage then (if flag_bit (r_flush row) index then ''FLUSH'' else ''.'')
      else
        let instr = (if index = 0 \<and> sv_instr stage = 0 then ''--------'' else hex0 8 (sv_instr stage));
            marker = (if flag_bit (r_stall row) index then ''~''
                      else if flag_bit (r_advance row) index then ''>'' else '' '')
        in marker @ hex (sv_uid stage) @ ''@'' @ hex (sv_pc stage) @ '':'' @ instr)"

definition visible_rows :: "cycle_row list \<Rightarrow> int \<Rightarrow> cycle_row list" where
  "visible_rows rows max_cycles =
     (if max_cycles = 0 then rows
      else if 0 < max_cycles then take (nat max_cycles) rows
      else take (length rows - nat (- max_cycles)) rows)"

definition write_cycles :: "cycle_row list \<Rightarrow> int \<Rightarrow> string list" where
  "write_cycles rows max_cycles =
     (let visible = visible_rows rows max_cycles in
      [''CYCLE PIPELINE  (~ held/stalled, > advances, FLUSH invalidated)'',
       ''cycle | '' @ ljust 26 ''IF'' @ '' | '' @ ljust 26 ''ID'' @ '' | '' @ ljust 26 ''EX'' @ '' | '' @
       ljust 26 ''MEM'' @ '' | '' @ ljust 26 ''WB'' @ '' | events / stall causes''] @
      map (\<lambda>row. dec_w 5 (r_cycle row) @ '' | '' @ str_join '' | '' (map (\<lambda>index. ljust 26 (stage_cell row index)) [0..<5]) @
                 '' | '' @ bit_names (r_events row) EVENTS @ '' / '' @ bit_names (r_stall_causes row) STALL_CAUSES) visible @
      (if length visible < length rows
       then [''... '' @ dec (int (length rows) - int (length visible)) @ '' cycles omitted; use --max-cycles 0''] else []) @
      [''''])"

definition instruction_status :: "instruction \<Rightarrow> string" where
  "instruction_status r =
     (if i_exception r then ''exception('' @ dec (i_cause r) @ '')''
      else if i_retire_arch r then ''retired''
      else if i_retire_cycle r \<noteq> None then ''consumed''
      else ''not-retired'')"

definition or_zero :: "int option \<Rightarrow> int" where
  "or_zero v = (case v of None \<Rightarrow> 0 | Some i \<Rightarrow> i)"

definition latency_of :: "instruction \<Rightarrow> int" where
  "latency_of r =
     (let all_cycles = concat (map (i_stage_cycles r) STAGES)
      in if all_cycles = [] then 0 else Max (set all_cycles) - Min (set all_cycles) + 1)"

definition instruction_line :: "instructions \<Rightarrow> int \<Rightarrow> string" where
  "instruction_line d uid =
     (let r = the (map_of d uid) in
      rjust 6 (hex uid) @ '' '' @ hex0 16 (or_zero (i_pc r)) @ '' '' @ hex0 8 (or_zero (i_instr r)) @ '' '' @
      str_join '' '' (map (\<lambda>name. ljust 11 (cycle_ranges (i_stage_cycles r name))) STAGES) @ '' '' @
      dec_w 7 (latency_of r) @ '' '' @ dec_w 6 (i_stall_cycles r) @ '' '' @ instruction_status r)"

definition write_instructions :: "instructions \<Rightarrow> string list" where
  "write_instructions d =
     [''INSTRUCTION TIMING'',
      ''uid    pc               instr     IF          ID          EX          '' @
      ''MEM         WB          latency stalls status''] @
     map (instruction_line d) (sort (map fst d)) @ ['''']"

definition retire_line :: "instruction \<Rightarrow> string" where
  "retire_line r =
     (let result = (if i_exception r then ''exception cause='' @ dec (i_cause r)
                    else if i_rd_write r then ''x'' @ dec (i_rd r) @ ''='' @ hex0 16 (i_wdata r)
                    else if i_retire_arch r then ''architectural'' else ''consumed'')
      in dec_w 5 (or_zero (i_retire_cycle r)) @ '' '' @ rjust 6 (hex (i_uid r)) @ '' '' @ hex0 16 (or_zero (i_pc r)) @
         '' '' @ hex0 8 (or_zero (i_instr r)) @ '' '' @ hex0 16 (i_next_pc r) @ '' '' @ result)"

definition write_retire_log :: "instructions \<Rightarrow> string list" where
  "write_retire_log d =
     [''RETIRE LOG'', ''cycle  uid    pc               instr     next_pc          result''] @
     map retire_line (sort_key (\<lambda>r. or_zero (i_retire_cycle r)) (filter (\<lambda>r. i_retire_cycle r \<noteq> None) (map snd d)))"

text \<open>\<open>main\<close>: the instructions come from all rows, the summary and the timeline from the selected ones.\<close>

definition trace_report :: "string list list \<Rightarrow> int option \<Rightarrow> int option \<Rightarrow> int \<Rightarrow> trace_error + string list" where
  "trace_report lines start_cycle end_cycle max_cycles =
     bindE (load_rows lines) (\<lambda>all_rows.
     bindE (collect_instructions all_rows) (\<lambda>d.
     let rows = filter (\<lambda>row. (case start_cycle of None \<Rightarrow> True | Some c \<Rightarrow> c \<le> r_cycle row) \<and>
                              (case end_cycle of None \<Rightarrow> True | Some c \<Rightarrow> r_cycle row \<le> c)) all_rows
     in if rows = [] then Inl EmptySelection
        else Inr (write_summary rows d @ write_cycles rows max_cycles @ write_instructions d @ write_retire_log d)))"

end
