(* ===== verification/CycleProps.thy ===== *)
theory CycleProps
  imports CycleTrace
begin

text \<open>
  What the cycle-trace report rests on: the printed ranges are the maximal runs of the cycles, and the
  collected instructions account for every stage occurrence of the trace, with one PC each.
\<close>

section \<open>Runs of cycles\<close>

definition covered :: "(int \<times> int) list \<Rightarrow> int set" where
  "covered rs = (\<Union>(a, b) \<in> set rs. {a..b})"

definition runs :: "(int \<times> int) list \<Rightarrow> bool" where
  "runs rs \<longleftrightarrow> (\<forall>(a, b) \<in> set rs. a \<le> b) \<and> sorted_wrt (\<lambda>p q. snd p + 1 < fst q) rs"

lemma ranges_from_props:
  assumes "start \<le> prev" "sorted (prev # cs)" "distinct (prev # cs)"
  shows "covered (ranges_from start prev cs) = {start..prev} \<union> set cs \<and> runs (ranges_from start prev cs) \<and>
    (\<forall>p \<in> set (ranges_from start prev cs). start \<le> fst p)"
  using assms
proof (induction cs arbitrary: start prev)
  case Nil
  then show ?case by (simp add: covered_def runs_def)
next
  case (Cons c cs)
  have c: "prev < c" using Cons.prems by (auto simp: less_le)
  show ?case
  proof (cases "c = prev + 1")
    case True
    have "covered (ranges_from start c cs) = {start..c} \<union> set cs \<and> runs (ranges_from start c cs) \<and>
        (\<forall>p \<in> set (ranges_from start c cs). start \<le> fst p)"
      by (rule Cons.IH) (use Cons.prems c in auto)
    moreover have "{start..c} = insert c {start..prev}" using True Cons.prems(1) by auto
    ultimately show ?thesis using True by simp
  next
    case False
    have ih: "covered (ranges_from c c cs) = {c..c} \<union> set cs \<and> runs (ranges_from c c cs) \<and>
        (\<forall>p \<in> set (ranges_from c c cs). c \<le> fst p)"
      by (rule Cons.IH) (use Cons.prems in auto)
    have gap: "prev + 1 < c" using False c by simp
    then have "runs ((start, prev) # ranges_from c c cs)"
      using ih Cons.prems(1) by (fastforce simp: runs_def)
    moreover have "covered ((start, prev) # ranges_from c c cs) = {start..prev} \<union> set (c # cs)"
      using ih by (simp add: covered_def)
    ultimately show ?thesis using False ih c Cons.prems(1) by auto
  qed
qed

lemma ranges_of_props: "covered (ranges_of cycles) = set cycles \<and> runs (ranges_of cycles)"
proof (cases "sorted_distinct cycles")
  case Nil
  then have "set cycles = {}" using sorted_distinct_props(3) [of cycles] by simp
  with Nil show ?thesis by (simp add: ranges_of_def covered_def runs_def)
next
  case (Cons c cs)
  have "sorted (c # cs)" "distinct (c # cs)" "set (c # cs) = set cycles"
    using sorted_distinct_props [of cycles] Cons by simp_all
  with ranges_from_props [of c c cs] Cons show ?thesis by (simp add: ranges_of_def)
qed

text \<open>
  The range text of a set of cycles joins its maximal runs in ascending order: the runs cover exactly
  the given cycles, each goes up, and consecutive ones are separated by at least one missing cycle.
\<close>

theorem cycle_ranges_are_maximal_runs:
  "cycles \<noteq> [] \<Longrightarrow> cycle_ranges cycles = str_join '','' (map range_text (ranges_of cycles)) \<and>
    (\<Union>(a, b) \<in> set (ranges_of cycles). {a..b}) = set cycles \<and>
    (\<forall>(a, b) \<in> set (ranges_of cycles). a \<le> b) \<and>
    sorted_wrt (\<lambda>p q. snd p + 1 < fst q) (ranges_of cycles)"
  using ranges_of_props [of cycles] by (simp add: cycle_ranges_def covered_def runs_def)

theorem cycle_ranges_are_maximal_runs_witness:
  "cycle_ranges [4, 2, 3, 9] = ''2-4,9'' \<and> set (ranges_of [4, 2, 3, 9]) = {(2, 4), (9, 9)} \<and>
    sorted_wrt (\<lambda>p q. snd p + 1 < fst q) (ranges_of [4, 2, 3, 9])"
proof -
  have "cycle_ranges [4, 2, 3, 9] = ''2-4,9''" "set (ranges_of [4, 2, 3, 9]) = {(2, 4), (9, 9)}" by code_simp+
  with cycle_ranges_are_maximal_runs [of "[4, 2, 3, 9]"] show ?thesis by simp
qed

section \<open>The collected instructions\<close>

lemma map_of_update_iff: "map_of (AList.update k v d) k' = (if k' = k then Some v else map_of d k')"
  by (simp add: update_conv')

definition seen :: "cycle_row list \<Rightarrow> nat \<Rightarrow> int \<Rightarrow> int list" where
  "seen rows index uid =
     map r_cycle (filter (\<lambda>row. sv_valid (r_stages row ! index) \<and> sv_uid (r_stages row ! index) = uid) rows)"


text \<open>Sums over the records of a dictionary.\<close>

definition total :: "(instruction \<Rightarrow> 'b multiset) \<Rightarrow> instructions \<Rightarrow> 'b multiset" where
  "total f d = sum_list (map (\<lambda>kr. f (snd kr)) d)"

lemma total_update:
  "distinct (map fst d) \<Longrightarrow> map_of d k = Some r \<Longrightarrow> total f (AList.update k r' d) + f r = total f d + f r'"
proof (induction d)
  case (Cons x d)
  obtain k0 r0 where x: "x = (k0, r0)" by (cases x)
  show ?case
  proof (cases "k0 = k")
    case True
    with Cons.prems x show ?thesis by (simp add: total_def ac_simps)
  next
    case False
    with Cons x have "total f (AList.update k r' d) + f r = total f d + f r'" by simp
    with False x show ?thesis by (simp add: total_def ac_simps)
  qed
qed simp

lemma total_insert: "map_of d k = None \<Longrightarrow> total f (AList.update k r' d) = total f d + f r'"
  by (induction d) (auto simp: total_def ac_simps split: if_splits)

lemma total_setdefault:
  "map_of d k = None \<Longrightarrow> f r = {#} \<Longrightarrow> total f (setdefault_instr d k r) = total f d"
  by (simp add: setdefault_instr_def total_insert)

text \<open>What has been seen: cycle, stage index and stage.\<close>

type_synonym occ = "int \<times> nat \<times> stage_value"

definition occ_key :: "occ \<Rightarrow> int" where
  "occ_key = (\<lambda>(c, index, stage). push_bit 68 (c + 1) OR push_bit 64 (int index) OR sv_uid stage)"

definition occ_ok :: "occ \<Rightarrow> bool" where
  "occ_ok = (\<lambda>(c, index, stage). 0 \<le> c \<and> index < 5 \<and> 0 < sv_uid stage \<and> sv_uid stage < 2 ^ 64)"

definition stage_mset :: "nat \<Rightarrow> int \<Rightarrow> instruction \<Rightarrow> int multiset" where
  "stage_mset index uid r = (if i_uid r = uid then mset (i_stage_cycles r (STAGES ! index)) else {#})"

definition occ_mset :: "nat \<Rightarrow> int \<Rightarrow> occ list \<Rightarrow> int multiset" where
  "occ_mset index uid os = mset (map fst (filter (\<lambda>(_, i, stage). i = index \<and> sv_uid stage = uid) os))"

definition recorded :: "instructions \<Rightarrow> occ \<Rightarrow> bool" where
  "recorded d = (\<lambda>(c, index, stage). \<exists>k r. map_of d k = Some r \<and>
     i_uid r = sv_uid stage \<and> i_pc r = Some (sv_pc stage) \<and> c \<in> set (i_stage_cycles r (STAGES ! index)))"

definition key_ok :: "occ list \<Rightarrow> int \<Rightarrow> instruction \<Rightarrow> bool" where
  "key_ok os k r \<longleftrightarrow> i_uid r = k mod 2 ^ 64 \<and> 0 \<le> k \<and> (k < 2 ^ 64 \<or> k \<in> occ_key ` set os)"

definition dict_ok :: "occ list \<Rightarrow> instructions \<Rightarrow> bool" where
  "dict_ok os d \<longleftrightarrow> distinct (map fst d) \<and>
     (\<forall>k r. map_of d k = Some r \<longrightarrow> key_ok os k r) \<and>
     (\<forall>index < 5. \<forall>uid. total (stage_mset index uid) d = occ_mset index uid os) \<and>
     (\<forall>oc \<in> set os. recorded d oc)"

lemma or_sum:
  fixes a b :: int
  assumes "0 \<le> b" "b < 2 ^ n"
  shows "push_bit n a OR b = a * 2 ^ n + b"
proof -
  have b: "take_bit n b = b" using assms by (simp add: take_bit_int_eq_self)
  have "push_bit n a + take_bit n b = push_bit n a OR take_bit n b"
    by (rule disjunctive_add) (auto simp: bit_push_bit_iff bit_take_bit_iff)
  then show ?thesis by (simp add: b push_bit_eq_mult)
qed

lemma occ_key_eq:
  assumes "occ_ok (c, index, stage)"
  shows "occ_key (c, index, stage) = (c + 1) * 2 ^ 68 + (int index * 2 ^ 64 + sv_uid stage)"
    "0 \<le> int index * 2 ^ 64 + sv_uid stage" "int index * 2 ^ 64 + sv_uid stage < 2 ^ 68"
proof -
  have u: "0 \<le> sv_uid stage" "sv_uid stage < 2 ^ 64" "int index \<le> 4" using assms by (auto simp: occ_ok_def)
  then show lo: "0 \<le> int index * 2 ^ 64 + sv_uid stage" by simp
  show hi: "int index * 2 ^ 64 + sv_uid stage < 2 ^ 68" using u by simp
  have "push_bit 64 (int index) OR sv_uid stage = int index * 2 ^ 64 + sv_uid stage" by (rule or_sum [OF u(1,2)])
  with or_sum [OF lo hi, of "c + 1"]
  show "occ_key (c, index, stage) = (c + 1) * 2 ^ 68 + (int index * 2 ^ 64 + sv_uid stage)"
    by (simp add: occ_key_def or.assoc)
qed

lemma occ_key_props:
  assumes "occ_ok (c, index, stage)"
  shows "2 ^ 64 \<le> occ_key (c, index, stage)" "occ_key (c, index, stage) mod 2 ^ 64 = sv_uid stage"
proof -
  note k = occ_key_eq [OF assms]
  have c: "0 \<le> c" "0 < sv_uid stage" "sv_uid stage < 2 ^ 64" using assms by (auto simp: occ_ok_def)
  show "2 ^ 64 \<le> occ_key (c, index, stage)" using k(1,2) c by simp
  have "occ_key (c, index, stage) = sv_uid stage + ((c + 1) * 16 + int index) * 2 ^ 64" using k(1) by simp
  then have "occ_key (c, index, stage) mod 2 ^ 64 = sv_uid stage mod 2 ^ 64" by (simp only: mod_mult_self1)
  then show "occ_key (c, index, stage) mod 2 ^ 64 = sv_uid stage" using c by simp
qed

lemma occ_key_inj:
  assumes "occ_ok (c, index, stage)" "occ_ok (c', index', stage')" "occ_key (c, index, stage) = occ_key (c', index', stage')"
  shows "c = c' \<and> index = index'"
proof -
  note k = occ_key_eq [OF assms(1)] and k' = occ_key_eq [OF assms(2)]
  let ?r = "int index * 2 ^ 64 + sv_uid stage" and ?r' = "int index' * 2 ^ 64 + sv_uid stage'"
  have u: "0 \<le> sv_uid stage" "sv_uid stage < 2 ^ 64" "0 \<le> sv_uid stage'" "sv_uid stage' < 2 ^ 64"
    using assms(1,2) by (auto simp: occ_ok_def)
  have e: "(c + 1) * 2 ^ 68 + ?r = (c' + 1) * 2 ^ 68 + ?r'" using assms(3) k(1) k'(1) by simp
  have "c = c'" using e k(2,3) k'(2,3) by simp
  then have "int index * 2 ^ 64 + sv_uid stage = int index' * 2 ^ 64 + sv_uid stage'" using e by simp
  then have "int index = int index'" using u by simp
  with \<open>c = c'\<close> show ?thesis by simp
qed

lemma STAGES_inj: "i < 5 \<Longrightarrow> j < 5 \<Longrightarrow> STAGES ! i = STAGES ! j \<longleftrightarrow> i = j"
  by (rule nth_eq_iff_index_eq) (simp_all add: STAGES_def)


section \<open>One stage\<close>

lemma update_again: "AList.update k x (AList.update k y d) = AList.update k x d"
  by (induction d) auto

lemma see_stage_fields [simp]:
  "i_uid (see_stage row i s r) = i_uid r" "i_pc (see_stage row i s r) = Some (sv_pc s)"
  "i_stage_cycles (see_stage row i s r) =
     (i_stage_cycles r)(STAGES ! i := i_stage_cycles r (STAGES ! i) @ [r_cycle row])"
  by (simp_all add: see_stage_def)

lemma stage_mset_see:
  assumes "index < 5" "i < 5"
  shows "stage_mset index uid (see_stage row i s r) =
    stage_mset index uid r + (if index = i \<and> uid = i_uid r then {# r_cycle row #} else {#})"
  using STAGES_inj [OF assms] by (auto simp: stage_mset_def)

lemma stage_mset_new [simp]: "stage_mset index uid (new_instruction u) = {#}"
  by (simp add: stage_mset_def new_instruction_def)

lemma occ_mset_snoc:
  "occ_mset index uid (os @ [(c, i, s)]) =
    occ_mset index uid os + (if index = i \<and> uid = sv_uid s then {# c #} else {#})"
  by (simp add: occ_mset_def)

lemma recorded_update:
  assumes "recorded d oc" "map_of d k = None \<or> (\<exists>r. map_of d k = Some r \<and> i_uid r' = i_uid r \<and>
      (\<forall>p. i_pc r = Some p \<longrightarrow> i_pc r' = Some p) \<and> (\<forall>n. set (i_stage_cycles r n) \<subseteq> set (i_stage_cycles r' n)))"
  shows "recorded (AList.update k r' d) oc"
proof -
  obtain c index stage where oc: "oc = (c, index, stage)" by (cases oc)
  obtain k0 r0 where r0: "map_of d k0 = Some r0" "i_uid r0 = sv_uid stage" "i_pc r0 = Some (sv_pc stage)"
    "c \<in> set (i_stage_cycles r0 (STAGES ! index))" using assms(1) by (auto simp: recorded_def oc)
  show ?thesis
  proof (cases "k0 = k")
    case True
    with assms(2) r0 obtain r where "i_uid r' = i_uid r0" "i_pc r' = Some (sv_pc stage)"
      "set (i_stage_cycles r0 (STAGES ! index)) \<subseteq> set (i_stage_cycles r' (STAGES ! index))" by auto
    with r0 True show ?thesis by (auto simp: recorded_def oc map_of_update_iff)
  next
    case False
    with r0 show ?thesis by (auto simp: recorded_def oc map_of_update_iff)
  qed
qed

lemma key_ok_mono: "key_ok os k r \<Longrightarrow> key_ok (os @ xs) k r"
  by (auto simp: key_ok_def)

lemma dict_update:
  assumes d: "dict_ok os d" and o: "oc = (r_cycle row, i, s)" "i < 5"
    and r: "map_of d k = Some r \<or> (map_of d k = None \<and> r = new_instruction (sv_uid s))"
    and k: "key_ok (os @ [oc]) k r" "i_uid r = sv_uid s" and pc: "\<not> pc_changed r s"
  shows "dict_ok (os @ [oc]) (AList.update k (see_stage row i s r) d)"
proof -
  let ?r = "see_stage row i s r" and ?d = "AList.update k (see_stage row i s r) d"
  have dist: "distinct (map fst d)" and keys: "\<forall>k r. map_of d k = Some r \<longrightarrow> key_ok os k r"
    and tot: "\<forall>index < 5. \<forall>uid. total (stage_mset index uid) d = occ_mset index uid os"
    and rec: "\<forall>oc \<in> set os. recorded d oc" using d by (simp_all add: dict_ok_def)
  have "key_ok (os @ [oc]) k' r'" if m: "map_of ?d k' = Some r'" for k' r'
  proof (cases "k' = k")
    case True
    with m have "r' = ?r" by (simp add: map_of_update_iff)
    then show ?thesis using k(1) True by (simp add: key_ok_def)
  next
    case False
    with m keys have "key_ok os k' r'" by (simp add: map_of_update_iff)
    then show ?thesis by (rule key_ok_mono)
  qed
  moreover have "total (stage_mset index uid) ?d = occ_mset index uid (os @ [oc])" if "index < 5" for index uid
  proof -
    have "total (stage_mset index uid) ?d + stage_mset index uid r = total (stage_mset index uid) d + stage_mset index uid ?r"
      using r
    proof
      assume "map_of d k = Some r"
      then show ?thesis by (rule total_update [OF dist])
    next
      assume "map_of d k = None \<and> r = new_instruction (sv_uid s)"
      then show ?thesis by (simp add: total_insert)
    qed
    then have "total (stage_mset index uid) ?d =
        total (stage_mset index uid) d + (if index = i \<and> uid = sv_uid s then {# r_cycle row #} else {#})"
      using stage_mset_see [OF that o(2)] k(2) by (simp split: if_splits)
    with tot that show ?thesis by (simp add: o occ_mset_snoc)
  qed
  moreover have "recorded ?d x" if "x \<in> set os" for x
    by (rule recorded_update) (use rec that r pc in \<open>auto simp: pc_changed_def\<close>)
  moreover have "recorded ?d oc"
    unfolding recorded_def o(1) prod.case
    by (rule exI [of _ k], rule exI [of _ ?r]) (simp add: map_of_update_iff k(2))
  ultimately show ?thesis using dist by (auto simp: dict_ok_def distinct_update)
qed

lemma collect_stage_ok:
  assumes d: "dict_ok os d" and c: "collect_stage row (i, s) d = Inr d'"
    and oc: "occ_ok (r_cycle row, i, s) \<or> \<not> sv_valid s" and os: "\<forall>x \<in> set os. occ_ok x \<and> (fst x, fst (snd x)) \<noteq> (r_cycle row, i)"
  shows "dict_ok (os @ (if sv_valid s then [(r_cycle row, i, s)] else [])) d'"
proof (cases "sv_valid s")
  case False
  with c d show ?thesis by (simp add: collect_stage_def)
next
  case True
  then have ok: "occ_ok (r_cycle row, i, s)" using oc by simp
  then have i: "i < 5" and u: "0 < sv_uid s" "sv_uid s < 2 ^ 64" by (auto simp: occ_ok_def)
  let ?o = "(r_cycle row, i, s)" and ?u = "sv_uid s"
  define r where "r = (case map_of d ?u of None \<Rightarrow> new_instruction ?u | Some r \<Rightarrow> r)"
  have r: "map_of d ?u = Some r \<or> (map_of d ?u = None \<and> r = new_instruction ?u)"
    by (auto simp: r_def split: option.split)
  have uid: "i_uid r = ?u"
  proof (cases "map_of d ?u")
    case None
    then show ?thesis by (simp add: r_def new_instruction_def)
  next
    case (Some x)
    then have "key_ok os ?u x" using d by (simp add: dict_ok_def)
    then show ?thesis using Some u by (simp add: r_def key_ok_def)
  qed
  have got: "the (map_of (setdefault_instr d ?u (new_instruction ?u)) ?u) = r"
    using r by (auto simp: setdefault_instr_def map_of_update_iff)
  let ?flush = "(pc_changed r s \<or> instr_changed i r s) \<and> flag_bit (r_flush row) i"
  show ?thesis
  proof (cases ?flush)
    case True
    then have some: "map_of d ?u = Some r"
      using r by (auto simp: pc_changed_def instr_changed_def new_instruction_def)
    let ?k = "flushed_key row i s"
    have ke: "?k = occ_key ?o" by (simp add: flushed_key_def occ_key_def)
    have fresh: "map_of d ?k = None"
    proof (rule ccontr)
      assume "map_of d ?k \<noteq> None"
      then obtain r0 where "map_of d ?k = Some r0" by blast
      then have "key_ok os ?k r0" using d by (simp add: dict_ok_def)
      then have "?k < 2 ^ 64 \<or> ?k \<in> occ_key ` set os" by (simp add: key_ok_def)
      then obtain x where "x \<in> set os" "occ_key x = occ_key ?o"
        using occ_key_props(1) [OF ok] unfolding ke by fastforce
      moreover obtain cc ii ss where "x = (cc, ii, ss)" by (cases x)
      ultimately show False using occ_key_inj [of cc ii ss "r_cycle row" i s] os ok by auto
    qed
    have "key_ok (os @ [?o]) ?k (new_instruction ?u)"
      using occ_key_props [OF ok] unfolding ke by (simp add: key_ok_def new_instruction_def)
    from dict_update [OF d refl i _ this] fresh
    have "dict_ok (os @ [?o]) (AList.update ?k (see_stage row i s (new_instruction ?u)) d)"
      by (simp add: new_instruction_def pc_changed_def)
    moreover have "d' = AList.update ?k (see_stage row i s (new_instruction ?u)) d"
      using c True \<open>sv_valid s\<close> u some got by (simp add: collect_stage_def Let_def setdefault_instr_def)
    ultimately show ?thesis using \<open>sv_valid s\<close> by simp
  next
    case False
    have d': "d' = AList.update ?u (see_stage row i s r) d \<and> \<not> pc_changed r s"
      using c False \<open>sv_valid s\<close> u got
      by (auto simp: collect_stage_def Let_def setdefault_instr_def update_again split: if_splits)
    have "key_ok (os @ [?o]) ?u r" using u uid by (simp add: key_ok_def)
    from dict_update [OF d refl i r this uid] d' show ?thesis using \<open>sv_valid s\<close> by simp
  qed
qed


section \<open>Whole rows and traces\<close>

definition row_occs :: "cycle_row \<Rightarrow> (nat \<times> stage_value) list \<Rightarrow> occ list" where
  "row_occs row iss = map (\<lambda>(i, s). (r_cycle row, i, s)) (filter (\<lambda>(i, s). sv_valid s) iss)"

definition trace_occs :: "cycle_row list \<Rightarrow> occ list" where
  "trace_occs rows = concat (map (\<lambda>row. row_occs row (enumerate 0 (r_stages row))) rows)"

definition row_ok :: "cycle_row \<Rightarrow> bool" where
  "row_ok row \<longleftrightarrow> 0 \<le> r_cycle row \<and> length (r_stages row) = 5 \<and>
     (\<forall>s \<in> set (r_stages row). 0 \<le> sv_uid s \<and> sv_uid s < 2 ^ 64)"

lemma collect_stages_ok:
  assumes d: "dict_ok os d" and row: "row_ok row" and os: "\<forall>x \<in> set os. occ_ok x \<and> fst x \<noteq> r_cycle row"
    and f: "foldE (collect_stage row) (enumerate 0 (r_stages row)) d = Inr d'"
  shows "dict_ok (os @ row_occs row (enumerate 0 (r_stages row))) d' \<and>
    (\<forall>x \<in> set (row_occs row (enumerate 0 (r_stages row))). occ_ok x)"
proof -
  let ?P = "\<lambda>ys d. dict_ok (os @ row_occs row ys) d \<and> (\<forall>x \<in> set (row_occs row ys). occ_ok x)"
  have "?P (enumerate 0 (r_stages row)) d'"
  proof (rule foldE_prefix_invariant [OF f])
    show "?P [] d" using d by (simp add: row_occs_def)
    fix ys x zs d1 d2
    assume sp: "enumerate 0 (r_stages row) = ys @ x # zs" and P: "?P ys d1" and st: "collect_stage row x d1 = Inr d2"
    obtain i s where x: "x = (i, s)" by (cases x)
    have mem: "(i, s) \<in> set (enumerate 0 (r_stages row))" unfolding sp x by simp
    then have "i < 5" "s \<in> set (r_stages row)"
      using row by (auto simp: row_ok_def in_set_enumerate_eq)
    then have b: "0 \<le> r_cycle row" "i < 5" "0 \<le> sv_uid s" "sv_uid s < 2 ^ 64" using row by (auto simp: row_ok_def)
    have ok: "occ_ok (r_cycle row, i, s)" if "sv_valid s"
      using b st that by (auto simp: occ_ok_def x collect_stage_def split: if_splits)
    have "distinct (map fst (enumerate 0 (r_stages row)))" by simp
    then have ni: "i \<notin> fst ` set ys" unfolding sp x by auto
    have fr: "\<forall>y \<in> set (os @ row_occs row ys). occ_ok y \<and> (fst y, fst (snd y)) \<noteq> (r_cycle row, i)"
    proof
      fix y assume "y \<in> set (os @ row_occs row ys)"
      then consider "y \<in> set os" | "y \<in> set (row_occs row ys)" by auto
      then show "occ_ok y \<and> (fst y, fst (snd y)) \<noteq> (r_cycle row, i)"
      proof cases
        case 2
        then obtain i' s' where "y = (r_cycle row, i', s')" "(i', s') \<in> set ys" by (auto simp: row_occs_def)
        with ni P 2 show ?thesis by force
      qed (use os in auto)
    qed
    have "dict_ok ((os @ row_occs row ys) @ (if sv_valid s then [(r_cycle row, i, s)] else [])) d2"
      by (rule collect_stage_ok [OF _ st [unfolded x] _ fr]) (use P ok in auto)
    moreover have "row_occs row (ys @ [x]) = row_occs row ys @ (if sv_valid s then [(r_cycle row, i, s)] else [])"
      by (simp add: row_occs_def x)
    ultimately show "?P (ys @ [x]) d2" using P ok by auto
  qed
  then show ?thesis .
qed

lemma collect_retire_ok:
  assumes d: "dict_ok os d" and row: "row_ok row" and c: "collect_retire row d = Inr d'"
  shows "dict_ok os d'"
proof (cases "r_retire_valid row")
  case False
  with c d show ?thesis by (simp add: collect_retire_def)
next
  case True
  let ?u = "sv_uid (r_stages row ! 4)"
  define r where "r = (case map_of d ?u of None \<Rightarrow> new_instruction ?u | Some r \<Rightarrow> r)"
  have r: "map_of d ?u = Some r \<or> (map_of d ?u = None \<and> r = new_instruction ?u)"
    by (auto simp: r_def split: option.split)
  have "r_stages row ! 4 \<in> set (r_stages row)" using row by (simp add: row_ok_def)
  then have u: "0 \<le> ?u" "?u < 2 ^ 64" using row by (auto simp: row_ok_def)
  let ?r = "retire_record row r" and ?d = "AList.update ?u (retire_record row r) d"
  have d': "d' = ?d"
    using c True r by (auto simp: collect_retire_def Let_def setdefault_instr_def map_of_update_iff update_again split: if_splits)
  have same: "stage_mset index uid ?r = stage_mset index uid r" for index uid
    by (simp add: stage_mset_def retire_record_def)
  have dist: "distinct (map fst d)" and keys: "\<forall>k r. map_of d k = Some r \<longrightarrow> key_ok os k r"
    and tot: "\<forall>index < 5. \<forall>uid. total (stage_mset index uid) d = occ_mset index uid os"
    and rec: "\<forall>oc \<in> set os. recorded d oc" using d by (simp_all add: dict_ok_def)
  have "total (stage_mset index uid) ?d = total (stage_mset index uid) d" for index uid
    using r
  proof
    assume "map_of d ?u = Some r"
    from total_update [OF dist this, of "stage_mset index uid" ?r] show ?thesis by (simp add: same)
  next
    assume "map_of d ?u = None \<and> r = new_instruction ?u"
    then show ?thesis using same [of index uid] by (simp add: total_insert)
  qed
  moreover have "key_ok os k' r'" if m: "map_of ?d k' = Some r'" for k' r'
  proof (cases "k' = ?u")
    case True
    with m have "r' = ?r" by (simp add: map_of_update_iff)
    moreover have "i_uid ?r = ?u"
      using r keys u by (auto simp: retire_record_def new_instruction_def key_ok_def)
    ultimately show ?thesis using True u by (simp add: key_ok_def)
  next
    case False
    with m keys show ?thesis by (simp add: map_of_update_iff)
  qed
  moreover have "recorded ?d x" if "x \<in> set os" for x
    by (rule recorded_update) (use rec that r in \<open>auto simp: retire_record_def\<close>)
  ultimately show ?thesis using dist tot by (simp add: dict_ok_def distinct_update d')
qed

lemma collect_instructions_ok:
  assumes c: "collect_instructions rows = Inr d" and ok: "\<forall>row \<in> set rows. row_ok row" and dis: "distinct (map r_cycle rows)"
  shows "dict_ok (trace_occs rows) d"
proof -
  let ?P = "\<lambda>ys d. dict_ok (trace_occs ys) d \<and> (\<forall>x \<in> set (trace_occs ys). occ_ok x \<and> fst x \<in> r_cycle ` set ys)"
  have "?P rows d"
  proof (rule foldE_prefix_invariant [OF c [unfolded collect_instructions_def]])
    show "?P [] []" by (simp add: trace_occs_def dict_ok_def total_def occ_mset_def)
    fix ys row zs d1 d2
    assume sp: "rows = ys @ row # zs" and P: "?P ys d1" and st: "collect_row row d1 = Inr d2"
    obtain d3 where f: "foldE (collect_stage row) (enumerate 0 (r_stages row)) d1 = Inr d3" and rt: "collect_retire row d3 = Inr d2"
      using st by (auto simp: collect_row_def)
    have row: "row_ok row" using ok sp by simp
    have fr: "\<forall>x \<in> set (trace_occs ys). occ_ok x \<and> fst x \<noteq> r_cycle row" using P dis sp by fastforce
    have D: "dict_ok (trace_occs ys @ row_occs row (enumerate 0 (r_stages row))) d3 \<and>
        (\<forall>x \<in> set (row_occs row (enumerate 0 (r_stages row))). occ_ok x)"
      by (rule collect_stages_ok [OF _ row fr f]) (use P in simp)
    then have "dict_ok (trace_occs ys @ row_occs row (enumerate 0 (r_stages row))) d2"
      using collect_retire_ok [OF _ row rt] by blast
    moreover have "trace_occs (ys @ [row]) = trace_occs ys @ row_occs row (enumerate 0 (r_stages row))"
      by (simp add: trace_occs_def)
    moreover have "fst x = r_cycle row" if "x \<in> set (row_occs row (enumerate 0 (r_stages row)))" for x
      using that by (auto simp: row_occs_def)
    ultimately show "?P (ys @ [row]) d2" using P D by auto
  qed
  then show ?thesis by blast
qed

lemma row_occs_filter:
  assumes "index < 5" "length (r_stages row) = 5"
  shows "filter (\<lambda>(_, i, stage). i = index \<and> sv_uid stage = uid) (row_occs row (enumerate 0 (r_stages row))) =
    (if sv_valid (r_stages row ! index) \<and> sv_uid (r_stages row ! index) = uid
     then [(r_cycle row, index, r_stages row ! index)] else [])"
proof -
  obtain a b c d e where s: "r_stages row = [a, b, c, d, e]"
    using assms(2) by (auto simp: numeral_eq_Suc length_Suc_conv)
  consider "index = 0" | "index = 1" | "index = 2" | "index = 3" | "index = 4" using assms(1) by linarith
  then show ?thesis by cases (simp_all add: s row_occs_def numeral_eq_Suc)
qed

lemma occ_mset_seen:
  assumes "index < 5" "\<forall>row \<in> set rows. row_ok row"
  shows "occ_mset index uid (trace_occs rows) = mset (seen rows index uid)"
  using assms(2)
proof (induction rows)
  case (Cons row rows)
  have "length (r_stages row) = 5" using Cons.prems by (simp add: row_ok_def)
  with Cons row_occs_filter [OF assms(1)] show ?case
    by (simp add: occ_mset_def trace_occs_def seen_def)
qed (simp add: occ_mset_def trace_occs_def seen_def)


lemma total_concat:
  "total (stage_mset index uid) d =
    mset (concat (map (\<lambda>(_, r). if i_uid r = uid then i_stage_cycles r (STAGES ! index) else []) d))"
  by (induction d) (auto simp: total_def stage_mset_def)

lemma in_trace_occs:
  assumes "row \<in> set rows" "index < length (r_stages row)" "sv_valid (r_stages row ! index)"
  shows "(r_cycle row, index, r_stages row ! index) \<in> set (trace_occs rows)"
proof -
  have "(index, r_stages row ! index) \<in> set (enumerate 0 (r_stages row))" using assms(2) by (simp add: in_set_enumerate_eq)
  with assms show ?thesis by (force simp: trace_occs_def row_occs_def)
qed

text \<open>
  C20: the collected instructions account for the whole trace. For an accepted trace with distinct,
  non-negative cycles, five stages per row and 64-bit UIDs: the records of a UID together hold, for each
  stage, exactly the cycles in which that UID occupied it (nothing lost, nothing twice), and every
  occupied stage of every row is in a record with its UID and its PC, so no record mixes two PCs.
\<close>

theorem collected_accounts_for_trace:
  assumes "collect_instructions rows = Inr d" "distinct (map r_cycle rows)"
    "\<forall>row \<in> set rows. 0 \<le> r_cycle row \<and> length (r_stages row) = 5 \<and>
       (\<forall>s \<in> set (r_stages row). 0 \<le> sv_uid s \<and> sv_uid s < 2 ^ 64)"
    "index < 5"
  shows "mset (concat (map (\<lambda>(_, r). if i_uid r = uid then i_stage_cycles r (STAGES ! index) else []) d)) =
      mset (map r_cycle (filter (\<lambda>row. sv_valid (r_stages row ! index) \<and> sv_uid (r_stages row ! index) = uid) rows)) \<and>
    (\<forall>row \<in> set rows. sv_valid (r_stages row ! index) \<longrightarrow>
      (\<exists>(_, r) \<in> set d. i_uid r = sv_uid (r_stages row ! index) \<and> i_pc r = Some (sv_pc (r_stages row ! index)) \<and>
         r_cycle row \<in> set (i_stage_cycles r (STAGES ! index))))"
proof -
  have ok: "\<forall>row \<in> set rows. row_ok row" using assms(3) by (simp add: row_ok_def)
  note dk = collect_instructions_ok [OF assms(1) ok assms(2)]
  have "total (stage_mset index uid) d = occ_mset index uid (trace_occs rows)" using dk assms(4) by (simp add: dict_ok_def)
  moreover have "\<exists>(_, r) \<in> set d. i_uid r = sv_uid (r_stages row ! index) \<and> i_pc r = Some (sv_pc (r_stages row ! index)) \<and>
         r_cycle row \<in> set (i_stage_cycles r (STAGES ! index))"
    if "row \<in> set rows" "sv_valid (r_stages row ! index)" for row
  proof -
    have "index < length (r_stages row)" using ok that(1) assms(4) by (simp add: row_ok_def)
    from in_trace_occs [OF that(1) this that(2)] dk
    have "recorded d (r_cycle row, index, r_stages row ! index)" by (simp add: dict_ok_def)
    then show ?thesis by (force simp: recorded_def dest: map_of_SomeD)
  qed
  ultimately show ?thesis
    using occ_mset_seen [OF assms(4) ok, of uid] by (simp add: total_concat seen_def)
qed

definition demo_row :: "int \<Rightarrow> int \<Rightarrow> int \<Rightarrow> int \<Rightarrow> int \<Rightarrow> cycle_row" where
  "demo_row cycle if_uid if_pc id_uid id_pc =
     \<lparr>r_cycle = cycle, r_valid = 3, r_stall = 0, r_flush = 1, r_advance = 0, r_events = 0, r_stall_causes = 0,
      r_stages = [\<lparr>sv_valid = True, sv_uid = if_uid, sv_pc = if_pc, sv_instr = 19\<rparr>,
                  \<lparr>sv_valid = True, sv_uid = id_uid, sv_pc = id_pc, sv_instr = 19\<rparr>,
                  \<lparr>sv_valid = False, sv_uid = 0, sv_pc = 0, sv_instr = 0\<rparr>,
                  \<lparr>sv_valid = False, sv_uid = 0, sv_pc = 0, sv_instr = 0\<rparr>,
                  \<lparr>sv_valid = False, sv_uid = 0, sv_pc = 0, sv_instr = 0\<rparr>],
      r_retire_valid = False, r_retire_arch = False, r_retire_exception = False, r_retire_cause = 0,
      r_retire_next_pc = 0, r_retire_rd_write = False, r_retire_rd = 0, r_retire_wdata = 0\<rparr>"

text \<open>In the second row the fetch stage shows UID 1 with another PC while it is flushed.\<close>

definition demo_rows :: "cycle_row list" where
  "demo_rows = [demo_row 5 2 8 1 4, demo_row 6 1 12 2 8]"

theorem collected_accounts_for_trace_witness:
  "\<exists>d. collect_instructions demo_rows = Inr d \<and> length d = 3 \<and>
    mset (concat (map (\<lambda>(_, r). if i_uid r = 1 then i_stage_cycles r (STAGES ! 0) else []) d)) = {# 6 #}"
proof -
  have "case collect_instructions demo_rows of Inl _ \<Rightarrow> False | Inr d \<Rightarrow> length d = 3" by code_simp
  then obtain d where d: "collect_instructions demo_rows = Inr d" "length d = 3" by (auto split: sum.splits)
  have "distinct (map r_cycle demo_rows)" "\<forall>row \<in> set demo_rows. 0 \<le> r_cycle row \<and> length (r_stages row) = 5 \<and>
       (\<forall>s \<in> set (r_stages row). 0 \<le> sv_uid s \<and> sv_uid s < 2 ^ 64)"
    by (simp_all add: demo_rows_def demo_row_def)
  from collected_accounts_for_trace [OF d(1) this, of 0 1] d show ?thesis
    by (auto simp: demo_rows_def demo_row_def)
qed

end
