(* ===== verification/Trace3P.thy ===== *)
theory Trace3P
  imports PyFormat
begin

unbundle bit_operations_syntax

text \<open>
  \<open>tools/pipeline_trace_3p.py\<close>: the report over a three-wide cycle trace (schemas v1 and v2). A row is its
  schema and the integer value of every field. Where the source walks a Python set of field names, whose
  order is unspecified, only the fact that some field is malformed is modelled, not which is found first.
\<close>

section \<open>Schemas and fields\<close>

definition V1 :: string where "V1 = ''openrv64-3p-cycle-v1''"
definition V2 :: string where "V2 = ''openrv64-3p-cycle-v2''"
definition SCHEMAS :: "string list" where "SCHEMAS = [V1, V2]"

type_synonym stage = "string \<times> string \<times> string"

definition STAGES_V1 :: "stage list" where
  "STAGES_V1 = [(''F'', ''fetch_valid'', ''f''), (''D'', ''decode_valid'', ''d''), (''I'', ''issue_valid'', ''i''),
     (''C'', ''complete_valid'', ''c''), (''R'', ''retire_valid'', ''r'')]"

definition STAGES_V2 :: "stage list" where
  "STAGES_V2 = [(''F'', ''fetch_valid'', ''f''), (''D'', ''decode_valid'', ''d''), (''Q'', ''queue_valid'', ''q''),
     (''I'', ''issue_valid'', ''i''), (''C'', ''complete_valid'', ''c''), (''R'', ''retire_valid'', ''r'')]"

definition BASE_HEX_FIELDS :: "string list" where
  "BASE_HEX_FIELDS =
     [''fetch_valid'', ''fetch_ready'', ''fetch_fire'', ''decode_valid'', ''decode_ready'', ''decode_fire'',
      ''issue_valid'', ''complete_valid'', ''retire_valid'', ''raw'', ''waw'', ''read_port'', ''write_busy'',
      ''stall_causes'']"

definition BASE_DEC_FIELDS :: "string list" where
  "BASE_DEC_FIELDS =
     [''cycle'', ''retire_count'', ''dispatch_q'', ''retire_q'', ''barrier'', ''bp_present'', ''bp_allocate'',
      ''bp_taken'', ''bp_fetch_stall'', ''bp_decode_stall'', ''redirect'', ''fetch_req_valid'', ''fetch_req_ready'',
      ''fetch_resp_valid'', ''axi_arvalid'', ''axi_arready'']"

definition V2_HEX_FIELDS :: "string list" where
  "V2_HEX_FIELDS =
     [''queue_valid'', ''candidate_fire'', ''candidate_hazard_free'', ''candidate_pipe'', ''pipe_ready'',
      ''barrier_allow'', ''raw_existing'', ''raw_bundle'', ''raw_completed'', ''raw_rs1'', ''raw_rs2'', ''waw_bundle'',
      ''waw_completed'', ''candidate_uses_rs1'', ''candidate_uses_rs2'', ''candidate_reg_write'', ''candidate_rs1'',
      ''candidate_rs2'', ''candidate_rd'', ''queue_retire_valid'', ''completed_entries'', ''fetch_line_valid'',
      ''fetch_pending'', ''lsu_slots'', ''lsu_sent'']"

definition V2_DEC_FIELDS :: "string list" where
  "V2_DEC_FIELDS =
     [''allocation_ready'', ''block_lane'', ''block_reason'', ''control_flush'', ''control_redirect'', ''fetch_bus_q'',
      ''fetch_consume_hit'', ''fetch_follow_hit'', ''fetch_active'', ''mem_req_valid'', ''mem_req_ready'',
      ''mem_resp_valid'', ''mem_resp_ready'', ''mem_write'', ''lsu_store_inflight'', ''lsu_order_block'']"

definition V2_OPTIONAL_HEX_FIELDS :: "string list" where
  "V2_OPTIONAL_HEX_FIELDS =
     [''retire_gpr_write'', ''retire_gpr_rd'', ''retire_gpr_data'', ''mem_req_tag'', ''mem_req_addr'',
      ''mem_req_wdata'', ''mem_req_wstrb'', ''mem_resp_tag'', ''mem_resp_rdata'']"

definition V2_OPTIONAL_DEC_FIELDS :: "string list" where
  "V2_OPTIONAL_DEC_FIELDS =
     [''window_unissued'', ''window_operand_ready'', ''window_eligible'', ''window_raw_block'', ''window_hard_block'',
      ''window_mem_order_block'', ''window_selected'', ''window_issued'']"

definition BLOCK_REASONS :: "string list" where
  "BLOCK_REASONS =
     [''none'', ''raw_pending'', ''raw_bundle'', ''raw_completed'', ''waw_pending'', ''waw_bundle'', ''waw_completed'',
      ''read_port'', ''barrier'', ''retire_capacity'', ''pipe_conflict'', ''pipe_busy'', ''invalid_pipe'',
      ''branch_redirect'', ''unknown'']"

definition PIPE_NAMES :: "string list" where
  "PIPE_NAMES = [''EX0'', ''EX1'', ''MEM'', ''INVALID'']"

definition is_v2 :: "string \<Rightarrow> bool" where
  "is_v2 schema \<longleftrightarrow> ends_with ''v2'' schema"

definition stages_for_schema :: "string \<Rightarrow> stage list" where
  "stages_for_schema schema = (if is_v2 schema then STAGES_V2 else STAGES_V1)"

section \<open>Loading\<close>

record row3 =
  schema :: string
  field :: "string \<Rightarrow> int"

datatype error3 =
    NoHeader
  | NoRows
  | NoSchemaColumn
  | MixedSchemas "string list"
  | MixedWithNone
  | UnsupportedSchema string
  | MissingColumns "string list"
  | BadNumber nat
  | UidZero nat string nat
  | ChangedIdentity nat int
  | CycleNotFound int
  | UidNotFound int
  | UnknownReason string
  | ReasonNotFound string
  | PcNotFound int

definition int_of :: "nat \<Rightarrow> csv_row \<Rightarrow> nat \<Rightarrow> string \<Rightarrow> error3 + int" where
  "int_of line_number raw base name = int_cell (\<lambda>_. BadNumber line_number) base raw name"

definition set_fields :: "nat \<Rightarrow> csv_row \<Rightarrow> nat \<Rightarrow> string list \<Rightarrow> (string \<Rightarrow> int) \<Rightarrow> error3 + (string \<Rightarrow> int)" where
  "set_fields line_number raw base names row =
     foldE (\<lambda>name row. bindE (int_of line_number raw base name) (\<lambda>v. Inr (row(name := v)))) names row"

definition hex_fields3 :: "string \<Rightarrow> string list" where
  "hex_fields3 s = BASE_HEX_FIELDS @ (if is_v2 s then V2_HEX_FIELDS else [])"

definition dec_fields3 :: "string \<Rightarrow> string list" where
  "dec_fields3 s = BASE_DEC_FIELDS @ (if is_v2 s then V2_DEC_FIELDS else [])"

definition slot_col :: "string \<Rightarrow> nat \<Rightarrow> string \<Rightarrow> string" where
  "slot_col prefix lane suffix = prefix @ nat_str 10 lane @ suffix"

definition required3 :: "string \<Rightarrow> string list" where
  "required3 s =
     ''schema'' # hex_fields3 s @ dec_fields3 s @
     concat (map (\<lambda>(_, _, prefix).
       concat (map (\<lambda>lane. [slot_col prefix lane ''_uid'', slot_col prefix lane ''_pc'', slot_col prefix lane ''_instr'']) lanes3))
       (stages_for_schema s))"

type_synonym identities = "int \<rightharpoonup> int \<times> int"

definition load_slot ::
  "nat \<Rightarrow> csv_row \<Rightarrow> int \<Rightarrow> string \<Rightarrow> nat \<Rightarrow> (string \<Rightarrow> int) \<times> identities \<Rightarrow>
   error3 + ((string \<Rightarrow> int) \<times> identities)" where
  "load_slot line_number raw msk prefix lane ri =
     (case ri of (row, identities) \<Rightarrow>
      bindE (int_of line_number raw 16 (slot_col prefix lane ''_uid'')) (\<lambda>uid.
      bindE (int_of line_number raw 16 (slot_col prefix lane ''_pc'')) (\<lambda>pc.
      bindE (int_of line_number raw 16 (slot_col prefix lane ''_instr'')) (\<lambda>instr.
      let row = row(slot_col prefix lane ''_uid'' := uid, slot_col prefix lane ''_pc'' := pc,
                    slot_col prefix lane ''_instr'' := instr)
      in if \<not> flag_bit msk lane then Inr (row, identities)
         else if uid = 0 then Inl (UidZero line_number prefix lane)
         else if prefix \<in> {''q'', ''i'', ''c'', ''r''}
         then let identities = setdefault identities uid (pc, instr) in
              if identities uid \<noteq> Some (pc, instr) then Inl (ChangedIdentity line_number uid)
              else Inr (row, identities)
         else Inr (row, identities)))))"

definition load_stage3 ::
  "nat \<Rightarrow> csv_row \<Rightarrow> stage \<Rightarrow> (string \<Rightarrow> int) \<times> identities \<Rightarrow> error3 + ((string \<Rightarrow> int) \<times> identities)" where
  "load_stage3 line_number raw st ri =
     (case st of (_, mask_field, prefix) \<Rightarrow>
        foldE (load_slot line_number raw (fst ri mask_field) prefix) lanes3 ri)"

definition load_fields ::
  "string list \<Rightarrow> string \<Rightarrow> nat \<Rightarrow> csv_row \<Rightarrow> error3 + (string \<Rightarrow> int)" where
  "load_fields fieldnames s line_number raw =
     bindE (set_fields line_number raw 16 (hex_fields3 s) (\<lambda>_. 0)) (\<lambda>row.
     bindE (set_fields line_number raw 10 (dec_fields3 s) row) (\<lambda>row.
     let row = row(''data_fields_present'' := of_bool (set V2_OPTIONAL_HEX_FIELDS \<subseteq> set fieldnames),
                   ''window_fields_present'' := of_bool (set V2_OPTIONAL_DEC_FIELDS \<subseteq> set fieldnames)) in
     bindE (set_fields line_number raw 16 (filter (\<lambda>f. f \<in> set fieldnames) V2_OPTIONAL_HEX_FIELDS) row) (\<lambda>row.
     bindE (set_fields line_number raw 10 (filter (\<lambda>f. f \<in> set fieldnames) V2_OPTIONAL_DEC_FIELDS) row) (\<lambda>row.
       Inr (if is_v2 s then row else row(''block_lane'' := 3))))))"

definition load_row3 ::
  "string list \<Rightarrow> string \<Rightarrow> nat \<times> csv_row \<Rightarrow> row3 list \<times> identities \<Rightarrow> error3 + (row3 list \<times> identities)" where
  "load_row3 fieldnames s lraw acc =
     (case lraw of (line_number, raw) \<Rightarrow> case acc of (rows, identities) \<Rightarrow>
      bindE (load_fields fieldnames s line_number raw) (\<lambda>row.
      bindE (foldE (load_stage3 line_number raw) (stages_for_schema s) (row, identities)) (\<lambda>(row, identities).
        Inr (rows @ [\<lparr>schema = s, field = row\<rparr>], identities))))"

definition schemas_of :: "csv_row list \<Rightarrow> string option list" where
  "schemas_of raws = remdups (map (\<lambda>raw. case cell_of raw ''schema'' of None \<Rightarrow> None | Some v \<Rightarrow> v) raws)"

definition load3 :: "string list list \<Rightarrow> error3 + row3 list" where
  "load3 lines =
     (case dict_reader lines of
        None \<Rightarrow> Inl NoHeader
      | Some (fieldnames, raws) \<Rightarrow>
          if raws = [] then Inl NoRows
          else if ''schema'' \<notin> set fieldnames then Inl NoSchemaColumn
          else
            (case schemas_of raws of
               [Some s] \<Rightarrow>
                 if s \<notin> set SCHEMAS then Inl (UnsupportedSchema s)
                 else
                   let missing = sorted_distinct (filter (\<lambda>c. c \<notin> set fieldnames) (required3 s)) in
                   if missing \<noteq> [] then Inl (MissingColumns missing)
                   else bindE (foldE (load_row3 fieldnames s) (enumerate 2 raws) ([], Map.empty)) (\<lambda>(rows, _). Inr rows)
             | [None] \<Rightarrow> Inl (UnsupportedSchema ''None'')
             | ss \<Rightarrow> if None \<in> set ss then Inl MixedWithNone else Inl (MixedSchemas (sort (map the ss)))))"


section \<open>Labels\<close>

definition lane_value :: "row3 \<Rightarrow> string \<Rightarrow> nat \<Rightarrow> int" where
  "lane_value row name lane = drop_bit (lane * 5) (field row name) AND 0x1F"

definition candidate_pipe :: "row3 \<Rightarrow> nat \<Rightarrow> int" where
  "candidate_pipe row lane = drop_bit (lane * 2) (field row ''candidate_pipe'') AND 3"

definition nz :: "row3 \<Rightarrow> string \<Rightarrow> bool" where
  "nz row name \<longleftrightarrow> field row name \<noteq> 0"

definition uid_at_pc :: "int \<Rightarrow> int \<Rightarrow> string" where
  "uid_at_pc uid pc = hex uid @ ''@'' @ hex0 4 (pc AND 0xffff)"

definition stage_text :: "row3 \<Rightarrow> string \<Rightarrow> string \<Rightarrow> string" where
  "stage_text row mask_field prefix =
     (let values = map (\<lambda>lane. uid_at_pc (field row (slot_col prefix lane ''_uid'')) (field row (slot_col prefix lane ''_pc'')))
                     (filter (flag_bit (field row mask_field)) lanes3)
      in if values \<noteq> [] then str_join ''/'' values else ''-'')"

definition dict_get :: "string list \<Rightarrow> int \<Rightarrow> string option" where
  "dict_get xs key = (if 0 \<le> key \<and> key < int (length xs) then Some (xs ! nat key) else None)"

definition reason_name :: "int \<Rightarrow> string" where
  "reason_name reason =
     upper (case dict_get BLOCK_REASONS reason of Some n \<Rightarrow> n | None \<Rightarrow> ''reason_'' @ dec reason)"

definition block_text :: "row3 \<Rightarrow> string option" where
  "block_text row =
     (if \<not> is_v2 (schema row) then None
      else if field row ''block_reason'' = 0 then None
      else
        let lane = field row ''block_lane''; name = reason_name (field row ''block_reason'') in
        if \<not> (0 \<le> lane \<and> lane < 3) then Some (''BLOCK='' @ name @ ''@Q?'')
        else
          let ln = nat lane;
              pipe = (case dict_get PIPE_NAMES (candidate_pipe row ln) of Some p \<Rightarrow> p | None \<Rightarrow> ''?'');
              details =
                (if flag_bit (field row ''raw_rs1'') ln then [''rs1=x'' @ dec (lane_value row ''candidate_rs1'' ln)] else []) @
                (if flag_bit (field row ''raw_rs2'') ln then [''rs2=x'' @ dec (lane_value row ''candidate_rs2'' ln)] else []) @
                (if starts_with ''WAW'' name then [''rd=x'' @ dec (lane_value row ''candidate_rd'' ln)] else []);
              suffix = (if details \<noteq> [] then ''('' @ str_join '','' details @ '')'' else '''')
          in Some (''BLOCK='' @ name @ ''@Q'' @ dec lane @ '':'' @
                   uid_at_pc (field row (slot_col ''q'' ln ''_uid'')) (field row (slot_col ''q'' ln ''_pc'')) @
                   ''/'' @ pipe @ suffix))"

definition write_label :: "row3 \<Rightarrow> nat \<Rightarrow> string" where
  "write_label row lane =
     ''WB'' @ nat_str 10 lane @ ''=x'' @ dec (drop_bit (lane * 5) (field row ''retire_gpr_rd'') AND 0x1f) @ '':'' @
     hex (take_bit 64 (drop_bit (lane * 64) (field row ''retire_gpr_data'')))"

definition data_labels :: "row3 \<Rightarrow> string list" where
  "data_labels row =
     (if nz row ''mem_req_valid'' \<and> nz row ''mem_req_ready'' then
        [if nz row ''mem_write''
         then ''MEMW[t'' @ dec (field row ''mem_req_tag'') @ '']@'' @ hex (field row ''mem_req_addr'') @ ''='' @
              hex (field row ''mem_req_wdata'') @ ''/'' @ hex0 2 (field row ''mem_req_wstrb'')
         else ''MEMR[t'' @ dec (field row ''mem_req_tag'') @ '']@'' @ hex (field row ''mem_req_addr'')] else []) @
     (if nz row ''mem_resp_valid'' \<and> nz row ''mem_resp_ready''
      then [''MEMRESP[t'' @ dec (field row ''mem_resp_tag'') @ '']='' @ hex (field row ''mem_resp_rdata'')] else []) @
     map (write_label row) (filter (flag_bit (field row ''retire_gpr_write'')) lanes3)"

definition stall_labels :: "row3 \<Rightarrow> string" where
  "stall_labels row =
     (let labels =
        (case block_text row of None \<Rightarrow> [] | Some b \<Rightarrow> [b]) @
        (if nz row ''raw'' then [''RAW='' @ hex (field row ''raw'')] else []) @
        (if nz row ''waw'' then [''WAW='' @ hex (field row ''waw'')] else []) @
        (if nz row ''read_port'' then [''RPORT='' @ hex (field row ''read_port'')] else []) @
        (if nz row ''barrier'' then [''BARRIER''] else []) @
        (if nz row ''bp_fetch_stall'' \<or> nz row ''bp_decode_stall'' then [''BPSTALL''] else []) @
        (if nz row ''redirect'' then [''REDIRECT''] else []) @
        (if nz row ''fetch_req_valid'' \<and> \<not> nz row ''fetch_req_ready'' then [''IF_REQ_WAIT''] else []) @
        (if nz row ''mem_req_valid'' \<and> \<not> nz row ''mem_req_ready'' then [''LSU_REQ_WAIT''] else []) @
        (if nz row ''lsu_order_block'' then [''LSU_ORDER''] else []) @
        (if nz row ''dispatch_q'' \<and> \<not> nz row ''issue_valid'' then [''NOISSUE''] else []) @
        (if nz row ''data_fields_present'' then data_labels row else [])
      in if labels \<noteq> [] then str_join ''+'' labels else ''-'')"

section \<open>The summary\<close>

text \<open>\<open>int.bit_count\<close> of the absolute value.\<close>

function bit_count :: "nat \<Rightarrow> nat" where
  "bit_count n = (if n = 0 then 0 else n mod 2 + bit_count (n div 2))"
  by pat_completeness auto
termination by (relation "measure id") auto

declare bit_count.simps [simp del]

definition popcount :: "int \<Rightarrow> int" where
  "popcount v = int (bit_count (nat \<bar>v\<bar>))"

text \<open>The counters of every row, and those of a v2 row, as (name, condition) in the order of the source.\<close>

definition counters :: "(string \<times> (row3 \<Rightarrow> bool)) list" where
  "counters =
     [(''frontend_empty'', \<lambda>r. \<not> nz r ''fetch_valid''),
      (''frontend_held'', \<lambda>r. nz r ''fetch_valid'' \<and> \<not> nz r ''fetch_fire''),
      (''dispatch_empty'', \<lambda>r. \<not> nz r ''dispatch_q''),
      (''queued_no_issue'', \<lambda>r. nz r ''dispatch_q'' \<and> \<not> nz r ''issue_valid''),
      (''queued_raw'', \<lambda>r. nz r ''dispatch_q'' \<and> nz r ''raw''),
      (''queued_waw'', \<lambda>r. nz r ''dispatch_q'' \<and> nz r ''waw''),
      (''queued_read_port'', \<lambda>r. nz r ''dispatch_q'' \<and> nz r ''read_port''),
      (''queued_barrier'', \<lambda>r. nz r ''dispatch_q'' \<and> nz r ''barrier''),
      (''retire_wait'', \<lambda>r. nz r ''retire_q'' \<and> \<not> nz r ''retire_valid''),
      (''bp_stall'', \<lambda>r. nz r ''bp_fetch_stall'' \<or> nz r ''bp_decode_stall''),
      (''redirect'', \<lambda>r. nz r ''redirect''),
      (''if_request_wait'', \<lambda>r. nz r ''fetch_req_valid'' \<and> \<not> nz r ''fetch_req_ready'')]"

definition head_incomplete :: "row3 \<Rightarrow> bool" where
  "head_incomplete r \<longleftrightarrow> nz r ''retire_q'' \<and> \<not> flag_bit (field r ''queue_retire_valid'') 0"

definition v2_counters :: "(string \<times> (row3 \<Rightarrow> bool)) list" where
  "v2_counters =
     [(''retire_head_incomplete'', head_incomplete),
      (''completed_behind_head'', \<lambda>r. head_incomplete r \<and> nz r ''completed_entries''),
      (''lsu_pipe_full'', \<lambda>r. field r ''block_reason'' = 11 \<and> 0 \<le> field r ''block_lane'' \<and> field r ''block_lane'' < 3 \<and>
         candidate_pipe r (nat (field r ''block_lane'')) = 2),
      (''lsu_request_wait'', \<lambda>r. nz r ''mem_req_valid'' \<and> \<not> nz r ''mem_req_ready''),
      (''lsu_outstanding'', \<lambda>r. nz r ''lsu_sent''),
      (''lsu_order_block'', \<lambda>r. nz r ''lsu_order_block'')]"

definition window_counters :: "(string \<times> (row3 \<Rightarrow> bool)) list" where
  "window_counters =
     [(''window_live'', \<lambda>r. nz r ''window_unissued''),
      (''window_full'', \<lambda>r. 16 \<le> field r ''dispatch_q''),
      (''window_no_eligible'', \<lambda>r. nz r ''window_unissued'' \<and> \<not> nz r ''window_eligible''),
      (''window_raw_blocked'', \<lambda>r. nz r ''window_raw_block''),
      (''window_hard_blocked'', \<lambda>r. nz r ''window_hard_block''),
      (''window_mem_order_blocked'', \<lambda>r. nz r ''window_mem_order_block'')]"

definition frontend_cause :: "row3 \<Rightarrow> string option" where
  "frontend_cause r =
     (if nz r ''fetch_valid'' then None
      else if nz r ''control_flush'' \<or> nz r ''control_redirect'' then Some ''frontend_control''
      else if nz r ''bp_fetch_stall'' then Some ''frontend_bp_stall''
      else if \<not> nz r ''fetch_consume_hit'' \<and> (nz r ''fetch_pending'' \<or> nz r ''fetch_bus_q'') then Some ''frontend_refill_wait''
      else if \<not> nz r ''fetch_consume_hit'' then Some ''frontend_no_line''
      else Some ''frontend_other_empty'')"

definition FRONTEND_CAUSES :: "string list" where
  "FRONTEND_CAUSES =
     [''frontend_control'', ''frontend_bp_stall'', ''frontend_refill_wait'', ''frontend_no_line'',
      ''frontend_other_empty'']"

definition counts_of :: "row3 \<Rightarrow> string list" where
  "counts_of row =
     map fst (filter (\<lambda>(_, P). P row) counters) @
     (if is_v2 (schema row)
      then map fst (filter (\<lambda>(_, P). P row) v2_counters) @
           (if nz row ''window_fields_present'' then map fst (filter (\<lambda>(_, P). P row) window_counters) else []) @
           (case frontend_cause row of None \<Rightarrow> [] | Some c \<Rightarrow> [c])
      else [])"

definition counted :: "row3 list \<Rightarrow> string \<Rightarrow> int" where
  "counted rows name = int (count_list (concat (map counts_of rows)) name)"

definition reason_count :: "row3 list \<Rightarrow> int \<Rightarrow> int" where
  "reason_count rows reason = count_if (\<lambda>r. field r ''block_reason'' = reason) rows"

definition pct :: "int \<Rightarrow> int \<Rightarrow> string" where
  "pct a b = rjust 7 (percent 2 (float_div a b))"

definition count_line :: "row3 list \<Rightarrow> string \<Rightarrow> string" where
  "count_line rows name =
     ''    '' @ ljust 24 name @ '' '' @ dec_w 6 (counted rows name) @ ''  '' @
     pct (counted rows name) (int (length rows))"

definition stage_line :: "row3 list \<Rightarrow> stage \<Rightarrow> string" where
  "stage_line rows st =
     (case st of (name, mask_field, _) \<Rightarrow>
      let cycles = int (length rows);
          active = count_if (\<lambda>r. nz r mask_field) rows;
          slots = sum_list (map (\<lambda>r. popcount (field r mask_field)) rows)
      in ''  '' @ ljust 5 name @ '' '' @ dec_w 5 active @ ''/'' @ ljust 5 (dec cycles) @ '' '' @ dec_w 7 slots @ ''/'' @
         ljust 7 (dec (cycles * 3)) @ '' '' @ pct slots (cycles * 3))"

definition reason_line :: "row3 list \<Rightarrow> nat \<Rightarrow> string" where
  "reason_line rows reason =
     (let cycles = int (length rows); n = reason_count rows (int reason); blocked = cycles - reason_count rows 0
      in ''    '' @ ljust 20 (BLOCK_REASONS ! reason) @ '' '' @ dec_w 6 n @ ''  '' @ pct n cycles @ '' cycles  '' @
         (if blocked \<noteq> 0 then pct n blocked else rjust 7 (percent 2 (0, 1))) @ '' blocked'')"

definition average_line :: "row3 list \<Rightarrow> string \<Rightarrow> string" where
  "average_line rows name =
     ''    avg_'' @ ljust 20 name @ '' '' @
     rjust 7 (fixed 3 (float_div (sum_list (map (\<lambda>r. field r name) rows)) (int (length rows))))"

definition v2_lines :: "row3 list \<Rightarrow> string list" where
  "v2_lines rows =
     [''  first_nonissued_candidate (exclusive; hazards take precedence):''] @
     map (reason_line rows) [1..<14] @
     [''  retirement_head:''] @ map (count_line rows) [''retire_head_incomplete'', ''completed_behind_head''] @
     [''  lsu:''] @
     map (count_line rows) [''lsu_pipe_full'', ''lsu_request_wait'', ''lsu_outstanding'', ''lsu_order_block''] @
     [''  frontend_empty (exclusive):''] @ map (count_line rows) FRONTEND_CAUSES @
     (if nz (hd rows) ''window_fields_present''
      then [''  issue_window:''] @ map (count_line rows) (map fst window_counters) @
           map (average_line rows)
             [''window_unissued'', ''window_operand_ready'', ''window_eligible'', ''window_selected'', ''window_issued'']
      else [])"

definition summary3 :: "row3 list \<Rightarrow> string list" where
  "summary3 rows =
     (let cycles = int (length rows);
          s = schema (hd rows);
          retired = sum_list (map (\<lambda>r. field r ''retire_count'') rows)
      in [''SUMMARY'', ''  schema='' @ s,
          ''  cycles='' @ dec cycles @ '' retired='' @ dec retired @ '' IPC='' @ fixed 4 (float_div retired cycles),
          ''  stage  active_cycles  occupied_slots  slot_utilization''] @
         map (stage_line rows) (stages_for_schema s) @
         (if is_v2 s then v2_lines rows else []) @
         [''  observations (overlapping, not causal attribution):''] @
         map (count_line rows) (map fst counters))"

section \<open>The window around an anchor\<close>

definition slot_shows :: "int \<Rightarrow> row3 \<Rightarrow> bool" where
  "slot_shows uid row \<longleftrightarrow>
     (\<exists>(_, mask_field, prefix) \<in> set (stages_for_schema (schema row)). \<exists>lane \<in> set lanes3.
        flag_bit (field row mask_field) lane \<and> field row (slot_col prefix lane ''_uid'') = uid)"

definition retires_pc :: "int \<Rightarrow> row3 \<Rightarrow> bool" where
  "retires_pc pc row \<longleftrightarrow>
     (\<exists>lane \<in> set lanes3. flag_bit (field row ''retire_valid'') lane \<and> field row (slot_col ''r'' lane ''_pc'') = pc)"

definition find_anchor ::
  "row3 list \<Rightarrow> int option \<Rightarrow> int option \<Rightarrow> int option \<Rightarrow> string option \<Rightarrow> error3 + nat" where
  "find_anchor rows pc uid cycle block_reason =
     (case cycle of
        Some c \<Rightarrow> of_option (CycleNotFound c) (find_index (\<lambda>row. c \<le> field row ''cycle'') rows)
      | None \<Rightarrow>
     (case uid of
        Some u \<Rightarrow> of_option (UidNotFound u) (find_index (slot_shows u) rows)
      | None \<Rightarrow>
     (case block_reason of
        Some name \<Rightarrow>
          bindE (of_option (UnknownReason name) (find_index (\<lambda>n. n = name) BLOCK_REASONS)) (\<lambda>reason.
            of_option (ReasonNotFound name) (find_index (\<lambda>row. field row ''block_reason'' = int reason) rows))
      | None \<Rightarrow>
     (case pc of
        None \<Rightarrow> Inr 0
      | Some p \<Rightarrow> of_option (PcNotFound p) (find_index (retires_pc p) rows)))))"

definition window_line :: "stage list \<Rightarrow> row3 \<Rightarrow> string" where
  "window_line stages row =
     ''  '' @ dec_w 5 (field row ''cycle'') @ '' | '' @
     str_join '' | '' (map (\<lambda>(_, mask_field, prefix). clip 17 (stage_text row mask_field prefix)) stages) @ '' | '' @
     dec (field row ''dispatch_q'') @ ''/'' @ dec (field row ''retire_q'') @ ''   | '' @ stall_labels row"

definition window3 :: "row3 list \<Rightarrow> nat \<Rightarrow> int \<Rightarrow> string list" where
  "window3 rows start n =
     (let stages = stages_for_schema (schema (hd rows));
          stop = int start + n;
          stop = (if 0 \<le> stop then nat stop else length rows - nat (- stop))
      in ['''', ''PIPELINE WINDOW'',
          ''  cyc | '' @ str_join '' | '' (map (\<lambda>(name, _, _). ljust 17 name) stages) @ '' | dq/rq | stalls''] @
         map (window_line stages) (slice start stop rows))"

definition report3 ::
  "string list list \<Rightarrow> int option \<Rightarrow> int option \<Rightarrow> int option \<Rightarrow> string option \<Rightarrow> int \<Rightarrow> int \<Rightarrow> error3 + string list" where
  "report3 lines around_pc around_uid start_cycle block_reason before rows_shown =
     bindE (load3 lines) (\<lambda>rows.
     bindE (find_anchor rows around_pc around_uid start_cycle block_reason) (\<lambda>anchor.
       Inr (summary3 rows @ window3 rows (nat (max 0 (int anchor - before))) rows_shown)))"

end
