(* ===== verification/Trace3PProps.thy ===== *)
theory Trace3PProps
  imports Trace3P
begin

text \<open>
  What the three-wide report relies on: a loaded trace gives every UID one identity from the dispatch
  queue on, an anchor is the first matching row, and the causes of an empty front end are exclusive.
\<close>

section \<open>The anchor\<close>

definition first_index :: "('a \<Rightarrow> bool) \<Rightarrow> 'a list \<Rightarrow> nat \<Rightarrow> bool" where
  "first_index P xs i \<longleftrightarrow> i < length xs \<and> P (xs ! i) \<and> (\<forall>j < i. \<not> P (xs ! j))"

lemma find_index_first: "find_index P xs = Some i \<longleftrightarrow> first_index P xs i"
proof
  assume f: "first_index P xs i"
  then have "find_index P xs \<noteq> None" by (auto simp: first_index_def find_index_None)
  then obtain k where k: "find_index P xs = Some k" by blast
  have "k = i" using find_index_Some [OF k] f unfolding first_index_def by (metis linorder_neqE_nat)
  with k show "find_index P xs = Some i" by simp
qed (use find_index_Some in \<open>auto simp: first_index_def\<close>)

definition anchor_criterion :: "int option \<Rightarrow> int option \<Rightarrow> int option \<Rightarrow> string option \<Rightarrow> row3 \<Rightarrow> bool" where
  "anchor_criterion pc uid cycle block_reason row \<longleftrightarrow>
     (case (cycle, uid, block_reason, pc) of
        (Some c, _) \<Rightarrow> c \<le> field row ''cycle''
      | (None, Some u, _) \<Rightarrow> slot_shows u row
      | (None, None, Some name, _) \<Rightarrow> \<exists>b < length BLOCK_REASONS. BLOCK_REASONS ! b = name \<and> field row ''block_reason'' = int b
      | (None, None, None, Some p) \<Rightarrow> retires_pc p row
      | (None, None, None, None) \<Rightarrow> True)"

lemma first_index_unique: "first_index P xs i \<Longrightarrow> first_index P xs j \<Longrightarrow> i = j"
  unfolding first_index_def by (metis linorder_neqE_nat)

lemma find_index_reason:
  assumes "b < length BLOCK_REASONS"
  shows "find_index (\<lambda>n. n = BLOCK_REASONS ! b) BLOCK_REASONS = Some b"
proof -
  have "distinct BLOCK_REASONS" by code_simp
  then have "first_index (\<lambda>n. n = BLOCK_REASONS ! b) BLOCK_REASONS b"
    using assms by (auto simp: first_index_def nth_eq_iff_index_eq)
  then show ?thesis by (simp add: find_index_first)
qed

lemma of_option_first: "of_option e (find_index P xs) = Inr i \<longleftrightarrow> first_index P xs i"
  by (simp add: find_index_first)

lemma reason_criterion:
  assumes "b < length BLOCK_REASONS"
  shows "(\<exists>b' < length BLOCK_REASONS. BLOCK_REASONS ! b' = BLOCK_REASONS ! b \<and> P b') \<longleftrightarrow> P b"
proof -
  have "distinct BLOCK_REASONS" by code_simp
  with assms show ?thesis by (auto simp: nth_eq_iff_index_eq)
qed

lemma find_anchor_criterion:
  assumes "\<And>name. block_reason = Some name \<Longrightarrow> name \<in> set BLOCK_REASONS" "rows \<noteq> []"
  shows "find_anchor rows pc uid cycle block_reason = Inr i \<longleftrightarrow>
    first_index (anchor_criterion pc uid cycle block_reason) rows i"
proof -
  have z: "first_index (\<lambda>_. True) rows i \<longleftrightarrow> i = 0"
    using assms(2) by (auto simp: first_index_def)
  show ?thesis
  proof (cases "cycle = None \<and> uid = None \<and> block_reason \<noteq> None")
    case True
    then obtain name where h: "cycle = None" "uid = None" "block_reason = Some name" by blast
    then obtain b where b: "b < length BLOCK_REASONS" "name = BLOCK_REASONS ! b" using assms(1) by (metis in_set_conv_nth)
    show ?thesis
      unfolding h b(2) find_anchor_def anchor_criterion_def option.case prod.case
      by (simp only: find_index_reason [OF b(1)] of_option_simps bindE_simps of_option_first reason_criterion [OF b(1)])
  next
    case False
    then show ?thesis
      by (cases cycle; cases uid; cases block_reason; cases pc)
        (auto simp: find_anchor_def anchor_criterion_def [abs_def] of_option_first z simp del: of_option_eq_Inr)
  qed
qed

text \<open>
  The anchor is the first row that meets the chosen criterion, which is the cycle if given, else the
  UID (in any stage), else the block reason, else the retired PC, else any row; and the search fails
  exactly when no row meets it.
\<close>

theorem anchor_is_first_match:
  assumes "\<And>name. block_reason = Some name \<Longrightarrow> name \<in> set BLOCK_REASONS" "rows \<noteq> []"
  shows "(find_anchor rows pc uid cycle block_reason = Inr i \<longleftrightarrow>
      i < length rows \<and> anchor_criterion pc uid cycle block_reason (rows ! i) \<and>
      (\<forall>j < i. \<not> anchor_criterion pc uid cycle block_reason (rows ! j))) \<and>
    ((\<exists>e. find_anchor rows pc uid cycle block_reason = Inl e) \<longleftrightarrow>
      (\<forall>row \<in> set rows. \<not> anchor_criterion pc uid cycle block_reason row))"
proof
  note crit = find_anchor_criterion [OF assms]
  show "find_anchor rows pc uid cycle block_reason = Inr i \<longleftrightarrow>
      i < length rows \<and> anchor_criterion pc uid cycle block_reason (rows ! i) \<and>
      (\<forall>j < i. \<not> anchor_criterion pc uid cycle block_reason (rows ! j))"
    using crit by (simp add: first_index_def)
  have "(\<exists>e. find_anchor rows pc uid cycle block_reason = Inl e) \<longleftrightarrow> (\<nexists>i. find_anchor rows pc uid cycle block_reason = Inr i)"
    by (cases "find_anchor rows pc uid cycle block_reason") auto
  also have "\<dots> \<longleftrightarrow> find_index (anchor_criterion pc uid cycle block_reason) rows = None"
    using crit by (simp add: find_index_first [symmetric])
  finally show "(\<exists>e. find_anchor rows pc uid cycle block_reason = Inl e) \<longleftrightarrow>
      (\<forall>row \<in> set rows. \<not> anchor_criterion pc uid cycle block_reason row)"
    by (simp add: find_index_None)
qed

definition demo3 :: "int \<Rightarrow> int \<Rightarrow> row3" where
  "demo3 cycle reason = \<lparr>schema = V2, field = (\<lambda>_. 0)(''cycle'' := cycle, ''block_reason'' := reason)\<rparr>"

theorem anchor_is_first_match_witness:
  "find_anchor [demo3 4 0, demo3 5 2, demo3 6 2] None None None (Some ''raw_bundle'') = Inr 1 \<and>
    anchor_criterion None None None (Some ''raw_bundle'') (demo3 5 2)"
proof -
  have a: "find_anchor [demo3 4 0, demo3 5 2, demo3 6 2] None None None (Some ''raw_bundle'') = Inr 1" by code_simp
  have "''raw_bundle'' \<in> set BLOCK_REASONS" by code_simp
  with anchor_is_first_match [of "Some ''raw_bundle''" "[demo3 4 0, demo3 5 2, demo3 6 2]" None None None 1] a
  show ?thesis by auto
qed


section \<open>Exclusive causes\<close>

lemma counted_sum: "counted rows name = (\<Sum>row \<leftarrow> rows. int (count_list (counts_of row) name))"
  by (induction rows) (simp_all add: counted_def)

lemma count_list_filter_names:
  "count_list (map fst (filter (\<lambda>(_, P). P row) xs)) name = length (filter (\<lambda>(n, P). n = name \<and> P row) xs)"
  by (induction xs) auto

lemma frontend_cause_cases:
  "nz row ''fetch_valid'' \<Longrightarrow> frontend_cause row = None"
  "\<not> nz row ''fetch_valid'' \<Longrightarrow> \<exists>c \<in> set FRONTEND_CAUSES. frontend_cause row = Some c"
  by (auto simp: frontend_cause_def FRONTEND_CAUSES_def)

lemma count_cause:
  assumes "is_v2 (schema row)" "c \<in> set FRONTEND_CAUSES"
  shows "count_list (counts_of row) c = of_bool (frontend_cause row = Some c)"
proof -
  have "c \<notin> set (map fst (counters @ v2_counters @ window_counters))"
    using assms(2) by (auto simp: FRONTEND_CAUSES_def counters_def v2_counters_def window_counters_def)
  then have z: "count_list (map fst (filter (\<lambda>(_, P). P row) xs)) c = 0" if "set xs \<subseteq> set (counters @ v2_counters @ window_counters)" for xs
  proof -
    have "fst x \<noteq> c" if "x \<in> set xs" for x
      using \<open>c \<notin> _\<close> \<open>set xs \<subseteq> _\<close> that by (metis image_eqI list.set_map subsetD)
    then show ?thesis unfolding count_list_filter_names length_0_conv filter_empty_conv by fastforce
  qed
  show ?thesis
    using z [of counters] z [of v2_counters] z [of window_counters] assms(1)
    by (auto simp: counts_of_def split: option.split)
qed

lemma count_empty:
  assumes "is_v2 (schema row)"
  shows "count_list (counts_of row) ''frontend_empty'' = of_bool (\<not> nz row ''fetch_valid'')"
proof -
  have "count_list (map fst (filter (\<lambda>(_, P). P row) counters)) ''frontend_empty'' = of_bool (\<not> nz row ''fetch_valid'')"
    unfolding count_list_filter_names by (simp add: counters_def)
  moreover have "count_list (map fst (filter (\<lambda>(_, P). P row) v2_counters)) ''frontend_empty'' = 0"
    "count_list (map fst (filter (\<lambda>(_, P). P row) window_counters)) ''frontend_empty'' = 0"
    unfolding count_list_filter_names by (simp_all add: v2_counters_def window_counters_def)
  moreover have "frontend_cause row \<noteq> Some ''frontend_empty''" by (simp add: frontend_cause_def)
  ultimately show ?thesis using assms by (auto simp: counts_of_def split: option.split)
qed

text \<open>
  The attribution is exclusive and complete: over a v2 trace the five causes of an empty front end
  add up to the empty front-end cycles, and the block reasons add up to the cycles.
\<close>

theorem attribution_partitions:
  assumes "\<forall>row \<in> set rows. is_v2 (schema row) \<and> 0 \<le> field row ''block_reason'' \<and> field row ''block_reason'' < 15"
  shows "(\<Sum>c \<leftarrow> FRONTEND_CAUSES. counted rows c) = counted rows ''frontend_empty'' \<and>
    (\<Sum>reason \<leftarrow> [0..<15]. reason_count rows (int reason)) = int (length rows)"
  using assms
proof (induction rows)
  case Nil
  then show ?case by (simp add: counted_def reason_count_def count_if_def)
next
  case (Cons row rows)
  have v2: "is_v2 (schema row)" using Cons.prems by simp
  have split: "counted (row # rows) c = int (count_list (counts_of row) c) + counted rows c" for c
    by (simp add: counted_sum)
  have "(\<Sum>c \<leftarrow> FRONTEND_CAUSES. int (count_list (counts_of row) c)) =
      (\<Sum>c \<leftarrow> FRONTEND_CAUSES. of_bool (frontend_cause row = Some c))"
    by (rule arg_cong [of _ _ sum_list], rule map_cong) (simp_all add: count_cause [OF v2])
  also have "\<dots> = of_bool (\<not> nz row ''fetch_valid'')"
    using frontend_cause_cases [of row] by (cases "nz row ''fetch_valid''") (auto simp: FRONTEND_CAUSES_def)
  finally have one: "(\<Sum>c \<leftarrow> FRONTEND_CAUSES. int (count_list (counts_of row) c)) = int (count_list (counts_of row) ''frontend_empty'')"
    by (simp add: count_empty [OF v2])
  have "(\<Sum>c \<leftarrow> FRONTEND_CAUSES. counted (row # rows) c) =
      (\<Sum>c \<leftarrow> FRONTEND_CAUSES. int (count_list (counts_of row) c)) + (\<Sum>c \<leftarrow> FRONTEND_CAUSES. counted rows c)"
    by (simp add: split sum_list_addf)
  then have fe: "(\<Sum>c \<leftarrow> FRONTEND_CAUSES. counted (row # rows) c) = counted (row # rows) ''frontend_empty''"
    using one Cons by (simp add: split)
  have "reason_count (row # rows) k = of_bool (field row ''block_reason'' = k) + reason_count rows k" for k
    by (simp add: reason_count_def count_if_def)
  then have "(\<Sum>reason \<leftarrow> [0..<15]. reason_count (row # rows) (int reason)) =
      (\<Sum>reason \<leftarrow> [0..<15]. of_bool (field row ''block_reason'' = int reason)) + (\<Sum>reason \<leftarrow> [0..<15]. reason_count rows (int reason))"
    by (simp add: sum_list_addf)
  moreover have "(\<Sum>reason \<leftarrow> [0..<15]. of_bool (field row ''block_reason'' = int reason)) = (1 :: int)"
  proof -
    obtain n where n: "field row ''block_reason'' = int n" "n < 15" using Cons.prems by (metis list.set_intros(1) nonneg_int_cases of_nat_less_numeral_iff)
    then have "n \<in> set [0..<15]" by simp
    have "(\<Sum>reason \<leftarrow> xs. of_bool (n = reason)) = (int (count_list xs n))" for xs :: "nat list"
      by (induction xs) auto
    then have "(\<Sum>reason \<leftarrow> [0..<15]. of_bool (n = reason)) = int (count_list [0..<15] n)" .
    moreover have "count_list [0..<15] n = 1"
      using n(2) by (simp add: count_list_eq_length_filter upt_rec numeral_eq_Suc less_Suc_eq_0_disj) auto
    ultimately show ?thesis by (simp add: n(1))
  qed
  ultimately show ?case using fe Cons by simp
qed

theorem attribution_partitions_witness:
  "(\<Sum>c \<leftarrow> FRONTEND_CAUSES. counted [demo3 4 0, demo3 5 2] c) = counted [demo3 4 0, demo3 5 2] ''frontend_empty'' \<and>
    (\<Sum>reason \<leftarrow> [0..<15]. reason_count [demo3 4 0, demo3 5 2] (int reason)) = 2"
proof -
  have "is_v2 V2" by code_simp
  then show ?thesis using attribution_partitions [of "[demo3 4 0, demo3 5 2]"] by (simp add: demo3_def)
qed


section \<open>One identity for every UID\<close>

definition suffixes :: "string list" where
  "suffixes = [''_uid'', ''_pc'', ''_instr'']"

definition all_prefixes :: "string list" where
  "all_prefixes = [''f'', ''d'', ''q'', ''i'', ''c'', ''r'']"

definition all_masks :: "string list" where
  "all_masks = [''fetch_valid'', ''decode_valid'', ''queue_valid'', ''issue_valid'', ''complete_valid'', ''retire_valid'']"

lemma lane_digit: "l < 3 \<Longrightarrow> nat_str 10 l = [digit_char l]"
  by (subst nat_str.simps) simp

lemma slot_col_inj:
  assumes "p \<in> set all_prefixes" "p' \<in> set all_prefixes" "l < 3" "l' < 3"
  shows "slot_col p l s = slot_col p' l' s' \<longleftrightarrow> p = p' \<and> l = l' \<and> s = s'"
proof -
  have len: "length p = 1" "length p' = 1" using assms(1,2) by (auto simp: all_prefixes_def)
  have "digit_val (digit_char l) = Some l" "digit_val (digit_char l') = Some l'" using assms(3,4) by simp_all
  then have d: "digit_char l = digit_char l' \<longleftrightarrow> l = l'" by (metis option.inject)
  show ?thesis using len d by (auto simp: slot_col_def lane_digit [OF assms(3)] lane_digit [OF assms(4)])
qed

lemma slot_col_mask: "p \<in> set all_prefixes \<Longrightarrow> l < 3 \<Longrightarrow> m \<in> set all_masks \<Longrightarrow> slot_col p l s \<noteq> m"
proof -
  assume p: "p \<in> set all_prefixes" and l: "l < 3" and m: "m \<in> set all_masks"
  have c: "digit_char l \<in> {CHR ''0'', CHR ''1'', CHR ''2''}"
  proof -
    have "map digit_char [0, 1, 2] = ''012''" by code_simp
    moreover have "l \<in> {0, 1, 2}" using l by auto
    ultimately show ?thesis by auto
  qed
  have "slot_col p l s ! 1 = digit_char l"
    using p by (auto simp: all_prefixes_def slot_col_def lane_digit [OF l])
  moreover have "m ! 1 \<notin> {CHR ''0'', CHR ''1'', CHR ''2''}" using m by (auto simp: all_masks_def)
  ultimately show ?thesis using c by auto
qed

lemma stages_names:
  "(n, m, p) \<in> set (stages_for_schema s) \<Longrightarrow> p \<in> set all_prefixes \<and> m \<in> set all_masks"
  "distinct (map (\<lambda>(_, _, p). p) (stages_for_schema s))"
  by (auto simp: stages_for_schema_def STAGES_V1_def STAGES_V2_def all_prefixes_def all_masks_def split: if_splits)

definition slot_good :: "identities \<Rightarrow> (string \<Rightarrow> int) \<Rightarrow> string \<Rightarrow> string \<Rightarrow> nat \<Rightarrow> bool" where
  "slot_good ids row m p l \<longleftrightarrow>
     (flag_bit (row m) l \<longrightarrow> row (slot_col p l ''_uid'') \<noteq> 0 \<and>
       (p \<in> {''q'', ''i'', ''c'', ''r''} \<longrightarrow>
         ids (row (slot_col p l ''_uid'')) = Some (row (slot_col p l ''_pc''), row (slot_col p l ''_instr''))))"

lemma slot_good_mono: "slot_good ids row m p l \<Longrightarrow> ids \<subseteq>\<^sub>m ids' \<Longrightarrow> slot_good ids' row m p l"
  unfolding slot_good_def map_le_def by (metis domI)

lemma slot_good_frame:
  assumes "slot_good ids row m p l" "ids \<subseteq>\<^sub>m ids'" "\<forall>c. c \<notin> range (slot_col p' l') \<longrightarrow> row' c = row c"
    "p \<in> set all_prefixes" "p' \<in> set all_prefixes" "l < 3" "l' < 3" "m \<in> set all_masks" "(p, l) \<noteq> (p', l')"
  shows "slot_good ids' row' m p l"
proof -
  have "slot_col p l s \<notin> range (slot_col p' l')" for s
    using slot_col_inj [OF assms(4-7)] assms(9) by auto
  moreover have "m \<notin> range (slot_col p' l')" using slot_col_mask [OF assms(5,7,8)] by auto
  ultimately have "slot_good ids row' m p l" using assms(1,3) by (simp add: slot_good_def)
  then show ?thesis by (rule slot_good_mono [OF _ assms(2)])
qed

lemma setdefault_le: "m \<subseteq>\<^sub>m setdefault m k v"
  by (auto simp: setdefault_def map_le_def split: option.split)

lemma load_slot_good:
  assumes "load_slot ln raw (row m) p l (row, ids) = Inr (row', ids')" "p \<in> set all_prefixes" "l < 3" "m \<in> set all_masks"
  shows "(\<forall>c. c \<notin> range (slot_col p l) \<longrightarrow> row' c = row c) \<and> ids \<subseteq>\<^sub>m ids' \<and> slot_good ids' row' m p l"
proof -
  obtain uid pc ins where u: "row' = row(slot_col p l ''_uid'' := uid, slot_col p l ''_pc'' := pc, slot_col p l ''_instr'' := ins)"
    and i: "if \<not> flag_bit (row m) l then ids' = ids
      else uid \<noteq> 0 \<and> (if p \<in> {''q'', ''i'', ''c'', ''r''} then ids' = setdefault ids uid (pc, ins) \<and> ids' uid = Some (pc, ins)
                       else ids' = ids)"
    using assms(1) by (auto simp: load_slot_def Let_def split: if_splits)
  have inj: "slot_col p l s = slot_col p l s' \<longleftrightarrow> s = s'" for s s' by (simp add: slot_col_def)
  have m: "slot_col p l s \<noteq> m" "m \<noteq> slot_col p l s" for s using slot_col_mask [OF assms(2-4)] by blast+
  have "\<forall>c. c \<notin> range (slot_col p l) \<longrightarrow> row' c = row c" by (auto simp: u)
  moreover have "ids \<subseteq>\<^sub>m ids'" using i setdefault_le by (auto split: if_splits)
  moreover have "slot_good ids' row' m p l"
    using i by (auto simp: slot_good_def u inj m split: if_splits)
  ultimately show ?thesis by blast
qed

lemma load_stage_good:
  assumes f: "load_stage3 ln raw (n, m, p) (row, ids) = Inr (row', ids')"
    and p: "p \<in> set all_prefixes" "m \<in> set all_masks"
  shows "(\<forall>c. c \<notin> (\<Union>l \<in> set lanes3. range (slot_col p l)) \<longrightarrow> row' c = row c) \<and> ids \<subseteq>\<^sub>m ids' \<and>
    (\<forall>l < 3. slot_good ids' row' m p l)"
proof -
  let ?P = "\<lambda>ls ri. (\<forall>c. c \<notin> (\<Union>l \<in> set ls. range (slot_col p l)) \<longrightarrow> fst ri c = row c) \<and> ids \<subseteq>\<^sub>m snd ri \<and>
    (\<forall>l \<in> set ls. slot_good (snd ri) (fst ri) m p l)"
  have f': "foldE (load_slot ln raw (row m) p) lanes3 (row, ids) = Inr (row', ids')" using f by (simp add: load_stage3_def)
  have "?P lanes3 (row', ids')"
  proof (rule foldE_prefix_invariant [OF f'])
    show "?P [] (row, ids)" by simp
    fix ls l ls' ri ri'
    assume sp: "lanes3 = ls @ l # ls'" and P: "?P ls ri" and st: "load_slot ln raw (row m) p l ri = Inr ri'"
    have l: "l < 3" "\<forall>k \<in> set ls. k < 3" "l \<notin> set ls"
    proof -
      have "set (ls @ l # ls') \<subseteq> {..<3}" "distinct (ls @ l # ls')" unfolding sp [symmetric] by (auto simp: lanes3_def)
      then show "l < 3" "\<forall>k \<in> set ls. k < 3" "l \<notin> set ls" by auto
    qed
    have "m \<notin> (\<Union>l \<in> set ls. range (slot_col p l))" using slot_col_mask [OF p(1) _ p(2)] l(2) by auto
    then have "fst ri m = row m" using P by blast
    with st have "load_slot ln raw (fst ri m) p l (fst ri, snd ri) = Inr (fst ri', snd ri')" by simp
    note g = load_slot_good [OF this p(1) l(1) p(2)]
    have "slot_good (snd ri') (fst ri') m p k" if "k \<in> set ls" for k
    proof (rule slot_good_frame)
      show "slot_good (snd ri) (fst ri) m p k" using P that by blast
      show "(p, k) \<noteq> (p, l)" using that l(3) by auto
      show "k < 3" using l(2) that by blast
    qed (use g p l in blast)+
    moreover have "\<forall>c. c \<notin> (\<Union>l \<in> set (ls @ [l]). range (slot_col p l)) \<longrightarrow> fst ri' c = row c" using P g by simp
    moreover have "ids \<subseteq>\<^sub>m snd ri'" using P g map_le_trans by blast
    ultimately show "?P (ls @ [l]) ri'" using g by auto
  qed
  then show ?thesis by simp
qed


lemma slot_good_other_stage:
  assumes "slot_good ids row m p l" "ids \<subseteq>\<^sub>m ids'" "\<forall>c. c \<notin> (\<Union>l \<in> set lanes3. range (slot_col p' l)) \<longrightarrow> row' c = row c"
    "p \<in> set all_prefixes" "p' \<in> set all_prefixes" "l < 3" "m \<in> set all_masks" "p \<noteq> p'"
  shows "slot_good ids' row' m p l"
proof -
  have "slot_col p l s \<notin> (\<Union>l \<in> set lanes3. range (slot_col p' l))" for s
    using slot_col_inj [OF assms(4,5,6)] assms(8) by auto
  moreover have "m \<notin> (\<Union>l \<in> set lanes3. range (slot_col p' l))" using slot_col_mask [OF assms(5) _ assms(7)] by fastforce
  ultimately have "slot_good ids row' m p l" using assms(1,3) by (simp add: slot_good_def)
  then show ?thesis by (rule slot_good_mono [OF _ assms(2)])
qed

lemma load_stages_good:
  assumes f: "foldE (load_stage3 ln raw) (stages_for_schema s) (row, ids) = Inr (row', ids')"
  shows "ids \<subseteq>\<^sub>m ids' \<and> (\<forall>(n, m, p) \<in> set (stages_for_schema s). \<forall>l < 3. slot_good ids' row' m p l)"
proof -
  let ?P = "\<lambda>sts ri. ids \<subseteq>\<^sub>m snd ri \<and> (\<forall>(n, m, p) \<in> set sts. \<forall>l < 3. slot_good (snd ri) (fst ri) m p l)"
  have "?P (stages_for_schema s) (row', ids')"
  proof (rule foldE_prefix_invariant [OF f])
    show "?P [] (row, ids)" by simp
    fix sts st sts' ri ri'
    assume sp: "stages_for_schema s = sts @ st # sts'" and P: "?P sts ri" and ld: "load_stage3 ln raw st ri = Inr ri'"
    obtain n m p where st: "st = (n, m, p)" by (cases st)
    have names: "p \<in> set all_prefixes" "m \<in> set all_masks" using stages_names(1) [of n m p s] sp st by auto
    note g = load_stage_good [of ln raw n m p "fst ri" "snd ri" "fst ri'" "snd ri'", OF _ names]
    have g': "(\<forall>c. c \<notin> (\<Union>l \<in> set lanes3. range (slot_col p l)) \<longrightarrow> fst ri' c = fst ri c) \<and> snd ri \<subseteq>\<^sub>m snd ri' \<and>
      (\<forall>l < 3. slot_good (snd ri') (fst ri') m p l)" by (rule g) (use ld st in simp)
    have "slot_good (snd ri') (fst ri') m' p' l" if mem: "(n', m', p') \<in> set sts" and l: "l < 3" for n' m' p' l
    proof (rule slot_good_other_stage)
      show "slot_good (snd ri) (fst ri) m' p' l" using P mem l by blast
      show "p' \<in> set all_prefixes" "m' \<in> set all_masks" using stages_names(1) [of n' m' p' s] sp mem by auto
      show "p' \<noteq> p" using stages_names(2) [of s] mem unfolding sp st by force
    qed (use g' names l in blast)+
    moreover have "ids \<subseteq>\<^sub>m snd ri'" using P g' map_le_trans by blast
    ultimately show "?P (sts @ [st]) ri'" using g' by (auto simp: st)
  qed
  then show ?thesis by simp
qed

lemma load_rows_good:
  assumes f: "foldE (load_row3 fieldnames s) raws ([], Map.empty) = Inr (rows, ids)"
  shows "\<forall>r \<in> set rows. schema r = s \<and> (\<forall>(n, m, p) \<in> set (stages_for_schema s). \<forall>l < 3. slot_good ids (field r) m p l)"
proof -
  let ?P = "\<lambda>acc. \<forall>r \<in> set (fst acc). schema r = s \<and>
    (\<forall>(n, m, p) \<in> set (stages_for_schema s). \<forall>l < 3. slot_good (snd acc) (field r) m p l)"
  have "?P (rows, ids)"
  proof (rule foldE_invariant [OF f])
    fix x acc acc' assume P: "?P acc" and ld: "load_row3 fieldnames s x acc = Inr acc'"
    obtain rows1 ids1 ln raw where a: "acc = (rows1, ids1)" "x = (ln, raw)" by (cases acc, cases x)
    from ld a obtain row row' ids' where st: "foldE (load_stage3 ln raw) (stages_for_schema s) (row, ids1) = Inr (row', ids')"
      and acc': "acc' = (rows1 @ [\<lparr>schema = s, field = row'\<rparr>], ids')"
      by (auto simp: load_row3_def)
    from load_stages_good [OF st] have le: "ids1 \<subseteq>\<^sub>m ids'"
      and g: "\<forall>(n, m, p) \<in> set (stages_for_schema s). \<forall>l < 3. slot_good ids' row' m p l" by blast+
    have "schema r = s \<and> (\<forall>(n, m, p) \<in> set (stages_for_schema s). \<forall>l < 3. slot_good ids' (field r) m p l)"
      if "r \<in> set rows1" for r
      using P that slot_good_mono [OF _ le] by (fastforce simp: a)
    with g show "?P acc'" by (auto simp: acc')
  qed simp
  then show ?thesis by simp
qed

text \<open>
  C21: a loaded trace is consistent: every valid slot of every stage has a non-zero UID, and from the
  dispatch queue on (queue, issue, completion, retirement) two valid slots anywhere in the trace with the
  same UID show the same PC and the same instruction.
\<close>

theorem loaded_uids_keep_identity:
  assumes "load3 lines = Inr rows" "r1 \<in> set rows" "r2 \<in> set rows"
    "(n1, m1, p1) \<in> set (stages_for_schema (schema r1))" "l1 < 3" "flag_bit (field r1 m1) l1"
    "(n2, m2, p2) \<in> set (stages_for_schema (schema r2))" "l2 < 3" "flag_bit (field r2 m2) l2"
  shows "field r1 (slot_col p1 l1 ''_uid'') \<noteq> 0 \<and>
    (p1 \<in> {''q'', ''i'', ''c'', ''r''} \<and> p2 \<in> {''q'', ''i'', ''c'', ''r''} \<and>
     field r1 (slot_col p1 l1 ''_uid'') = field r2 (slot_col p2 l2 ''_uid'') \<longrightarrow>
       field r1 (slot_col p1 l1 ''_pc'') = field r2 (slot_col p2 l2 ''_pc'') \<and>
       field r1 (slot_col p1 l1 ''_instr'') = field r2 (slot_col p2 l2 ''_instr''))"
proof -
  obtain fieldnames raws s ids where "foldE (load_row3 fieldnames s) (enumerate 2 raws) ([], Map.empty) = Inr (rows, ids)"
    using assms(1) by (auto simp: load3_def Let_def split: option.splits prod.splits list.splits if_splits)
  note good = load_rows_good [OF this]
  have "slot_good ids (field r) m p l" if "r \<in> set rows" "(n, m, p) \<in> set (stages_for_schema (schema r))" "l < 3"
    for r n m p l using good that by fastforce
  then have "slot_good ids (field r1) m1 p1 l1" "slot_good ids (field r2) m2 p2 l2"
    using assms(2-5,7,8) by blast+
  then have "field r1 (slot_col p1 l1 ''_uid'') \<noteq> 0"
    "p1 \<in> {''q'', ''i'', ''c'', ''r''} \<longrightarrow>
       ids (field r1 (slot_col p1 l1 ''_uid'')) = Some (field r1 (slot_col p1 l1 ''_pc''), field r1 (slot_col p1 l1 ''_instr''))"
    "p2 \<in> {''q'', ''i'', ''c'', ''r''} \<longrightarrow>
       ids (field r2 (slot_col p2 l2 ''_uid'')) = Some (field r2 (slot_col p2 l2 ''_pc''), field r2 (slot_col p2 l2 ''_instr''))"
    using assms(6,9) unfolding slot_good_def by blast+
  then show ?thesis by (metis Pair_inject option.inject)
qed


definition demo_cells :: "string list" where
  "demo_cells = map (\<lambda>c. if c = ''schema'' then V1 else if c \<in> {''issue_valid'', ''retire_valid'', ''cycle''} then ''1''
     else if c \<in> {''i0_uid'', ''r0_uid''} then ''5'' else if c \<in> {''i0_pc'', ''r0_pc''} then ''40'' else ''0'') (required3 V1)"

theorem loaded_uids_keep_identity_witness:
  "\<exists>r. load3 [required3 V1, demo_cells] = Inr [r] \<and> field r (slot_col ''i'' 0 ''_uid'') \<noteq> 0 \<and>
    field r (slot_col ''i'' 0 ''_pc'') = field r (slot_col ''r'' 0 ''_pc'')"
proof -
  have "case load3 [required3 V1, demo_cells] of Inl _ \<Rightarrow> False | Inr rows \<Rightarrow>
      (case rows of [r] \<Rightarrow> schema r = V1 \<and> flag_bit (field r ''issue_valid'') 0 \<and> flag_bit (field r ''retire_valid'') 0 \<and>
         field r (slot_col ''i'' 0 ''_uid'') = field r (slot_col ''r'' 0 ''_uid'') | _ \<Rightarrow> False)"
    by code_simp
  then obtain r where r: "load3 [required3 V1, demo_cells] = Inr [r]" "schema r = V1" "flag_bit (field r ''issue_valid'') 0"
    "flag_bit (field r ''retire_valid'') 0" "field r (slot_col ''i'' 0 ''_uid'') = field r (slot_col ''r'' 0 ''_uid'')"
    by (auto split: sum.splits list.splits)
  have "stages_for_schema V1 = STAGES_V1" by code_simp
  then have s: "(''I'', ''issue_valid'', ''i'') \<in> set (stages_for_schema (schema r))"
    "(''R'', ''retire_valid'', ''r'') \<in> set (stages_for_schema (schema r))" by (simp_all add: r(2) STAGES_V1_def)
  from loaded_uids_keep_identity [OF r(1) _ _ s(1) _ r(3) s(2) _ r(4)] r(1,5) show ?thesis by simp
qed

end
