(* ===== verification/PyRegex.thy ===== *)
theory PyRegex
  imports PyFormat
begin

text \<open>
  The fragment of Python's \<open>re\<close> the tools use, as a backtracking matcher: \<open>rmatch\<close> lists every way a
  pattern can match at a position, in the order Python tries them, so the first one is Python's answer.
  A position is the text already passed (reversed), the text ahead and the groups set so far. A repetition
  stops after an iteration that consumes nothing, as Python's does.
\<close>

datatype rx =
    Empty
  | Chr "char \<Rightarrow> bool"
  | Seq rx rx
  | Alt rx rx
  | Rep bool rx
  | Grp string rx
  | Bol
  | LineStart
  | Eol
  | WordEnd

record rpos =
  passed :: string
  ahead :: string
  groups :: "string \<Rightarrow> string option"

fun star :: "nat \<Rightarrow> bool \<Rightarrow> (rpos \<Rightarrow> rpos list) \<Rightarrow> rpos \<Rightarrow> rpos list" where
  "star 0 greedy f p = [p]"
| "star (Suc n) greedy f p =
     (let more = concat (map (star n greedy f) (filter (\<lambda>q. length (ahead q) < length (ahead p)) (f p)))
      in if greedy then more @ [p] else p # more)"

definition word_char :: "char \<Rightarrow> bool" where
  "word_char c \<longleftrightarrow> (let n = of_char c :: nat in
     (48 \<le> n \<and> n \<le> 57) \<or> (65 \<le> n \<and> n \<le> 90) \<or> (97 \<le> n \<and> n \<le> 122) \<or> n = 95)"

definition starts_word :: "string \<Rightarrow> bool" where
  "starts_word s = (case s of [] \<Rightarrow> False | c # _ \<Rightarrow> word_char c)"

primrec rmatch :: "rx \<Rightarrow> rpos \<Rightarrow> rpos list" where
  "rmatch Empty p = [p]"
| "rmatch (Chr P) p =
     (case ahead p of
        [] \<Rightarrow> []
      | c # cs \<Rightarrow> if P c then [p\<lparr>passed := c # passed p, ahead := cs\<rparr>] else [])"
| "rmatch (Seq a b) p = concat (map (rmatch b) (rmatch a p))"
| "rmatch (Alt a b) p = rmatch a p @ rmatch b p"
| "rmatch (Rep greedy a) p = star (length (ahead p)) greedy (rmatch a) p"
| "rmatch (Grp name a) p =
     map (\<lambda>q. q\<lparr>groups := (groups q)(name \<mapsto> take (length (ahead p) - length (ahead q)) (ahead p))\<rparr>) (rmatch a p)"
| "rmatch Bol p = (if passed p = [] then [p] else [])"
| "rmatch LineStart p = (if passed p = [] \<or> hd (passed p) = CHR 0x0A then [p] else [])"
| "rmatch Eol p = (if ahead p = [] \<or> ahead p = [CHR 0x0A] then [p] else [])"
| "rmatch WordEnd p = (if starts_word (passed p) \<noteq> starts_word (ahead p) then [p] else [])"

text \<open>Abbreviations for pattern text.\<close>

fun lit :: "string \<Rightarrow> rx" where
  "lit [] = Empty"
| "lit (c # cs) = Seq (Chr (\<lambda>x. x = c)) (lit cs)"

fun seqs :: "rx list \<Rightarrow> rx" where
  "seqs [] = Empty"
| "seqs (r # rs) = Seq r (seqs rs)"

fun alts :: "rx list \<Rightarrow> rx" where
  "alts [] = Chr (\<lambda>_. False)"
| "alts [r] = r"
| "alts (r # q # rs) = Alt r (alts (q # rs))"

definition many :: "(char \<Rightarrow> bool) \<Rightarrow> rx" where "many P = Rep True (Chr P)"
definition many_lazy :: "(char \<Rightarrow> bool) \<Rightarrow> rx" where "many_lazy P = Rep False (Chr P)"
definition some :: "(char \<Rightarrow> bool) \<Rightarrow> rx" where "some P = Seq (Chr P) (many P)"
definition some_lazy :: "(char \<Rightarrow> bool) \<Rightarrow> rx" where "some_lazy P = Seq (Chr P) (many_lazy P)"
definition opt :: "rx \<Rightarrow> rx" where "opt r = Alt r Empty"

definition any_char :: "char \<Rightarrow> bool" where "any_char c \<longleftrightarrow> c \<noteq> CHR 0x0A"
definition digit :: "char \<Rightarrow> bool" where "digit c \<longleftrightarrow> c \<in> set ''0123456789''"
definition hex_digit :: "char \<Rightarrow> bool" where "hex_digit c \<longleftrightarrow> c \<in> set ''0123456789abcdefABCDEF''"
definition non_space :: "char \<Rightarrow> bool" where "non_space c \<longleftrightarrow> \<not> is_space c"

section \<open>Searching\<close>

definition start_of :: "string \<Rightarrow> rpos" where
  "start_of s = \<lparr>passed = [], ahead = s, groups = Map.empty\<rparr>"

definition first_match :: "rx \<Rightarrow> rpos \<Rightarrow> rpos option" where
  "first_match r p = (case rmatch r p of [] \<Rightarrow> None | q # _ \<Rightarrow> Some q)"

definition re_match :: "rx \<Rightarrow> string \<Rightarrow> rpos option" where
  "re_match r s = first_match r (start_of s)"

definition re_fullmatch :: "rx \<Rightarrow> string \<Rightarrow> rpos option" where
  "re_fullmatch r s = find (\<lambda>q. ahead q = []) (rmatch r (start_of s))"

fun search_from :: "rx \<Rightarrow> string \<Rightarrow> string \<Rightarrow> (rpos \<times> rpos) option" where
  "search_from r bef [] =
     (let p = \<lparr>passed = bef, ahead = [], groups = Map.empty\<rparr>
      in map_option (Pair p) (first_match r p))"
| "search_from r bef (c # cs) =
     (let p = \<lparr>passed = bef, ahead = c # cs, groups = Map.empty\<rparr> in
      case first_match r p of
        Some q \<Rightarrow> Some (p, q)
      | None \<Rightarrow> search_from r (c # bef) cs)"

definition re_search :: "rx \<Rightarrow> string \<Rightarrow> rpos option" where
  "re_search r s = map_option snd (search_from r [] s)"

text \<open>\<open>finditer\<close>: successive matches; after an empty one the search resumes a character later.\<close>

fun iter_from :: "nat \<Rightarrow> rx \<Rightarrow> string \<Rightarrow> string \<Rightarrow> (rpos \<times> rpos) list" where
  "iter_from 0 r bef rest = []"
| "iter_from (Suc n) r bef rest =
     (case search_from r bef rest of
        None \<Rightarrow> []
      | Some (p, q) \<Rightarrow>
          (p, q) #
          (if length (ahead q) < length (ahead p) then iter_from n r (passed q) (ahead q)
           else case ahead q of
                  [] \<Rightarrow> []
                | c # cs \<Rightarrow> iter_from n r (c # passed q) cs))"

definition re_finditer :: "rx \<Rightarrow> string \<Rightarrow> rpos list" where
  "re_finditer r s = map snd (iter_from (Suc (length s)) r [] s)"

definition re_findall :: "rx \<Rightarrow> string \<Rightarrow> string list" where
  "re_findall r s =
     map (\<lambda>(p, q). take (length (ahead p) - length (ahead q)) (ahead p)) (iter_from (Suc (length s)) r [] s)"

definition group_of :: "string \<Rightarrow> rpos \<Rightarrow> string" where
  "group_of name q = (case groups q name of Some s \<Rightarrow> s | None \<Rightarrow> [])"

text \<open>\<open>int(match.group(name), base)\<close>; the patterns give these groups digits only, so the 0 is never used.\<close>

definition group_int :: "nat \<Rightarrow> string \<Rightarrow> rpos \<Rightarrow> int" where
  "group_int base name q = (case py_int base (group_of name q) of Some n \<Rightarrow> n | None \<Rightarrow> 0)"

text \<open>\<open>str.splitlines\<close>: the ASCII line boundaries; a carriage return and its newline count once.\<close>

definition is_break :: "char \<Rightarrow> bool" where
  "is_break c \<longleftrightarrow> (let n = of_char c :: nat in (10 \<le> n \<and> n \<le> 13) \<or> (28 \<le> n \<and> n \<le> 30))"

fun split_from :: "string \<Rightarrow> string \<Rightarrow> string list" where
  "split_from cur [] = (if cur = [] then [] else [rev cur])"
| "split_from cur (c # cs) =
     (if c = CHR 0x0D \<and> cs \<noteq> [] \<and> hd cs = CHR 0x0A then rev cur # split_from [] (tl cs)
      else if is_break c then rev cur # split_from [] cs
      else split_from (c # cur) cs)"

definition splitlines :: "string \<Rightarrow> string list" where
  "splitlines s = split_from [] s"

section \<open>Laws\<close>

definition whole :: "rpos \<Rightarrow> string" where
  "whole p = rev (passed p) @ ahead p"

definition advances :: "rpos \<Rightarrow> rpos \<Rightarrow> bool" where
  "advances p q \<longleftrightarrow> (\<exists>w. ahead p = w @ ahead q \<and> passed q = rev w @ passed p)"

lemma advances_refl [simp]: "advances p p"
  by (simp add: advances_def)

lemma advances_trans: "advances p q \<Longrightarrow> advances q r \<Longrightarrow> advances p r"
  by (auto simp: advances_def)

lemma advances_groups [simp]: "advances p (q\<lparr>groups := g\<rparr>) \<longleftrightarrow> advances p q"
  by (simp add: advances_def)

lemma star_advances:
  assumes "\<And>p q. q \<in> set (f p) \<Longrightarrow> advances p q"
  shows "q \<in> set (star n greedy f p) \<Longrightarrow> advances p q"
proof (induction n arbitrary: p)
  case (Suc n)
  then consider "q = p" | p' where "p' \<in> set (f p)" "q \<in> set (star n greedy f p')"
    by (auto simp: Let_def split: if_splits)
  then show ?case
  proof cases
    case 2
    with Suc.IH [of p'] assms [of p' p] show ?thesis by (blast intro: advances_trans)
  qed simp
qed simp

text \<open>A match only moves forward over the text, whatever the pattern.\<close>

lemma rmatch_advances: "q \<in> set (rmatch r p) \<Longrightarrow> advances p q"
proof (induction r arbitrary: p q)
  case (Chr P)
  then show ?case by (auto simp: advances_def split: list.splits if_splits)
next
  case (Seq a b)
  from Seq.prems obtain m where "m \<in> set (rmatch a p)" "q \<in> set (rmatch b m)" by auto
  then show ?case using Seq.IH advances_trans by blast
next
  case (Rep greedy a)
  then show ?case by (auto intro: star_advances)
next
  case (Grp name a)
  then show ?case by auto
qed (auto split: if_splits)

text \<open>A literal matches in one way.\<close>

lemma rmatch_lit:
  "rmatch (lit w) p =
     (if take (length w) (ahead p) = w
      then [p\<lparr>passed := rev w @ passed p, ahead := drop (length w) (ahead p)\<rparr>] else [])"
  by (induction w arbitrary: p) (auto split: list.split)

text \<open>Lines joined by their ends split again.\<close>

lemma split_from_line:
  assumes "\<forall>c \<in> set l. \<not> is_break c"
  shows "split_from cur (l @ CHR 0x0A # s) = (rev cur @ l) # split_from [] s"
  using assms
proof (induction l arbitrary: cur)
  case (Cons c l)
  have "c \<noteq> CHR 0x0D" using Cons.prems by (auto simp: is_break_def)
  then show ?case using Cons by simp
qed (simp add: is_break_def)

lemma splitlines_lines:
  "\<forall>l \<in> set ls. \<forall>c \<in> set l. \<not> is_break c \<Longrightarrow> splitlines (concat (map (\<lambda>l. l @ [CHR 0x0A]) ls)) = ls"
  unfolding splitlines_def by (induction ls) (simp_all add: split_from_line)

end
