(* ===== verification/ParallelMap.thy ===== *)
theory ParallelMap
  imports PyRegex
begin

text \<open>
  \<open>synth/core/parallel_map.py\<close>: mapping the retained modules with one Yosys process each and merging their
  statistics. The hierarchy file, the worker's script and result, and the merge with its recursive areas
  are modelled. Yosys and the JSON files it writes are arguments; the workers run concurrently, so their
  results are given in the order in which they complete.
\<close>

section \<open>Names and the hierarchy file\<close>

datatype map_error =
    CellOutsideModule
  | MissingModules "string list"
  | ReusedOmitted string
  | WorkerFailed string
  | WorkerOmitted string
  | NoWorkers
  | CycleAt string
  | NoStats string
  | TooDeep
  | FastAndScript
  | NoJobs

definition canonical :: "string \<Rightarrow> string" where
  "canonical name = (case name of [] \<Rightarrow> [] | c # cs \<Rightarrow> if c = CHR 0x5C then cs else name)"

definition MODULE_RE :: rx where
  "MODULE_RE = seqs [Bol, lit ''module'', some is_space, Grp ''1'' (some non_space), many is_space, Eol]"

definition CELL_RE :: rx where
  "CELL_RE = seqs [Bol, Chr is_space, Chr is_space, lit ''cell'', some is_space, Grp ''1'' (some non_space), some is_space,
     Grp ''2'' (some non_space), many is_space, Eol]"

type_synonym hierarchy = "(string \<times> string list) list"

definition children_of :: "hierarchy \<Rightarrow> string \<Rightarrow> string list" where
  "children_of h m = (case map_of h m of None \<Rightarrow> [] | Some cs \<Rightarrow> cs)"

fun add_child :: "string \<Rightarrow> string \<Rightarrow> hierarchy \<Rightarrow> hierarchy" where
  "add_child m c [] = [(m, [c])]"
| "add_child m c ((k, cs) # h) = (if k = m then (k, cs @ [c]) # h else (k, cs) # add_child m c h)"

definition hierarchy_line :: "string \<Rightarrow> hierarchy \<times> string option \<Rightarrow> map_error + (hierarchy \<times> string option)" where
  "hierarchy_line line st =
     (case st of (children, current_module) \<Rightarrow>
      case re_match MODULE_RE line of
        Some q \<Rightarrow> Inr (children, Some (canonical (group_of ''1'' q)))
      | None \<Rightarrow>
          (case re_match CELL_RE line of
             None \<Rightarrow> Inr st
           | Some q \<Rightarrow>
               (case current_module of
                  None \<Rightarrow> Inl CellOutsideModule
                | Some m \<Rightarrow> Inr (add_child m (canonical (group_of ''1'' q)) children, current_module))))"

definition load_hierarchy :: "string \<Rightarrow> map_error + hierarchy" where
  "load_hierarchy text =
     bindE (foldE hierarchy_line (splitlines text) ([], None)) (\<lambda>(children, _). Inr children)"

section \<open>One worker\<close>

definition quote_char :: "char \<Rightarrow> string" where
  "quote_char c = (if c = CHR 0x5C then [CHR 0x5C, CHR 0x5C] else if c = CHR 0x22 then [CHR 0x5C, CHR 0x22] else [c])"

definition yosys_quote :: "string \<Rightarrow> string" where
  "yosys_quote value = [CHR 0x22] @ concat (map quote_char value) @ [CHR 0x22]"

definition worker_stem :: "nat \<Rightarrow> string \<Rightarrow> string" where
  "worker_stem index module =
     (let base = re_findall (Seq (lit ''openrv64_'') (some word_char)) (canonical module);
          label = (if base \<noteq> [] then last base else ''module'')
      in zero_pad 2 (dec (int index)) @ ''-'' @ label)"

record module_stats =
  st_area :: "py_float option"
  st_sequential_area :: "py_float option"
  st_other :: string

record worker_args =
  w_checkpoint :: string
  w_liberty :: string
  w_constraint :: string
  w_dir :: string
  w_reuse :: bool
  w_fast :: bool
  w_abc_script :: "string option"

definition stat_path :: "worker_args \<Rightarrow> nat \<Rightarrow> string \<Rightarrow> string" where
  "stat_path w index module = w_dir w @ ''/'' @ worker_stem index module @ ''.json''"

definition worker_script :: "worker_args \<Rightarrow> nat \<Rightarrow> string \<Rightarrow> string list" where
  "worker_script w index module =
     (let abc_mode = (case w_abc_script w of
                        Some s \<Rightarrow> ''-script '' @ yosys_quote s @ '' ''
                      | None \<Rightarrow> if w_fast w then ''-fast '' else '''')
      in [''read_rtlil '' @ yosys_quote (w_checkpoint w),
          ''abc '' @ abc_mode @ ''-liberty '' @ yosys_quote (w_liberty w) @ '' -constr '' @
            yosys_quote (w_constraint w) @ '' '' @ module,
          ''clean -purge'',
          ''tee -o '' @ yosys_quote (stat_path w index module) @ '' stat -liberty '' @ yosys_quote (w_liberty w) @
            '' -json '' @ module,
          ''check '' @ module, ''''])"

definition pick_module :: "map_error \<Rightarrow> string \<Rightarrow> (string \<times> module_stats) list \<Rightarrow> map_error + (string \<times> module_stats)" where
  "pick_module err module modules =
     (let key = canonical module in
      case map_of (rev (map (\<lambda>(name, stats). (canonical name, stats)) modules)) key of
        None \<Rightarrow> Inl err
      | Some stats \<Rightarrow> Inr (key, stats))"

definition run_worker ::
  "(string \<Rightarrow> (string \<times> module_stats) list option) \<Rightarrow> (string list \<Rightarrow> int \<times> (string \<times> module_stats) list) \<Rightarrow>
   worker_args \<Rightarrow> nat \<Rightarrow> string \<Rightarrow> map_error + (string \<times> module_stats)" where
  "run_worker old_stat yosys w index module =
     (case (if w_reuse w then old_stat (stat_path w index module) else None) of
        Some modules \<Rightarrow> pick_module (ReusedOmitted module) module modules
      | None \<Rightarrow>
          (case yosys (worker_script w index module) of (returncode, modules) \<Rightarrow>
             if returncode \<noteq> 0 then Inl (WorkerFailed module)
             else pick_module (WorkerOmitted module) module modules))"

section \<open>Recursive areas\<close>

type_synonym areas = "py_float \<times> py_float"

type_synonym acc_state = "(string \<rightharpoonup> areas) \<times> string set"

definition add_areas :: "areas \<Rightarrow> areas \<Rightarrow> areas" where
  "add_areas x y = (float_add (fst x) (fst y), float_add (snd x) (snd y))"

definition own_areas :: "module_stats \<Rightarrow> areas" where
  "own_areas stats =
     ((case st_area stats of None \<Rightarrow> (0, 1) | Some a \<Rightarrow> a),
      (case st_sequential_area stats of None \<Rightarrow> (0, 1) | Some a \<Rightarrow> a))"

text \<open>\<open>accumulate\<close>: the fuel bounds the depth of the recursion; \<open>TooDeep\<close> is proved unreachable.\<close>

primrec accumulate ::
  "nat \<Rightarrow> (string \<Rightarrow> string list) \<Rightarrow> (string \<rightharpoonup> module_stats) \<Rightarrow> string \<Rightarrow> acc_state \<Rightarrow>
   map_error + (areas \<times> acc_state)" where
  "accumulate 0 children direct module st = Inl TooDeep"
| "accumulate (Suc n) children direct module st =
     (case st of (recursive, visiting) \<Rightarrow>
      case recursive module of
        Some v \<Rightarrow> Inr (v, st)
      | None \<Rightarrow>
          if module \<in> visiting then Inl (CycleAt module)
          else
            (case direct module of
               None \<Rightarrow> Inl (NoStats module)
             | Some stats \<Rightarrow>
                 bindE (foldE (\<lambda>child (total, st).
                          bindE (accumulate n children direct child st) (\<lambda>(v, st). Inr (add_areas total v, st)))
                        (children module) (own_areas stats, recursive, insert module visiting))
                   (\<lambda>(total, recursive, visiting).
                      Inr (total, recursive(module \<mapsto> total), visiting - {module}))))"

definition accumulate_all ::
  "(string \<Rightarrow> string list) \<Rightarrow> (string \<rightharpoonup> module_stats) \<Rightarrow> string list \<Rightarrow> map_error + (string \<rightharpoonup> areas)" where
  "accumulate_all children direct modules =
     bindE (foldE (\<lambda>module st.
              bindE (accumulate (Suc (length modules)) children direct module st) (\<lambda>(_, st). Inr st))
            modules (Map.empty, {})) (\<lambda>(recursive, _). Inr recursive)"

section \<open>The merge\<close>

definition MAX_JOBS :: int where "MAX_JOBS = 32"

definition collect_direct ::
  "(map_error + (string \<times> module_stats)) list \<Rightarrow> map_error + (string \<rightharpoonup> module_stats)" where
  "collect_direct completed = foldE (\<lambda>result direct. bindE result (\<lambda>(m, stats). Inr (direct(m \<mapsto> stats)))) completed Map.empty"

definition merge_modules ::
  "(string \<rightharpoonup> string) \<Rightarrow> string list \<Rightarrow> (string \<rightharpoonup> module_stats) \<Rightarrow> (string \<rightharpoonup> areas) \<Rightarrow> (string \<times> module_stats) list" where
  "merge_modules original_names modules direct recursive =
     map (\<lambda>m. (the (original_names m),
               (the (direct m))\<lparr>st_area := Some (fst (the (recursive m))),
                               st_sequential_area := Some (snd (the (recursive m)))\<rparr>)) modules"

definition parallel_map ::
  "int \<Rightarrow> bool \<Rightarrow> string option \<Rightarrow> string list \<Rightarrow> string \<Rightarrow>
   ((nat \<times> string) list \<Rightarrow> (map_error + (string \<times> module_stats)) list) \<Rightarrow> map_error + (string \<times> module_stats) list" where
  "parallel_map jobs fast abc_script pre_modules hierarchy_text run_pool =
     (if fast \<and> abc_script \<noteq> None then Inl FastAndScript
      else if jobs < 1 then Inl NoJobs
      else
        let original_names = map_of (rev (map (\<lambda>name. (canonical name, name)) pre_modules));
            modules = sorted_distinct (map canonical pre_modules)
        in bindE (load_hierarchy hierarchy_text) (\<lambda>hierarchy.
           let missing = sort (filter (\<lambda>c. original_names c = None) (concat (map snd hierarchy))) in
           if missing \<noteq> [] then Inl (MissingModules missing)
           else if modules = [] then Inl NoWorkers
           else
             bindE (collect_direct (run_pool (map (\<lambda>(i, m). (i, the (original_names m))) (enumerate 0 modules)))) (\<lambda>direct.
             bindE (accumulate_all (children_of hierarchy) direct modules) (\<lambda>recursive.
               Inr (merge_modules original_names modules direct recursive)))))"

end
