(* ===== verification/ParallelProps.thy ===== *)
theory ParallelProps
  imports ParallelMap
begin

text \<open>
  The merge of the workers' statistics: the recursive areas satisfy their defining equation, fail exactly
  on a cyclic hierarchy and always within the recursion bound; and the merged result does not depend on
  the order in which the concurrent workers complete.
\<close>

section \<open>The recursion over the hierarchy\<close>

definition edges :: "(string \<Rightarrow> string list) \<Rightarrow> (string \<times> string) set" where
  "edges children = {(m, c). c \<in> set (children m)}"

definition closed_modules :: "(string \<Rightarrow> string list) \<Rightarrow> (string \<rightharpoonup> module_stats) \<Rightarrow> string set \<Rightarrow> bool" where
  "closed_modules children direct U \<longleftrightarrow> finite U \<and> (\<forall>m \<in> U. set (children m) \<subseteq> U \<and> direct m \<noteq> None)"

definition area_eqn ::
  "(string \<Rightarrow> string list) \<Rightarrow> (string \<rightharpoonup> module_stats) \<Rightarrow> (string \<rightharpoonup> areas) \<Rightarrow> string \<Rightarrow> bool" where
  "area_eqn children direct recursive m \<longleftrightarrow>
     recursive m = Some (foldl add_areas (own_areas (the (direct m))) (map (\<lambda>c. the (recursive c)) (children m)))"

definition acc_inv ::
  "(string \<Rightarrow> string list) \<Rightarrow> (string \<rightharpoonup> module_stats) \<Rightarrow> (string \<rightharpoonup> areas) \<Rightarrow> string set \<Rightarrow> bool" where
  "acc_inv children direct recursive visiting \<longleftrightarrow> dom recursive \<inter> visiting = {} \<and>
     (\<forall>m \<in> dom recursive. set (children m) \<subseteq> dom recursive \<and> area_eqn children direct recursive m \<and>
        (m, m) \<notin> (edges children)\<^sup>+)"

definition cycle_error :: "(string \<Rightarrow> string list) \<Rightarrow> map_error \<Rightarrow> bool" where
  "cycle_error children e \<longleftrightarrow> (\<exists>x. e = CycleAt x \<and> (x, x) \<in> (edges children)\<^sup>+)"

definition acc_post ::
  "(string \<Rightarrow> string list) \<Rightarrow> (string \<rightharpoonup> module_stats) \<Rightarrow> (string \<rightharpoonup> areas) \<Rightarrow> string set \<Rightarrow> acc_state \<Rightarrow> bool" where
  "acc_post children direct recursive visiting st \<longleftrightarrow>
     snd st = visiting \<and> recursive \<subseteq>\<^sub>m fst st \<and> acc_inv children direct (fst st) visiting"

lemma closed_reach:
  assumes "(a, b) \<in> (edges children)\<^sup>+" "a \<in> D" "\<forall>m \<in> D. set (children m) \<subseteq> D"
  shows "b \<in> D"
  using assms by (induction rule: trancl_induct) (auto simp: edges_def)

lemma area_eqn_update:
  assumes "area_eqn children direct recursive k" "set (children k) \<subseteq> dom recursive" "m \<notin> dom recursive" "k \<in> dom recursive"
  shows "area_eqn children direct (recursive(m \<mapsto> v)) k"
proof -
  have "k \<noteq> m" using assms(3,4) by blast
  have eq: "map (\<lambda>c. the ((recursive(m \<mapsto> v)) c)) (children k) = map (\<lambda>c. the (recursive c)) (children k)"
    using assms(2,3) by (intro map_cong) auto
  show ?thesis unfolding area_eqn_def eq using assms(1) \<open>k \<noteq> m\<close> by (simp add: area_eqn_def)
qed

lemma acc_finish:
  assumes inv: "acc_inv children direct recursive (insert m visiting)" and ch: "set (children m) \<subseteq> dom recursive"
    and new: "m \<notin> visiting"
    and v: "v = foldl add_areas (own_areas (the (direct m))) (map (\<lambda>c. the (recursive c)) (children m))"
  shows "acc_inv children direct (recursive(m \<mapsto> v)) visiting"
proof -
  have m: "m \<notin> dom recursive" and d: "dom recursive \<inter> visiting = {}" using inv by (auto simp: acc_inv_def)
  have cl: "\<forall>k \<in> dom recursive. set (children k) \<subseteq> dom recursive" using inv by (simp add: acc_inv_def)
  have "(m, m) \<notin> (edges children)\<^sup>+"
  proof
    assume "(m, m) \<in> (edges children)\<^sup>+"
    then obtain c where c: "(m, c) \<in> edges children" "(c, m) \<in> (edges children)\<^sup>*" by (meson tranclD)
    then have cd: "c \<in> dom recursive" using ch by (auto simp: edges_def)
    have "c = m \<or> (c, m) \<in> (edges children)\<^sup>+" using rtranclD [OF c(2)] by blast
    with closed_reach [OF _ cd cl] cd m show False by blast
  qed
  moreover have "area_eqn children direct (recursive(m \<mapsto> v)) m"
  proof -
    have eq: "map (\<lambda>c. the ((recursive(m \<mapsto> v)) c)) (children m) = map (\<lambda>c. the (recursive c)) (children m)"
      using ch m by (intro map_cong) auto
    show ?thesis unfolding area_eqn_def eq by (simp add: v)
  qed
  moreover have "set (children k) \<subseteq> dom (recursive(m \<mapsto> v)) \<and> area_eqn children direct (recursive(m \<mapsto> v)) k \<and>
      (k, k) \<notin> (edges children)\<^sup>+" if k: "k \<in> dom recursive" for k
    using inv k area_eqn_update [OF _ _ m k] cl by (auto simp: acc_inv_def)
  moreover have "dom (recursive(m \<mapsto> v)) \<inter> visiting = {}" using d new by auto
  moreover have "set (children m) \<subseteq> dom (recursive(m \<mapsto> v))" using ch by auto
  ultimately show ?thesis unfolding acc_inv_def by (metis dom_fun_upd insertE option.simps(3))
qed

lemma accumulate_ok:
  assumes U: "closed_modules children direct U"
  shows "m \<in> U \<Longrightarrow> visiting \<subseteq> U \<Longrightarrow> card (U - visiting) < n \<Longrightarrow> acc_inv children direct recursive visiting \<Longrightarrow>
    \<forall>x \<in> visiting. (x, m) \<in> (edges children)\<^sup>+ \<Longrightarrow>
    (case accumulate n children direct m (recursive, visiting) of
       Inl e \<Rightarrow> cycle_error children e
     | Inr (v, st) \<Rightarrow> acc_post children direct recursive visiting st \<and> fst st m = Some v)"
proof (induction n arbitrary: m recursive visiting)
  case (Suc n)
  let ?vis = "insert m visiting" and ?step = "\<lambda>child (total, st). bindE (accumulate n children direct child st) (\<lambda>(v, st). Inr (add_areas total v, st))"
  show ?case
  proof (cases "recursive m")
    case (Some v)
    with Suc.prems(4) show ?thesis by (simp add: acc_post_def)
  next
    case None
    show ?thesis
    proof (cases "m \<in> visiting")
      case True
      with None Suc.prems(5) show ?thesis by (auto simp: cycle_error_def)
    next
      case False
      obtain stats where stats: "direct m = Some stats" using U Suc.prems(1) by (auto simp: closed_modules_def)
      have fin: "finite U" using U by (simp add: closed_modules_def)
      have less: "card (U - ?vis) < n"
      proof -
        have "card (U - visiting) = card (insert m (U - ?vis))"
          by (rule arg_cong [of _ _ card]) (use Suc.prems(1) False in auto)
        also have "\<dots> = Suc (card (U - ?vis))" by (rule card_insert_disjoint) (use fin in auto)
        finally show ?thesis using Suc.prems(3) by simp
      qed
      have ext: "\<forall>x \<in> ?vis. (x, c) \<in> (edges children)\<^sup>+" if "c \<in> set (children m)" for c
      proof -
        have "(m, c) \<in> edges children" using that by (simp add: edges_def)
        then have a: "(m, c) \<in> (edges children)\<^sup>+" and b: "\<And>x. (x, m) \<in> (edges children)\<^sup>+ \<Longrightarrow> (x, c) \<in> (edges children)\<^sup>+"
          by (simp, blast intro: trancl_into_trancl)
        from Suc.prems(5) show ?thesis using a b by simp
      qed
      have inv0: "acc_inv children direct recursive ?vis" using Suc.prems(4) None by (auto simp: acc_inv_def)
      have fold: "case foldE ?step cs (total, (r0, ?vis)) of
          Inl e \<Rightarrow> cycle_error children e
        | Inr (total', st) \<Rightarrow> acc_post children direct r0 ?vis st \<and> set cs \<subseteq> dom (fst st) \<and>
            total' = foldl add_areas total (map (\<lambda>c. the (fst st c)) cs)"
        if "set cs \<subseteq> set (children m)" "acc_inv children direct r0 ?vis" for cs total r0
        using that
      proof (induction cs arbitrary: total r0)
        case Nil
        then show ?case by (simp add: acc_post_def)
      next
        case (Cons c cs)
        have cU: "c \<in> U" "?vis \<subseteq> U" using U Suc.prems(1,2) Cons.prems(1) by (auto simp: closed_modules_def)
        have cm: "c \<in> set (children m)" using Cons.prems(1) by simp
        note one = Suc.IH [OF cU less Cons.prems(2) ext [OF cm]]
        show ?case
        proof (cases "accumulate n children direct c (r0, ?vis)")
          case (Inl e)
          with one show ?thesis by simp
        next
          case (Inr vst)
          obtain v r1 vis1 where vst: "vst = (v, (r1, vis1))" by (cases vst) auto
          from one Inr vst have p: "acc_post children direct r0 ?vis (r1, vis1)" "r1 c = Some v" by simp_all
          then have vis1: "vis1 = ?vis" "r0 \<subseteq>\<^sub>m r1" "acc_inv children direct r1 ?vis" by (simp_all add: acc_post_def)
          have cs: "set cs \<subseteq> set (children m)" using Cons.prems(1) by simp
          note rest = Cons.IH [OF cs vis1(3), of "add_areas total v"]
          have eq: "foldE ?step (c # cs) (total, (r0, ?vis)) = foldE ?step cs (add_areas total v, (r1, ?vis))"
            using Inr vst vis1(1) by simp
          show ?thesis
          proof (cases "foldE ?step cs (add_areas total v, (r1, ?vis))")
            case (Inl e)
            with rest eq show ?thesis by simp
          next
            case (Inr res)
            obtain t st where res: "res = (t, st)" by (cases res)
            from rest Inr res have q: "acc_post children direct r1 ?vis st" "set cs \<subseteq> dom (fst st)"
              "t = foldl add_areas (add_areas total v) (map (\<lambda>c. the (fst st c)) cs)" by simp_all
            have "r1 \<subseteq>\<^sub>m fst st" using q(1) by (simp add: acc_post_def)
            then have c: "fst st c = Some v" using p(2) by (metis domI map_le_def)
            have "acc_post children direct r0 ?vis st"
              using q(1) vis1(2) by (auto simp: acc_post_def intro: map_le_trans)
            with q c Inr res eq show ?thesis by auto
          qed
        qed
      qed
      note all = fold [of "children m" recursive "own_areas stats", OF subset_refl inv0]
      show ?thesis
      proof (cases "foldE ?step (children m) (own_areas stats, (recursive, ?vis))")
        case (Inl e)
        with all None False stats show ?thesis by simp
      next
        case (Inr res)
        obtain t r2 vis2 where res: "res = (t, (r2, vis2))" by (cases res) auto
        from all Inr res have q: "acc_post children direct recursive ?vis (r2, vis2)" "set (children m) \<subseteq> dom r2"
          "t = foldl add_areas (own_areas stats) (map (\<lambda>c. the (r2 c)) (children m))" by simp_all
        from q(1) have post: "vis2 = ?vis" "recursive \<subseteq>\<^sub>m r2" "acc_inv children direct r2 ?vis" by (simp_all add: acc_post_def)
        have m2: "m \<notin> dom r2" using post(3) by (auto simp: acc_inv_def)
        have "acc_inv children direct (r2(m \<mapsto> t)) visiting"
          by (rule acc_finish [OF post(3) q(2) False]) (simp add: q(3) stats)
        moreover have "recursive \<subseteq>\<^sub>m r2(m \<mapsto> t)" using post(2) None by (auto simp: map_le_def)
        moreover have "?vis - {m} = visiting" using False by simp
        ultimately show ?thesis using Inr res post(1) None False stats by (simp add: acc_post_def)
      qed
    qed
  qed
qed simp


section \<open>All modules\<close>

lemma accumulate_all_ok:
  assumes U: "closed_modules children direct (set modules)"
  shows "case accumulate_all children direct modules of
      Inl e \<Rightarrow> cycle_error children e
    | Inr recursive \<Rightarrow> acc_inv children direct recursive {} \<and> set modules \<subseteq> dom recursive"
proof -
  let ?step = "\<lambda>module st. bindE (accumulate (Suc (length modules)) children direct module st) (\<lambda>(_, st). Inr st)"
  have "case foldE ?step ms (r0, {}) of
      Inl e \<Rightarrow> cycle_error children e
    | Inr st \<Rightarrow> acc_post children direct r0 {} st \<and> set ms \<subseteq> dom (fst st)"
    if "set ms \<subseteq> set modules" "acc_inv children direct r0 {}" for ms r0
    using that
  proof (induction ms arbitrary: r0)
    case Nil
    then show ?case by (simp add: acc_post_def)
  next
    case (Cons m ms)
    have m: "m \<in> set modules" "{} \<subseteq> set modules" using Cons.prems(1) by simp_all
    have card: "card (set modules - {}) < Suc (length modules)" using card_length [of modules] by simp
    have none: "\<forall>x \<in> {}. (x, m) \<in> (edges children)\<^sup>+" by simp
    note one = accumulate_ok [OF U m card Cons.prems(2) none]
    show ?case
    proof (cases "accumulate (Suc (length modules)) children direct m (r0, {})")
      case (Inl e)
      with one show ?thesis by (simp del: accumulate.simps)
    next
      case (Inr vst)
      obtain v r1 vis where vst: "vst = (v, (r1, vis))" by (cases vst) auto
      from one Inr vst have p: "vis = {}" "r0 \<subseteq>\<^sub>m r1" "acc_inv children direct r1 {}" "r1 m = Some v"
        by (simp_all add: acc_post_def del: accumulate.simps)
      have eq: "foldE ?step (m # ms) (r0, {}) = foldE ?step ms (r1, {})" using Inr vst p(1) by (simp del: accumulate.simps)
      have ms: "set ms \<subseteq> set modules" using Cons.prems(1) by simp
      note rest = Cons.IH [OF ms p(3)]
      show ?thesis
      proof (cases "foldE ?step ms (r1, {})")
        case (Inl e)
        with rest eq show ?thesis by (simp del: accumulate.simps foldE.simps)
      next
        case (Inr st)
        with rest have q: "acc_post children direct r1 {} st" "set ms \<subseteq> dom (fst st)" by (simp_all del: accumulate.simps)
        then have "r1 \<subseteq>\<^sub>m fst st" by (simp add: acc_post_def)
        then have "m \<in> dom (fst st)" using p(4) by (metis domI map_le_def)
        moreover have "acc_post children direct r0 {} st"
          using q(1) p(2) by (auto simp: acc_post_def intro: map_le_trans)
        ultimately show ?thesis using q(2) Inr eq by (simp del: accumulate.simps foldE.simps)
      qed
    qed
  qed
  from this [of modules Map.empty]
  have "case foldE ?step modules (Map.empty, {}) of
      Inl e \<Rightarrow> cycle_error children e
    | Inr st \<Rightarrow> acc_post children direct Map.empty {} st \<and> set modules \<subseteq> dom (fst st)"
    by (simp add: acc_inv_def del: accumulate.simps)
  then show ?thesis
    unfolding accumulate_all_def
    by (cases "foldE ?step modules (Map.empty, {})") (auto simp: acc_post_def simp del: accumulate.simps)
qed

text \<open>
  C22: the recursive areas are well defined: when every module has statistics and every child is a
  module, the recursion over the hierarchy always ends within its depth bound; it fails exactly on a
  module that contains itself through its children, and otherwise gives every module the area of its own
  cells plus those of its children, added in file order.
\<close>

theorem recursive_areas:
  assumes "\<forall>m \<in> set modules. set (children m) \<subseteq> set modules \<and> direct m \<noteq> None"
  shows "case accumulate_all children direct modules of
      Inl e \<Rightarrow> (\<exists>x. e = CycleAt x \<and> (x, x) \<in> {(m, c). c \<in> set (children m)}\<^sup>+)
    | Inr recursive \<Rightarrow> (\<forall>m \<in> set modules. (m, m) \<notin> {(m, c). c \<in> set (children m)}\<^sup>+ \<and>
        recursive m = Some (foldl add_areas (own_areas (the (direct m))) (map (\<lambda>c. the (recursive c)) (children m))))"
proof -
  have "closed_modules children direct (set modules)" using assms by (simp add: closed_modules_def)
  note ok = accumulate_all_ok [OF this]
  show ?thesis
  proof (cases "accumulate_all children direct modules")
    case (Inl e)
    with ok show ?thesis by (simp add: cycle_error_def edges_def)
  next
    case (Inr recursive)
    with ok have "acc_inv children direct recursive {}" "set modules \<subseteq> dom recursive" by simp_all
    then have "(m, m) \<notin> (edges children)\<^sup>+ \<and> area_eqn children direct recursive m" if "m \<in> set modules" for m
      using that unfolding acc_inv_def by blast
    with Inr show ?thesis by (simp add: area_eqn_def edges_def)
  qed
qed

definition demo_children :: "string \<Rightarrow> string list" where
  "demo_children m = (if m = ''top'' then [''a'', ''a'', ''b''] else if m = ''b'' then [''a''] else [])"

definition demo_direct :: "string \<Rightarrow> module_stats option" where
  "demo_direct m = Some \<lparr>st_area = Some (3, 1), st_sequential_area = None, st_other = []\<rparr>"

theorem recursive_areas_witness:
  "case accumulate_all demo_children demo_direct [''a'', ''b'', ''top''] of
      Inl e \<Rightarrow> (\<exists>x. e = CycleAt x \<and> (x, x) \<in> {(m, c). c \<in> set (demo_children m)}\<^sup>+)
    | Inr recursive \<Rightarrow>
       recursive ''b'' = Some (foldl add_areas (own_areas (the (demo_direct ''b''))) (map (\<lambda>c. the (recursive c)) (demo_children ''b'')))"
proof -
  have "\<forall>m \<in> set [''a'', ''b'', ''top'']. set (demo_children m) \<subseteq> set [''a'', ''b'', ''top''] \<and> demo_direct m \<noteq> None"
    by (simp add: demo_children_def demo_direct_def)
  note areas = recursive_areas [OF this]
  show ?thesis
  proof (cases "accumulate_all demo_children demo_direct [''a'', ''b'', ''top'']")
    case (Inl e)
    show ?thesis using areas unfolding Inl sum.case .
  next
    case (Inr recursive)
    have b: "''b'' \<in> set [''a'', ''b'', ''top'']" by simp
    from bspec [OF areas [unfolded Inr sum.case] b] show ?thesis unfolding Inr sum.case by (rule conjunct2)
  qed
qed

section \<open>Concurrent workers\<close>

lemma collect_direct_Inr: "collect_direct (map Inr rs) = Inr (map_of (rev rs))"
proof -
  have fold: "foldE (\<lambda>result direct. bindE result (\<lambda>(m, stats). Inr (direct(m \<mapsto> stats)))) (map Inr rs) d = Inr (d ++ map_of (rev rs))"
    for d :: "string \<rightharpoonup> module_stats" by (induction rs arbitrary: d) auto
  show ?thesis unfolding collect_direct_def fold by simp
qed

lemma collect_direct_perm:
  assumes "mset xs = mset (map Inr rs)" "distinct (map fst rs)"
  shows "collect_direct xs = collect_direct (map Inr rs)"
proof -
  have "\<forall>x \<in> set xs. \<exists>r. x = Inr r" using mset_eq_setD [OF assms(1)] by auto
  then obtain ss where ss: "xs = map Inr ss" by (metis ex_map_conv)
  have p: "mset ss = mset rs"
    using arg_cong [OF assms(1), of "image_mset projr"] by (simp add: ss multiset.map_comp comp_def)
  have "mset (map fst ss) = mset (map fst rs)" unfolding mset_map p by (rule refl)
  then have "distinct (map fst ss)" using assms(2) mset_eq_imp_distinct_iff by blast
  then have "map_of (rev ss) = map_of (rev rs)"
    using assms(2) p by (intro map_of_inject_set [THEN iffD2]) (auto simp: rev_map [symmetric] dest: mset_eq_setD)
  then show ?thesis by (simp add: ss collect_direct_Inr)
qed

lemma pick_module_key: "pick_module err m modules = Inr r \<Longrightarrow> fst r = canonical m"
  by (auto simp: pick_module_def Let_def split: option.splits)

lemma run_worker_key: "run_worker old_stat yosys w index m = Inr r \<Longrightarrow> fst r = canonical m"
  by (auto simp: run_worker_def pick_module_key split: option.splits prod.splits if_splits)

lemma original_name:
  assumes "m \<in> set (map canonical names)"
  shows "canonical (the (map_of (rev (map (\<lambda>name. (canonical name, name)) names)) m)) = m \<and>
    the (map_of (rev (map (\<lambda>name. (canonical name, name)) names)) m) \<in> set names"
proof -
  have "map_of (rev (map (\<lambda>name. (canonical name, name)) names)) m \<noteq> None"
    using assms by (auto simp: map_of_eq_None_iff image_image)
  then obtain n where n: "map_of (rev (map (\<lambda>name. (canonical name, name)) names)) m = Some n" by blast
  then have "(m, n) \<in> set (rev (map (\<lambda>name. (canonical name, name)) names))" by (rule map_of_SomeD)
  with n show ?thesis by auto
qed

text \<open>
  C23: running the workers concurrently gives the serial result: if the pool hands back the results of
  its workers in any order and the worker of every retained module succeeds, the merged statistics are those of
  mapping the modules one after the other.
\<close>

theorem concurrent_equals_serial:
  assumes "\<forall>ws. mset (pool ws) = mset (map (\<lambda>(i, m). run_worker old_stat yosys w i m) ws)"
    "\<forall>i. \<forall>m \<in> set pre_modules. \<exists>r. run_worker old_stat yosys w i m = Inr r"
  shows "parallel_map jobs fast abc_script pre_modules hierarchy_text pool =
    parallel_map jobs fast abc_script pre_modules hierarchy_text (map (\<lambda>(i, m). run_worker old_stat yosys w i m))"
proof -
  let ?names = "map_of (rev (map (\<lambda>name. (canonical name, name)) pre_modules))"
  let ?modules = "sorted_distinct (map canonical pre_modules)"
  let ?ws = "map (\<lambda>(i, m). (i, the (?names m))) (enumerate 0 ?modules)"
  let ?run = "\<lambda>(i, m). run_worker old_stat yosys w i m"
  let ?rs = "map (\<lambda>(i, m). projr (run_worker old_stat yosys w i m)) ?ws"
  have g: "run_worker old_stat yosys w i m = Inr (projr (run_worker old_stat yosys w i m))"
    if "m \<in> set pre_modules" for i m
  proof -
    from assms(2) that obtain r where "run_worker old_stat yosys w i m = Inr r" by blast
    then show ?thesis by simp
  qed
  have ws: "m \<in> set pre_modules" if "(i, m) \<in> set ?ws" for i m
  proof -
    from that obtain k where k: "(i, k) \<in> set (enumerate 0 ?modules)" "m = the (?names k)" by auto
    from k(1) have "k \<in> set ?modules" unfolding enumerate_eq_zip by (rule set_zip_rightD)
    then have "k \<in> set (map canonical pre_modules)" by simp
    from original_name [OF this] k(2) show ?thesis by simp
  qed
  have rs: "map ?run ?ws = map Inr ?rs"
    unfolding list.map_comp [of Inr] by (rule map_cong [OF refl]) (use g ws in \<open>auto simp del: set_map\<close>)
  have "map fst ?rs = map (\<lambda>(i, m). canonical m) ?ws"
    unfolding list.map_comp [of fst]
  proof (rule map_cong [OF refl])
    fix x assume "x \<in> set ?ws"
    moreover obtain i m where x: "x = (i, m)" by (cases x)
    ultimately show "(fst \<circ> (\<lambda>(i, m). projr (run_worker old_stat yosys w i m))) x = (case x of (i, m) \<Rightarrow> canonical m)"
      using run_worker_key [OF g [OF ws]] by simp
  qed
  also have "\<dots> = ?modules"
  proof (rule nth_equalityI)
    fix i assume "i < length (map (\<lambda>(i, m). canonical m) ?ws)"
    then have i: "i < length ?modules" by simp
    then have "?modules ! i \<in> set (map canonical pre_modules)" using nth_mem [OF i] by simp
    from original_name [OF this] i show "map (\<lambda>(i, m). canonical m) ?ws ! i = ?modules ! i"
      by (simp add: nth_enumerate_eq)
  qed simp
  finally have dist: "distinct (map fst ?rs)" by simp
  have "mset (pool ?ws) = mset (map Inr ?rs)" using assms(1) rs by metis
  then have eq: "collect_direct (pool ?ws) = collect_direct (map ?run ?ws)"
    unfolding rs by (rule collect_direct_perm [OF _ dist])
  show ?thesis unfolding parallel_map_def Let_def eq by (rule refl)
qed

definition demo_args :: worker_args where
  "demo_args = \<lparr>w_checkpoint = ''c'', w_liberty = ''l'', w_constraint = ''k'', w_dir = ''d'', w_reuse = False, w_fast = False,
    w_abc_script = None\<rparr>"

definition demo_yosys :: "string list \<Rightarrow> int \<times> (string \<times> module_stats) list" where
  "demo_yosys script = (0, [(''a'', the (demo_direct ''a'')), (''b'', the (demo_direct ''b''))])"

theorem concurrent_equals_serial_witness:
  "parallel_map 2 False None [''b'', ''a''] []
     (\<lambda>ws. rev (map (\<lambda>(i, m). run_worker (\<lambda>_. None) demo_yosys demo_args i m) ws)) =
   parallel_map 2 False None [''b'', ''a''] [] (map (\<lambda>(i, m). run_worker (\<lambda>_. None) demo_yosys demo_args i m))"
proof (rule concurrent_equals_serial)
  show "\<forall>ws. mset (rev (map (\<lambda>(i, m). run_worker (\<lambda>_. None) demo_yosys demo_args i m) ws)) =
      mset (map (\<lambda>(i, m). run_worker (\<lambda>_. None) demo_yosys demo_args i m) ws)" by simp
  show "\<forall>i. \<forall>m \<in> set [''b'', ''a'']. \<exists>r. run_worker (\<lambda>_. None) demo_yosys demo_args i m = Inr r"
    by (simp add: run_worker_def demo_args_def demo_yosys_def pick_module_def canonical_def Let_def)
qed

end
