(* ===== verification/PyCounter.thy ===== *)
theory PyCounter
  imports PyRegex
begin

text \<open>
  \<open>collections.Counter\<close> and insertion-ordered dictionaries: association lists in the order in which the
  keys were first stored; and text helpers. \<open>most_common\<close> is a stable sort by descending count, as Python's is.
\<close>

type_synonym 'k counter = "('k \<times> int) list"

fun bump :: "'k \<Rightarrow> int \<Rightarrow> 'k counter \<Rightarrow> 'k counter" where
  "bump k d [] = [(k, d)]"
| "bump k d ((j, n) # c) = (if j = k then (j, n + d) # c else (j, n) # bump k d c)"

definition counter_of :: "'k list \<Rightarrow> 'k counter" where
  "counter_of xs = foldl (\<lambda>c x. bump x 1 c) [] xs"

definition hits :: "'k counter \<Rightarrow> 'k \<Rightarrow> int" where
  "hits c k = (case map_of c k of None \<Rightarrow> 0 | Some n \<Rightarrow> n)"

definition most_common :: "'k counter \<Rightarrow> 'k counter" where
  "most_common c = sort_key (\<lambda>(k, n). - n) c"

fun put :: "'k \<Rightarrow> 'v \<Rightarrow> ('k \<times> 'v) list \<Rightarrow> ('k \<times> 'v) list" where
  "put k v [] = [(k, v)]"
| "put k v ((j, w) # d) = (if j = k then (j, v) # d else (j, w) # put k v d)"

fun push :: "'k \<Rightarrow> 'v \<Rightarrow> ('k \<times> 'v list) list \<Rightarrow> ('k \<times> 'v list) list" where
  "push k v [] = [(k, [v])]"
| "push k v ((j, vs) # d) = (if j = k then (j, vs @ [v]) # d else (j, vs) # push k v d)"

definition list_at :: "('k \<times> 'v list) list \<Rightarrow> 'k \<Rightarrow> 'v list" where
  "list_at d k = (case map_of d k of None \<Rightarrow> [] | Some vs \<Rightarrow> vs)"

definition first_seen :: "'a list \<Rightarrow> 'a list" where
  "first_seen xs = rev (remdups (rev xs))"

definition total :: "'k counter \<Rightarrow> int" where
  "total c = sum_list (map snd c)"

section \<open>Text\<close>

text \<open>\<open>sub in s\<close>, \<open>s.split(None, n)\<close> (the rest keeps its trailing blanks) and \<open>s.split(c, 1)\<close>.\<close>

fun contains :: "string \<Rightarrow> string \<Rightarrow> bool" where
  "contains sub [] \<longleftrightarrow> sub = []"
| "contains sub (c # cs) \<longleftrightarrow> starts_with sub (c # cs) \<or> contains sub cs"

fun split_ws :: "nat \<Rightarrow> string \<Rightarrow> string list" where
  "split_ws 0 s = (let t = lstrip s in if t = [] then [] else [t])"
| "split_ws (Suc n) s =
     (let t = lstrip s in
      if t = [] then [] else takeWhile non_space t # split_ws n (dropWhile non_space t))"

definition split_once :: "char \<Rightarrow> string \<Rightarrow> (string \<times> string) option" where
  "split_once c s =
     (if c \<in> set s then Some (takeWhile (\<lambda>x. x \<noteq> c) s, tl (dropWhile (\<lambda>x. x \<noteq> c) s)) else None)"

section \<open>Laws\<close>

lemma hits_bump [simp]: "hits (bump k d c) j = hits c j + (if j = k then d else 0)"
  by (induction k d c rule: bump.induct) (auto simp: hits_def)

lemma dom_bump [simp]: "fst ` set (bump k d c) = insert k (fst ` set c)"
  by (induction k d c rule: bump.induct) auto

lemma distinct_bump [simp]: "distinct (map fst (bump k d c)) = distinct (map fst c)"
  by (induction k d c rule: bump.induct) simp_all

lemma total_bump [simp]: "total (bump k d c) = total c + d"
  by (induction k d c rule: bump.induct) (auto simp: total_def)

lemma count_if_snoc [simp]: "count_if P (xs @ [x]) = count_if P xs + (if P x then 1 else 0)"
  by (simp add: count_if_def)

lemma counter_of_snoc: "counter_of (xs @ [x]) = bump x 1 (counter_of xs)"
  by (simp add: counter_of_def)

lemma counter_of_facts:
  "hits (counter_of xs) k = count_if (\<lambda>x. x = k) xs \<and> fst ` set (counter_of xs) = set xs \<and>
   distinct (map fst (counter_of xs)) \<and> total (counter_of xs) = int (length xs)"
proof (induction xs rule: rev_induct)
  case Nil
  show ?case by (simp add: counter_of_def hits_def count_if_def total_def)
next
  case (snoc x xs)
  then show ?case unfolding counter_of_snoc by auto
qed

lemma hits_member: "distinct (map fst c) \<Longrightarrow> (k, n) \<in> set c \<Longrightarrow> hits c k = n"
  by (simp add: hits_def)

lemma list_at_push [simp]: "list_at (push k v d) j = list_at d j @ (if j = k then [v] else [])"
  by (induction k v d rule: push.induct) (auto simp: list_at_def)

lemma dom_push [simp]: "fst ` set (push k v d) = insert k (fst ` set d)"
  by (induction k v d rule: push.induct) auto

lemma distinct_push [simp]: "distinct (map fst (push k v d)) = distinct (map fst d)"
  by (induction k v d rule: push.induct) simp_all

lemma mset_most_common [simp]: "mset (most_common c) = mset c"
  by (simp add: most_common_def)

lemma set_most_common [simp]: "set (most_common c) = set c"
  by (simp add: most_common_def)

lemma sorted_most_common: "sorted_wrt (\<ge>) (map snd (most_common c))"
proof -
  have "sorted (map (\<lambda>(k, n). - n) (most_common c))" unfolding most_common_def by (rule sorted_sort_key)
  then show ?thesis by (simp add: sorted_map sorted_wrt_map case_prod_unfold)
qed

lemma total_most_common [simp]: "total (most_common c) = total c"
proof -
  have "sum_list (map snd (most_common c)) = sum_mset (image_mset snd (mset (most_common c)))"
    by (metis mset_map sum_mset_sum_list)
  then show ?thesis by (simp add: total_def flip: sum_mset_sum_list)
qed

lemma counter_of_nil [simp]: "counter_of xs = [] \<longleftrightarrow> xs = []"
  using counter_of_facts [of xs] by (metis image_is_empty set_empty)

end
