(* ===== verification/PcHistogram.thy ===== *)
theory PcHistogram
  imports PyCounter
begin

text \<open>
  \<open>tools/linux_boot_pc_histogram.py\<close>: the PC samples of a boot log, their symbols and the Markdown histogram.
  The log's text, whether the input files exist, \<open>addr2line\<close> and the time stamp are arguments. Decimal
  digits are the ASCII ones.
\<close>

section \<open>Samples\<close>

definition PROGRESS_RE :: rx where
  "PROGRESS_RE = seqs
     [lit ''OpenSBI progress cycles='', Grp ''cycles'' (some digit), lit '' instret='', Grp ''instret'' (some digit),
      many_lazy any_char, lit '' pc='', Grp ''pc'' (some hex_digit),
      many_lazy any_char, lit '' priv='', Grp ''priv'' (some digit)]"

definition KERNEL_BASE :: int where
  "KERNEL_BASE = 0xFFFFFFFF80000000"

record sample =
  cycles :: int
  instret :: int
  pc :: int
  priv :: int

record symbol =
  function_name :: string
  location :: string

definition sample_of :: "rpos \<Rightarrow> sample" where
  "sample_of q = \<lparr>cycles = group_int 10 ''cycles'' q, instret = group_int 10 ''instret'' q,
     pc = group_int 16 ''pc'' q, priv = group_int 10 ''priv'' q\<rparr>"

definition parse_samples :: "string \<Rightarrow> sample list" where
  "parse_samples log_text =
     sort_key cycles (concat (map (\<lambda>line. map sample_of (re_finditer PROGRESS_RE line)) (splitlines log_text)))"

section \<open>Symbols\<close>

datatype histogram_error =
    LogMissing
  | VmlinuxMissing
  | CadenceNotPositive
  | TopNotPositive
  | NoKernelSamples
  | Addr2lineFailed
  | UnexpectedLines nat nat
  | EmptySamples

definition addr2line_command :: "string \<Rightarrow> int list \<Rightarrow> string list" where
  "addr2line_command vmlinux addresses =
     [''riscv64-linux-gnu-addr2line'', ''-f'', ''-C'', ''-e'', vmlinux] @ map (\<lambda>a. ''0x'' @ hex a) addresses"

definition symbolize ::
  "(string list \<Rightarrow> string option) \<Rightarrow> string \<Rightarrow> int list \<Rightarrow> histogram_error + (int \<rightharpoonup> symbol)" where
  "symbolize addr2line vmlinux addresses =
     (if addresses = [] then Inr Map.empty
      else case addr2line (addr2line_command vmlinux addresses) of
        None \<Rightarrow> Inl Addr2lineFailed
      | Some stdout \<Rightarrow>
          let lines = splitlines stdout in
          if length lines \<noteq> 2 * length addresses then Inl (UnexpectedLines (length lines) (length addresses))
          else Inr (map_of (rev (map (\<lambda>(index, address).
                 (address, \<lparr>function_name = lines ! (2 * index), location = lines ! (2 * index + 1)\<rparr>))
                 (enumerate 0 addresses)))))"

section \<open>Report\<close>

definition KERNEL_CLASS :: string where
  "KERNEL_CLASS = ''kernel S-mode''"

definition privilege_class :: "sample \<Rightarrow> string" where
  "privilege_class s =
     (if priv s = 1 \<and> KERNEL_BASE \<le> pc s then KERNEL_CLASS
      else if priv s = 3 then ''machine mode''
      else if priv s = 0 then ''user mode''
      else if priv s = 1 then ''non-kernel S-mode''
      else ''privilege '' @ dec (priv s))"

definition format_cycles :: "int \<Rightarrow> string" where
  "format_cycles n =
     (if n \<ge> 1000000 then fixed 3 (float_div n 1000000) @ ''M''
      else if n \<ge> 1000 then fixed 3 (float_div n 1000) @ ''K''
      else dec n)"

definition kernel_samples :: "sample list \<Rightarrow> sample list" where
  "kernel_samples samples = filter (\<lambda>s. privilege_class s = KERNEL_CLASS) samples"

definition symbol_of :: "(int \<rightharpoonup> symbol) \<Rightarrow> sample \<Rightarrow> symbol" where
  "symbol_of symbols s = get_or symbols (pc s) \<lparr>function_name = ''??'', location = ''??:0''\<rparr>"

definition function_counts :: "(int \<rightharpoonup> symbol) \<Rightarrow> sample list \<Rightarrow> string counter" where
  "function_counts symbols samples = counter_of (map (\<lambda>s. function_name (symbol_of symbols s)) (kernel_samples samples))"

definition function_location :: "(int \<rightharpoonup> symbol) \<Rightarrow> sample list \<Rightarrow> (string \<rightharpoonup> string)" where
  "function_location symbols samples =
     foldl (\<lambda>d s. setdefault d (function_name (symbol_of symbols s)) (location (symbol_of symbols s)))
       Map.empty (kernel_samples samples)"

definition header_lines :: "string \<Rightarrow> string \<Rightarrow> string \<Rightarrow> sample list \<Rightarrow> int \<Rightarrow> string list" where
  "header_lines generated log vmlinux samples cadence =
     [''# Linux boot PC sample histogram'', '''', ''Generated: `'' @ generated @ ''`'', '''', ''Log: `'' @ log @ ''`'', '''',
      ''Symbols: `'' @ vmlinux @ ''`'', '''', ''## Method and scope'', '''',
      ''This is a periodic point-sample profile from `OpenSBI progress` records. '' @
      ''A hit identifies the PC at the sampling instant; it does not prove that the complete interval was spent in that function.'',
      '''',
      ''- Cycle range: `'' @ dec (cycles (hd samples)) @ ''` to `'' @ dec (cycles (last samples)) @ ''`'',
      ''- Retired-instruction range: `'' @ dec (instret (hd samples)) @ ''` to `'' @ dec (instret (last samples)) @ ''`'',
      ''- Samples: `'' @ dec (int (length samples)) @ ''`'',
      ''- Nominal cadence: `'' @ dec cadence @ ''` cycles'',
      ''- Sample-equivalent cycles below are `hits * cadence`; they are an intuitive scale, not exact attribution.'',
      '''', ''## Privilege histogram'', '''',
      ''| Class | Samples | Percent | Sample-equivalent cycles |'', ''|---|---:|---:|---:|'']"

definition class_line :: "int \<Rightarrow> int \<Rightarrow> string \<times> int \<Rightarrow> string" where
  "class_line samples cadence row = (case row of (name, n) \<Rightarrow>
     ''| '' @ name @ '' | '' @ dec n @ '' | '' @ fixed 2 (float_div (100 * n) samples) @ ''% | '' @
     format_cycles (n * cadence) @ '' |'')"

definition function_line ::
  "int \<Rightarrow> int \<Rightarrow> int \<Rightarrow> (string \<rightharpoonup> string) \<Rightarrow> nat \<Rightarrow> string \<times> int \<Rightarrow> string" where
  "function_line in_kernel samples cadence locations rank row = (case row of (name, n) \<Rightarrow>
     let kernel_percent = (if in_kernel \<noteq> 0 then float_div (100 * n) in_kernel else (0, 1))
     in ''| '' @ dec (int rank) @ '' | `'' @ name @ ''` | '' @ dec n @ '' | '' @ fixed 2 kernel_percent @ ''% | '' @
        fixed 2 (float_div (100 * n) samples) @ ''% | '' @ format_cycles (n * cadence) @ '' | `'' @
        the (locations name) @ ''` |'')"

definition footer :: "string list" where
  "footer =
     ['''', ''## Interpretation limits'', '''', ''- The cadence is coarse enough to miss short hot paths.'',
      ''- Deterministic periodic sampling can alias with periodic loops.'',
      ''- Stall causes are not identified by a PC histogram.'',
      ''- Exact cycle attribution requires a denser runtime-gated cycle trace or dedicated hardware/simulation counters.'',
      '''']"

definition class_rows :: "sample list \<Rightarrow> string counter" where
  "class_rows samples = most_common (counter_of (map privilege_class samples))"

definition function_rows :: "(int \<rightharpoonup> symbol) \<Rightarrow> sample list \<Rightarrow> nat \<Rightarrow> string counter" where
  "function_rows symbols samples top_n = take top_n (most_common (function_counts symbols samples))"

definition markdown_report ::
  "string \<Rightarrow> string \<Rightarrow> string \<Rightarrow> sample list \<Rightarrow> (int \<rightharpoonup> symbol) \<Rightarrow> nat \<Rightarrow> int \<Rightarrow> histogram_error + string" where
  "markdown_report generated log vmlinux samples symbols top_n cadence =
     (if samples = [] then Inl EmptySamples
      else
        let n = int (length samples); in_kernel = int (length (kernel_samples samples));
            locations = function_location symbols samples; rows = function_rows symbols samples top_n
        in Inr (str_join [CHR 0x0A]
          (header_lines generated log vmlinux samples cadence @
           map (class_line n cadence) (class_rows samples) @
           ['''', ''## Top kernel functions'', '''',
            ''| Rank | Function | Hits | Kernel samples | All samples | Sample-equivalent cycles | Source |'',
            ''|---:|---|---:|---:|---:|---:|---|''] @
           map (\<lambda>(rank, row). function_line in_kernel n cadence locations rank row) (enumerate 1 rows) @
           (if function_counts symbols samples = [] then [''| - | No symbolized kernel samples | 0 | 0% | 0% | 0 | - |''] else []) @
           footer)))"

section \<open>The command\<close>

record options =
  log :: string
  vmlinux :: string
  start_cycle :: "int option"
  end_cycle :: "int option"
  top_n :: int
  cadence :: int

definition selected :: "options \<Rightarrow> sample \<Rightarrow> bool" where
  "selected args s \<longleftrightarrow> cycles s mod cadence args = 0 \<and>
     (case start_cycle args of None \<Rightarrow> True | Some c \<Rightarrow> c \<le> cycles s) \<and>
     (case end_cycle args of None \<Rightarrow> True | Some c \<Rightarrow> cycles s \<le> c)"

definition select_samples :: "options \<Rightarrow> sample list \<Rightarrow> histogram_error + sample list" where
  "select_samples args parsed =
     (let samples = filter (selected args) parsed in
      case find_index (\<lambda>s. privilege_class s = KERNEL_CLASS) samples of
        None \<Rightarrow> Inl NoKernelSamples
      | Some first_kernel_index \<Rightarrow> Inr (drop first_kernel_index samples))"

definition pc_histogram ::
  "(string \<Rightarrow> string option) \<Rightarrow> (string list \<Rightarrow> string option) \<Rightarrow> string \<Rightarrow> options \<Rightarrow> histogram_error + string" where
  "pc_histogram read_file addr2line generated args =
     (case read_file (log args) of
        None \<Rightarrow> Inl LogMissing
      | Some log_text \<Rightarrow>
          if read_file (vmlinux args) = None then Inl VmlinuxMissing
          else if cadence args \<le> 0 then Inl CadenceNotPositive
          else if top_n args \<le> 0 then Inl TopNotPositive
          else
            bindE (select_samples args (parse_samples log_text)) (\<lambda>samples.
            bindE (symbolize addr2line (vmlinux args) (sorted_distinct (map pc (kernel_samples samples)))) (\<lambda>symbols.
              markdown_report generated (log args) (vmlinux args) samples symbols (nat (top_n args)) (cadence args))))"

section \<open>What the tables count\<close>

lemma hits_most_common [simp]: "distinct (map fst c) \<Longrightarrow> hits (most_common c) k = hits c k"
  unfolding hits_def by (subst map_of_inject_set [THEN iffD2, of "most_common c" c])
    (simp_all add: mset_eq_imp_distinct_iff [of "map fst (most_common c)" "map fst c"])

lemma class_rows_count:
  "hits (class_rows samples) name = count_if (\<lambda>s. privilege_class s = name) samples \<and>
   total (class_rows samples) = int (length samples)"
  using counter_of_facts [of "map privilege_class samples" name]
  by (simp add: class_rows_def count_if_def filter_map comp_def)

lemma function_counts_facts:
  "hits (function_counts symbols samples) f = count_if (\<lambda>s. function_name (symbol_of symbols s) = f) (kernel_samples samples) \<and>
   distinct (map fst (function_counts symbols samples)) \<and>
   total (function_counts symbols samples) = int (length (kernel_samples samples))"
  using counter_of_facts [of "map (\<lambda>s. function_name (symbol_of symbols s)) (kernel_samples samples)" f]
  by (simp add: function_counts_def count_if_def filter_map comp_def)

lemma omitted_not_above:
  assumes "sorted_wrt (\<ge>) (map snd xs)" "(f, n) \<in> set (take k xs)" "(g, m) \<in> set (drop k xs)"
  shows "m \<le> (n :: int)"
proof -
  have "sorted_wrt (\<ge>) (map snd (take k xs) @ map snd (drop k xs))"
    using assms(1) by (simp flip: map_append)
  then have "\<forall>a \<in> set (map snd (take k xs)). \<forall>b \<in> set (map snd (drop k xs)). b \<le> a"
    unfolding sorted_wrt_append by (elim conjE)
  moreover have "n \<in> set (map snd (take k xs))" "m \<in> set (map snd (drop k xs))" using assms(2,3) by force+
  ultimately show ?thesis by blast
qed

lemma function_counts_names:
  "fst ` set (function_counts symbols samples) = (\<lambda>s. function_name (symbol_of symbols s)) ` set (kernel_samples samples)"
  using counter_of_facts [of "map (\<lambda>s. function_name (symbol_of symbols s)) (kernel_samples samples)"]
  by (simp add: function_counts_def)

lemma distinct_most_common [simp]: "distinct (map fst (most_common c)) = distinct (map fst c)"
  by (rule mset_eq_imp_distinct_iff) simp

lemma class_rows_distinct: "distinct (map fst (class_rows samples))"
  using counter_of_facts [of "map privilege_class samples"] by (simp add: class_rows_def)

lemma function_rows_shape:
  "distinct (map fst (function_rows symbols samples limit))"
  "sorted_wrt (\<ge>) (map snd (function_rows symbols samples limit))"
  "length (function_rows symbols samples limit) =
     min limit (card ((\<lambda>s. function_name (symbol_of symbols s)) ` set (kernel_samples samples)))"
proof -
  let ?c = "function_counts symbols samples"
  have dist: "distinct (map fst ?c)" using function_counts_facts [of symbols samples] by blast
  then show "distinct (map fst (function_rows symbols samples limit))"
    by (simp add: function_rows_def flip: take_map)
  show "sorted_wrt (\<ge>) (map snd (function_rows symbols samples limit))"
    using sorted_wrt_take [OF sorted_most_common, of limit ?c] by (simp add: function_rows_def take_map)
  have "length (most_common ?c) = length ?c" by (metis mset_most_common size_mset)
  also have "\<dots> = card (fst ` set ?c)" using distinct_card [OF dist] by simp
  finally show "length (function_rows symbols samples limit) =
      min limit (card ((\<lambda>s. function_name (symbol_of symbols s)) ` set (kernel_samples samples)))"
    by (simp add: function_rows_def function_counts_names)
qed

text \<open>
  C24: the histogram accounts for every sample. The privilege table has one row a class, counts each class exactly and
  its rows add up to the number of samples. The function table has one row a function and as many rows as the limit
  and the functions seen allow; a row counts the kernel samples of that function, all functions together the samples
  of the kernel class, and a function left out of the table has no more hits than any function in it. Both tables are
  in descending order.
\<close>

theorem histogram_accounts_for_samples:
  assumes "(f, n) \<in> set (function_rows symbols samples limit)" "g \<notin> fst ` set (function_rows symbols samples limit)"
  shows "n = count_if (\<lambda>s. function_name (symbol_of symbols s) = f) (kernel_samples samples) \<and>
    count_if (\<lambda>s. function_name (symbol_of symbols s) = g) (kernel_samples samples) \<le> n \<and>
    total (function_counts symbols samples) = hits (class_rows samples) KERNEL_CLASS \<and>
    hits (class_rows samples) name = count_if (\<lambda>s. privilege_class s = name) samples \<and>
    total (class_rows samples) = int (length samples) \<and>
    distinct (map fst (class_rows samples)) \<and> distinct (map fst (function_rows symbols samples limit)) \<and>
    sorted_wrt (\<ge>) (map snd (class_rows samples)) \<and> sorted_wrt (\<ge>) (map snd (function_rows symbols samples limit)) \<and>
    length (function_rows symbols samples limit) =
      min limit (card ((\<lambda>s. function_name (symbol_of symbols s)) ` set (kernel_samples samples)))"
proof (intro conjI)
  let ?c = "function_counts symbols samples"
  have facts: "hits ?c h = count_if (\<lambda>s. function_name (symbol_of symbols s) = h) (kernel_samples samples)" for h
    using function_counts_facts [of symbols samples h] by blast
  have dist: "distinct (map fst ?c)" using function_counts_facts [of symbols samples] by blast
  have "(f, n) \<in> set ?c" using in_set_takeD [OF assms(1) [unfolded function_rows_def]] by simp
  then have n: "hits ?c f = n" by (rule hits_member [OF dist])
  show "n = count_if (\<lambda>s. function_name (symbol_of symbols s) = f) (kernel_samples samples)" using facts n by simp
  show "count_if (\<lambda>s. function_name (symbol_of symbols s) = g) (kernel_samples samples) \<le> n"
  proof (cases "map_of ?c g")
    case None
    then have "hits ?c g = 0" by (simp add: hits_def)
    moreover have "0 \<le> n" using n facts [of f] by (simp add: count_if_def)
    ultimately show ?thesis using facts by simp
  next
    case (Some m)
    then have m: "(g, m) \<in> set (most_common ?c)" by (simp add: map_of_SomeD)
    have "(g, m) \<notin> set (take limit (most_common ?c))" using assms(2) unfolding function_rows_def by force
    with m have "(g, m) \<in> set (drop limit (most_common ?c))" by (metis UnE append_take_drop_id set_append)
    from omitted_not_above [OF sorted_most_common assms(1) [unfolded function_rows_def] this] have "m \<le> n" .
    moreover have "hits ?c g = m" using Some by (simp add: hits_def)
    ultimately show ?thesis using facts by simp
  qed
  show "total ?c = hits (class_rows samples) KERNEL_CLASS"
    using function_counts_facts [of symbols samples] class_rows_count [of samples KERNEL_CLASS]
    by (simp add: kernel_samples_def count_if_def)
  show "hits (class_rows samples) name = count_if (\<lambda>s. privilege_class s = name) samples"
    "total (class_rows samples) = int (length samples)" using class_rows_count by blast+
  show "sorted_wrt (\<ge>) (map snd (class_rows samples))" unfolding class_rows_def by (rule sorted_most_common)
qed (rule class_rows_distinct function_rows_shape)+

definition demo_samples :: "sample list" where
  "demo_samples =
     [\<lparr>cycles = 250, instret = 1, pc = KERNEL_BASE + 4, priv = 1\<rparr>, \<lparr>cycles = 500, instret = 2, pc = 16, priv = 3\<rparr>,
      \<lparr>cycles = 750, instret = 3, pc = KERNEL_BASE + 8, priv = 1\<rparr>, \<lparr>cycles = 1000, instret = 4, pc = KERNEL_BASE + 8, priv = 1\<rparr>]"

definition demo_symbols :: "int \<Rightarrow> symbol option" where
  "demo_symbols a = Some \<lparr>function_name = (if a = KERNEL_BASE + 8 then ''idle'' else ''boot''), location = ''x.c''\<rparr>"

theorem histogram_accounts_for_samples_witness:
  "count_if (\<lambda>s. function_name (symbol_of demo_symbols s) = ''boot'') (kernel_samples demo_samples) \<le> 2 \<and>
   hits (class_rows demo_samples) KERNEL_CLASS = count_if (\<lambda>s. privilege_class s = KERNEL_CLASS) demo_samples"
proof -
  have "(''idle'', 2) \<in> set (function_rows demo_symbols demo_samples 1)" by code_simp
  moreover have "''boot'' \<notin> fst ` set (function_rows demo_symbols demo_samples 1)" by code_simp
  ultimately show ?thesis
    using histogram_accounts_for_samples [of "''idle''" 2 demo_symbols demo_samples 1 "''boot''" KERNEL_CLASS] by blast
qed

end
