(* ===== verification/CorePipes.thy ===== *)
theory CorePipes
  imports PyCounter
begin

unbundle bit_operations_syntax

text \<open>
  \<open>tools/compare_coremark_pipelines.py\<close>: the two dynamic traces (the OpenRV64 cycle CSV and the gem5 HPI
  event log), the window and call selection, and the measures over them. The disassembler's output is an
  argument, and so are the rows and the lines of the two files. A \<open>defaultdict\<close> of lists is a total
  function or an association list with the empty list for absent keys.
\<close>

section \<open>Instructions and traces\<close>

datatype compare_error =
    BadCell string
  | OnlyOccurrences int
  | OnlyRemaining int
  | UnknownKey string
  | EmptyMin
  | StageMissing string
  | DivisionByZero
  | NoWord
  | NotAligned
  | IndexOutOfRange int
  | NoMedian

record dynamic_instruction =
  key :: string
  pc :: int
  bits :: int
  op_text :: string
  stages :: "string \<Rightarrow> int list"
  issue_events :: "(int \<times> string) list"
  complete_events :: "(int \<times> string) list"

definition new_dynamic :: "string \<Rightarrow> int \<Rightarrow> int \<Rightarrow> string \<Rightarrow> dynamic_instruction" where
  "new_dynamic k p b t =
     \<lparr>key = k, pc = p, bits = b, op_text = t, stages = (\<lambda>_. []), issue_events = [], complete_events = []\<rparr>"

type_synonym instructions = "string \<Rightarrow> dynamic_instruction option"

record orv_trace =
  orv_instructions :: instructions
  retired :: "string list"
  rows :: "int \<Rightarrow> (string \<Rightarrow> int) option"

record hpi_trace =
  hpi_instructions :: instructions
  committed :: "string list"
  failed_issue :: "(int \<times> string list) list"

definition add_stage :: "string \<Rightarrow> int \<Rightarrow> dynamic_instruction \<Rightarrow> dynamic_instruction" where
  "add_stage stage cycle inst = inst\<lparr>stages := (stages inst)(stage := stages inst stage @ [cycle])\<rparr>"

section \<open>Disassembly\<close>

definition DISASSEMBLY_RE :: rx where
  "DISASSEMBLY_RE = seqs [Bol, many is_space, Grp ''1'' (some hex_digit), lit '':'', some is_space, some hex_digit,
     some is_space, Grp ''2'' (some_lazy any_char), many is_space, Eol]"

definition disassembly :: "string \<Rightarrow> (int \<rightharpoonup> string)" where
  "disassembly output =
     foldl (\<lambda>result line.
       case re_match DISASSEMBLY_RE line of
         None \<Rightarrow> result
       | Some q \<Rightarrow> result(group_int 16 ''1'' q \<mapsto> group_of ''2'' q)) Map.empty (splitlines output)"

section \<open>The OpenRV64 trace\<close>

definition ORV_STAGES :: "(string \<times> string \<times> string) list" where
  "ORV_STAGES = [(''F'', ''fetch_valid'', ''f''), (''D'', ''decode_valid'', ''d''), (''I'', ''issue_valid'', ''i''),
     (''C'', ''complete_valid'', ''c''), (''R'', ''retire_valid'', ''r'')]"

definition read_cells :: "csv_row \<Rightarrow> nat \<Rightarrow> string list \<Rightarrow> (string \<Rightarrow> int) \<Rightarrow> compare_error + (string \<Rightarrow> int)" where
  "read_cells raw base names row =
     foldE (\<lambda>name row. bindE (int_cell BadCell base raw name) (\<lambda>v. Inr (row(name := v)))) names row"

definition orv_row :: "csv_row \<Rightarrow> compare_error + (string \<Rightarrow> int)" where
  "orv_row raw =
     bindE (read_cells raw 16 [''fetch_valid'', ''fetch_fire'', ''issue_valid'', ''complete_valid'', ''retire_valid'',
              ''raw'', ''waw'', ''read_port'', ''stall_causes''] (\<lambda>_. 0))
       (read_cells raw 10 [''dispatch_q'', ''retire_q'', ''barrier'', ''bp_fetch_stall'', ''bp_decode_stall'', ''redirect''])"

record orv_state =
  os_instructions :: instructions
  os_identities :: "int \<times> int \<times> int \<Rightarrow> string option"
  os_retired :: "string list"
  os_seen :: "string set"
  os_rows :: "int \<Rightarrow> (string \<Rightarrow> int) option"

definition identity_key :: "int \<times> int \<times> int \<Rightarrow> string" where
  "identity_key ident = (case ident of (uid, p, b) \<Rightarrow> hex uid @ '':'' @ hex p @ '':'' @ hex0 8 b)"

definition stage_event :: "string \<Rightarrow> int \<Rightarrow> dynamic_instruction \<Rightarrow> dynamic_instruction" where
  "stage_event stage cycle inst =
     (let inst = add_stage stage cycle inst in
      if stage = ''I'' then inst\<lparr>issue_events := issue_events inst @ [(cycle, op_text inst)]\<rparr>
      else if stage = ''C'' then inst\<lparr>complete_events := complete_events inst @ [(cycle, op_text inst)]\<rparr>
      else inst)"

definition orv_slot ::
  "(int \<rightharpoonup> string) \<Rightarrow> csv_row \<Rightarrow> int \<Rightarrow> string \<Rightarrow> int \<Rightarrow> string \<Rightarrow> nat \<Rightarrow> orv_state \<Rightarrow> compare_error + orv_state" where
  "orv_slot disasm raw cycle stage msk prefix lane st =
     (if \<not> flag_bit msk lane then Inr st
      else
        bindE (int_cell BadCell 16 raw (lane_col prefix lane ''uid'')) (\<lambda>uid.
        bindE (int_cell BadCell 16 raw (lane_col prefix lane ''pc'')) (\<lambda>p.
        bindE (int_cell BadCell 16 raw (lane_col prefix lane ''instr'')) (\<lambda>b.
          let ident = (uid, p, b);
              identities = setdefault (os_identities st) ident (identity_key ident);
              k = get_or identities ident [];
              instructions = setdefault (os_instructions st) k (new_dynamic k p b (get_or disasm p (''0x'' @ hex0 8 b)));
              inst = stage_event stage cycle (the (instructions k));
              st = st\<lparr>os_instructions := instructions(k \<mapsto> inst), os_identities := identities\<rparr>
          in Inr (if stage = ''R'' \<and> k \<notin> os_seen st
                  then st\<lparr>os_retired := os_retired st @ [k], os_seen := insert k (os_seen st)\<rparr> else st)))))"

definition orv_stage ::
  "(int \<rightharpoonup> string) \<Rightarrow> csv_row \<Rightarrow> int \<Rightarrow> string \<times> string \<times> string \<Rightarrow> orv_state \<Rightarrow> compare_error + orv_state" where
  "orv_stage disasm raw cycle stg st =
     (case stg of (stage, mask_name, prefix) \<Rightarrow>
        bindE (int_cell BadCell 16 raw mask_name) (\<lambda>msk.
          foldE (orv_slot disasm raw cycle stage msk prefix) lanes3 st))"

definition orv_raw_row :: "(int \<rightharpoonup> string) \<Rightarrow> csv_row \<Rightarrow> orv_state \<Rightarrow> compare_error + orv_state" where
  "orv_raw_row disasm raw st =
     bindE (int_cell BadCell 10 raw ''cycle'') (\<lambda>cycle.
     bindE (orv_row raw) (\<lambda>row.
       foldE (orv_stage disasm raw cycle) ORV_STAGES (st\<lparr>os_rows := (os_rows st)(cycle \<mapsto> row)\<rparr>)))"

definition orv_start :: orv_state where
  "orv_start = \<lparr>os_instructions = Map.empty, os_identities = Map.empty, os_retired = [], os_seen = {}, os_rows = Map.empty\<rparr>"

definition load_orv :: "string list list \<Rightarrow> (int \<rightharpoonup> string) \<Rightarrow> compare_error + orv_trace" where
  "load_orv lines disasm =
     bindE (foldE (orv_raw_row disasm) (case dict_reader lines of None \<Rightarrow> [] | Some (_, raws) \<Rightarrow> raws) orv_start)
       (\<lambda>st. Inr \<lparr>orv_instructions = os_instructions st, retired = os_retired st, rows = os_rows st\<rparr>)"

section \<open>The HPI trace\<close>

definition quote_rx :: rx where
  "quote_rx = lit [CHR 0x22]"

definition HPI_EVENT_RE :: rx where
  "HPI_EVENT_RE = seqs
     [Bol, many is_space, Grp ''1'' (some digit), lit '': '', many_lazy any_char, lit '' '',
      Grp ''2'' (alts [lit ''Issuing inst'', lit ''Issuing mem ref early inst'', lit ''Committing inst'',
                       lit ''Trying to commit mem response'', lit ''Didn't issue inst'']), lit '': '',
      Grp ''3'' (some non_space), lit '' pc: 0x'', Grp ''4'' (some hex_digit), lit '' ('',
      Grp ''5'' (some (\<lambda>c. c \<noteq> CHR '')'')), lit '')'']"

definition HPI_INST_RE :: rx where
  "HPI_INST_RE = seqs
     [Bol, many is_space, Grp ''1'' (some digit), lit '': '', many_lazy any_char, lit ''MinorInst: id='',
      Grp ''2'' (some non_space), lit '' addr=0x'', Grp ''3'' (some hex_digit), lit '' inst='', quote_rx,
      Grp ''4'' (many_lazy any_char), quote_rx, lit '' class='', many_lazy any_char, lit '' flags='', quote_rx,
      Grp ''5'' (many_lazy any_char), quote_rx]"

definition hpi_group :: "string \<Rightarrow> string" where
  "hpi_group identifier =
     (if CHR ''.'' \<in> set identifier then rev (tl (dropWhile (\<lambda>c. c \<noteq> CHR ''.'') (rev identifier))) else identifier)"

record hpi_state =
  hs_instructions :: instructions
  hs_metadata :: "string \<Rightarrow> (string \<times> string) option"
  hs_completed :: "(string \<times> (nat \<times> int \<times> string) list) list"
  hs_failed :: "(int \<times> string list) list"

definition hpi_inst_line :: "rpos \<Rightarrow> hpi_state \<Rightarrow> hpi_state" where
  "hpi_inst_line q st =
     (let identifier = group_of ''2'' q; p = group_int 16 ''3'' q; t = strip (group_of ''4'' q); flags = group_of ''5'' q;
          g = hpi_group identifier;
          instructions = setdefault (hs_instructions st) g (new_dynamic g p 0 t);
          inst = the (instructions g);
          inst = (if (ends_with ''_uop'' t \<or> contains ''_uop '' t) \<and> \<not> contains ''uops'' (op_text inst)
                  then inst\<lparr>op_text := op_text inst @ '' {multiple uops}''\<rparr> else inst)
      in st\<lparr>hs_metadata := (hs_metadata st)(identifier \<mapsto> (t, flags)), hs_instructions := instructions(g \<mapsto> inst)\<rparr>)"

definition hpi_event_line :: "nat \<Rightarrow> rpos \<Rightarrow> hpi_state \<Rightarrow> hpi_state" where
  "hpi_event_line line_number q st =
     (let cycle = group_int 10 ''1'' q div 1000; event = group_of ''2'' q; identifier = group_of ''3'' q;
          p = group_int 16 ''4'' q; g = hpi_group identifier;
          instructions = setdefault (hs_instructions st) g (new_dynamic g p 0 (group_of ''5'' q));
          inst = the (instructions g)
      in if event = ''Issuing inst'' then
           st\<lparr>hs_instructions := instructions(g \<mapsto>
                add_stage ''I'' cycle (inst\<lparr>issue_events := issue_events inst @ [(cycle, identifier)]\<rparr>))\<rparr>
         else if event = ''Issuing mem ref early inst'' then
           st\<lparr>hs_instructions := instructions(g \<mapsto> add_stage ''M'' cycle inst)\<rparr>
         else if event = ''Committing inst'' \<or> event = ''Trying to commit mem response'' then
           st\<lparr>hs_instructions := instructions(g \<mapsto>
                add_stage ''K'' cycle (inst\<lparr>complete_events := complete_events inst @ [(cycle, identifier)]\<rparr>)),
              hs_completed := push g (line_number, cycle, identifier) (hs_completed st)\<rparr>
         else
           st\<lparr>hs_instructions := instructions, hs_failed := push cycle g (hs_failed st)\<rparr>)"

definition hpi_line :: "nat \<times> string \<Rightarrow> hpi_state \<Rightarrow> hpi_state" where
  "hpi_line nl st =
     (case nl of (line_number, line) \<Rightarrow>
      case re_match HPI_INST_RE line of
        Some q \<Rightarrow> hpi_inst_line q st
      | None \<Rightarrow>
          (case re_match HPI_EVENT_RE line of
             None \<Rightarrow> st
           | Some q \<Rightarrow> hpi_event_line line_number q st))"

definition micro_ops :: "hpi_state \<Rightarrow> (nat \<times> int \<times> string) list \<Rightarrow> string list" where
  "micro_ops st events =
     concat (map (\<lambda>(_, _, identifier). case hs_metadata st identifier of None \<Rightarrow> [] | Some (t, _) \<Rightarrow> [t]) events)"

definition named_text :: "string list \<Rightarrow> dynamic_instruction \<Rightarrow> dynamic_instruction" where
  "named_text ops inst =
     (case ops of
        [] \<Rightarrow> inst
      | [t] \<Rightarrow> inst\<lparr>op_text := t\<rparr>
      | t # _ \<Rightarrow> inst\<lparr>op_text := t @ '' {'' @ dec (int (length ops)) @ '' uops}''\<rparr>)"

definition commit_group ::
  "hpi_state \<Rightarrow> string \<times> (nat \<times> int \<times> string) list \<Rightarrow> (nat \<times> string) list \<times> instructions \<Rightarrow>
   (nat \<times> string) list \<times> instructions" where
  "commit_group st ge acc =
     (case ge of (g, events) \<Rightarrow> case acc of (commit_records, instructions) \<Rightarrow>
       (commit_records @ [(foldl max 0 (map fst events), g)],
        instructions(g := map_option (named_text (micro_ops st events)) (instructions g))))"

definition hpi_start :: hpi_state where
  "hpi_start = \<lparr>hs_instructions = Map.empty, hs_metadata = Map.empty, hs_completed = [], hs_failed = []\<rparr>"

definition load_hpi :: "string list \<Rightarrow> hpi_trace" where
  "load_hpi lines =
     (let st = fold hpi_line (enumerate 0 lines) hpi_start
      in case fold (commit_group st) (hs_completed st) ([], hs_instructions st) of
           (commit_records, instructions) \<Rightarrow>
             \<lparr>hpi_instructions = instructions, committed = map snd (sort_key fst (sort_key snd commit_records)),
              failed_issue = hs_failed st\<rparr>)"

section \<open>Windows and calls\<close>

definition lookup_inst :: "instructions \<Rightarrow> string \<Rightarrow> compare_error + dynamic_instruction" where
  "lookup_inst instructions k = of_option (UnknownKey k) (instructions k)"

definition pcs_of :: "instructions \<Rightarrow> string list \<Rightarrow> compare_error + int list" where
  "pcs_of instructions order = mapE (\<lambda>k. bindE (lookup_inst instructions k) (\<lambda>inst. Inr (pc inst))) order"

text \<open>\<open>xs[i]\<close> and \<open>xs[a:b]\<close> with Python's negative indices.\<close>

definition py_index :: "'a list \<Rightarrow> int \<Rightarrow> compare_error + 'a" where
  "py_index xs i =
     (let j = (if i < 0 then i + int (length xs) else i)
      in if 0 \<le> j \<and> j < int (length xs) then Inr (xs ! nat j) else Inl (IndexOutOfRange i))"

definition slice_end :: "int \<Rightarrow> nat \<Rightarrow> nat" where
  "slice_end b n = (if b < 0 then nat (b + int n) else min n (nat b))"

definition entries_of :: "int \<Rightarrow> int list \<Rightarrow> nat list" where
  "entries_of entry_pc pcs = map fst (filter (\<lambda>(_, p). p = entry_pc) (enumerate 0 pcs))"

definition select_window ::
  "string list \<Rightarrow> instructions \<Rightarrow> int \<Rightarrow> int \<Rightarrow> int \<Rightarrow> compare_error + (nat \<times> string list \<times> int)" where
  "select_window order instructions entry_pc occurrence num =
     bindE (pcs_of instructions order) (\<lambda>pcs.
     let entries = entries_of entry_pc pcs in
     if int (length entries) < occurrence then Inl (OnlyOccurrences (int (length entries)))
     else
       bindE (py_index entries (occurrence - 1)) (\<lambda>start.
       let selected = slice start (slice_end (int start + num) (length order)) order in
       if int (length selected) \<noteq> num then Inl (OnlyRemaining (int (length selected)))
       else Inr (start, selected, int (length entries))))"

fun call_keys :: "(string \<times> int) list \<Rightarrow> int \<Rightarrow> int \<Rightarrow> string list \<Rightarrow> string list" where
  "call_keys [] low_pc high_pc result = result"
| "call_keys ((k, p) # rest) low_pc high_pc result =
     (if result \<noteq> [] \<and> \<not> (low_pc \<le> p \<and> p < high_pc) then result
      else call_keys rest low_pc high_pc (result @ [k]))"

definition function_call :: "(string \<times> int) list \<Rightarrow> nat \<Rightarrow> int \<Rightarrow> int \<Rightarrow> string list" where
  "function_call keyed start low_pc high_pc = call_keys (drop start keyed) low_pc high_pc []"

definition first_cycle :: "instructions \<Rightarrow> string \<Rightarrow> string \<Rightarrow> compare_error + int" where
  "first_cycle instructions stage k =
     bindE (lookup_inst instructions k) (\<lambda>inst.
       case stages inst stage of [] \<Rightarrow> Inl (StageMissing k) | c # _ \<Rightarrow> Inr c)"

definition last_cycle :: "instructions \<Rightarrow> string \<Rightarrow> string \<Rightarrow> compare_error + int" where
  "last_cycle instructions stage k =
     bindE (lookup_inst instructions k) (\<lambda>inst.
       if stages inst stage = [] then Inl (StageMissing k) else Inr (last (stages inst stage)))"

definition min_of :: "int list \<Rightarrow> compare_error + int" where
  "min_of xs = (case xs of [] \<Rightarrow> Inl EmptyMin | x # ys \<Rightarrow> Inr (foldl min x ys))"

definition max_of :: "int list \<Rightarrow> compare_error + int" where
  "max_of xs = (case xs of [] \<Rightarrow> Inl EmptyMin | x # ys \<Rightarrow> Inr (foldl max x ys))"

definition call_span :: "string list \<Rightarrow> instructions \<Rightarrow> string \<Rightarrow> string \<Rightarrow> compare_error + int" where
  "call_span keys instructions start_stage end_stage =
     bindE (bindE (mapE (first_cycle instructions start_stage) keys) min_of) (\<lambda>first.
     bindE (bindE (mapE (last_cycle instructions end_stage) keys) max_of) (\<lambda>final.
       Inr (final - first + 1)))"

type_synonym call = "int \<times> string list \<times> int \<times> py_float"

definition measure_call ::
  "instructions \<Rightarrow> (string \<times> int) list \<Rightarrow> int \<Rightarrow> int \<Rightarrow> string \<Rightarrow> string \<Rightarrow> nat \<times> int \<Rightarrow> call list \<Rightarrow>
   compare_error + call list" where
  "measure_call instructions keyed entry_pc function_end start_stage end_stage sp result =
     (case sp of (start, p) \<Rightarrow>
      if p \<noteq> entry_pc then Inr result
      else
        let keys = function_call keyed start entry_pc function_end in
        bindE (call_span keys instructions start_stage end_stage) (\<lambda>cycles.
          if cycles = 0 then Inl DivisionByZero
          else Inr (result @ [(int (length result) + 1, keys, cycles, float_div (int (length keys)) cycles)])))"

definition measure_calls ::
  "string list \<Rightarrow> instructions \<Rightarrow> int \<Rightarrow> int \<Rightarrow> string \<Rightarrow> string \<Rightarrow> compare_error + call list" where
  "measure_calls order instructions entry_pc function_end start_stage end_stage =
     bindE (pcs_of instructions order) (\<lambda>pcs.
       foldE (measure_call instructions (zip order pcs) entry_pc function_end start_stage end_stage)
         (enumerate 0 pcs) [])"

end
