(* ===== verification/CoreProps.thy ===== *)
theory CoreProps
  imports CoreReport
begin

text \<open>
  The trace loader of the pipeline comparison refines a declarative view of the trace's events, and the
  selected window and the measured calls are the ones the report names.
\<close>

section \<open>The events of a trace\<close>

datatype trace_item =
    RowItem int "string \<Rightarrow> int"
  | SlotItem string int "int \<times> int \<times> int"

definition slot_items :: "csv_row \<Rightarrow> int \<Rightarrow> string \<Rightarrow> int \<Rightarrow> string \<Rightarrow> nat \<Rightarrow> compare_error + trace_item list" where
  "slot_items raw cycle stage msk prefix lane =
     (if \<not> flag_bit msk lane then Inr []
      else
        bindE (int_cell BadCell 16 raw (lane_col prefix lane ''uid'')) (\<lambda>uid.
        bindE (int_cell BadCell 16 raw (lane_col prefix lane ''pc'')) (\<lambda>p.
        bindE (int_cell BadCell 16 raw (lane_col prefix lane ''instr'')) (\<lambda>b.
          Inr [SlotItem stage cycle (uid, p, b)]))))"

definition stage_items :: "csv_row \<Rightarrow> int \<Rightarrow> string \<times> string \<times> string \<Rightarrow> compare_error + trace_item list" where
  "stage_items raw cycle stg =
     (case stg of (stage, mask_name, prefix) \<Rightarrow>
        bindE (int_cell BadCell 16 raw mask_name) (\<lambda>msk.
        bindE (mapE (slot_items raw cycle stage msk prefix) lanes3) (\<lambda>ess. Inr (concat ess))))"

definition row_items :: "csv_row \<Rightarrow> compare_error + trace_item list" where
  "row_items raw =
     bindE (int_cell BadCell 10 raw ''cycle'') (\<lambda>cycle.
     bindE (orv_row raw) (\<lambda>row.
     bindE (mapE (stage_items raw cycle) ORV_STAGES) (\<lambda>ess. Inr (RowItem cycle row # concat ess))))"

definition trace_items :: "string list list \<Rightarrow> compare_error + trace_item list" where
  "trace_items lines =
     bindE (mapE row_items (case dict_reader lines of None \<Rightarrow> [] | Some (_, raws) \<Rightarrow> raws)) (\<lambda>ess. Inr (concat ess))"

text \<open>The view: each dynamic instruction collects its own slots; the first retirement fixes the order.\<close>

type_synonym slot = "string \<times> int \<times> int \<times> int \<times> int"

fun slots_of :: "trace_item list \<Rightarrow> slot list" where
  "slots_of [] = []"
| "slots_of (RowItem c r # is) = slots_of is"
| "slots_of (SlotItem s c i # is) = (s, c, i) # slots_of is"

fun rows_of :: "trace_item list \<Rightarrow> (int \<times> (string \<Rightarrow> int)) list" where
  "rows_of [] = []"
| "rows_of (RowItem c r # is) = (c, r) # rows_of is"
| "rows_of (SlotItem s c i # is) = rows_of is"

definition slot_key :: "slot \<Rightarrow> string" where
  "slot_key e = identity_key (snd (snd e))"

definition stage_cycles :: "slot list \<Rightarrow> string \<Rightarrow> int list" where
  "stage_cycles evs stage = map (\<lambda>e. fst (snd e)) (filter (\<lambda>e. fst e = stage) evs)"

definition view_inst :: "(int \<rightharpoonup> string) \<Rightarrow> string \<Rightarrow> slot list \<Rightarrow> dynamic_instruction option" where
  "view_inst disasm k evs =
     (case evs of
        [] \<Rightarrow> None
      | (_, _, _, p, b) # _ \<Rightarrow>
          let t = get_or disasm p (''0x'' @ hex0 8 b) in
          Some \<lparr>key = k, pc = p, bits = b, op_text = t, stages = stage_cycles evs,
                issue_events = map (\<lambda>c. (c, t)) (stage_cycles evs ''I''),
                complete_events = map (\<lambda>c. (c, t)) (stage_cycles evs ''C'')\<rparr>)"

definition own_slots :: "slot list \<Rightarrow> string \<Rightarrow> slot list" where
  "own_slots evs k = filter (\<lambda>e. slot_key e = k) evs"

definition retired_keys :: "slot list \<Rightarrow> string list" where
  "retired_keys evs = map slot_key (filter (\<lambda>e. fst e = ''R'') evs)"

definition orv_view :: "(int \<rightharpoonup> string) \<Rightarrow> trace_item list \<Rightarrow> orv_trace" where
  "orv_view disasm items =
     \<lparr>orv_instructions = (\<lambda>k. view_inst disasm k (own_slots (slots_of items) k)),
      retired = first_seen (retired_keys (slots_of items)),
      rows = map_of (rev (rows_of items))\<rparr>"

section \<open>The loader applies the events\<close>

definition apply_item :: "(int \<rightharpoonup> string) \<Rightarrow> trace_item \<Rightarrow> orv_state \<Rightarrow> orv_state" where
  "apply_item disasm item st =
     (case item of
        RowItem c r \<Rightarrow> st\<lparr>os_rows := (os_rows st)(c \<mapsto> r)\<rparr>
      | SlotItem stage cycle ident \<Rightarrow>
          (case ident of (uid, p, b) \<Rightarrow>
          let identities = setdefault (os_identities st) ident (identity_key ident);
              k = get_or identities ident [];
              instructions = setdefault (os_instructions st) k (new_dynamic k p b (get_or disasm p (''0x'' @ hex0 8 b)));
              inst = stage_event stage cycle (the (instructions k));
              st = st\<lparr>os_instructions := instructions(k \<mapsto> inst), os_identities := identities\<rparr>
          in if stage = ''R'' \<and> k \<notin> os_seen st
             then st\<lparr>os_retired := os_retired st @ [k], os_seen := insert k (os_seen st)\<rparr> else st))"

lemma bindE_assoc: "bindE (bindE x f) g = bindE x (\<lambda>a. bindE (f a) g)"
  by (simp add: bindE_def split: sum.split)

lemma bindE_if: "bindE (if c then x else y) f = (if c then bindE x f else bindE y f)"
  by simp

lemma foldE_items:
  assumes "\<And>x st. f x st = bindE (g x) (\<lambda>es. Inr (fold a es st))"
  shows "foldE f xs st = bindE (mapE g xs) (\<lambda>ess. Inr (fold a (concat ess) st))"
proof (induction xs arbitrary: st)
  case (Cons x xs)
  show ?case
  proof (cases "g x")
    case (Inl e)
    then show ?thesis by (simp add: assms bindE_def)
  next
    case (Inr es)
    then have "foldE f (x # xs) st = foldE f xs (fold a es st)" by (simp add: assms bindE_def)
    then show ?thesis using Inr by (simp add: Cons.IH bindE_assoc)
  qed
qed (simp add: assms)

lemma orv_slot_items:
  "orv_slot disasm raw cycle stage msk prefix lane st =
     bindE (slot_items raw cycle stage msk prefix lane) (\<lambda>es. Inr (fold (apply_item disasm) es st))"
  unfolding orv_slot_def slot_items_def bindE_if bindE_assoc by (simp add: apply_item_def Let_def)

lemma orv_stage_items:
  "orv_stage disasm raw cycle stg st = bindE (stage_items raw cycle stg) (\<lambda>es. Inr (fold (apply_item disasm) es st))"
  unfolding orv_stage_def stage_items_def foldE_items [of "orv_slot _ _ _ _ _ _", OF orv_slot_items]
  by (simp add: bindE_assoc split: prod.split)

lemma orv_raw_row_items:
  "orv_raw_row disasm raw st = bindE (row_items raw) (\<lambda>es. Inr (fold (apply_item disasm) es st))"
  unfolding orv_raw_row_def row_items_def foldE_items [of "orv_stage _ _ _", OF orv_stage_items]
  by (simp add: bindE_assoc apply_item_def)

section \<open>The state represents the view\<close>

definition represents :: "(int \<rightharpoonup> string) \<Rightarrow> trace_item list \<Rightarrow> orv_state \<Rightarrow> bool" where
  "represents disasm items st \<longleftrightarrow>
     os_instructions st = (\<lambda>k. view_inst disasm k (own_slots (slots_of items) k)) \<and>
     os_retired st = first_seen (retired_keys (slots_of items)) \<and>
     os_seen st = set (retired_keys (slots_of items)) \<and>
     os_rows st = map_of (rev (rows_of items)) \<and>
     (\<forall>i k. os_identities st i = Some k \<longrightarrow> k = identity_key i)"

lemma slots_of_append [simp]: "slots_of (xs @ ys) = slots_of xs @ slots_of ys"
  by (induction xs rule: slots_of.induct) auto

lemma rows_of_append [simp]: "rows_of (xs @ ys) = rows_of xs @ rows_of ys"
  by (induction xs rule: rows_of.induct) auto

lemma first_seen_snoc: "first_seen (xs @ [x]) = (if x \<in> set xs then first_seen xs else first_seen xs @ [x])"
  by (simp add: first_seen_def)

lemma stage_cycles_snoc:
  "stage_cycles (evs @ [(s, c, i)]) stage = stage_cycles evs stage @ (if s = stage then [c] else [])"
  by (simp add: stage_cycles_def)

lemma view_inst_snoc:
  assumes "slot_key (s, c, u, p, b) = k"
  shows "view_inst disasm k (evs @ [(s, c, u, p, b)]) =
    Some (stage_event s c (case view_inst disasm k evs of
      None \<Rightarrow> new_dynamic k p b (get_or disasm p (''0x'' @ hex0 8 b)) | Some inst \<Rightarrow> inst))"
proof (cases evs)
  case Nil
  then show ?thesis
    by (auto simp: view_inst_def stage_event_def add_stage_def new_dynamic_def Let_def stage_cycles_def fun_eq_iff)
next
  case (Cons e es)
  obtain s' c' u' p' b' where e: "e = (s', c', u', p', b')" by (cases e) auto
  have eq: "stage_cycles (e # es @ [(s, c, u, p, b)]) = (\<lambda>t. stage_cycles (e # es) t @ (if s = t then [c] else []))"
    using stage_cycles_snoc [of "e # es" s c "(u, p, b)"] by (intro ext) simp
  show ?thesis unfolding Cons append_Cons e
    by (auto simp: view_inst_def stage_event_def add_stage_def Let_def eq [unfolded e] fun_eq_iff)
qed

lemma represents_apply:
  assumes "represents disasm items st"
  shows "represents disasm (items @ [item]) (apply_item disasm item st)"
proof (cases item)
  case (RowItem c r)
  with assms show ?thesis by (simp add: represents_def apply_item_def)
next
  case (SlotItem s c ident)
  obtain u p b where ident: "ident = (u, p, b)" by (cases ident) auto
  let ?k = "identity_key ident" and ?ids = "setdefault (os_identities st) ident (identity_key ident)"
  have ids0: "k = identity_key i" if "os_identities st i = Some k" for i k
    using assms that unfolding represents_def by blast
  have insts0: "os_instructions st k = view_inst disasm k (own_slots (slots_of items) k)" for k
    using assms by (simp add: represents_def)
  have k: "get_or ?ids ident [] = ?k"
    unfolding get_or_def setdefault_same by (auto dest: ids0 split: option.split)
  have ids: "k = identity_key i" if "?ids i = Some k" for i k
    using that ids0 by (cases "i = ident") (auto simp: setdefault_same get_or_def split: option.splits)
  have sk: "slot_key (s, c, u, p, b) = ?k" by (simp add: slot_key_def ident)
  let ?slots = "slots_of items" and ?new = "(s, c, u, p, b)"
  have insts: "(setdefault (os_instructions st) ?k (new_dynamic ?k p b (get_or disasm p (''0x'' @ hex0 8 b))))
      (?k \<mapsto> stage_event s c (the (setdefault (os_instructions st) ?k (new_dynamic ?k p b (get_or disasm p (''0x'' @ hex0 8 b))) ?k))) =
    (\<lambda>k. view_inst disasm k (own_slots (?slots @ [?new]) k))" (is "?L = ?R")
  proof (rule ext)
    fix k
    show "?L k = ?R k"
    proof (cases "k = ?k")
      case True
      have own: "own_slots (?slots @ [?new]) ?k = own_slots ?slots ?k @ [?new]" using sk by (simp add: own_slots_def)
      show ?thesis unfolding True own view_inst_snoc [OF sk]
        using insts0 by (simp add: setdefault_same get_or_def [of "os_instructions st"] split: option.split)
    next
      case False
      then have own: "own_slots (?slots @ [?new]) k = own_slots ?slots k" using sk by (simp add: own_slots_def)
      show ?thesis unfolding own using False by (simp add: insts0)
    qed
  qed
  have ret: "retired_keys (?slots @ [?new]) = retired_keys ?slots @ (if s = ''R'' then [?k] else [])"
    using sk by (cases "s = ''R''") (simp_all add: retired_keys_def)
  show ?thesis
    using assms insts ids k SlotItem ident unfolding represents_def apply_item_def
    by (auto simp: Let_def ret first_seen_snoc insert_absorb)
qed

lemma represents_fold: "represents disasm items (fold (apply_item disasm) items orv_start)"
proof (induction items rule: rev_induct)
  case Nil
  show ?case
    by (simp add: represents_def orv_start_def view_inst_def own_slots_def first_seen_def retired_keys_def fun_eq_iff)
next
  case (snoc item items)
  then show ?case using represents_apply by simp
qed

text \<open>
  C25: the loader of the OpenRV64 trace refines the declarative view of it, errors included: it fails
  exactly where reading the cells of the events fails; otherwise each dynamic instruction has precisely the
  stage cycles of its own slots, in trace order, the retired instructions are listed once each in the order
  of their first retirement, and a cycle has the last row given for it.
\<close>

theorem load_orv_refines_view:
  "load_orv lines disasm = bindE (trace_items lines) (\<lambda>items. Inr (orv_view disasm items))"
proof -
  have view: "\<lparr>orv_instructions = os_instructions (fold (apply_item disasm) items orv_start),
      retired = os_retired (fold (apply_item disasm) items orv_start),
      rows = os_rows (fold (apply_item disasm) items orv_start)\<rparr> = orv_view disasm items" for items
    using represents_fold [of disasm items] unfolding represents_def orv_view_def by simp
  show ?thesis
    unfolding load_orv_def trace_items_def foldE_items [of "orv_raw_row _", OF orv_raw_row_items] bindE_assoc bindE_simps view
    by (rule refl)
qed

section \<open>The selected window\<close>

lemma call_keys_run:
  "result \<noteq> [] \<Longrightarrow> call_keys keyed low high result =
     result @ map fst (takeWhile (\<lambda>(k, p). low \<le> p \<and> p < high) keyed)"
  by (induction keyed low high result rule: call_keys.induct) auto

lemma function_call_run:
  assumes "start < length keyed"
  shows "function_call keyed start low high =
    fst (keyed ! start) # map fst (takeWhile (\<lambda>(k, p). low \<le> p \<and> p < high) (drop (Suc start) keyed))"
proof -
  obtain k p where kp: "keyed ! start = (k, p)" by (cases "keyed ! start")
  have "drop start keyed = (k, p) # drop (Suc start) keyed" using Cons_nth_drop_Suc [OF assms] kp by simp
  then show ?thesis by (simp add: function_call_def kp call_keys_run)
qed

lemma entries_sorted: "sorted_wrt (<) (entries_of e pcs)"
proof -
  have "sorted_wrt (<) (map fst (filter P (enumerate n pcs)))" for P :: "nat \<times> int \<Rightarrow> bool" and n
  proof (induction pcs arbitrary: n)
    case (Cons p pcs)
    have "n < fst x" if "x \<in> set (enumerate (Suc n) pcs)" for x using that unfolding in_set_enumerate_eq by simp
    with Cons [of "Suc n"] show ?case by auto
  qed simp
  then show ?thesis by (simp add: entries_of_def)
qed

lemma set_entries: "set (entries_of e pcs) = {i. i < length pcs \<and> pcs ! i = e}"
  unfolding entries_of_def by (auto simp: in_set_enumerate_eq image_iff)

lemma length_entries: "int (length (entries_of e pcs)) = count_if (\<lambda>p. p = e) pcs"
proof -
  have "length (filter (\<lambda>(_, p). p = e) (enumerate n pcs)) = length (filter (\<lambda>p. p = e) pcs)" for n
    by (induction pcs arbitrary: n) auto
  then show ?thesis by (simp add: entries_of_def count_if_def)
qed

lemma entry_rank:
  assumes "i < length (entries_of e pcs)"
  shows "count_if (\<lambda>p. p = e) (take (entries_of e pcs ! i) pcs) = int i"
proof -
  let ?es = "entries_of e pcs"
  have at: "?es ! i < length pcs" using nth_mem [OF assms] by (simp add: set_entries)
  have "set (entries_of e (take (?es ! i) pcs)) = set (take i ?es)"
  proof -
    have "j \<in> set (take i ?es)" if j: "j < ?es ! i" "j < length pcs" "pcs ! j = e" for j
    proof -
      have "j \<in> set ?es" using j by (simp add: set_entries)
      then obtain m where m: "m < length ?es" "?es ! m = j" by (auto simp: in_set_conv_nth)
      have "m < i"
      proof (rule ccontr)
        assume "\<not> m < i"
        then have "?es ! i \<le> ?es ! m"
          using sorted_wrt_nth_less [OF entries_sorted [of e pcs], of i m] m(1) by (cases "i = m") auto
        then show False using j(1) m(2) by simp
      qed
      then show ?thesis using m by (auto simp: in_set_conv_nth)
    qed
    moreover have "j < ?es ! i \<and> j < length pcs \<and> pcs ! j = e" if "j \<in> set (take i ?es)" for j
    proof -
      from that obtain m where m: "m < i" "?es ! m = j" using assms by (auto simp: in_set_conv_nth)
      have "j \<in> set ?es" using that by (rule in_set_takeD)
      then show ?thesis
        using sorted_wrt_nth_less [OF entries_sorted [of e pcs] m(1) assms] m(2) by (simp add: set_entries)
    qed
    ultimately show ?thesis by (auto simp: set_entries)
  qed
  moreover have "distinct (entries_of e qs)" for qs
    using entries_sorted [of e qs] by (simp add: strict_sorted_iff)
  ultimately have "length (entries_of e (take (?es ! i) pcs)) = length (take i ?es)"
    by (metis distinct_card distinct_take)
  then show ?thesis using assms by (simp flip: length_entries)
qed

lemma length_pcs_of: "pcs_of instructions order = Inr pcs \<Longrightarrow> length pcs = length order"
proof -
  have "mapE f xs = Inr ys \<Longrightarrow> length ys = length xs" for f :: "string \<Rightarrow> compare_error + int" and xs ys
    by (induction xs arbitrary: ys) auto
  then show "pcs_of instructions order = Inr pcs \<Longrightarrow> length pcs = length order" unfolding pcs_of_def .
qed

text \<open>
  C26: a selected window is the one the report names: it starts at the instruction with the entry PC that
  has exactly \<open>occurrence - 1\<close> entries before it, holds the requested number of consecutive instructions, the reported
  number of entries is that of the whole trace, and the matched call is the entry followed by the longest run
  of instructions inside the function.
\<close>

theorem window_starts_at_occurrence:
  assumes "select_window order instructions entry_pc occ num = Inr (start, selected, n)" "1 \<le> occ"
  shows "\<exists>pcs. pcs_of instructions order = Inr pcs \<and> start < length pcs \<and> pcs ! start = entry_pc \<and>
    count_if (\<lambda>p. p = entry_pc) (take start pcs) = occ - 1 \<and> n = count_if (\<lambda>p. p = entry_pc) pcs \<and>
    selected = take (nat num) (drop start order) \<and> int (length selected) = num \<and>
    function_call (zip order pcs) start entry_pc high_pc =
      order ! start # map fst (takeWhile (\<lambda>(k, p). entry_pc \<le> p \<and> p < high_pc) (drop (Suc start) (zip order pcs)))"
proof -
  obtain pcs where pcs: "pcs_of instructions order = Inr pcs"
    using assms(1) unfolding select_window_def by (auto simp: bindE_eq_Inr)
  let ?es = "entries_of entry_pc pcs"
  have len: "length pcs = length order" by (rule length_pcs_of [OF pcs])
  have enough: "occ \<le> int (length ?es)"
    using assms(1) unfolding select_window_def pcs by (auto simp: Let_def split: if_splits)
  define i where "i = nat (occ - 1)"
  have i: "i < length ?es" "int i = occ - 1" using enough assms(2) by (auto simp: i_def)
  then have idx: "py_index ?es (occ - 1) = Inr (?es ! i)"
    using assms(2) enough by (simp add: py_index_def i_def Let_def)
  let ?sel = "slice (?es ! i) (slice_end (int (?es ! i) + num) (length order)) order"
  have sel: "start = ?es ! i \<and> selected = ?sel \<and> n = int (length ?es) \<and> int (length ?sel) = num"
    using assms(1) enough unfolding select_window_def pcs bindE_simps Let_def idx
    by (auto simp: Let_def split: if_splits)
  have at: "?es ! i < length pcs \<and> pcs ! (?es ! i) = entry_pc" using nth_mem [OF i(1)] by (simp add: set_entries)
  have num: "0 \<le> num" using sel by simp
  have "?sel = take (nat num) (drop (?es ! i) order)"
  proof -
    have e: "slice_end (int (?es ! i) + num) (length order) - ?es ! i = min (length order - ?es ! i) (nat num)"
      using num at len by (auto simp: slice_end_def)
    show ?thesis unfolding slice_def e by (simp add: min_def)
  qed
  then have taken: "selected = take (nat num) (drop start order)" using sel by simp
  have st: "start < length pcs" "pcs ! start = entry_pc" using at sel by simp_all
  have zip: "start < length (zip order pcs)" "fst (zip order pcs ! start) = order ! start" using st(1) len by simp_all
  have rank: "count_if (\<lambda>p. p = entry_pc) (take start pcs) = occ - 1" using entry_rank [OF i(1)] i(2) sel by simp
  have n: "n = count_if (\<lambda>p. p = entry_pc) pcs" using sel length_entries by simp
  note run = function_call_run [OF zip(1), of entry_pc high_pc, unfolded zip(2)]
  show ?thesis by (rule exI [of _ pcs]) (intro conjI pcs st rank n taken run, use sel in simp)
qed

definition demo_inst :: "string \<Rightarrow> dynamic_instruction option" where
  "demo_inst k = Some (new_dynamic k (if k \<in> {''a'', ''d''} then 64 else 68) 0 ''add'')"

theorem window_starts_at_occurrence_witness:
  "\<exists>pcs. pcs_of demo_inst [''a'', ''b'', ''d'', ''e'', ''f''] = Inr pcs \<and> 2 < length pcs \<and> pcs ! 2 = 64 \<and>
    count_if (\<lambda>p. p = 64) (take 2 pcs) = 2 - 1 \<and> 2 = count_if (\<lambda>p. p = 64) pcs \<and>
    [''d'', ''e''] = take (nat 2) (drop 2 [''a'', ''b'', ''d'', ''e'', ''f'']) \<and> int (length [''d'', ''e'']) = 2 \<and>
    function_call (zip [''a'', ''b'', ''d'', ''e'', ''f''] pcs) 2 64 72 =
      [''a'', ''b'', ''d'', ''e'', ''f''] ! 2 #
      map fst (takeWhile (\<lambda>(k, p). 64 \<le> p \<and> p < 72) (drop (Suc 2) (zip [''a'', ''b'', ''d'', ''e'', ''f''] pcs)))"
  by (rule window_starts_at_occurrence) (code_simp, simp)

end
