(* ===== verification/ElfSymbols.thy ===== *)
theory ElfSymbols
  imports PyCounter
begin

text \<open>
  \<open>tools/elf_symbols.py\<close>: the function-symbol index shared by the boot-log tools. The output of \<open>nm\<close> is
  an argument (\<open>None\<close> when running it fails).
\<close>

record elf_source =
  img_name :: string
  img_path :: string

record function_symbol =
  sym_address :: int
  sym_name :: string

record symbolized_pc =
  sp_image :: string
  sp_function :: string
  sp_base :: int
  sp_offset :: int

record symbol_table =
  tab_image :: elf_source
  symbols :: "function_symbol list"

datatype symbol_error =
    NotNamed
  | EmptyName
  | EmptyPath
  | NmFailed string
  | NoSymbols string

definition pc_text :: "symbolized_pc \<Rightarrow> string" where
  "pc_text s = sp_image s @ '':'' @ sp_function s @ ''+0x'' @ hex (sp_offset s) @ ''@0x'' @ hex0 16 (sp_base s)"

definition MAX_LAST :: int where
  "MAX_LAST = 1024 * 1024"

definition lookup_pc :: "symbol_table \<Rightarrow> int \<Rightarrow> symbolized_pc option" where
  "lookup_pc t pc =
     (let n = bisect_right (map sym_address (symbols t)) pc in
      if n = 0 then None
      else
        let s = symbols t ! (n - 1);
            found = Some \<lparr>sp_image = img_name (tab_image t), sp_function = sym_name s, sp_base = sym_address s,
                          sp_offset = pc - sym_address s\<rparr>
        in if n < length (symbols t) then (if sym_address (symbols t ! n) \<le> pc then None else found)
           else if MAX_LAST < pc - sym_address s then None
           else found)"

definition parse_elf_image :: "string \<Rightarrow> symbol_error + elf_source" where
  "parse_elf_image value =
     (case split_once CHR ''='' value of
        None \<Rightarrow> Inl NotNamed
      | Some (name, path_text) \<Rightarrow>
          if name = [] then Inl EmptyName
          else if path_text = [] then Inl EmptyPath
          else Inr \<lparr>img_name = name, img_path = path_text\<rparr>)"

definition nm_symbol :: "string \<Rightarrow> function_symbol option" where
  "nm_symbol line =
     (let fields = split_ws 2 line in
      if length fields \<noteq> 3 \<or> \<not> contains (fields ! 1) ''tTwW'' then None
      else case py_int 16 (fields ! 0) of
        None \<Rightarrow> None
      | Some address \<Rightarrow> Some \<lparr>sym_address = address, sym_name = fields ! 2\<rparr>)"

definition nm_symbols :: "string \<Rightarrow> function_symbol list" where
  "nm_symbols stdout =
     concat (map (\<lambda>line. case nm_symbol line of None \<Rightarrow> [] | Some s \<Rightarrow> [s]) (splitlines stdout))"

definition index_symbols :: "function_symbol list \<Rightarrow> function_symbol list" where
  "index_symbols found =
     (let by_address = map_of (rev (map (\<lambda>s. (sym_address s, s)) found))
      in map (\<lambda>a. the (by_address a)) (sorted_distinct (map sym_address found)))"

definition load_symbol_table :: "(string \<Rightarrow> string option) \<Rightarrow> elf_source \<Rightarrow> symbol_error + symbol_table" where
  "load_symbol_table nm img =
     (case nm (img_path img) of
        None \<Rightarrow> Inl (NmFailed (img_path img))
      | Some stdout \<Rightarrow>
          let found = index_symbols (nm_symbols stdout) in
          if found = [] then Inl (NoSymbols (img_path img))
          else Inr \<lparr>tab_image = img, symbols = found\<rparr>)"

definition load_symbol_tables :: "(string \<Rightarrow> string option) \<Rightarrow> elf_source list \<Rightarrow> symbol_error + symbol_table list" where
  "load_symbol_tables nm images = mapE (load_symbol_table nm) images"

definition nearest :: "symbolized_pc \<Rightarrow> symbolized_pc \<Rightarrow> symbolized_pc" where
  "nearest best s = (if sp_offset s < sp_offset best then s else best)"

definition symbolize_pc :: "symbol_table list \<Rightarrow> int \<Rightarrow> symbolized_pc option" where
  "symbolize_pc tables pc =
     (case concat (map (\<lambda>t. case lookup_pc t pc of None \<Rightarrow> [] | Some s \<Rightarrow> [s]) tables) of
        [] \<Rightarrow> None
      | s # rest \<Rightarrow> Some (foldl nearest s rest))"

section \<open>Looking up a PC\<close>

text \<open>What a table promises: ascending, distinct addresses.\<close>

definition sorted_table :: "symbol_table \<Rightarrow> bool" where
  "sorted_table t \<longleftrightarrow> symbols t \<noteq> [] \<and> sorted_wrt (<) (map sym_address (symbols t))"

lemma index_addresses: "map sym_address (index_symbols found) = sorted_distinct (map sym_address found)"
proof -
  have "sym_address (the (map_of (rev (map (\<lambda>s. (sym_address s, s)) found)) a)) = a" if "a \<in> set (map sym_address found)" for a
  proof -
    from that have "map_of (rev (map (\<lambda>s. (sym_address s, s)) found)) a \<noteq> None"
      by (auto simp: map_of_eq_None_iff image_image)
    then obtain s where s: "map_of (rev (map (\<lambda>s. (sym_address s, s)) found)) a = Some s" by blast
    then have "(a, s) \<in> set (rev (map (\<lambda>s. (sym_address s, s)) found))" by (rule map_of_SomeD)
    with s show ?thesis by auto
  qed
  then show ?thesis unfolding index_symbols_def Let_def list.map_comp by (intro map_idI) simp
qed

lemma loaded_table_sorted: "load_symbol_table nm img = Inr t \<Longrightarrow> sorted_table t \<and> tab_image t = img"
  by (auto simp: load_symbol_table_def sorted_table_def Let_def index_addresses strict_sorted_iff
      split: option.splits if_splits)

lemma bisect_sorted:
  assumes "sorted_wrt (<) keys" "i < length keys"
  shows "i < bisect_right keys pc \<longleftrightarrow> keys ! i \<le> pc"
proof
  assume "keys ! i \<le> pc"
  show "i < bisect_right keys pc"
  proof (rule ccontr)
    assume "\<not> i < bisect_right keys pc"
    then have le: "bisect_right keys pc \<le> i" by simp
    then have "pc < keys ! bisect_right keys pc" using bisect_right_at assms(2) by (metis le_less_trans)
    also have "\<dots> \<le> keys ! i"
      using sorted_wrt_nth_less [OF assms(1), of "bisect_right keys pc" i] le assms(2) by (cases "bisect_right keys pc = i") auto
    finally show False using \<open>keys ! i \<le> pc\<close> by simp
  qed
qed (simp add: bisect_right_before)

lemma sorted_address_le:
  assumes "sorted_wrt (<) (map sym_address xs)" "i \<le> j" "j < length xs"
  shows "sym_address (xs ! i) \<le> sym_address (xs ! j)"
proof (cases "i = j")
  case False
  with assms(2) have "i < j" by simp
  from sorted_wrt_nth_less [OF assms(1) this] assms(3) \<open>i < j\<close> show ?thesis by simp
qed simp

lemma lookup_pc_Some:
  assumes "sorted_table t" "lookup_pc t pc = Some s"
  shows "\<exists>y \<in> set (symbols t). s = \<lparr>sp_image = img_name (tab_image t), sp_function = sym_name y,
      sp_base = sym_address y, sp_offset = pc - sym_address y\<rparr> \<and> sym_address y \<le> pc \<and>
    (\<forall>z \<in> set (symbols t). sym_address z \<le> pc \<longrightarrow> sym_address z \<le> sym_address y)"
proof -
  let ?keys = "map sym_address (symbols t)"
  let ?n = "bisect_right ?keys pc"
  have n: "?n \<noteq> 0" "?n \<le> length (symbols t)"
    using assms(2) bisect_right_le [of ?keys pc] by (auto simp: lookup_pc_def Let_def split: if_splits)
  then have at: "?n - 1 < length (symbols t)" by simp
  have s: "s = \<lparr>sp_image = img_name (tab_image t), sp_function = sym_name (symbols t ! (?n - 1)),
      sp_base = sym_address (symbols t ! (?n - 1)), sp_offset = pc - sym_address (symbols t ! (?n - 1))\<rparr>"
    using assms(2) by (auto simp: lookup_pc_def Let_def split: if_splits)
  have sorted: "sorted_wrt (<) ?keys" using assms(1) by (simp add: sorted_table_def)
  have le: "sym_address (symbols t ! (?n - 1)) \<le> pc"
    using bisect_right_before [of "?n - 1" ?keys pc] n at by simp
  have max: "sym_address z \<le> sym_address (symbols t ! (?n - 1))" if z: "z \<in> set (symbols t)" "sym_address z \<le> pc" for z
  proof -
    from z(1) obtain i where i: "i < length (symbols t)" "symbols t ! i = z" by (auto simp: in_set_conv_nth)
    then have "i < ?n" using bisect_sorted [OF sorted, of i pc] z(2) by simp
    then have "i \<le> ?n - 1" by simp
    from sorted_address_le [OF sorted this at] i(2) show ?thesis by simp
  qed
  have "symbols t ! (?n - 1) \<in> set (symbols t)" using at by simp
  with s le max show ?thesis by blast
qed

lemma lookup_pc_near:
  assumes "sorted_table t" "y \<in> set (symbols t)" "sym_address y \<le> pc" "pc - sym_address y \<le> MAX_LAST"
  shows "lookup_pc t pc \<noteq> None"
proof -
  let ?keys = "map sym_address (symbols t)"
  let ?n = "bisect_right ?keys pc"
  have sorted: "sorted_wrt (<) ?keys" using assms(1) by (simp add: sorted_table_def)
  from assms(2) obtain i where i: "i < length (symbols t)" "symbols t ! i = y" by (auto simp: in_set_conv_nth)
  then have n: "i < ?n" using bisect_sorted [OF sorted, of i pc] assms(3) by simp
  then have "i \<le> ?n - 1" "?n - 1 < length (symbols t)" using bisect_right_le [of ?keys pc] by simp_all
  from sorted_address_le [OF sorted this] i(2)
  have "sym_address y \<le> sym_address (symbols t ! (?n - 1))" by simp
  then have near: "\<not> MAX_LAST < pc - sym_address (symbols t ! (?n - 1))" using assms(4) by simp
  have "\<not> sym_address (symbols t ! ?n) \<le> pc" if "?n < length (symbols t)"
    using bisect_right_at [of ?keys pc] that by simp
  with near n show ?thesis by (auto simp: lookup_pc_def Let_def)
qed

lemma nearest_fold:
  "foldl nearest s rest \<in> set (s # rest) \<and> (\<forall>x \<in> set (s # rest). sp_offset (foldl nearest s rest) \<le> sp_offset x)"
proof (induction rest arbitrary: s)
  case (Cons r rest)
  have "nearest s r \<in> {s, r} \<and> sp_offset (nearest s r) \<le> sp_offset s \<and> sp_offset (nearest s r) \<le> sp_offset r"
    by (simp add: nearest_def)
  then show ?case using Cons [of "nearest s r"] by fastforce
qed simp

lemma symbolize_pc_Some:
  assumes "symbolize_pc tables pc = Some s"
  shows "(\<exists>t \<in> set tables. lookup_pc t pc = Some s) \<and>
    (\<forall>t \<in> set tables. \<forall>x. lookup_pc t pc = Some x \<longrightarrow> sp_offset s \<le> sp_offset x)"
proof -
  let ?c = "concat (map (\<lambda>t. case lookup_pc t pc of None \<Rightarrow> [] | Some s \<Rightarrow> [s]) tables)"
  have set: "x \<in> set ?c \<longleftrightarrow> (\<exists>t \<in> set tables. lookup_pc t pc = Some x)" for x
    by (induction tables) (auto split: option.splits)
  obtain c cs where c: "?c = c # cs" "s = foldl nearest c cs"
    using assms unfolding symbolize_pc_def by (auto split: list.splits)
  have "s \<in> set ?c" and least: "\<forall>x \<in> set ?c. sp_offset s \<le> sp_offset x" using nearest_fold [of c cs] c by simp_all
  then have "\<exists>t \<in> set tables. lookup_pc t pc = Some s" by (simp only: set)
  moreover have "sp_offset s \<le> sp_offset x" if "t \<in> set tables" "lookup_pc t pc = Some x" for t x
    by (rule bspec [OF least]) (use set that in blast)
  ultimately show ?thesis by blast
qed

text \<open>
  A PC is named by the nearest function at or below it: the base and the offset add up to the PC,
  the function is one of a loaded image, and no function of any image that starts at most a mebibyte below
  the PC starts closer to it.
\<close>

theorem symbol_is_nearest:
  assumes "load_symbol_tables nm images = Inr tables" "symbolize_pc tables pc = Some s"
  shows "sp_base s + sp_offset s = pc \<and> 0 \<le> sp_offset s \<and>
    (\<exists>t \<in> set tables. \<exists>y \<in> set (symbols t). sp_base s = sym_address y \<and> sp_function s = sym_name y \<and>
       sp_image s = img_name (tab_image t)) \<and>
    (\<forall>t \<in> set tables. \<forall>y \<in> set (symbols t).
       sym_address y \<le> pc \<and> pc - sym_address y \<le> MAX_LAST \<longrightarrow> sym_address y \<le> sp_base s)"
proof -
  have sorted: "sorted_table t" if "t \<in> set tables" for t
  proof -
    have "mapE (load_symbol_table nm) imgs = Inr ts \<Longrightarrow> \<forall>t \<in> set ts. sorted_table t" for imgs ts
      by (induction imgs arbitrary: ts) (auto dest: loaded_table_sorted)
    with assms(1) that show ?thesis unfolding load_symbol_tables_def by blast
  qed
  note best = symbolize_pc_Some [OF assms(2)]
  then obtain t where t: "t \<in> set tables" "lookup_pc t pc = Some s" by blast
  from lookup_pc_Some [OF sorted [OF t(1)] t(2)] obtain y where y: "y \<in> set (symbols t)"
    "s = \<lparr>sp_image = img_name (tab_image t), sp_function = sym_name y, sp_base = sym_address y,
      sp_offset = pc - sym_address y\<rparr>" "sym_address y \<le> pc" by blast
  have "sym_address z \<le> sp_base s"
    if z: "u \<in> set tables" "z \<in> set (symbols u)" "sym_address z \<le> pc" "pc - sym_address z \<le> MAX_LAST" for u z
  proof -
    from lookup_pc_near [OF sorted [OF z(1)] z(2-4)] obtain x where x: "lookup_pc u pc = Some x" by blast
    from lookup_pc_Some [OF sorted [OF z(1)] x] z(2,3) have "sym_address z \<le> sp_base x" "sp_offset x = pc - sp_base x"
      by force+
    moreover have "sp_offset s \<le> sp_offset x" using best z(1) x by blast
    ultimately show ?thesis using y(2) by simp
  qed
  then show ?thesis using y t(1) by auto
qed

definition demo_nm :: "string \<Rightarrow> string option" where
  "demo_nm path =
     Some (''0100 T boot'' @ [CHR 0x0A] @ ''0100 t alias'' @ [CHR 0x0A] @ ''zz'' @ [CHR 0x0A] @
           ''0180 T idle'' @ [CHR 0x0A] @ ''0200 D data'')"

theorem symbol_is_nearest_witness:
  "\<exists>tables s. load_symbol_tables demo_nm [\<lparr>img_name = ''k'', img_path = ''v''\<rparr>] = Inr tables \<and>
     symbolize_pc tables 0x110 = Some s \<and> pc_text s = ''k:alias+0x10@0x0000000000000100'' \<and>
     sp_base s + sp_offset s = 0x110"
proof -
  have "load_symbol_tables demo_nm [\<lparr>img_name = ''k'', img_path = ''v''\<rparr>] =
      Inr [\<lparr>tab_image = \<lparr>img_name = ''k'', img_path = ''v''\<rparr>,
        symbols = [\<lparr>sym_address = 0x100, sym_name = ''alias''\<rparr>, \<lparr>sym_address = 0x180, sym_name = ''idle''\<rparr>]\<rparr>]" (is "_ = Inr ?ts")
    by code_simp
  moreover have "symbolize_pc ?ts 0x110 =
      Some \<lparr>sp_image = ''k'', sp_function = ''alias'', sp_base = 0x100, sp_offset = 0x10\<rparr>" (is "_ = Some ?s")
    by code_simp
  moreover have "pc_text ?s = ''k:alias+0x10@0x0000000000000100''" by code_simp
  ultimately show ?thesis using symbol_is_nearest [of demo_nm _ ?ts "0x110" ?s] by blast
qed

end
