(* ===== verification/BootSignposts.thy ===== *)
theory BootSignposts
  imports PyCounter
begin

text \<open>
  \<open>tools/linux_boot_signposts.py\<close>: boot milestones of a log, exact where the test bench printed a record
  and otherwise bracketed by the progress records around the milestone's line. The log's text is an argument.
\<close>

section \<open>Patterns\<close>

definition SIGNPOST_PROGRESS_RE :: rx where
  "SIGNPOST_PROGRESS_RE = seqs
     [lit ''OpenSBI progress cycles='', Grp ''cycles'' (some digit), lit '' instret='', Grp ''instret'' (some digit),
      many_lazy any_char, lit '' pc='', Grp ''pc'' (some hex_digit)]"

definition name_char :: "char \<Rightarrow> bool" where
  "name_char c \<longleftrightarrow> c \<in> set ''-abcdefghijklmnopqrstuvwxyz0123456789''"

definition EXACT_RE :: rx where
  "EXACT_RE = seqs
     [lit ''PERF '', alts [lit ''SIGNPOST'', lit ''MILESTONE''], lit '' name='', Grp ''name'' (some name_char),
      lit '' cycles='', Grp ''cycles'' (some digit), lit '' instret='', Grp ''instret'' (some digit),
      opt (seqs [many_lazy any_char, lit '' pc='', Grp ''pc'' (some hex_digit)])]"

record marker =
  m_name :: string
  m_description :: string
  m_pattern :: rx

definition new_marker :: "string \<Rightarrow> string \<Rightarrow> rx list \<Rightarrow> marker" where
  "new_marker n d p = \<lparr>m_name = n, m_description = d, m_pattern = seqs p\<rparr>"

definition MARKERS :: "marker list" where
  "MARKERS =
     [new_marker ''opensbi'' ''OpenSBI banner'' [lit ''OpenSBI v'', Chr digit],
      new_marker ''linux'' ''Linux banner'' [lit ''Linux version '', some non_space],
      new_marker ''memory'' ''kernel memory accounting''
        [lit ''Memory: '', some digit, lit ''K/'', some digit, lit ''K available''],
      new_marker ''devtmpfs'' ''devtmpfs initialized'' [lit ''devtmpfs: initialized''],
      new_marker ''plic'' ''PLIC initialized''
        [lit ''riscv-plic: '', many any_char, lit '' mapped '', some digit, lit '' interrupts''],
      new_marker ''uart'' ''8250 console initialized''
        [lit ''serial: ttyS0 '', many any_char, lit '' is a 16550A''],
      new_marker ''initmem'' ''kernel init memory freed'' [lit ''Freeing unused kernel image''],
      new_marker ''init'' ''PID 1 started'' [lit ''Run /init as init process''],
      new_marker ''bash'' ''Bash prompt'' [lit ''openrv64# '']]"

section \<open>Records\<close>

record progress =
  p_line :: nat
  p_cycles :: int
  p_instret :: int
  p_pc :: int

type_synonym exact_entry = "nat \<times> int \<times> int \<times> int option"

record signpost =
  s_log :: string
  s_marker :: marker
  s_line :: nat
  exact_cycles :: "int option"
  exact_instret :: "int option"
  exact_pc :: "int option"
  lower :: "progress option"
  upper :: "progress option"

definition progress_of :: "nat \<Rightarrow> rpos \<Rightarrow> progress" where
  "progress_of line_number q =
     \<lparr>p_line = line_number, p_cycles = group_int 10 ''cycles'' q, p_instret = group_int 10 ''instret'' q,
      p_pc = group_int 16 ''pc'' q\<rparr>"

definition progress_records :: "(nat \<times> string) list \<Rightarrow> progress list" where
  "progress_records numbered =
     sort_key p_line
       (concat (map (\<lambda>(line_number, line). map (progress_of line_number) (re_finditer SIGNPOST_PROGRESS_RE line)) numbered))"

definition exact_of :: "nat \<Rightarrow> rpos \<Rightarrow> exact_entry" where
  "exact_of line_number q =
     (line_number, group_int 10 ''cycles'' q, group_int 10 ''instret'' q,
      case groups q ''pc'' of None \<Rightarrow> None | Some _ \<Rightarrow> Some (group_int 16 ''pc'' q))"

definition exact_records :: "(nat \<times> string) list \<Rightarrow> (string \<rightharpoonup> exact_entry)" where
  "exact_records numbered =
     foldl (\<lambda>d (line_number, line).
       foldl (\<lambda>d q. setdefault d (group_of ''name'' q) (exact_of line_number q)) d (re_finditer EXACT_RE line))
       Map.empty numbered"

section \<open>Extraction\<close>

definition marker_line :: "(nat \<times> string) list \<Rightarrow> marker \<Rightarrow> nat option" where
  "marker_line numbered m = map_option fst (find (\<lambda>(_, line). re_search (m_pattern m) line \<noteq> None) numbered)"

definition exact_for :: "(string \<rightharpoonup> exact_entry) \<Rightarrow> marker \<Rightarrow> exact_entry option" where
  "exact_for exact m = (case exact (m_name m) of None \<Rightarrow> exact (''linux-'' @ m_name m) | Some e \<Rightarrow> Some e)"

definition bracket :: "progress list \<Rightarrow> nat \<Rightarrow> progress option \<times> progress option" where
  "bracket records line =
     (let position = bisect_right (map p_line records) line
      in (if position \<noteq> 0 then Some (records ! (position - 1)) else None,
          if position < length records then Some (records ! position) else None))"

definition new_signpost :: "string \<Rightarrow> progress list \<Rightarrow> marker \<Rightarrow> nat \<Rightarrow> exact_entry option \<Rightarrow> signpost" where
  "new_signpost path records m line e =
     \<lparr>s_log = path, s_marker = m, s_line = line,
      exact_cycles = map_option (\<lambda>(_, c, _, _). c) e, exact_instret = map_option (\<lambda>(_, _, i, _). i) e,
      exact_pc = (case e of None \<Rightarrow> None | Some (_, _, _, p) \<Rightarrow> p),
      lower = fst (bracket records line), upper = snd (bracket records line)\<rparr>"

definition signpost_for ::
  "string \<Rightarrow> (nat \<times> string) list \<Rightarrow> progress list \<Rightarrow> (string \<rightharpoonup> exact_entry) \<Rightarrow> marker \<Rightarrow> signpost option" where
  "signpost_for path numbered records exact m =
     (case (marker_line numbered m, exact_for exact m) of
        (None, None) \<Rightarrow> None
      | (Some line, e) \<Rightarrow> Some (new_signpost path records m line e)
      | (None, Some e) \<Rightarrow> Some (new_signpost path records m (fst e) (Some e)))"

definition extract_signposts :: "string \<Rightarrow> string \<Rightarrow> signpost list" where
  "extract_signposts path log_text =
     (let numbered = enumerate 1 (splitlines log_text);
          records = progress_records numbered; exact = exact_records numbered
      in concat (map (\<lambda>m. case signpost_for path numbered records exact m of None \<Rightarrow> [] | Some s \<Rightarrow> [s]) MARKERS))"

section \<open>Text\<close>

definition rstrip_char :: "char \<Rightarrow> string \<Rightarrow> string" where
  "rstrip_char c s = rev (dropWhile (\<lambda>x. x = c) (rev s))"

definition megacycles :: "int \<Rightarrow> string" where
  "megacycles n =
     (if n mod 1000000 = 0 then dec (n div 1000000) @ ''M''
      else rstrip_char CHR ''.'' (rstrip_char CHR ''0'' (fixed 3 (float_div n 1000000))) @ ''M'')"

definition range_text :: "(int \<Rightarrow> string) \<Rightarrow> int option \<Rightarrow> int option \<Rightarrow> int option \<Rightarrow> string" where
  "range_text show_value exact low high =
     (case exact of
        Some v \<Rightarrow> show_value v
      | None \<Rightarrow>
          (case (low, high) of
             (Some a, Some b) \<Rightarrow> if a = b then show_value a else show_value a @ ''..'' @ show_value b
           | (Some a, None) \<Rightarrow> ''>='' @ show_value a
           | (None, Some b) \<Rightarrow> ''<='' @ show_value b
           | (None, None) \<Rightarrow> ''unknown''))"

definition cycle_text :: "signpost \<Rightarrow> string" where
  "cycle_text s = range_text megacycles (exact_cycles s) (map_option p_cycles (lower s)) (map_option p_cycles (upper s))"

definition instret_text :: "signpost \<Rightarrow> string" where
  "instret_text s = range_text dec (exact_instret s) (map_option p_instret (lower s)) (map_option p_instret (upper s))"

definition markdown_group :: "string \<times> signpost list \<Rightarrow> string list" where
  "markdown_group g =
     (case g of (path, signposts) \<Rightarrow>
        [''### `'' @ path @ ''`'', '''', ''| Signpost | Cycles | Instructions retired | Log line |'', ''|---|---:|---:|---:|''] @
        map (\<lambda>s. ''| '' @ m_description (s_marker s) @ '' | '' @ cycle_text s @ '' | '' @ instret_text s @ '' | '' @
               dec (int (s_line s)) @ '' |'') signposts @
        (if signposts = [] then [''| No recognized signposts | unknown | unknown | - |''] else []) @ [''''])"

definition render_markdown :: "(string \<times> signpost list) list \<Rightarrow> string" where
  "render_markdown gs = str_join [CHR 0x0A] (concat (map markdown_group gs))"

definition TAB :: string where "TAB = [CHR 0x09]"

definition render_tsv :: "(string \<times> signpost list) list \<Rightarrow> string" where
  "render_tsv gs =
     str_join [CHR 0x0A]
       (str_join TAB [''log'', ''name'', ''description'', ''cycles'', ''instret'', ''line''] #
        concat (map (\<lambda>(path, signposts). map (\<lambda>s.
          str_join TAB [path, m_name (s_marker s), m_description (s_marker s), cycle_text s, instret_text s,
                        dec (int (s_line s))]) signposts) gs)) @ [CHR 0x0A]"

definition signposts_command :: "bool \<Rightarrow> (string \<Rightarrow> string option) \<Rightarrow> string list \<Rightarrow> string list + string" where
  "signposts_command markdown read_log paths =
     (let missing = filter (\<lambda>p. read_log p = None) paths in
      if missing \<noteq> [] then Inl missing
      else
        let gs = map (\<lambda>p. (p, extract_signposts p (the (read_log p)))) paths
        in Inr (if markdown then render_markdown gs @ [CHR 0x0A] else render_tsv gs))"

section \<open>Milestones are bracketed\<close>

lemma records_sorted: "sorted (map p_line (progress_records numbered))"
  unfolding progress_records_def by (rule sorted_sort_key)

lemma records_members:
  "p \<in> set (progress_records numbered) \<longleftrightarrow>
     (\<exists>n line. (n, line) \<in> set numbered \<and> (\<exists>q \<in> set (re_finditer SIGNPOST_PROGRESS_RE line). p = progress_of n q))"
  unfolding progress_records_def by auto

text \<open>In a list sorted by line the bisection splits off the records at or above a line.\<close>

lemma bisect_splits:
  assumes "sorted (map p_line records)"
  shows "filter (\<lambda>p. p_line p \<le> line) records = take (bisect_right (map p_line records) line) records"
    "filter (\<lambda>p. line < p_line p) records = drop (bisect_right (map p_line records) line) records"
proof -
  let ?n = "bisect_right (map p_line records) line"
  have n: "?n \<le> length records" using bisect_right_le [of "map p_line records" line] by simp
  have before: "p_line p \<le> line" if "p \<in> set (take ?n records)" for p
    using that n bisect_right_before [of _ "map p_line records" line] by (auto simp: in_set_conv_nth)
  have after: "line < p_line p" if "p \<in> set (drop ?n records)" for p
  proof -
    from that obtain k where k: "k < length (drop ?n records)" "drop ?n records ! k = p" by (meson in_set_conv_nth)
    then obtain i where i: "?n + i < length records" "p = records ! (?n + i)" by (intro that [of k]) auto
    then have "map p_line records ! ?n \<le> p_line p" using sorted_nth_mono [OF assms, of ?n "?n + i"] by simp
    moreover have "line < map p_line records ! ?n" using bisect_right_at [of "map p_line records" line] i(1) by simp
    ultimately show ?thesis by simp
  qed
  have "filter P records = filter P (take ?n records) @ filter P (drop ?n records)" for P
    by (metis append_take_drop_id filter_append)
  moreover have "filter (\<lambda>p. p_line p \<le> line) (take ?n records) = take ?n records"
    "filter (\<lambda>p. line < p_line p) (drop ?n records) = drop ?n records"
    using before after by (simp_all add: filter_id_conv)
  moreover have "filter (\<lambda>p. p_line p \<le> line) (drop ?n records) = []"
    "filter (\<lambda>p. line < p_line p) (take ?n records) = []"
    using before after by (fastforce simp: filter_empty_conv not_le not_less)+
  ultimately show "filter (\<lambda>p. p_line p \<le> line) records = take ?n records"
    "filter (\<lambda>p. line < p_line p) records = drop ?n records" by simp_all
qed

definition last_of :: "'a list \<Rightarrow> 'a option" where
  "last_of xs = (if xs = [] then None else Some (last xs))"

definition first_of :: "'a list \<Rightarrow> 'a option" where
  "first_of xs = (if xs = [] then None else Some (hd xs))"

lemma bracket_exact:
  assumes "sorted (map p_line records)"
  shows "bracket records line =
    (last_of (filter (\<lambda>p. p_line p \<le> line) records), first_of (filter (\<lambda>p. line < p_line p) records))"
proof -
  let ?n = "bisect_right (map p_line records) line"
  have n: "?n \<le> length records" using bisect_right_le [of "map p_line records" line] by simp
  have "last (take ?n records) = records ! (?n - 1)" if "?n \<noteq> 0"
    using that n by (subst last_conv_nth) auto
  with n show ?thesis unfolding bisect_splits [OF assms]
    by (auto simp: bracket_def Let_def last_of_def first_of_def hd_drop_conv_nth)
qed

lemma signpost_member:
  assumes "s \<in> set (extract_signposts path log_text)"
  shows "\<exists>m \<in> set MARKERS. signpost_for path (enumerate 1 (splitlines log_text))
      (progress_records (enumerate 1 (splitlines log_text))) (exact_records (enumerate 1 (splitlines log_text))) m = Some s"
  using assms unfolding extract_signposts_def Let_def by (auto split: option.splits)

lemma signpost_for_fields:
  assumes "signpost_for path numbered records exact m = Some s"
  shows "s_marker s = m \<and> lower s = fst (bracket records (s_line s)) \<and> upper s = snd (bracket records (s_line s)) \<and>
    exact_cycles s = map_option (\<lambda>(_, c, _, _). c) (exact_for exact m) \<and>
    (case marker_line numbered m of Some n \<Rightarrow> s_line s = n | None \<Rightarrow> map_option fst (exact_for exact m) = Some (s_line s))"
  using assms by (auto simp: signpost_for_def new_signpost_def split: option.splits)

lemma reported_markers:
  assumes "m \<in> set MARKERS"
  shows "(\<exists>s \<in> set (extract_signposts path log_text). s_marker s = m) \<longleftrightarrow>
    marker_line (enumerate 1 (splitlines log_text)) m \<noteq> None \<or>
    exact_for (exact_records (enumerate 1 (splitlines log_text))) m \<noteq> None"
    (is "?L \<longleftrightarrow> ?R")
proof
  show ?R if ?L
  proof -
    from that obtain s where "s \<in> set (extract_signposts path log_text)" "s_marker s = m" by blast
    with signpost_member [OF this(1)] signpost_for_fields show ?thesis
      by (fastforce simp: signpost_for_def split: option.splits)
  qed
  show ?L if ?R
  proof -
    let ?for = "signpost_for path (enumerate 1 (splitlines log_text)) (progress_records (enumerate 1 (splitlines log_text)))
      (exact_records (enumerate 1 (splitlines log_text)))"
    from that have "?for m \<noteq> None" by (auto simp: signpost_for_def split: option.split)
    then obtain s where s: "?for m = Some s" by blast
    moreover from this assms have "s \<in> set (extract_signposts path log_text)"
      unfolding extract_signposts_def Let_def by force
    ultimately show ?thesis using signpost_for_fields by blast
  qed
qed

lemma find_first: "find P xs = Some x \<Longrightarrow> P x \<and> (\<exists>ys zs. xs = ys @ x # zs \<and> (\<forall>y \<in> set ys. \<not> P y))"
  by (auto simp: find_Some_iff) (metis id_take_nth_drop in_set_conv_nth length_take min_less_iff_conj nth_take)

text \<open>The line of a marker is the first that shows it.\<close>

lemma marker_line_first:
  "marker_line numbered m = Some n \<Longrightarrow>
     \<exists>line before after. numbered = before @ (n, line) # after \<and> re_search (m_pattern m) line \<noteq> None \<and>
       (\<forall>y \<in> set before. re_search (m_pattern m) (snd y) = None)"
  "marker_line numbered m = None \<longleftrightarrow> (\<forall>x \<in> set numbered. re_search (m_pattern m) (snd x) = None)"
proof -
  assume "marker_line numbered m = Some n"
  then obtain line where "find (\<lambda>(_, line). re_search (m_pattern m) line \<noteq> None) numbered = Some (n, line)"
    unfolding marker_line_def by auto
  from find_first [OF this] show "\<exists>line before after. numbered = before @ (n, line) # after \<and>
      re_search (m_pattern m) line \<noteq> None \<and> (\<forall>y \<in> set before. re_search (m_pattern m) (snd y) = None)"
    by (auto simp: case_prod_unfold)
qed (auto simp: marker_line_def find_None_iff)

text \<open>
  C27: the milestones of a log. A milestone is reported exactly when a line of the log shows its marker or the test bench
  printed an exact record under its name (or \<open>linux-\<close> and its name); it stands at the first line that shows the marker, or, when none does, at
  the exact record's. The progress records are those found in the log, in the order of their lines; the lower bound of
  a milestone is the last of them at or above its line, the upper bound the first below it, and either is absent
  exactly when there is no such record. The comparison is by line number: a record on the milestone's own line counts
  as before it, wherever it stands in that line.
\<close>

theorem signposts_are_bracketed:
  "let numbered = enumerate 1 (splitlines log_text); records = progress_records numbered;
       exact = exact_for (exact_records numbered); shows_marker = (\<lambda>m x. re_search (m_pattern m) (snd x) \<noteq> None) in
   sorted (map p_line records) \<and>
   (\<forall>p. p \<in> set records \<longleftrightarrow>
      (\<exists>n line. (n, line) \<in> set numbered \<and> (\<exists>q \<in> set (re_finditer SIGNPOST_PROGRESS_RE line). p = progress_of n q))) \<and>
   (\<forall>m \<in> set MARKERS. (\<exists>s \<in> set (extract_signposts path log_text). s_marker s = m) \<longleftrightarrow>
      (\<exists>x \<in> set numbered. shows_marker m x) \<or> exact m \<noteq> None) \<and>
   (\<forall>s \<in> set (extract_signposts path log_text).
      s_marker s \<in> set MARKERS \<and>
      (if \<exists>x \<in> set numbered. shows_marker (s_marker s) x
       then \<exists>line before after. numbered = before @ (s_line s, line) # after \<and> shows_marker (s_marker s) (s_line s, line) \<and>
              (\<forall>y \<in> set before. \<not> shows_marker (s_marker s) y)
       else map_option fst (exact (s_marker s)) = Some (s_line s)) \<and>
      exact_cycles s = map_option (\<lambda>(_, c, _, _). c) (exact (s_marker s)) \<and>
      lower s = last_of (filter (\<lambda>p. p_line p \<le> s_line s) records) \<and>
      upper s = first_of (filter (\<lambda>p. s_line s < p_line p) records))"
  unfolding Let_def
proof (intro conjI allI ballI)
  let ?numbered = "enumerate 1 (splitlines log_text)"
  let ?records = "progress_records ?numbered"
  show "sorted (map p_line ?records)" by (rule records_sorted)
  show "p \<in> set ?records \<longleftrightarrow>
      (\<exists>n line. (n, line) \<in> set ?numbered \<and> (\<exists>q \<in> set (re_finditer SIGNPOST_PROGRESS_RE line). p = progress_of n q))" for p
    by (rule records_members)
  show "(\<exists>s \<in> set (extract_signposts path log_text). s_marker s = m) \<longleftrightarrow>
      (\<exists>x \<in> set ?numbered. re_search (m_pattern m) (snd x) \<noteq> None) \<or> exact_for (exact_records ?numbered) m \<noteq> None"
    if "m \<in> set MARKERS" for m
    unfolding reported_markers [OF that] marker_line_first(2) by simp
  fix s assume "s \<in> set (extract_signposts path log_text)"
  from signpost_member [OF this] obtain m where m: "m \<in> set MARKERS"
    "signpost_for path ?numbered ?records (exact_records ?numbered) m = Some s" by blast
  note f = signpost_for_fields [OF m(2)]
  show "s_marker s \<in> set MARKERS" using f m(1) by simp
  show "exact_cycles s = map_option (\<lambda>(_, c, _, _). c) (exact_for (exact_records ?numbered) (s_marker s))" using f by simp
  show "lower s = last_of (filter (\<lambda>p. p_line p \<le> s_line s) ?records)"
    "upper s = first_of (filter (\<lambda>p. s_line s < p_line p) ?records)"
    using f by (simp_all add: bracket_exact [OF records_sorted])
  show "if \<exists>x \<in> set ?numbered. re_search (m_pattern (s_marker s)) (snd x) \<noteq> None
      then \<exists>line before after. ?numbered = before @ (s_line s, line) # after \<and>
             re_search (m_pattern (s_marker s)) (snd (s_line s, line)) \<noteq> None \<and>
             (\<forall>y \<in> set before. \<not> re_search (m_pattern (s_marker s)) (snd y) \<noteq> None)
      else map_option fst (exact_for (exact_records ?numbered) (s_marker s)) = Some (s_line s)"
  proof (cases "marker_line ?numbered m")
    case None
    with f marker_line_first(2) [of ?numbered m] show ?thesis by auto
  next
    case (Some n)
    with f have "\<exists>x \<in> set ?numbered. re_search (m_pattern (s_marker s)) (snd x) \<noteq> None" "n = s_line s"
      using marker_line_first(2) [of ?numbered m] by auto
    with marker_line_first(1) [OF Some] f show ?thesis by simp
  qed
qed

definition demo_log :: string where
  "demo_log =
     ''OpenSBI progress cycles=500 instret=9 x pc=8'' @ [CHR 0x0A] @ ''OpenSBI v1'' @ [CHR 0x0A] @
     ''OpenSBI progress cycles=750 instret=12 x pc=a''"

definition demo_record :: progress where
  "demo_record = \<lparr>p_line = 3, p_cycles = 750, p_instret = 12, p_pc = 10\<rparr>"

theorem signposts_are_bracketed_witness:
  "\<exists>s. extract_signposts ''log'' demo_log = [s] \<and> s_line s = 2 \<and> upper s = Some demo_record"
proof -
  let ?s = "hd (extract_signposts ''log'' demo_log)"
  have s: "extract_signposts ''log'' demo_log = [?s]" "s_line ?s = 2" unfolding demo_log_def by code_simp+
  then have in_s: "?s \<in> set (extract_signposts ''log'' demo_log)" by (metis list.set_intros(1))
  have "first_of (filter (\<lambda>p. 2 < p_line p) (progress_records (enumerate 1 (splitlines demo_log)))) = Some demo_record"
    unfolding demo_log_def demo_record_def by code_simp
  moreover have "\<forall>s \<in> set (extract_signposts ''log'' demo_log).
      upper s = first_of (filter (\<lambda>p. s_line s < p_line p) (progress_records (enumerate 1 (splitlines demo_log))))"
    using signposts_are_bracketed [of demo_log "''log''"] unfolding Let_def ball_conj_distrib by (elim conjE)
  ultimately have "upper ?s = Some demo_record" using in_s s(2) by metis
  with s show ?thesis by blast
qed

text \<open>A record after the marker on the marker's own line is still taken as its lower bound.\<close>

lemma same_line_record_counts_as_earlier:
  "map instret_text (extract_signposts ''log'' ''OpenSBI v1 OpenSBI progress cycles=7 instret=9 x pc=8'') = [''>=9'']"
  by code_simp

end
