(* ===== verification/BootReport.thy ===== *)
theory BootReport
  imports ElfSymbols BootSignposts
begin

text \<open>
  \<open>tools/linux_boot_report.py\<close>: the comparison of boot logs by configuration. The rows handed to the CSV
  writer and to the workbook's sheets are modelled cell by cell; the two writers, the workbook's
  styles and charts are library calls and left out. Logs are read through an argument.
\<close>

section \<open>Runs and measurements\<close>

datatype cell = Blank | Txt string | Num int | Real py_float | Flag bool

datatype report_error =
    RunNotNamed
  | RunWithoutName
  | RunWithoutPath
  | FilesMissing "string list"
  | BaselineUnknown string
  | SymbolsFailed symbol_error

record run_log =
  r_configuration :: string
  r_path :: string

record measurement =
  configuration :: string
  signpost_at :: signpost

definition low_of :: "(signpost \<Rightarrow> int option) \<Rightarrow> (progress \<Rightarrow> int) \<Rightarrow> measurement \<Rightarrow> int option" where
  "low_of exact f m = (case exact (signpost_at m) of Some v \<Rightarrow> Some v | None \<Rightarrow> map_option f (lower (signpost_at m)))"

definition high_of :: "(signpost \<Rightarrow> int option) \<Rightarrow> (progress \<Rightarrow> int) \<Rightarrow> measurement \<Rightarrow> int option" where
  "high_of exact f m = (case exact (signpost_at m) of Some v \<Rightarrow> Some v | None \<Rightarrow> map_option f (upper (signpost_at m)))"

definition cycle_low :: "measurement \<Rightarrow> int option" where "cycle_low = low_of exact_cycles p_cycles"
definition cycle_high :: "measurement \<Rightarrow> int option" where "cycle_high = high_of exact_cycles p_cycles"
definition instret_low :: "measurement \<Rightarrow> int option" where "instret_low = low_of exact_instret p_instret"
definition instret_high :: "measurement \<Rightarrow> int option" where "instret_high = high_of exact_instret p_instret"
definition pc_low :: "measurement \<Rightarrow> int option" where "pc_low = low_of exact_pc p_pc"
definition pc_high :: "measurement \<Rightarrow> int option" where "pc_high = high_of exact_pc p_pc"

definition both :: "(int \<Rightarrow> int \<Rightarrow> 'a) \<Rightarrow> int option \<Rightarrow> int option \<Rightarrow> 'a option" where
  "both f low high = (case (low, high) of (Some a, Some b) \<Rightarrow> Some (f a b) | _ \<Rightarrow> None)"

definition estimate :: "int option \<Rightarrow> int option \<Rightarrow> py_float option" where
  "estimate = both (\<lambda>low high. float_div (low + high) 2)"

definition cycle_estimate :: "measurement \<Rightarrow> py_float option" where
  "cycle_estimate m = estimate (cycle_low m) (cycle_high m)"

definition instret_estimate :: "measurement \<Rightarrow> py_float option" where
  "instret_estimate m = estimate (instret_low m) (instret_high m)"

definition precision :: "measurement \<Rightarrow> string" where
  "precision m =
     (if exact_cycles (signpost_at m) \<noteq> None then ''exact''
      else case (cycle_low m, cycle_high m) of
             (Some _, Some _) \<Rightarrow> ''bracketed''
           | (Some _, None) \<Rightarrow> ''lower bound only''
           | (None, Some _) \<Rightarrow> ''upper bound only''
           | (None, None) \<Rightarrow> ''unknown'')"

definition parse_run :: "string \<Rightarrow> report_error + run_log" where
  "parse_run value =
     (case split_once CHR ''='' value of
        None \<Rightarrow> Inl RunNotNamed
      | Some (name, path_text) \<Rightarrow>
          if name = [] then Inl RunWithoutName
          else if path_text = [] then Inl RunWithoutPath
          else Inr \<lparr>r_configuration = name, r_path = path_text\<rparr>)"

section \<open>Function landmarks\<close>

definition position_in :: "'a list \<Rightarrow> 'a \<Rightarrow> nat" where
  "position_in xs x = length (takeWhile (\<lambda>y. y \<noteq> x) xs)"

record observation =
  o_configuration :: string
  o_symbol :: symbolized_pc
  o_cycles :: int
  o_instret :: int
  o_pc :: int
  o_log :: string
  o_line :: nat
  o_samples :: int

type_synonym observations = "((string \<times> string \<times> string) \<times> observation) list"

definition observe :: "symbol_table list \<Rightarrow> run_log \<Rightarrow> nat \<times> rpos \<Rightarrow> observations \<Rightarrow> observations" where
  "observe tables run lq obs =
     (case lq of (line_number, q) \<Rightarrow>
      let p = progress_of line_number q in
      case symbolize_pc tables (p_pc p) of
        None \<Rightarrow> obs
      | Some s \<Rightarrow>
          let k = (r_configuration run, sp_image s, sp_function s);
              fresh = \<lparr>o_configuration = r_configuration run, o_symbol = s, o_cycles = p_cycles p, o_instret = p_instret p,
                       o_pc = p_pc p, o_log = r_path run, o_line = line_number, o_samples = 1\<rparr>
          in case map_of obs k of
               None \<Rightarrow> put k fresh obs
             | Some previous \<Rightarrow>
                 put k (if p_cycles p < o_cycles previous then fresh\<lparr>o_samples := o_samples previous + 1\<rparr>
                        else previous\<lparr>o_samples := o_samples previous + 1\<rparr>) obs)"

definition log_matches :: "string \<Rightarrow> (nat \<times> rpos) list" where
  "log_matches log_text =
     concat (map (\<lambda>(line_number, line). map (Pair line_number) (re_finditer SIGNPOST_PROGRESS_RE line))
       (enumerate 1 (splitlines log_text)))"

definition collect_function_observations ::
  "(string \<Rightarrow> string) \<Rightarrow> run_log list \<Rightarrow> symbol_table list \<Rightarrow> observation list" where
  "collect_function_observations read_log runs tables =
     (let order = first_seen (map r_configuration runs);
          obs = foldl (\<lambda>obs run. fold (observe tables run) (log_matches (read_log (r_path run))) obs) [] runs
      in sort_key (\<lambda>v. position_in order (o_configuration v))
           (sort_key o_cycles (sort_key (\<lambda>v. sp_image (o_symbol v)) (sort_key (\<lambda>v. sp_function (o_symbol v))
             (map snd obs)))))"

section \<open>Run outcomes\<close>

record outcome =
  c_configuration :: string
  status :: string
  first_sample :: "(int \<times> int \<times> int) option"
  last_sample :: "(int \<times> int \<times> int) option"
  prompt_seen :: bool
  panic_seen :: bool
  stop_seen :: bool
  no_retire :: "(int \<times> int) option"
  no_retire_cycles :: int
  source_logs :: string

type_synonym sample_row = "int \<times> int \<times> int"

definition samples_of :: "string list \<Rightarrow> sample_row list" where
  "samples_of texts =
     sort_key fst (foldl (\<lambda>d q. put (group_int 10 ''cycles'' q) (group_int 10 ''instret'' q, group_int 16 ''pc'' q) d) []
       (concat (map (\<lambda>t. concat (map (re_finditer SIGNPOST_PROGRESS_RE) (splitlines t))) texts)))"

record span_state =
  longest :: "(int \<times> int) option"
  longest_cycles :: int
  run_start :: "int option"
  previous :: "(int \<times> int) option"

definition span_start :: span_state where
  "span_start = \<lparr>longest = None, longest_cycles = 0, run_start = None, previous = None\<rparr>"

definition span_step :: "int \<times> int \<Rightarrow> span_state \<Rightarrow> span_state" where
  "span_step ci st =
     (case ci of (cycle, instret) \<Rightarrow>
      case previous st of
        Some (previous_cycle, previous_instret) \<Rightarrow>
          if instret = previous_instret then
            let start = (case run_start st of None \<Rightarrow> previous_cycle | Some c \<Rightarrow> c);
                span = cycle - start
            in if longest_cycles st < span
               then \<lparr>longest = Some (start, cycle), longest_cycles = span, run_start = Some start, previous = Some ci\<rparr>
               else st\<lparr>run_start := Some start, previous := Some ci\<rparr>
          else st\<lparr>run_start := None, previous := Some ci\<rparr>
      | None \<Rightarrow> st\<lparr>run_start := None, previous := Some ci\<rparr>)"

definition longest_span :: "sample_row list \<Rightarrow> span_state" where
  "longest_span samples = fold span_step (map (\<lambda>(c, i, _). (c, i)) samples) span_start"

definition outcome_status :: "bool \<Rightarrow> bool \<Rightarrow> int \<Rightarrow> bool \<Rightarrow> string" where
  "outcome_status prompt panic cycles stop =
     (if prompt then ''prompt reached'' else if panic then ''kernel panic''
      else if cycles \<ge> 1000000 then ''stalled'' else if stop then ''completed without prompt'' else ''incomplete'')"

definition run_outcome :: "(string \<Rightarrow> string) \<Rightarrow> string \<times> run_log list \<Rightarrow> outcome" where
  "run_outcome read_log g =
     (case g of (conf, logs) \<Rightarrow>
      let texts = map (\<lambda>r. read_log (r_path r)) logs;
          samples = samples_of texts;
          span = longest_span samples;
          prompt = list_ex (contains ''openrv64# '') texts;
          panic = list_ex (contains ''Kernel panic'') texts;
          stop = list_ex (contains ''SIMULATION STOP cycle='') texts
      in \<lparr>c_configuration = conf, status = outcome_status prompt panic (longest_cycles span) stop,
          first_sample = (if samples = [] then None else Some (hd samples)),
          last_sample = (if samples = [] then None else Some (last samples)),
          prompt_seen = prompt, panic_seen = panic, stop_seen = stop,
          no_retire = longest span, no_retire_cycles = longest_cycles span,
          source_logs = str_join [CHR 0x0A] (map r_path logs)\<rparr>)"

definition grouped_runs :: "run_log list \<Rightarrow> (string \<times> run_log list) list" where
  "grouped_runs runs = foldl (\<lambda>d r. push (r_configuration r) r d) [] runs"

definition collect_run_outcomes :: "(string \<Rightarrow> string) \<Rightarrow> run_log list \<Rightarrow> outcome list" where
  "collect_run_outcomes read_log runs = map (run_outcome read_log) (grouped_runs runs)"

section \<open>Milestones\<close>

definition MAXSIZE :: int where "MAXSIZE = 2 ^ 63 - 1"

definition or_maxsize :: "int option \<Rightarrow> int" where
  "or_maxsize c = (case c of None \<Rightarrow> MAXSIZE | Some n \<Rightarrow> if n = 0 then MAXSIZE else n)"

type_synonym measured = "((string \<times> string) \<times> measurement) list"

definition keep_measurement :: "measurement \<Rightarrow> measured \<Rightarrow> measured" where
  "keep_measurement m d =
     (let k = (configuration m, m_name (s_marker (signpost_at m))) in
      case map_of d k of
        None \<Rightarrow> put k m d
      | Some prev \<Rightarrow>
          if exact_cycles (signpost_at prev) = None \<and> exact_cycles (signpost_at m) \<noteq> None then put k m d
          else if exact_cycles (signpost_at prev) = None \<and> exact_cycles (signpost_at m) = None \<and>
             or_maxsize (cycle_low m) < or_maxsize (cycle_low prev) then put k m d
          else d)"

definition collect :: "(string \<Rightarrow> string) \<Rightarrow> run_log list \<Rightarrow> string list \<times> measurement list" where
  "collect read_log runs =
     (let configurations = first_seen (map r_configuration runs);
          found = fold keep_measurement
            (concat (map (\<lambda>r. map (\<lambda>s. \<lparr>configuration = r_configuration r, signpost_at = s\<rparr>)
               (extract_signposts (r_path r) (read_log (r_path r)))) runs)) []
      in (configurations,
          sort_key (\<lambda>m. position_in configurations (configuration m))
            (sort_key (\<lambda>m. position_in (map m_name MARKERS) (m_name (s_marker (signpost_at m)))) (map snd found))))"

section \<open>Rows\<close>

definition num_cell :: "int option \<Rightarrow> cell" where
  "num_cell v = (case v of None \<Rightarrow> Blank | Some n \<Rightarrow> Num n)"

definition real_cell :: "py_float option \<Rightarrow> cell" where
  "real_cell v = (case v of None \<Rightarrow> Blank | Some x \<Rightarrow> Real x)"

definition pc_cells :: "symbol_table list \<Rightarrow> int option \<Rightarrow> cell list" where
  "pc_cells tables p =
     (case p of
        None \<Rightarrow> [Blank, Blank]
      | Some a \<Rightarrow> [Txt (''0x'' @ hex0 16 a), case symbolize_pc tables a of None \<Rightarrow> Blank | Some s \<Rightarrow> Txt (pc_text s)])"

definition marker_cells :: "measurement \<Rightarrow> cell list" where
  "marker_cells m =
     [Txt (configuration m), Txt (m_name (s_marker (signpost_at m))), Txt (m_description (s_marker (signpost_at m)))]"

definition CSV_HEADER :: "cell list" where
  "CSV_HEADER = map Txt
     [''configuration'', ''signpost'', ''description'', ''cycle_low'', ''cycle_high'', ''cycle_estimate'', ''instret_low'',
      ''instret_high'', ''instret_estimate'', ''precision'', ''pc_low'', ''function_low'', ''pc_high'', ''function_high'',
      ''source_log'', ''source_line'']"

definition csv_row_of :: "symbol_table list \<Rightarrow> measurement \<Rightarrow> cell list" where
  "csv_row_of tables m =
     marker_cells m @
     [num_cell (cycle_low m), num_cell (cycle_high m), real_cell (cycle_estimate m),
      num_cell (instret_low m), num_cell (instret_high m), real_cell (instret_estimate m), Txt (precision m)] @
     pc_cells tables (pc_low m) @ pc_cells tables (pc_high m) @
     [Txt (s_log (signpost_at m)), Num (int (s_line (signpost_at m)))]"

definition csv_rows :: "measurement list \<Rightarrow> symbol_table list \<Rightarrow> cell list list" where
  "csv_rows ms tables = CSV_HEADER # map (csv_row_of tables) ms"

definition delta :: "int option \<Rightarrow> int option \<Rightarrow> int option" where
  "delta early late = both (\<lambda>a b. max 0 (b - a)) early late"

definition ratio_cell :: "int \<Rightarrow> int \<Rightarrow> cell" where
  "ratio_cell n d = (if 0 < d then Real (float_div n d) else Blank)"

definition interval_row :: "string \<Rightarrow> measurement \<times> measurement \<Rightarrow> cell list" where
  "interval_row conf pair =
     (case pair of (early, late) \<Rightarrow>
      [Txt conf, Txt (m_name (s_marker (signpost_at early))), Txt (m_name (s_marker (signpost_at late)))] @
      (if None \<in> set [cycle_low early, cycle_high early, cycle_low late, cycle_high late,
                      instret_low early, instret_high early, instret_low late, instret_high late]
       then replicate 6 Blank
       else
         let c_low = the (delta (cycle_high early) (cycle_low late)); c_high = the (delta (cycle_low early) (cycle_high late));
             i_low = the (delta (instret_high early) (instret_low late));
             i_high = the (delta (instret_low early) (instret_high late))
         in [Num c_low, Num c_high, Num i_low, Num i_high, ratio_cell i_low c_high, ratio_cell i_high c_low]))"

definition interval_rows :: "string list \<Rightarrow> measurement list \<Rightarrow> cell list list" where
  "interval_rows configurations ms =
     concat (map (\<lambda>conf. let items = filter (\<lambda>m. configuration m = conf) ms
                         in map (interval_row conf) (zip items (tl items))) configurations)"

section \<open>Sheets\<close>

definition readme_rows :: "string \<Rightarrow> run_log list \<Rightarrow> cell list list" where
  "readme_rows baseline runs =
     [[Txt ''OpenRV64 Linux boot configuration comparison''], [],
      [Txt (''Cycle and retired-instruction values are exact only when the log '' @
            ''contains a PERF SIGNPOST or PERF MILESTONE record.'')],
      [Txt (''Old UART records are bracketed by adjacent progress samples. '' @
            ''Estimates are interval midpoints; low/high columns retain the measurement uncertainty.'')],
      [Txt (''Blank cells mean the retained log does not contain enough data. '' @
            ''They must not be interpreted as zero.'')],
      [Txt (''Function Landmarks are periodic progress-PC samples, not a complete call trace. '' @
            ''A function absent from that sheet may still have executed between samples.'')],
      [], [Txt ''Baseline'', Txt baseline], [], [Txt ''Configuration'', Txt ''Source log'']] @
     map (\<lambda>r. [Txt (r_configuration r), Txt (r_path r)]) runs"

definition OUTCOME_HEADERS :: "cell list" where
  "OUTCOME_HEADERS = map Txt
     [''Configuration'', ''Status'', ''First cycle'', ''Last sampled cycle'', ''First instret'', ''Last instret'',
      ''Prompt seen'', ''Panic seen'', ''Simulation stop seen'', ''Longest no-retire start'', ''Longest no-retire end'',
      ''Longest no-retire cycles'', ''Last sampled PC'', ''Last sampled function'', ''Source logs'']"

definition outcome_row :: "symbol_table list \<Rightarrow> outcome \<Rightarrow> cell list" where
  "outcome_row tables c =
     [Txt (c_configuration c), Txt (status c), num_cell (map_option fst (first_sample c)),
      num_cell (map_option fst (last_sample c)), num_cell (map_option (\<lambda>(_, i, _). i) (first_sample c)),
      num_cell (map_option (\<lambda>(_, i, _). i) (last_sample c)),
      Flag (prompt_seen c), Flag (panic_seen c), Flag (stop_seen c),
      num_cell (map_option fst (no_retire c)), num_cell (map_option snd (no_retire c)), Num (no_retire_cycles c)] @
     pc_cells tables (map_option (\<lambda>(_, _, p). p) (last_sample c)) @ [Txt (source_logs c)]"

definition MILESTONE_HEADERS :: "cell list" where
  "MILESTONE_HEADERS = map Txt
     [''Configuration'', ''Signpost'', ''Description'', ''Cycle low'', ''Cycle high'', ''Cycle estimate'', ''Cycle +/-'',
      ''Instret low'', ''Instret high'', ''Instret estimate'', ''Instret +/-'', ''Cumulative IPC estimate'', ''Precision'',
      ''PC low'', ''Function at low sample'', ''PC high'', ''Function at high sample'', ''Source log'', ''Source line'']"

definition half_range :: "int option \<Rightarrow> int option \<Rightarrow> py_float option" where
  "half_range low high = both (\<lambda>a b. float_div (b - a) 2) low high"

definition cumulative_ipc :: "measurement \<Rightarrow> py_float option" where
  "cumulative_ipc m =
     (case (instret_estimate m, cycle_estimate m) of
        (Some i, Some c) \<Rightarrow> if float_less (0, 1) c then Some (float_quot i c) else None
      | _ \<Rightarrow> None)"

definition milestone_row :: "symbol_table list \<Rightarrow> measurement \<Rightarrow> cell list" where
  "milestone_row tables m =
     marker_cells m @
     [num_cell (cycle_low m), num_cell (cycle_high m), real_cell (cycle_estimate m),
      real_cell (half_range (cycle_low m) (cycle_high m)),
      num_cell (instret_low m), num_cell (instret_high m), real_cell (instret_estimate m),
      real_cell (half_range (instret_low m) (instret_high m)), real_cell (cumulative_ipc m), Txt (precision m)] @
     pc_cells tables (pc_low m) @ pc_cells tables (pc_high m) @
     [Txt (s_log (signpost_at m)), Num (int (s_line (signpost_at m)))]"

definition FUNCTION_HEADERS :: "cell list" where
  "FUNCTION_HEADERS = map Txt
     [''Configuration'', ''First sampled cycle'', ''Instret at first sample'', ''Image'', ''Function'', ''Function base'',
      ''Sampled PC'', ''Offset'', ''Progress samples in function'', ''Evidence'', ''Source log'', ''Source line'']"

definition function_row :: "observation \<Rightarrow> cell list" where
  "function_row v =
     [Txt (o_configuration v), Num (o_cycles v), Num (o_instret v), Txt (sp_image (o_symbol v)), Txt (sp_function (o_symbol v)),
      Txt (''0x'' @ hex0 16 (sp_base (o_symbol v))), Txt (''0x'' @ hex0 16 (o_pc v)), Num (sp_offset (o_symbol v)),
      Num (o_samples v), Txt ''periodic PC sample; call entry not proven'', Txt (o_log v), Num (int (o_line v))]"

definition INTERVAL_HEADERS :: "cell list" where
  "INTERVAL_HEADERS = map Txt
     [''Configuration'', ''From'', ''To'', ''Cycle delta low'', ''Cycle delta high'', ''Instret delta low'',
      ''Instret delta high'', ''IPC low'', ''IPC high'']"

definition measured_at :: "measurement list \<Rightarrow> string \<Rightarrow> marker \<Rightarrow> measurement option" where
  "measured_at ms conf m =
     map_of (rev (map (\<lambda>v. ((configuration v, m_name (s_marker (signpost_at v))), v)) ms)) (conf, m_name m)"

definition comparison_header :: "string \<Rightarrow> string list \<Rightarrow> cell list" where
  "comparison_header baseline configurations =
     [Txt ''Signpost'', Txt ''Description''] @
     concat (map (\<lambda>conf. map Txt
       [conf @ '' cycles'', conf @ '' instret'',
        (if conf \<noteq> baseline then conf @ '' cycle improvement vs '' @ baseline else conf @ '' baseline''),
        (if conf \<noteq> baseline then conf @ '' instret delta vs '' @ baseline else conf @ '' instret baseline'')]) configurations)"

definition relative_to :: "py_float option \<Rightarrow> py_float option \<Rightarrow> (py_float \<Rightarrow> py_float \<Rightarrow> py_float) \<Rightarrow> cell" where
  "relative_to base_value value diff =
     (case (value, base_value) of
        (Some v, Some b) \<Rightarrow> if float_less (0, 1) b then Real (float_quot (diff b v) b) else Blank
      | _ \<Rightarrow> Blank)"

definition comparison_cells :: "string \<Rightarrow> measurement option \<Rightarrow> string \<Rightarrow> measurement option \<Rightarrow> cell list" where
  "comparison_cells baseline base_item conf item =
     (let cycles = Option.bind item cycle_estimate; instret = Option.bind item instret_estimate;
          zero = (\<lambda>v. if v = None then Blank else Real (0, 1))
      in [real_cell cycles, real_cell instret,
          if conf = baseline then zero cycles
          else relative_to (Option.bind base_item cycle_estimate) cycles (\<lambda>b v. float_sub b v),
          if conf = baseline then zero instret
          else relative_to (Option.bind base_item instret_estimate) instret (\<lambda>b v. float_sub v b)])"

definition comparison_row :: "string \<Rightarrow> string list \<Rightarrow> measurement list \<Rightarrow> marker \<Rightarrow> cell list" where
  "comparison_row baseline configurations ms m =
     [Txt (m_name m), Txt (m_description m)] @
     concat (map (\<lambda>conf. comparison_cells baseline (measured_at ms baseline m) conf (measured_at ms conf m)) configurations)"

definition workbook_sheets ::
  "string \<Rightarrow> run_log list \<Rightarrow> string list \<Rightarrow> measurement list \<Rightarrow> symbol_table list \<Rightarrow> observation list \<Rightarrow> outcome list \<Rightarrow>
   (string \<times> cell list list) list" where
  "workbook_sheets baseline runs configurations ms tables obs outcomes =
     [(''Read Me'', readme_rows baseline runs),
      (''Run Outcomes'', OUTCOME_HEADERS # map (outcome_row tables) outcomes),
      (''Milestones'', MILESTONE_HEADERS # map (milestone_row tables) ms),
      (''Function Landmarks'', FUNCTION_HEADERS # map function_row obs),
      (''Intervals'', INTERVAL_HEADERS # interval_rows configurations ms),
      (''Comparison'', comparison_header baseline configurations #
         map (comparison_row baseline configurations ms) MARKERS)]"

definition boot_report ::
  "(string \<Rightarrow> string option) \<Rightarrow> (string \<Rightarrow> string option) \<Rightarrow> run_log list \<Rightarrow> string \<Rightarrow> elf_source list \<Rightarrow>
   report_error + (cell list list \<times> (string \<times> cell list list) list)" where
  "boot_report read_file nm runs baseline elfs =
     (let missing = filter (\<lambda>p. read_file p = None) (map r_path runs @ map img_path elfs);
          read_log = (\<lambda>p. the (read_file p)) in
      if missing \<noteq> [] then Inl (FilesMissing missing)
      else
        (case collect read_log runs of (configurations, ms) \<Rightarrow>
           if baseline \<notin> set configurations then Inl (BaselineUnknown baseline)
           else
             (case load_symbol_tables nm elfs of
                Inl e \<Rightarrow> Inl (SymbolsFailed e)
              | Inr tables \<Rightarrow>
                  Inr (csv_rows ms tables,
                       workbook_sheets baseline runs configurations ms tables
                         (collect_function_observations read_log runs tables) (collect_run_outcomes read_log runs)))))"

end
