(* ===== verification/BootProps.thy ===== *)
theory BootProps
  imports BootReport
begin

text \<open>
  The boot report's derived numbers: an interval row bounds the true differences between two milestones, and
  the longest stretch without retirement is maximal.
\<close>

section \<open>Intervals\<close>

definition within :: "int option \<Rightarrow> int option \<Rightarrow> int \<Rightarrow> bool" where
  "within low high t \<longleftrightarrow> (\<exists>a b. low = Some a \<and> high = Some b \<and> a \<le> t \<and> t \<le> b)"

text \<open>
  C28: an interval row bounds the truth: if the true cycle and instruction counts of two milestones lie in their
  measured ranges and the second milestone is not earlier, the true differences lie between the low and high
  deltas of the row, and the true IPC between the quotients its two last cells are computed from.
\<close>

theorem intervals_bound_the_truth:
  assumes "within (cycle_low early) (cycle_high early) ta" "within (cycle_low late) (cycle_high late) tb"
    "within (instret_low early) (instret_high early) na" "within (instret_low late) (instret_high late) nb"
    "ta \<le> tb" "na \<le> nb"
  shows "\<exists>lo hi ilo ihi. drop 3 (interval_row conf (early, late)) =
      [Num lo, Num hi, Num ilo, Num ihi, ratio_cell ilo hi, ratio_cell ihi lo] \<and>
    lo \<le> tb - ta \<and> tb - ta \<le> hi \<and> ilo \<le> nb - na \<and> nb - na \<le> ihi \<and>
    ilo * (tb - ta) \<le> (nb - na) * hi \<and> (nb - na) * lo \<le> ihi * (tb - ta)"
proof -
  obtain a b where c1: "cycle_low early = Some a" "cycle_high early = Some b" "a \<le> ta" "ta \<le> b"
    using assms(1) by (auto simp: within_def)
  obtain c d where c2: "cycle_low late = Some c" "cycle_high late = Some d" "c \<le> tb" "tb \<le> d"
    using assms(2) by (auto simp: within_def)
  obtain p q where i1: "instret_low early = Some p" "instret_high early = Some q" "p \<le> na" "na \<le> q"
    using assms(3) by (auto simp: within_def)
  obtain r s where i2: "instret_low late = Some r" "instret_high late = Some s" "r \<le> nb" "nb \<le> s"
    using assms(4) by (auto simp: within_def)
  let ?lo = "max 0 (c - b)" and ?hi = "max 0 (d - a)" and ?ilo = "max 0 (r - q)" and ?ihi = "max 0 (s - p)"
  have row: "drop 3 (interval_row conf (early, late)) =
      [Num ?lo, Num ?hi, Num ?ilo, Num ?ihi, ratio_cell ?ilo ?hi, ratio_cell ?ihi ?lo]"
    by (simp add: interval_row_def delta_def both_def c1 c2 i1 i2 Let_def)
  have t: "?lo \<le> tb - ta" "tb - ta \<le> ?hi" "?ilo \<le> nb - na" "nb - na \<le> ?ihi"
    using c1 c2 i1 i2 assms(5,6) by simp_all
  have "?ilo * (tb - ta) \<le> (nb - na) * ?hi" by (rule mult_mono) (use t assms(5,6) in auto)
  moreover have "(nb - na) * ?lo \<le> ?ihi * (tb - ta)" by (rule mult_mono) (use t assms(5,6) in auto)
  ultimately show ?thesis using row t by blast
qed

definition demo_measurement :: "int \<Rightarrow> int \<Rightarrow> int \<Rightarrow> int \<Rightarrow> measurement" where
  "demo_measurement a b p q =
     \<lparr>configuration = ''base'', signpost_at = \<lparr>s_log = ''log'', s_marker = hd MARKERS, s_line = 1, exact_cycles = None,
        exact_instret = None, exact_pc = None, lower = Some \<lparr>p_line = 1, p_cycles = a, p_instret = p, p_pc = 0\<rparr>,
        upper = Some \<lparr>p_line = 2, p_cycles = b, p_instret = q, p_pc = 0\<rparr>\<rparr>\<rparr>"

theorem intervals_bound_the_truth_witness:
  "\<exists>lo hi. lo \<le> (650 :: int) - 120 \<and> 650 - 120 \<le> hi \<and>
    take 2 (drop 3 (interval_row ''base'' (demo_measurement 100 200 10 20, demo_measurement 600 700 30 40))) = [Num lo, Num hi]"
proof -
  let ?e = "demo_measurement 100 200 10 20" and ?l = "demo_measurement 600 700 30 40"
  have "within (cycle_low ?e) (cycle_high ?e) 120" "within (cycle_low ?l) (cycle_high ?l) 650"
    "within (instret_low ?e) (instret_high ?e) 15" "within (instret_low ?l) (instret_high ?l) 35"
    by (simp_all add: within_def demo_measurement_def cycle_low_def cycle_high_def instret_low_def instret_high_def
        low_of_def high_of_def)
  from intervals_bound_the_truth [OF this, of "''base''"] show ?thesis by force
qed

section \<open>The longest stretch without retirement\<close>

definition constant_run :: "(int \<times> int) list \<Rightarrow> nat \<Rightarrow> nat \<Rightarrow> bool" where
  "constant_run ss i j \<longleftrightarrow> i \<le> j \<and> j < length ss \<and> (\<forall>k. i \<le> k \<and> k \<le> j \<longrightarrow> snd (ss ! k) = snd (ss ! i))"

definition span_inv :: "(int \<times> int) list \<Rightarrow> span_state \<Rightarrow> bool" where
  "span_inv ss st \<longleftrightarrow>
     previous st = (if ss = [] then None else Some (last ss)) \<and>
     (case run_start st of
        None \<Rightarrow> length ss < 2 \<or> snd (ss ! (length ss - 2)) \<noteq> snd (ss ! (length ss - 1))
      | Some c \<Rightarrow> \<exists>s. s + 1 < length ss \<and> fst (ss ! s) = c \<and> constant_run ss s (length ss - 1) \<and>
          (0 < s \<longrightarrow> snd (ss ! (s - 1)) \<noteq> snd (ss ! s))) \<and>
     0 \<le> longest_cycles st \<and>
     (\<forall>i j. constant_run ss i j \<longrightarrow> fst (ss ! j) - fst (ss ! i) \<le> longest_cycles st) \<and>
     (case longest st of
        None \<Rightarrow> longest_cycles st = 0
      | Some (a, b) \<Rightarrow> \<exists>i j. constant_run ss i j \<and> a = fst (ss ! i) \<and> b = fst (ss ! j) \<and> longest_cycles st = b - a)"

lemma constant_run_snoc_old:
  assumes "j < length ss"
  shows "constant_run (ss @ [x]) i j \<longleftrightarrow> constant_run ss i j"
proof -
  have eq: "(ss @ [x]) ! k = ss ! k" if "k \<le> j" for k using that assms by (simp add: nth_append)
  show ?thesis
  proof (cases "i \<le> j")
    case True
    then show ?thesis unfolding constant_run_def using assms by (simp add: eq)
  qed (simp add: constant_run_def)
qed

lemma constant_run_snoc_new:
  assumes "i < length ss"
  shows "constant_run (ss @ [x]) i (length ss) \<longleftrightarrow> constant_run ss i (length ss - 1) \<and> snd x = snd (ss ! i)"
proof -
  have old: "(ss @ [x]) ! k = ss ! k" if "k < length ss" for k using that by (simp add: nth_append)
  have new: "(ss @ [x]) ! length ss = x" by simp
  have split: "(\<forall>k. i \<le> k \<and> k \<le> length ss \<longrightarrow> P k) \<longleftrightarrow> (\<forall>k. i \<le> k \<and> k \<le> length ss - 1 \<longrightarrow> P k) \<and> P (length ss)" for P
  proof -
    have "k \<le> length ss \<longleftrightarrow> k \<le> length ss - 1 \<or> k = length ss" for k using assms by linarith
    then show ?thesis using assms by auto
  qed
  have olds: "(\<forall>k. i \<le> k \<and> k \<le> length ss - 1 \<longrightarrow> snd ((ss @ [x]) ! k) = snd (ss ! i)) \<longleftrightarrow>
      (\<forall>k. i \<le> k \<and> k \<le> length ss - 1 \<longrightarrow> snd (ss ! k) = snd (ss ! i))"
    using assms old by (metis Suc_pred' le_less_Suc_eq less_Suc_eq_le less_imp_Suc_add zero_less_Suc)
  have "i \<le> length ss - 1" "length ss - 1 < length ss" using assms by linarith+
  then show ?thesis unfolding constant_run_def old [OF assms] split [of "\<lambda>k. snd ((ss @ [x]) ! k) = snd (ss ! i)"] olds new
    using assms by simp
qed

lemma constant_runD: "constant_run ss i j \<Longrightarrow> i \<le> k \<Longrightarrow> k \<le> j \<Longrightarrow> snd (ss ! k) = snd (ss ! i)"
  unfolding constant_run_def by blast

lemma constant_run_len: "constant_run ss i j \<Longrightarrow> i \<le> j \<and> j < length ss \<and> i < length ss"
  unfolding constant_run_def by linarith

lemma constant_run_nil [simp]: "\<not> constant_run [] i j"
  by (simp add: constant_run_def)

lemma constant_run_cases:
  "constant_run (ss @ [x]) i j \<Longrightarrow> j = length ss \<and> i = length ss \<or>
     j = length ss \<and> i < length ss \<and> constant_run ss i (length ss - 1) \<and> snd x = snd (ss ! i) \<or>
     j < length ss \<and> constant_run ss i j"
proof -
  assume c: "constant_run (ss @ [x]) i j"
  then have "i \<le> j" "j \<le> length ss" by (auto simp: constant_run_def)
  then consider "j = length ss" "i = length ss" | "j = length ss" "i < length ss" | "j < length ss" by linarith
  then show ?thesis
    by cases (use c constant_run_snoc_new [of i ss x] constant_run_snoc_old [of j ss x i] in auto)
qed

lemma sorted_cycle_le:
  assumes "sorted_wrt (<) (map fst (ss :: (int \<times> int) list))" "i \<le> j" "j < length ss"
  shows "fst (ss ! i) \<le> fst (ss ! j)"
  using assms sorted_wrt_nth_less [OF assms(1), of i j] by (cases "i = j") auto

text \<open>The stretch that ends at the last sample starts at \<open>s\<close>.\<close>

definition suffix_start :: "(int \<times> int) list \<Rightarrow> nat \<Rightarrow> bool" where
  "suffix_start ss s \<longleftrightarrow> constant_run ss s (length ss - 1) \<and> (0 < s \<longrightarrow> snd (ss ! (s - 1)) \<noteq> snd (ss ! s))"

lemma suffix_startD:
  assumes "suffix_start ss s"
  shows "constant_run ss s (length ss - 1)" "0 < s \<Longrightarrow> snd (ss ! (s - 1)) \<noteq> snd (ss ! s)"
  using assms unfolding suffix_start_def by blast+

lemma suffix_start_least:
  assumes "suffix_start ss s" "constant_run ss i (length ss - 1)"
  shows "s \<le> i"
proof (rule ccontr)
  assume "\<not> s \<le> i"
  then have le: "i \<le> s - 1" "i \<le> s" "0 < s" by simp_all
  have s: "s \<le> length ss - 1" using constant_run_len [OF suffix_startD(1) [OF assms(1)]] by simp
  have c: "snd (ss ! k) = snd (ss ! i)" if "i \<le> k" "k \<le> length ss - 1" for k
    by (rule constant_runD [OF assms(2) that])
  have "snd (ss ! (s - 1)) = snd (ss ! i)" by (rule c) (use le s in simp_all)
  moreover have "snd (ss ! s) = snd (ss ! i)" by (rule c) (use le s in simp_all)
  ultimately have "snd (ss ! (s - 1)) = snd (ss ! s)" by simp
  then show False using suffix_startD(2) [OF assms(1) le(3)] by simp
qed

lemma span_inv_suffix:
  assumes "span_inv ss st" "ss \<noteq> []"
  shows "\<exists>s. suffix_start ss s \<and> (case run_start st of None \<Rightarrow> fst (last ss) | Some c \<Rightarrow> c) = fst (ss ! s)"
proof (cases "run_start st")
  case None
  with assms have d: "length ss < 2 \<or> snd (ss ! (length ss - 2)) \<noteq> snd (ss ! (length ss - 1))" by (simp add: span_inv_def)
  have "k = length ss - 1" if "length ss - 1 \<le> k" "k \<le> length ss - 1" for k using that by simp
  then have "constant_run ss (length ss - 1) (length ss - 1)" using assms(2) by (auto simp: constant_run_def)
  moreover have "snd (ss ! (length ss - 1 - 1)) \<noteq> snd (ss ! (length ss - 1))" if "0 < length ss - 1"
    using d that by (simp add: numeral_2_eq_2)
  ultimately have "suffix_start ss (length ss - 1)" by (simp add: suffix_start_def)
  with None show ?thesis using last_conv_nth [OF assms(2)] by auto
next
  case (Some c)
  with assms(1) show ?thesis by (auto simp: span_inv_def suffix_start_def)
qed

lemma span_old:
  assumes "span_inv ss st" "constant_run ss i j"
  shows "fst (ss ! j) - fst (ss ! i) \<le> longest_cycles st"
  using assms by (simp add: span_inv_def)

lemma span_nonneg: "span_inv ss st \<Longrightarrow> 0 \<le> longest_cycles st"
  by (simp add: span_inv_def)

lemma longest_snoc:
  assumes inv: "span_inv ss st"
  shows "case longest st of None \<Rightarrow> longest_cycles st = 0 | Some (a, b) \<Rightarrow>
      \<exists>i j. constant_run (ss @ [x]) i j \<and> a = fst ((ss @ [x]) ! i) \<and> b = fst ((ss @ [x]) ! j) \<and> longest_cycles st = b - a"
proof (cases "longest st")
  case None
  with inv show ?thesis by (simp add: span_inv_def)
next
  case (Some ab)
  obtain a b where ab: "ab = (a, b)" by (cases ab)
  with inv Some obtain i j where ij: "constant_run ss i j" "a = fst (ss ! i)" "b = fst (ss ! j)" "longest_cycles st = b - a"
    by (auto simp: span_inv_def)
  then have l: "i < length ss" "j < length ss" using constant_run_len by blast+
  have "constant_run (ss @ [x]) i j \<and> a = fst ((ss @ [x]) ! i) \<and> b = fst ((ss @ [x]) ! j) \<and> longest_cycles st = b - a"
    using ij l constant_run_snoc_old [OF l(2), of x i] by (simp add: nth_append)
  with Some ab show ?thesis by auto
qed

lemma runs_bounded_same:
  assumes inv: "span_inv ss st" and s: "suffix_start ss s" and sorted: "sorted_wrt (<) (map fst ss)"
    and run: "constant_run (ss @ [x]) i j"
  shows "fst ((ss @ [x]) ! j) - fst ((ss @ [x]) ! i) \<le> max (longest_cycles st) (fst x - fst (ss ! s))"
  using constant_run_cases [OF run]
proof (elim disjE conjE)
  assume i: "j = length ss" "i < length ss" "constant_run ss i (length ss - 1)"
  have "fst (ss ! s) \<le> fst (ss ! i)"
    using sorted_cycle_le [OF sorted suffix_start_least [OF s i(3)] i(2)] .
  then show ?thesis using i by (simp add: nth_append)
next
  assume j: "j < length ss" "constant_run ss i j"
  then have "i < length ss" using constant_run_len by blast
  then show ?thesis using span_old [OF inv j(2)] j(1) by (simp add: nth_append)
qed (use span_nonneg [OF inv] in simp)

lemma runs_bounded_change:
  assumes inv: "span_inv ss st" and neq: "snd x \<noteq> snd (last ss)" "ss \<noteq> []" and run: "constant_run (ss @ [x]) i j"
  shows "fst ((ss @ [x]) ! j) - fst ((ss @ [x]) ! i) \<le> longest_cycles st"
  using constant_run_cases [OF run]
proof (elim disjE conjE)
  assume "i < length ss" "constant_run ss i (length ss - 1)" "snd x = snd (ss ! i)"
  then have "snd (ss ! (length ss - 1)) = snd x"
    using constant_runD [of ss i "length ss - 1" "length ss - 1"] constant_run_len [of ss i "length ss - 1"] by simp
  with neq show ?thesis using last_conv_nth [of ss] by simp
next
  assume j: "j < length ss" "constant_run ss i j"
  then have "i < length ss" using constant_run_len by blast
  then show ?thesis using span_old [OF inv j(2)] j(1) by (simp add: nth_append)
qed (use span_nonneg [OF inv] in simp)

lemma suffix_snoc:
  assumes s: "suffix_start ss s" and eq: "snd x = snd (last ss)" "ss \<noteq> []"
  shows "s < length ss \<and> constant_run (ss @ [x]) s (length ss) \<and>
    (0 < s \<longrightarrow> snd ((ss @ [x]) ! (s - 1)) \<noteq> snd ((ss @ [x]) ! s))"
proof -
  note run = suffix_startD(1) [OF s]
  have len: "s \<le> length ss - 1" "s < length ss" "s - 1 < length ss" using constant_run_len [OF run] by linarith+
  have "snd (ss ! (length ss - 1)) = snd (ss ! s)" by (rule constant_runD [OF run len(1)]) simp
  then have "snd x = snd (ss ! s)" using eq last_conv_nth [OF eq(2)] by simp
  then have "constant_run (ss @ [x]) s (length ss)" using constant_run_snoc_new [OF len(2)] run by blast
  then show ?thesis using len suffix_startD(2) [OF s] by (simp add: nth_append)
qed

lemma span_inv_first: "span_inv [] st \<Longrightarrow> span_inv [x] (span_step x st)"
proof -
  assume "span_inv [] st"
  moreover have "fst (([x] :: (int \<times> int) list) ! j) - fst ([x] ! i) = 0" if "constant_run [x] i j" for i j
    using that by (auto simp: constant_run_def)
  ultimately show ?thesis
    by (cases x) (auto simp: span_inv_def span_step_def split: option.splits prod.splits)
qed

lemma span_inv_same:
  assumes inv: "span_inv ss st" and sorted: "sorted_wrt (<) (map fst ss)" and eq: "snd x = snd (last ss)" "ss \<noteq> []"
  shows "span_inv (ss @ [x]) (span_step x st)"
proof -
  obtain s where s: "suffix_start ss s" "(case run_start st of None \<Rightarrow> fst (last ss) | Some c \<Rightarrow> c) = fst (ss ! s)"
    using span_inv_suffix [OF inv eq(2)] by blast
  let ?start = "fst (ss ! s)" and ?span = "fst x - fst (ss ! s)"
  have prev: "previous st = Some (last ss)" and pos: "0 \<le> longest_cycles st" using inv eq(2) by (simp_all add: span_inv_def)
  note bound = runs_bounded_same [OF inv s(1) sorted] and suf = suffix_snoc [OF s(1) eq]
  have at: "(ss @ [x]) ! s = ss ! s" using suf by (simp add: nth_append)
  have suffix: "\<exists>r. r + 1 < length (ss @ [x]) \<and> fst ((ss @ [x]) ! r) = ?start \<and>
      constant_run (ss @ [x]) r (length (ss @ [x]) - 1) \<and> (0 < r \<longrightarrow> snd ((ss @ [x]) ! (r - 1)) \<noteq> snd ((ss @ [x]) ! r))"
    using suf at by (intro exI [of _ s]) simp
  have step: "span_step x st = (if longest_cycles st < ?span
      then \<lparr>longest = Some (?start, fst x), longest_cycles = ?span, run_start = Some ?start, previous = Some x\<rparr>
      else st\<lparr>run_start := Some ?start, previous := Some x\<rparr>)"
    using eq(1) prev s(2) by (cases x; cases "last ss"; cases "run_start st") (simp_all add: span_step_def Let_def)
  show ?thesis
  proof (cases "longest_cycles st < ?span")
    case True
    have "\<exists>i j. constant_run (ss @ [x]) i j \<and> ?start = fst ((ss @ [x]) ! i) \<and> fst x = fst ((ss @ [x]) ! j) \<and>
        ?span = fst x - ?start"
      using suf by (intro exI [of _ s] exI [of _ "length ss"]) (simp add: nth_append)
    moreover have "fst ((ss @ [x]) ! j) - fst ((ss @ [x]) ! i) \<le> ?span" if "constant_run (ss @ [x]) i j" for i j
      using bound [OF that] True by linarith
    ultimately show ?thesis unfolding step span_inv_def using True pos suffix by simp
  next
    case False
    moreover have "fst ((ss @ [x]) ! j) - fst ((ss @ [x]) ! i) \<le> longest_cycles st" if "constant_run (ss @ [x]) i j" for i j
      using bound [OF that] False by linarith
    ultimately show ?thesis unfolding step span_inv_def using pos suffix longest_snoc [OF inv, of x]
      by (cases "longest st") (simp_all split: prod.splits)
  qed
qed

lemma span_inv_change:
  assumes inv: "span_inv ss st" and neq: "snd x \<noteq> snd (last ss)" "ss \<noteq> []"
  shows "span_inv (ss @ [x]) (span_step x st)"
proof -
  have prev: "previous st = Some (last ss)" and pos: "0 \<le> longest_cycles st" using inv neq(2) by (simp_all add: span_inv_def)
  have step: "span_step x st = st\<lparr>run_start := None, previous := Some x\<rparr>"
    using neq prev by (cases x; cases "last ss") (simp add: span_step_def)
  have "snd ((ss @ [x]) ! (length (ss @ [x]) - 2)) \<noteq> snd ((ss @ [x]) ! (length (ss @ [x]) - 1))"
    using neq last_conv_nth [OF neq(2)] by (simp add: nth_append numeral_2_eq_2)
  with runs_bounded_change [OF inv neq] longest_snoc [OF inv, of x] show ?thesis
    unfolding step using pos by (cases "longest st") (simp_all add: span_inv_def)
qed

lemma span_inv_step:
  assumes "span_inv ss st" "sorted_wrt (<) (map fst ss)"
  shows "span_inv (ss @ [x]) (span_step x st)"
  using assms span_inv_first span_inv_same span_inv_change by (cases "ss = []"; cases "snd x = snd (last ss)") auto

lemma span_inv_fold: "sorted_wrt (<) (map fst ss) \<Longrightarrow> span_inv ss (fold span_step ss span_start)"
proof (induction ss rule: rev_induct)
  case Nil
  show ?case by (simp add: span_inv_def span_start_def)
next
  case (snoc x ss)
  then have sorted: "sorted_wrt (<) (map fst ss)" by (simp add: sorted_wrt_append)
  from span_inv_step [OF snoc.IH [OF this] this] show ?case by simp
qed

lemma dom_put [simp]: "fst ` set (put k v d) = insert k (fst ` set d)"
  by (induction k v d rule: put.induct) auto

lemma distinct_put [simp]: "distinct (map fst (put k v d)) = distinct (map fst d)"
  by (induction k v d rule: put.induct) simp_all

lemma samples_sorted: "sorted_wrt (<) (map fst (samples_of texts))"
proof -
  let ?put = "\<lambda>d q. put (group_int 10 ''cycles'' q) (group_int 10 ''instret'' q, group_int 16 ''pc'' q) d"
  have d: "distinct (map fst (foldl ?put d qs))" if "distinct (map fst d)" for d qs
    using that by (induction qs arbitrary: d) simp_all
  let ?ms = "concat (map (\<lambda>t. concat (map (re_finditer SIGNPOST_PROGRESS_RE) (splitlines t))) texts)"
  have "distinct (map fst (foldl ?put [] ?ms))" by (rule d) simp
  moreover have "mset (map fst (samples_of texts)) = mset (map fst (foldl ?put [] ?ms))"
    unfolding samples_of_def by simp
  ultimately have "distinct (map fst (samples_of texts))" using mset_eq_imp_distinct_iff by blast
  moreover have "sorted (map fst (samples_of texts))" unfolding samples_of_def by (rule sorted_sort_key)
  ultimately show ?thesis by (simp add: strict_sorted_iff)
qed

text \<open>
  The reported stretch without retirement is the longest one: no two samples of a run with the same
  retired-instruction count throughout are further apart, and a reported stretch runs between two such samples.
\<close>

theorem no_retire_is_longest:
  assumes "i \<le> j" "j < length (samples_of texts)"
    "\<forall>k. i \<le> k \<and> k \<le> j \<longrightarrow> fst (snd (samples_of texts ! k)) = fst (snd (samples_of texts ! i))"
  shows "fst (samples_of texts ! j) - fst (samples_of texts ! i) \<le> longest_cycles (longest_span (samples_of texts)) \<and>
    (case longest (longest_span (samples_of texts)) of
       None \<Rightarrow> longest_cycles (longest_span (samples_of texts)) = 0
     | Some (a, b) \<Rightarrow> longest_cycles (longest_span (samples_of texts)) = b - a \<and>
        (\<exists>p q. p \<le> q \<and> q < length (samples_of texts) \<and> a = fst (samples_of texts ! p) \<and> b = fst (samples_of texts ! q) \<and>
           fst (snd (samples_of texts ! q)) = fst (snd (samples_of texts ! p))))"
proof -
  let ?ss = "map (\<lambda>(c, i, _). (c, i)) (samples_of texts)"
  have len: "length ?ss = length (samples_of texts)" by simp
  have nth: "?ss ! k = (fst (samples_of texts ! k), fst (snd (samples_of texts ! k)))" if "k < length (samples_of texts)" for k
    using that by (simp add: case_prod_unfold)
  have "map fst ?ss = map fst (samples_of texts)" by (simp add: case_prod_unfold)
  then have "sorted_wrt (<) (map fst ?ss)" using samples_sorted by metis
  then have inv: "span_inv ?ss (longest_span (samples_of texts))" unfolding longest_span_def by (rule span_inv_fold)
  have "snd (?ss ! k) = snd (?ss ! i)" if "i \<le> k" "k \<le> j" for k
  proof -
    have "k < length (samples_of texts)" "i < length (samples_of texts)" using assms(1,2) that by linarith+
    moreover have "fst (snd (samples_of texts ! k)) = fst (snd (samples_of texts ! i))" using assms(3) that by blast
    ultimately show ?thesis unfolding nth [of k, OF \<open>k < length (samples_of texts)\<close>] nth [of i, OF \<open>i < length (samples_of texts)\<close>]
      by (simp only: snd_conv)
  qed
  then have "constant_run ?ss i j" unfolding constant_run_def len using assms(1,2) by blast
  then have "fst (?ss ! j) - fst (?ss ! i) \<le> longest_cycles (longest_span (samples_of texts))"
    using inv unfolding span_inv_def by blast
  then have bound: "fst (samples_of texts ! j) - fst (samples_of texts ! i) \<le> longest_cycles (longest_span (samples_of texts))"
    using nth [of j] nth [of i] assms(1,2) by (simp only: fst_conv)
  show ?thesis
  proof (cases "longest (longest_span (samples_of texts))")
    case None
    with inv bound show ?thesis by (simp add: span_inv_def)
  next
    case (Some ab)
    obtain a b where ab: "ab = (a, b)" by (cases ab)
    from inv Some ab obtain p q where pq: "constant_run ?ss p q" "a = fst (?ss ! p)" "b = fst (?ss ! q)"
      "longest_cycles (longest_span (samples_of texts)) = b - a" unfolding span_inv_def by auto
    have l: "p \<le> q" "q < length (samples_of texts)" "p < length (samples_of texts)"
      using constant_run_len [OF pq(1)] len by simp_all
    have "snd (?ss ! q) = snd (?ss ! p)" by (rule constant_runD [OF pq(1) l(1)]) simp
    then have "\<exists>p q. p \<le> q \<and> q < length (samples_of texts) \<and> a = fst (samples_of texts ! p) \<and> b = fst (samples_of texts ! q) \<and>
        fst (snd (samples_of texts ! q)) = fst (snd (samples_of texts ! p))"
      using l pq(2,3) nth [OF l(2)] nth [OF l(3)] by (intro exI [of _ p] exI [of _ q]) simp
    with bound Some ab pq(4) show ?thesis by simp
  qed
qed

definition demo_text :: string where
  "demo_text = ''OpenSBI progress cycles=5 instret=9 x pc=8OpenSBI progress cycles=9 instret=9 x pc=8''"

theorem no_retire_is_longest_witness:
  "9 - 5 \<le> longest_cycles (longest_span (samples_of [demo_text]))"
proof -
  have s: "samples_of [demo_text] = [(5, 9, 8), (9, 9, 8)]" unfolding demo_text_def by code_simp
  have "\<forall>k. 0 \<le> k \<and> k \<le> 1 \<longrightarrow> fst (snd (samples_of [demo_text] ! k)) = fst (snd (samples_of [demo_text] ! 0))"
    unfolding s by (simp add: less_Suc_eq_le [symmetric] nth_Cons split: nat.split)
  from no_retire_is_longest [of 0 1 "[demo_text]", OF _ _ this] show ?thesis unfolding s by simp
qed

end
