(* ===== verification/KernelExtract.thy ===== *)
theory KernelExtract
  imports ByteCodec PyFormat
begin

unbundle bit_operations_syntax

text \<open>
  \<open>tools/extract-riscv-kernel-function.py\<close>: cutting one function out of a linked kernel image, applying the
  kernel's alternatives and turning direct calls into assembler calls. The image is a byte list; addresses are
  integers, as in the source.
\<close>

section \<open>The ELF image\<close>

datatype extract_error =
    StructError
  | UnterminatedString
  | NonAscii
  | NotElf64Little
  | BadSectionHeaderSize
  | BadSymbolSize
  | IndexError nat
  | NoSuchSection string
  | UndefinedSymbol string
  | NotFileBacked int nat
  | MalformedAlternatives
  | NoSize string
  | InvalidRedirect string

record elf_section =
  sec_name :: string
  sec_type :: nat
  sec_address :: nat
  sec_offset :: nat
  sec_size :: nat
  sec_link :: nat
  sec_entry_size :: nat

record elf_symbol =
  sy_value :: nat
  sy_size :: nat
  sy_section :: nat

record elf_file =
  elf_data :: "byte list"
  elf_sections :: "elf_section list"
  elf_symbols :: "(string \<times> elf_symbol) list"

definition char_of_byte :: "byte \<Rightarrow> char" where
  "char_of_byte b = char_of (unat b)"

definition c_string :: "byte list \<Rightarrow> nat \<Rightarrow> extract_error + string" where
  "c_string data offset =
     (let rest = drop offset data in
      if length data < offset \<or> 0 \<notin> set rest then Inl UnterminatedString
      else
        let bs = takeWhile (\<lambda>b. b \<noteq> 0) rest in
        if list_ex (\<lambda>b. 128 \<le> unat b) bs then Inl NonAscii else Inr (map char_of_byte bs))"

definition unpack :: "nat \<Rightarrow> nat \<Rightarrow> byte list \<Rightarrow> extract_error + byte list" where
  "unpack n offset data = (if offset + n \<le> length data then Inr (peek offset n data) else Inl StructError)"

definition nth_section :: "'a list \<Rightarrow> nat \<Rightarrow> extract_error + 'a" where
  "nth_section xs i = (if i < length xs then Inr (xs ! i) else Inl (IndexError i))"

definition section_of :: "byte list \<Rightarrow> byte list \<Rightarrow> extract_error + elf_section" where
  "section_of strings raw =
     bindE (c_string strings (field_at 4 0 raw)) (\<lambda>name.
       Inr \<lparr>sec_name = name, sec_type = field_at 4 4 raw, sec_address = field_at 8 16 raw, sec_offset = field_at 8 24 raw,
            sec_size = field_at 8 32 raw, sec_link = field_at 4 40 raw, sec_entry_size = field_at 8 56 raw\<rparr>)"

definition read_sections :: "byte list \<Rightarrow> extract_error + elf_section list" where
  "read_sections data =
     bindE (unpack 64 0 data) (\<lambda>header.
       if peek 0 4 header \<noteq> [0x7f, 0x45, 0x4c, 0x46] \<or> header ! 4 \<noteq> 2 \<or> header ! 5 \<noteq> 1 then Inl NotElf64Little
       else if field_at 2 58 header \<noteq> 64 then Inl BadSectionHeaderSize
       else
         bindE (mapE (\<lambda>index. unpack 64 (field_at 8 40 header + index * 64) data) [0..<field_at 2 60 header]) (\<lambda>raws.
         bindE (nth_section raws (field_at 2 62 header)) (\<lambda>string_header.
           let start = field_at 8 24 string_header;
               strings = slice start (start + field_at 8 32 string_header) data
           in mapE (section_of strings) raws)))"

definition section_by_name :: "elf_section list \<Rightarrow> string \<Rightarrow> elf_section option" where
  "section_by_name sections name = map_of (rev (map (\<lambda>s. (sec_name s, s)) sections)) name"

definition read_symbol :: "byte list \<Rightarrow> byte list \<Rightarrow> nat \<Rightarrow> extract_error + (string \<times> elf_symbol) list" where
  "read_symbol data strings offset =
     bindE (unpack 24 offset data) (\<lambda>raw.
     bindE (c_string strings (field_at 4 0 raw)) (\<lambda>name.
       Inr (if name = [] then []
            else [(name, \<lparr>sy_value = field_at 8 8 raw, sy_size = field_at 8 16 raw, sy_section = field_at 2 6 raw\<rparr>)])))"

definition read_symbols :: "byte list \<Rightarrow> elf_section list \<Rightarrow> extract_error + (string \<times> elf_symbol) list" where
  "read_symbols data sections =
     bindE (of_option (NoSuchSection ''.symtab'') (section_by_name sections ''.symtab'')) (\<lambda>symtab.
     bindE (nth_section sections (sec_link symtab)) (\<lambda>strings_header.
       let strings = slice (sec_offset strings_header) (sec_offset strings_header + sec_size strings_header) data;
           entry_size = (if sec_entry_size symtab = 0 then 24 else sec_entry_size symtab)
       in if entry_size \<noteq> 24 then Inl BadSymbolSize
          else bindE (mapE (\<lambda>k. read_symbol data strings (sec_offset symtab + 24 * k)) [0..<(sec_size symtab + 23) div 24])
                 (\<lambda>ss. Inr (concat ss))))"

definition read_elf :: "byte list \<Rightarrow> extract_error + elf_file" where
  "read_elf data =
     bindE (read_sections data) (\<lambda>sections.
     bindE (read_symbols data sections) (\<lambda>symbols.
       Inr \<lparr>elf_data = data, elf_sections = sections, elf_symbols = symbols\<rparr>))"

text \<open>\<open>Elf.symbol\<close>: among the defined symbols of a name the largest one, the first of equals.\<close>

definition find_symbol :: "elf_file \<Rightarrow> string \<Rightarrow> extract_error + elf_symbol" where
  "find_symbol elf name =
     (let matches = filter (\<lambda>s. sy_section s \<noteq> 0) (map snd (filter (\<lambda>(n, _). n = name) (elf_symbols elf))) in
      if matches = [] then Inl (UndefinedSymbol name)
      else Inr (hd (sort_key (\<lambda>s. if sy_size s = 0 then 1 else 0 :: nat) (sort_key (\<lambda>s. - int (sy_size s)) matches))))"

definition holds :: "int \<Rightarrow> nat \<Rightarrow> elf_section \<Rightarrow> bool" where
  "holds address len s \<longleftrightarrow> sec_type s \<noteq> 8 \<and> int (sec_address s) \<le> address \<and>
     address + int len \<le> int (sec_address s) + int (sec_size s)"

definition bytes_at :: "elf_file \<Rightarrow> int \<Rightarrow> nat \<Rightarrow> extract_error + byte list" where
  "bytes_at elf address len =
     (case find (holds address len) (elf_sections elf) of
        None \<Rightarrow> Inl (NotFileBacked address len)
      | Some s \<Rightarrow>
          let offset = sec_offset s + nat (address - int (sec_address s))
          in Inr (slice offset (offset + len) (elf_data elf)))"

section \<open>Alternatives\<close>

definition sign_extend :: "int \<Rightarrow> nat \<Rightarrow> int" where
  "sign_extend value n = (let sign = push_bit (n - 1) 1 in (value XOR sign) - sign)"

definition apply_alternative ::
  "elf_file \<Rightarrow> int \<Rightarrow> elf_section \<Rightarrow> nat \<Rightarrow> byte list \<times> int \<Rightarrow> extract_error + (byte list \<times> int)" where
  "apply_alternative elf function_address sec offset st =
     (case st of (function_data, n) \<Rightarrow>
      bindE (unpack 16 (sec_offset sec + offset) (elf_data elf)) (\<lambda>raw.
        let entry_address = int (sec_address sec) + int offset;
            old_address = entry_address + sign_extend (int (field_at 4 0 raw)) 32;
            alt_address = entry_address + 4 + sign_extend (int (field_at 4 4 raw)) 32;
            alt_len = field_at 2 10 raw;
            function_offset = old_address - function_address
        in if 0 \<le> function_offset \<and> function_offset + int alt_len \<le> int (length function_data)
           then bindE (bytes_at elf alt_address alt_len) (\<lambda>replacement.
                  Inr (slice_assign (nat function_offset) (nat function_offset + alt_len) replacement function_data, n + 1))
           else Inr st))"

definition apply_alternatives :: "elf_file \<Rightarrow> int \<Rightarrow> byte list \<Rightarrow> extract_error + (byte list \<times> int)" where
  "apply_alternatives elf function_address function_data =
     (case section_by_name (elf_sections elf) ''.alternative'' of
        None \<Rightarrow> Inr (function_data, 0)
      | Some sec \<Rightarrow>
          if sec_size sec mod 16 \<noteq> 0 then Inl MalformedAlternatives
          else foldE (\<lambda>k. apply_alternative elf function_address sec (16 * k)) [0..<sec_size sec div 16] (function_data, 0))"

section \<open>Calls\<close>

definition jal_target :: "int \<Rightarrow> int \<Rightarrow> int option" where
  "jal_target address instruction =
     (if instruction AND 0x7f \<noteq> 0x6f then None
      else
        let immediate = push_bit 20 (drop_bit 31 instruction AND 0x1) OR push_bit 1 (drop_bit 21 instruction AND 0x3ff) OR
              push_bit 11 (drop_bit 20 instruction AND 0x1) OR push_bit 12 (drop_bit 12 instruction AND 0xff)
        in Some (address + sign_extend immediate 21))"

definition word_at :: "byte list \<Rightarrow> nat \<Rightarrow> int" where
  "word_at data offset = int (field_at 4 offset data)"

definition find_redirects :: "(int \<rightharpoonup> string) \<Rightarrow> int \<Rightarrow> byte list \<Rightarrow> (nat \<times> string) list" where
  "find_redirects targets function_address data =
     concat (map (\<lambda>k. let offset = 4 * k in
       case jal_target (function_address + int offset) (word_at data offset) of
         None \<Rightarrow> []
       | Some a \<Rightarrow> (case targets a of None \<Rightarrow> [] | Some t \<Rightarrow> [(offset, t)]))
       [0..<length data div 4])"

section \<open>The assembly\<close>

datatype piece = Incbin nat nat | Call string

fun asm_pieces :: "nat \<Rightarrow> nat \<Rightarrow> (nat \<times> string) list \<Rightarrow> piece list" where
  "asm_pieces cursor bytes [] = (if cursor < bytes then [Incbin cursor (bytes - cursor)] else [])"
| "asm_pieces cursor bytes ((offset, target) # redirects) =
     (if cursor < offset then [Incbin cursor (offset - cursor)] else []) @ [Call target] @
     asm_pieces (offset + 4) bytes redirects"

definition quoted :: "string \<Rightarrow> string" where
  "quoted s = [CHR 0x22] @ s @ [CHR 0x22]"

definition escape_path :: "string \<Rightarrow> string" where
  "escape_path s = concat (map (\<lambda>c. if c = CHR 0x5C \<or> c = CHR 0x22 then [CHR 0x5C, c] else [c]) s)"

definition piece_line :: "string \<Rightarrow> piece \<Rightarrow> string" where
  "piece_line binary p =
     (case p of
        Incbin start n \<Rightarrow> ''.incbin '' @ quoted binary @ '', '' @ dec (int start) @ '', '' @ dec (int n)
      | Call target \<Rightarrow> ''jal ra, '' @ target)"

definition assembly :: "string \<Rightarrow> string \<Rightarrow> nat \<Rightarrow> (nat \<times> string) list \<Rightarrow> string" where
  "assembly binary_path output_symbol function_size redirects =
     str_join [CHR 0x0A]
       ([''/* Generated by tools/extract-riscv-kernel-function.py. */'',
         ''.section .text.'' @ output_symbol @ '', '' @ quoted ''ax'' @ '', @progbits'', ''.option norvc'', ''.option norelax'',
         ''.balign 64'', ''.globl '' @ output_symbol, ''.type '' @ output_symbol @ '', @function'', output_symbol @ '':''] @
        map (piece_line (escape_path binary_path)) (asm_pieces 0 function_size redirects) @
        [''.size '' @ output_symbol @ '', .-'' @ output_symbol, ''''])"

definition redirect_targets :: "elf_file \<Rightarrow> string list \<Rightarrow> extract_error + (int \<rightharpoonup> string)" where
  "redirect_targets elf redirects =
     foldE (\<lambda>redirect targets.
       if CHR ''='' \<notin> set redirect then Inl (InvalidRedirect redirect)
       else
         bindE (find_symbol elf (takeWhile (\<lambda>c. c \<noteq> CHR ''='') redirect)) (\<lambda>s.
           Inr (targets(int (sy_value s) \<mapsto> tl (dropWhile (\<lambda>c. c \<noteq> CHR ''='') redirect))))) redirects Map.empty"

definition extract_function ::
  "byte list \<Rightarrow> string \<Rightarrow> bool \<Rightarrow> string list \<Rightarrow> extract_error + (byte list \<times> int \<times> (nat \<times> string) list)" where
  "extract_function vmlinux symbol alternatives redirects =
     bindE (read_elf vmlinux) (\<lambda>elf.
     bindE (find_symbol elf symbol) (\<lambda>f.
       if sy_size f = 0 then Inl (NoSize symbol)
       else
         bindE (bytes_at elf (int (sy_value f)) (sy_size f)) (\<lambda>raw.
         bindE (if alternatives then apply_alternatives elf (int (sy_value f)) raw else Inr (raw, 0)) (\<lambda>(data, n).
         bindE (redirect_targets elf redirects) (\<lambda>targets.
           Inr (data, n, find_redirects targets (int (sy_value f)) data))))))"

end
