(* ===== verification/KernelProps.thy ===== *)
theory KernelProps
  imports KernelExtract
begin

unbundle bit_operations_syntax

text \<open>
  The kernel-function extractor reads a direct call's target as the instruction set defines it, and the
  assembly it writes reproduces the function, each redirected call in its own four bytes.
\<close>

section \<open>The JAL immediate\<close>

text \<open>The J format of the RISC-V specification: imm[20|10:1|11|19:12] rd 1101111.\<close>

definition encode_jal :: "int \<Rightarrow> int \<Rightarrow> int" where
  "encode_jal rd imm =
     push_bit 31 (drop_bit 20 imm AND 1) OR push_bit 21 (drop_bit 1 imm AND 0x3ff) OR
     push_bit 20 (drop_bit 11 imm AND 1) OR push_bit 12 (drop_bit 12 imm AND 0xff) OR push_bit 7 (rd AND 0x1f) OR 0x6f"

lemma masks: "(0x3ff :: int) = mask 10" "(0xff :: int) = mask 8" "(1 :: int) = mask 1" "(0x1f :: int) = mask 5"
  "(0x7f :: int) = mask 7"
  by (simp_all add: mask_eq_exp_minus_1)

lemma bit_and_mask: "bit (x AND mask m) n \<longleftrightarrow> bit (x :: int) n \<and> n < m"
  by (auto simp: bit_simps)

lemmas jal_bits = masks bit_or_iff bit_push_bit_iff bit_and_mask bit_drop_bit_eq comp_def bit_take_bit_iff

lemma below_21: "(n :: nat) < 21 \<Longrightarrow> n \<in> set [0,1,2,3,4,5,6,7,8,9,10,11,12,13,14,15,16,17,18,19,20]"
  by (simp, presburger)

lemma jal_immediate:
  assumes "even imm"
  shows "push_bit 20 (drop_bit 31 (encode_jal rd imm) AND 0x1) OR push_bit 1 (drop_bit 21 (encode_jal rd imm) AND 0x3ff) OR
    push_bit 11 (drop_bit 20 (encode_jal rd imm) AND 0x1) OR push_bit 12 (drop_bit 12 (encode_jal rd imm) AND 0xff) =
    take_bit 21 imm" (is "?L = _")
proof (rule bit_eqI)
  fix n :: nat
  have e: "\<not> bit imm 0" using assms by (simp add: bit_0)
  show "bit ?L n = bit (take_bit 21 imm) n"
  proof (cases "n < 21")
    case True
    from below_21 [OF this] show ?thesis
      unfolding encode_jal_def jal_bits set_simps insert_iff empty_iff
      by (elim disjE) (simp_all add: e eval_nat_numeral)
  next
    case False
    then show ?thesis unfolding jal_bits by auto
  qed
qed

lemma jal_opcode: "encode_jal rd imm AND 0x7f = 0x6f"
proof (rule bit_eqI)
  fix n :: nat
  show "bit (encode_jal rd imm AND 0x7f) n = bit (0x6f :: int) n"
  proof (cases "n < 7")
    case True
    then show ?thesis unfolding encode_jal_def jal_bits by simp
  next
    case False
    have "(0x6f :: int) = 0x6f AND mask 7" by (simp add: mask_eq_exp_minus_1)
    then have "\<not> bit (0x6f :: int) n" using False bit_and_mask by metis
    then show ?thesis unfolding jal_bits using False by simp
  qed
qed

lemma sign_extend_21:
  assumes "- (2 ^ 20) \<le> imm" "imm < 2 ^ 20"
  shows "sign_extend (take_bit 21 imm) 21 = imm"
proof -
  let ?v = "take_bit 21 imm"
  have x: "?v XOR push_bit 20 1 = flip_bit 20 ?v" by (simp add: flip_bit_eq_xor)
  show ?thesis
  proof (cases "0 \<le> imm")
    case True
    then have v: "?v = imm" using assms by (simp add: take_bit_int_eq_self_iff)
    moreover have "\<not> bit imm 20" using True assms(2) by (simp add: bit_iff_odd)
    ultimately have "flip_bit 20 ?v = imm + 2 ^ 20" by (simp add: flip_bit_eq_if set_bit_eq)
    then show ?thesis using x by (simp add: sign_extend_def)
  next
    case False
    have "?v = take_bit 21 (imm + 2 ^ 21)" by (simp add: take_bit_eq_mod)
    also have "\<dots> = imm + 2 ^ 21" using False assms(1) by (simp add: take_bit_int_eq_self_iff)
    finally have v: "?v = imm + 2 ^ 21" .
    have "(imm + 2 ^ 21) div 2 ^ 20 = 1"
      by (rule int_div_pos_eq [of _ _ _ "imm + 2 ^ 20"]) (use False assms(1) in simp_all)
    then have "bit ?v 20" unfolding v by (simp add: bit_iff_odd)
    then have "flip_bit 20 ?v = imm + 2 ^ 20" using v by (simp add: flip_bit_eq_if unset_bit_eq)
    then show ?thesis using x by (simp add: sign_extend_def)
  qed
qed

text \<open>
  C30: decoding inverts the encoding of the instruction set: for every even offset a JAL can hold, the target
  read from the encoded instruction is the instruction's address plus the offset, whatever the link register.
\<close>

theorem jal_target_decodes:
  assumes "even imm" "- (2 ^ 20) \<le> imm" "imm < 2 ^ 20"
  shows "jal_target address (encode_jal rd imm) = Some (address + imm)"
  unfolding jal_target_def Let_def jal_immediate [OF assms(1)] sign_extend_21 [OF assms(2,3)] jal_opcode by simp

theorem jal_target_decodes_witness: "jal_target 0x1000 0xfe1ff0ef = Some 0xfe0"
proof -
  have "encode_jal 1 (- 32) = 0xfe1ff0ef" by code_simp
  then show ?thesis using jal_target_decodes [of "- 32" "0x1000" 1] by simp
qed

section \<open>The assembly covers the function\<close>

text \<open>The bytes a piece stands for; a call's own four bytes are left to the assembler.\<close>

definition lay :: "byte list \<Rightarrow> piece \<Rightarrow> byte option list" where
  "lay data p = (case p of Incbin start n \<Rightarrow> map Some (slice start (start + n) data) | Call _ \<Rightarrow> replicate 4 None)"

definition called :: "(nat \<times> string) list \<Rightarrow> nat \<Rightarrow> bool" where
  "called redirects i \<longleftrightarrow> (\<exists>(offset, t) \<in> set redirects. offset \<le> i \<and> i < offset + 4)"

fun spaced :: "nat \<Rightarrow> nat \<Rightarrow> (nat \<times> string) list \<Rightarrow> bool" where
  "spaced cursor n [] \<longleftrightarrow> cursor \<le> n"
| "spaced cursor n ((offset, t) # redirects) \<longleftrightarrow> cursor \<le> offset \<and> offset + 4 \<le> n \<and> spaced (offset + 4) n redirects"

lemma spaced_le: "spaced cursor n redirects \<Longrightarrow> cursor \<le> n \<and> (\<forall>(offset, t) \<in> set redirects. cursor \<le> offset)"
  by (induction cursor n redirects rule: spaced.induct) fastforce+

lemma slice_upt: "b \<le> length data \<Longrightarrow> slice a b data = map (\<lambda>i. data ! i) [a..<b]"
  by (rule nth_equalityI) (auto simp: nth_slice)

definition slot_at :: "byte list \<Rightarrow> (nat \<times> string) list \<Rightarrow> nat \<Rightarrow> byte option" where
  "slot_at data redirects i = (if called redirects i then None else Some (data ! i))"

lemma lay_head:
  assumes "cursor \<le> offset" "offset \<le> length data" "\<And>i. cursor \<le> i \<Longrightarrow> i < offset \<Longrightarrow> \<not> called redirects i"
  shows "concat (map (lay data) (if cursor < offset then [Incbin cursor (offset - cursor)] else [])) =
    map (slot_at data redirects) [cursor..<offset]"
  using assms by (auto simp: lay_def slice_upt slot_at_def)

lemma pieces_cover:
  assumes "spaced cursor (length data) redirects"
  shows "concat (map (lay data) (asm_pieces cursor (length data) redirects)) =
    map (slot_at data redirects) [cursor..<length data]"
  using assms
proof (induction redirects arbitrary: cursor)
  case Nil
  then show ?case using lay_head [of cursor "length data" data "[]"] by (simp add: called_def)
next
  case (Cons r redirects)
  obtain offset t where r: "r = (offset, t)" by (cases r)
  from Cons.prems r have le: "cursor \<le> offset" "offset + 4 \<le> length data" "spaced (offset + 4) (length data) redirects"
    by simp_all
  have later: "offset + 4 \<le> p" if "(p, u) \<in> set redirects" for p u using spaced_le [OF le(3)] that by blast
  have out: "\<not> called (r # redirects) i" if "i < offset" for i
    using that r later by (fastforce simp: called_def)
  have same: "called (r # redirects) i = called redirects i" if "offset + 4 \<le> i" for i
    using that r by (auto simp: called_def)
  have inside: "called (r # redirects) i" if "offset \<le> i" "i < offset + 4" for i
    using that r by (auto simp: called_def)
  have head: "concat (map (lay data) (if cursor < offset then [Incbin cursor (offset - cursor)] else [])) =
      map (slot_at data (r # redirects)) [cursor..<offset]"
    by (rule lay_head) (use le out in simp_all)
  have call: "replicate 4 None = map (slot_at data (r # redirects)) [offset..<offset + 4]"
    by (rule nth_equalityI) (use inside in \<open>simp_all add: slot_at_def\<close>)
  have rest: "map (slot_at data redirects) [offset + 4..<length data] =
      map (slot_at data (r # redirects)) [offset + 4..<length data]"
    by (rule map_cong) (use same in \<open>auto simp: slot_at_def\<close>)
  have "[cursor..<length data] = [cursor..<offset] @ [offset..<offset + 4] @ [offset + 4..<length data]"
    using le upt_add_eq_append [of cursor offset "length data - offset"]
      upt_add_eq_append [of offset "offset + 4" "length data - (offset + 4)"] by simp
  moreover have "asm_pieces cursor (length data) (r # redirects) =
      (if cursor < offset then [Incbin cursor (offset - cursor)] else []) @ [Call t] @ asm_pieces (offset + 4) (length data) redirects"
    by (simp add: r)
  moreover have "lay data (Call t) = replicate 4 None" by (simp add: lay_def)
  ultimately show ?case using Cons.IH [OF le(3)] head call rest by simp
qed

lemma redirects_spaced:
  assumes "sorted_wrt (<) ks" "\<And>k. k \<in> set ks \<Longrightarrow> cursor \<le> 4 * k \<and> 4 * k + 4 \<le> n" "cursor \<le> n"
    "\<And>k. f k = [] \<or> (\<exists>t. f k = [(4 * k, t)])"
  shows "spaced cursor n (concat (map f ks))"
  using assms(1-3)
proof (induction ks arbitrary: cursor)
  case (Cons k ks)
  have ks: "4 * k + 4 \<le> 4 * j" if "j \<in> set ks" for j using Cons.prems(1) that by auto
  have k: "cursor \<le> 4 * k" "4 * k + 4 \<le> n" using Cons.prems(2) by simp_all
  from assms(4) [of k] show ?case
  proof (elim disjE exE)
    assume "f k = []"
    then show ?thesis using Cons.IH [of cursor] Cons.prems by simp
  next
    fix t assume "f k = [(4 * k, t)]"
    then show ?thesis using Cons.IH [of "4 * k + 4"] Cons.prems ks k by simp
  qed
qed simp

text \<open>
  C31: the written assembly is the whole function: laid out in order, its pieces give every byte of the
  function at its own offset, except the four bytes of each redirected call; and exactly the aligned direct
  calls to a redirected address are redirected, each to that address's target.
\<close>

theorem assembly_covers_function:
  "concat (map (lay data) (asm_pieces 0 (length data) (find_redirects targets a data))) =
     map (\<lambda>i. if called (find_redirects targets a data) i then None else Some (data ! i)) [0..<length data] \<and>
   ((offset, t) \<in> set (find_redirects targets a data) \<longleftrightarrow>
     4 dvd offset \<and> offset + 4 \<le> length data \<and>
     (\<exists>b. jal_target (a + int offset) (word_at data offset) = Some b \<and> targets b = Some t))"
proof
  let ?f = "\<lambda>k. let offset = 4 * k in
       case jal_target (a + int offset) (word_at data offset) of
         None \<Rightarrow> []
       | Some b \<Rightarrow> (case targets b of None \<Rightarrow> [] | Some t \<Rightarrow> [(offset, t)])"
  have rs: "find_redirects targets a data = concat (map ?f [0..<length data div 4])" by (simp add: find_redirects_def)
  have one: "?f k = [] \<or> (\<exists>t. ?f k = [(4 * k, t)])" for k by (auto simp: Let_def split: option.splits)
  have "spaced 0 (length data) (concat (map ?f [0..<length data div 4]))"
    by (rule redirects_spaced [OF _ _ _ one]) auto
  from pieces_cover [OF this [folded rs]]
  show "concat (map (lay data) (asm_pieces 0 (length data) (find_redirects targets a data))) =
     map (\<lambda>i. if called (find_redirects targets a data) i then None else Some (data ! i)) [0..<length data]"
    by (simp add: slot_at_def [abs_def])
  have mem: "(offset, t) \<in> set (?f k) \<longleftrightarrow> offset = 4 * k \<and>
      (\<exists>b. jal_target (a + int (4 * k)) (word_at data (4 * k)) = Some b \<and> targets b = Some t)" for k
  proof (cases "jal_target (a + int (4 * k)) (word_at data (4 * k))")
    case (Some b)
    then show ?thesis by (cases "targets b") (auto simp: Let_def)
  qed (simp add: Let_def)
  have "(offset, t) \<in> set (find_redirects targets a data) \<longleftrightarrow> (\<exists>k < length data div 4. (offset, t) \<in> set (?f k))"
    unfolding rs by (simp add: Bex_def)
  also have "\<dots> \<longleftrightarrow> (\<exists>k < length data div 4. offset = 4 * k \<and>
      (\<exists>b. jal_target (a + int (4 * k)) (word_at data (4 * k)) = Some b \<and> targets b = Some t))" unfolding mem ..
  also have "\<dots> \<longleftrightarrow> 4 dvd offset \<and> offset + 4 \<le> length data \<and>
      (\<exists>b. jal_target (a + int offset) (word_at data offset) = Some b \<and> targets b = Some t)"
  proof -
    have "k < length data div 4 \<longleftrightarrow> 4 * k + 4 \<le> length data" for k by presburger
    then show ?thesis by (auto simp: dvd_def)
  qed
  finally show "(offset, t) \<in> set (find_redirects targets a data) \<longleftrightarrow>
     4 dvd offset \<and> offset + 4 \<le> length data \<and>
     (\<exists>b. jal_target (a + int offset) (word_at data offset) = Some b \<and> targets b = Some t)" .
qed

end
