(* ===== verification/Compliance.thy ===== *)
theory Compliance
  imports ElfImage PyCounter
begin

text \<open>
  \<open>tools/compliance.py\<close>: running self-checking programs on the simulated cores and comparing a run with the
  Sail reference model. What the tool asks the machine it runs on (the simulator, \<open>make\<close>, \<open>nm\<close>, SHA-256, the
  files) is the record \<open>run_env\<close>; the rest of the runner is modelled. A resolved path is the list of its components.
\<close>

section \<open>Data\<close>

definition RAM_BASE :: int where "RAM_BASE = 0x80000000"
definition RAM_SIZE :: int where "RAM_SIZE = 0x100000"

definition upper_letter :: "char \<Rightarrow> bool" where
  "upper_letter c \<longleftrightarrow> c \<in> set ''ABCDEFGHIJKLMNOPQRSTUVWXYZ''"

definition PASS_RE :: rx where
  "PASS_RE = Seq (lit ''COMPLIANCE PASS'') WordEnd"

definition SAIL_INSTR_RE :: rx where
  "SAIL_INSTR_RE = seqs
     [Bol, lit ''['', some digit, lit ''] ['', Chr upper_letter, lit '']: 0x'', Grp ''1'' (some hex_digit),
      lit '' (0x'', Grp ''2'' (some hex_digit), lit '')'']"

definition SAIL_GPR_RE :: rx where
  "SAIL_GPR_RE = seqs [Bol, lit ''x'', Grp ''1'' (some digit), lit '' <- 0x'', Grp ''2'' (some hex_digit)]"

type_synonym path = "string list"

datatype comp_error =
    NmFailed string
  | NoTohost
  | BadTohost string
  | NeedsVerilator
  | UnsupportedBackend string
  | BuildFailed string
  | BadImage elf_error
  | EntryOutside nat
  | BytesOutput string
  | FileNotFound path
  | NoElfs
  | BadXfail nat
  | HasTraps
  | SailTimedOut
  | MissingColumn string
  | MissingCell string
  | BadCell string

record result =
  res_test :: string
  res_elf :: string
  res_backend :: string
  res_engine :: string
  res_rv64m :: bool
  res_status :: string
  res_expected :: bool
  res_duration :: py_float
  res_returncode :: int
  res_tohost :: string
  res_log :: string
  res_trace :: "string option"
  res_message :: string

text \<open>
  How a simulator run ends: with a return code and its output, or by the wall-clock limit. The exception of
  the latter carries the output so far as bytes, whatever \<open>text\<close> says, or nothing when there was none.
\<close>

datatype sim_end = Finished int string | TimedOut "string option"

record run_env =
  env_root :: string
  env_have :: "string \<Rightarrow> bool"
  env_make :: "string \<Rightarrow> int \<times> string"
  env_nm :: "path \<Rightarrow> int \<times> string"
  env_bytes :: "path \<Rightarrow> byte list"
  env_sha256 :: "string \<Rightarrow> string"
  env_sim :: "string list \<Rightarrow> py_float \<times> sim_end"

record run_config =
  cfg_backend :: string
  cfg_engine :: string
  cfg_rv64m :: bool
  cfg_results :: string
  cfg_max_cycles :: int
  cfg_timeout :: int
  cfg_trace :: bool

section \<open>Names\<close>

definition path_str :: "path \<Rightarrow> string" where
  "path_str p = concat (map (\<lambda>c. CHR ''/'' # c) p)"

definition path_name :: "path \<Rightarrow> string" where
  "path_name p = (if p = [] then [] else last p)"

text \<open>The last dot of a name separates its suffix, unless the name starts or ends with it.\<close>

definition path_stem :: "path \<Rightarrow> string" where
  "path_stem p =
     (let name = path_name p; tail = takeWhile (\<lambda>c. c \<noteq> CHR ''.'') (rev name)
      in if tail = [] \<or> length name \<le> length tail + 1 then name else take (length name - length tail - 1) name)"

definition path_suffix :: "path \<Rightarrow> string" where
  "path_suffix p = drop (length (path_stem p)) (path_name p)"

definition safe_char :: "char \<Rightarrow> bool" where
  "safe_char c \<longleftrightarrow> (word_char c \<or> c = CHR ''.'' \<or> c = CHR ''-'')"

function dashed :: "string \<Rightarrow> string" where
  "dashed [] = []"
| "dashed (c # cs) =
     (if safe_char c then c # dashed cs else CHR ''-'' # dashed (dropWhile (\<lambda>x. \<not> safe_char x) cs))"
  by pat_completeness auto
termination by (relation "measure length") (auto simp: less_Suc_eq_le length_dropWhile_le)

definition strip_dashes :: "string \<Rightarrow> string" where
  "strip_dashes s = rev (dropWhile (\<lambda>c. c = CHR ''-'') (rev (dropWhile (\<lambda>c. c = CHR ''-'') s)))"

definition safe_name :: "(string \<Rightarrow> string) \<Rightarrow> path \<Rightarrow> string" where
  "safe_name sha256 p = strip_dashes (dashed (path_stem p)) @ ''-'' @ take 10 (sha256 (path_str p))"

section \<open>Simulators\<close>

definition tohost_line :: "string \<Rightarrow> bool" where
  "tohost_line line \<longleftrightarrow> (let fields = split_ws (length line) line in 3 \<le> length fields \<and> fields ! 0 = ''tohost'')"

definition tohost_symbol :: "int \<times> string \<Rightarrow> comp_error + int" where
  "tohost_symbol completed =
     (case completed of (returncode, stdout) \<Rightarrow>
        if returncode \<noteq> 0 then Inl (NmFailed stdout)
        else case find tohost_line (splitlines stdout) of
          None \<Rightarrow> Inl NoTohost
        | Some line \<Rightarrow>
            let field = split_ws (length line) line ! 2 in of_option (BadTohost field) (py_int 16 field))"

definition resolve_engine :: "bool \<Rightarrow> string \<Rightarrow> string \<Rightarrow> string" where
  "resolve_engine have_verilator backend engine =
     (if engine \<noteq> ''auto'' then engine
      else if (backend = ''3p'' \<or> backend = ''platform-3p'') \<and> have_verilator then ''verilator''
      else ''iverilog'')"

definition simulator :: "string \<Rightarrow> bool \<Rightarrow> string \<Rightarrow> comp_error + string \<times> nat" where
  "simulator backend rv64m engine =
     (let suffix = (if rv64m then ''m'' else ''i'') in
      if engine = ''verilator'' then
        let testbench = (if backend = ''platform'' \<or> backend = ''platform-3p'' then ''tb_compliance_platform''
                         else ''tb_compliance_'' @ backend)
        in Inr (''build/compliance/sim/verilator/'' @ backend @ ''_'' @ suffix @ ''/V'' @ testbench,
                if backend = ''3p'' then 32 else 8)
      else if backend = ''1p'' then Inr (''build/compliance/sim/compliance_1p_'' @ suffix @ ''.vvp'', 8)
      else if backend = ''3p'' then Inr (''build/compliance/sim/compliance_3p_'' @ suffix @ ''.vvp'', 32)
      else if backend = ''platform'' then Inr (''build/compliance/sim/compliance_platform_'' @ suffix @ ''.vvp'', 8)
      else if backend = ''platform-3p'' then Inl NeedsVerilator
      else Inl (UnsupportedBackend backend))"

definition build_simulator :: "int \<times> string \<Rightarrow> comp_error + unit" where
  "build_simulator completed = (if fst completed \<noteq> 0 then Inl (BuildFailed (snd completed)) else Inr ())"

definition lift_elf :: "elf_error + 'a \<Rightarrow> comp_error + 'a" where
  "lift_elf r = (case r of Inl e \<Rightarrow> Inl (BadImage e) | Inr x \<Rightarrow> Inr x)"

section \<open>One run\<close>

definition verdict :: "bool \<Rightarrow> bool \<Rightarrow> string" where
  "verdict ok expected_failure =
     (if ok \<and> expected_failure then ''xpass''
      else if ok then ''pass''
      else if expected_failure then ''xfail''
      else ''fail'')"

text \<open>\<open>round(x, 6)\<close>: the float nearest to the value rounded to six decimals.\<close>

definition round6 :: "py_float \<Rightarrow> py_float" where
  "round6 x = dbl (round_half_even (fst x * 10 ^ 6) (snd x)) (10 ^ 6)"

record sim_report =
  rep_output :: string
  rep_returncode :: int
  rep_passed :: bool
  rep_message :: string

definition report_of :: "int \<Rightarrow> sim_end \<Rightarrow> comp_error + sim_report" where
  "report_of wall_timeout e =
     (case e of
        Finished returncode output \<Rightarrow>
          Inr \<lparr>rep_output = output, rep_returncode = returncode,
               rep_passed = (returncode = 0 \<and> re_search PASS_RE output \<noteq> None),
               rep_message = (if strip output = [] then ''no output'' else last (splitlines (strip output)))\<rparr>
      | TimedOut (Some partial) \<Rightarrow> Inl (BytesOutput partial)
      | TimedOut None \<Rightarrow>
          Inr \<lparr>rep_output = CHR 0x0A # ''wall-clock timeout'' @ [CHR 0x0A], rep_returncode = 124, rep_passed = False,
               rep_message = ''wall-clock timeout after '' @ dec wall_timeout @ ''s''\<rparr>)"

definition artifact_dir :: "run_env \<Rightarrow> run_config \<Rightarrow> path \<Rightarrow> string" where
  "artifact_dir env cfg elf = cfg_results cfg @ ''/'' @ cfg_backend cfg @ ''/'' @ safe_name (env_sha256 env) elf"

definition trace_path :: "run_env \<Rightarrow> run_config \<Rightarrow> path \<Rightarrow> string option" where
  "trace_path env cfg elf = (if cfg_trace cfg then Some (artifact_dir env cfg elf @ ''/arch.csv'') else None)"

definition sim_command :: "run_env \<Rightarrow> run_config \<Rightarrow> path \<Rightarrow> string \<Rightarrow> string \<Rightarrow> nat \<Rightarrow> int \<Rightarrow> string list" where
  "sim_command env cfg elf engine target word_bytes tohost =
     (if engine = ''verilator'' then [] else [''vvp'']) @
     [env_root env @ ''/'' @ target,
      ''+memh='' @ artifact_dir env cfg elf @ ''/image-'' @ dec (int word_bytes * 8) @ ''.memh'',
      ''+tohost='' @ hex tohost,
      ''+test='' @ safe_name (env_sha256 env) elf,
      ''+max_cycles='' @ dec (cfg_max_cycles cfg)] @
     (case trace_path env cfg elf of None \<Rightarrow> [] | Some p \<Rightarrow> [''+arch_trace='' @ p])"

text \<open>What a run leaves behind: the memory image, the command it ran, the log and the result record.\<close>

record run_output =
  out_memh :: "string list"
  out_command :: "string list"
  out_log :: string
  out_result :: result

definition run_one :: "run_env \<Rightarrow> run_config \<Rightarrow> bool \<Rightarrow> path \<Rightarrow> comp_error + run_output" where
  "run_one env cfg expected_failure elf =
     (let engine = resolve_engine (env_have env ''verilator'') (cfg_backend cfg) (cfg_engine cfg) in
      bindE (simulator (cfg_backend cfg) (cfg_rv64m cfg) engine) (\<lambda>(target, word_bytes).
      bindE (build_simulator (env_make env target)) (\<lambda>_.
      bindE (lift_elf (load_elf (env_bytes env elf))) (\<lambda>(entry, segments).
      if int entry < RAM_BASE \<or> RAM_BASE + RAM_SIZE \<le> int entry then Inl (EntryOutside entry)
      else
        bindE (lift_elf (image_words segments RAM_BASE RAM_SIZE word_bytes)) (\<lambda>ws.
        bindE (tohost_symbol (env_nm env elf)) (\<lambda>tohost.
        let command = sim_command env cfg elf engine target word_bytes tohost;
            (duration, finish) = env_sim env command
        in bindE (report_of (cfg_timeout cfg) finish) (\<lambda>rep.
             Inr \<lparr>out_memh = write_memh ws, out_command = command, out_log = rep_output rep,
                  out_result =
                    \<lparr>res_test = safe_name (env_sha256 env) elf, res_elf = path_str elf, res_backend = cfg_backend cfg,
                     res_engine = engine, res_rv64m = cfg_rv64m cfg, res_status = verdict (rep_passed rep) expected_failure,
                     res_expected = expected_failure, res_duration = round6 duration, res_returncode = rep_returncode rep,
                     res_tohost = ''0x'' @ hex0 16 tohost, res_log = artifact_dir env cfg elf @ ''/run.log'',
                     res_trace = trace_path env cfg elf, res_message = rep_message rep\<rparr>\<rparr>)))))))"

section \<open>A suite\<close>

definition discover_step ::
  "(path \<Rightarrow> bool) \<Rightarrow> (path \<Rightarrow> bool) \<Rightarrow> (path \<Rightarrow> path list) \<Rightarrow> path \<Rightarrow> path list \<Rightarrow> comp_error + path list" where
  "discover_step is_file is_dir rglob p found =
     (if is_file p \<and> path_suffix p = ''.elf'' then Inr (found @ [p])
      else if is_dir p then Inr (found @ rglob p)
      else Inl (FileNotFound p))"

definition discover_elfs ::
  "(path \<Rightarrow> bool) \<Rightarrow> (path \<Rightarrow> bool) \<Rightarrow> (path \<Rightarrow> path list) \<Rightarrow> (path \<Rightarrow> path) \<Rightarrow> path list \<Rightarrow> comp_error + path list" where
  "discover_elfs is_file is_dir rglob resolve paths =
     bindE (foldE (discover_step is_file is_dir rglob) paths []) (\<lambda>found. Inr (sorted_distinct (map resolve found)))"

definition xfail_line :: "nat \<times> string \<Rightarrow> (string \<rightharpoonup> string) \<Rightarrow> comp_error + (string \<rightharpoonup> string)" where
  "xfail_line entry entries =
     (case entry of (number, line) \<Rightarrow>
        if line = [] \<or> hd line = CHR ''#'' then Inr entries
        else case split_once CHR 0x09 line of
          None \<Rightarrow> Inl (BadXfail number)
        | Some (test, reason) \<Rightarrow>
            if test = [] \<or> reason = [] then Inl (BadXfail number) else Inr (entries(test \<mapsto> reason)))"

definition load_xfails :: "string option \<Rightarrow> comp_error + (string \<rightharpoonup> string)" where
  "load_xfails contents =
     (case contents of
        None \<Rightarrow> Inr Map.empty
      | Some s \<Rightarrow> foldE xfail_line (enumerate 1 (splitlines s)) Map.empty)"

fun split_on :: "char \<Rightarrow> string \<Rightarrow> string \<Rightarrow> string list" where
  "split_on c acc [] = [rev acc]"
| "split_on c acc (x # xs) = (if x = c then rev acc # split_on c [] xs else split_on c (x # acc) xs)"

definition py_head :: "int \<Rightarrow> 'a list \<Rightarrow> 'a list" where
  "py_head n xs = take (nat (if n < 0 then int (length xs) + n else n)) xs"

record suite_config =
  su_extensions :: "string option"
  su_match :: "(string \<Rightarrow> bool) option"
  su_limit :: "int option"
  su_fail_fast :: bool

definition select_elfs :: "suite_config \<Rightarrow> path list \<Rightarrow> comp_error + path list" where
  "select_elfs su elfs =
     (let by_extension = (case su_extensions su of
            None \<Rightarrow> elfs
          | Some [] \<Rightarrow> elfs
          | Some s \<Rightarrow>
              let extensions = filter (\<lambda>x. x \<noteq> []) (map strip (split_on CHR '','' [] s))
              in filter (\<lambda>p. path_name (butlast p) \<in> set extensions) elfs);
          by_match = (case su_match su of None \<Rightarrow> by_extension | Some r \<Rightarrow> filter (\<lambda>p. r (path_str p)) by_extension);
          limited = (case su_limit su of None \<Rightarrow> by_match | Some n \<Rightarrow> py_head n by_match)
      in if limited = [] then Inl NoElfs else Inr limited)"

definition is_bad :: "run_output \<Rightarrow> bool" where
  "is_bad r \<longleftrightarrow> res_status (out_result r) \<in> {''fail'', ''xpass''}"

fun run_suite ::
  "(path \<Rightarrow> comp_error + run_output) \<Rightarrow> bool \<Rightarrow> path list \<Rightarrow> comp_error + run_output list" where
  "run_suite run fail_fast [] = Inr []"
| "run_suite run fail_fast (elf # elfs) =
     bindE (run elf) (\<lambda>r.
       if fail_fast \<and> is_bad r then Inr [r]
       else bindE (run_suite run fail_fast elfs) (\<lambda>rs. Inr (r # rs)))"

definition status_count :: "string \<Rightarrow> run_output list \<Rightarrow> int" where
  "status_count status rs = count_if (\<lambda>r. res_status (out_result r) = status) rs"

definition suite_exit :: "run_output list \<Rightarrow> int" where
  "suite_exit rs = (if status_count ''fail'' rs \<noteq> 0 \<or> status_count ''xpass'' rs \<noteq> 0 then 1 else 0)"

definition summary_line :: "run_output list \<Rightarrow> string" where
  "summary_line rs =
     ''SUMMARY '' @ str_join '' '' (map (\<lambda>k. k @ ''='' @ dec (status_count k rs)) [''pass'', ''fail'', ''xfail'', ''xpass''])"

definition suite ::
  "run_env \<Rightarrow> run_config \<Rightarrow> suite_config \<Rightarrow> string option \<Rightarrow> path list \<Rightarrow> comp_error + run_output list \<times> int" where
  "suite env cfg su xfail_text elfs =
     bindE (select_elfs su elfs) (\<lambda>selected.
     bindE (load_xfails xfail_text) (\<lambda>xfails.
     bindE (run_suite (\<lambda>elf. run_one env cfg (xfails (path_stem elf) \<noteq> None) elf) (su_fail_fast su) selected) (\<lambda>rs.
       Inr (rs, suite_exit rs))))"

text \<open>The JUnit report as an element tree: tag, attributes, text and children. The durations are added from left to
  right, each sum rounded, as CPython does before 3.12.\<close>

datatype xml = Elem (tag: string) (attributes: "(string \<times> string) list") (content: string) (children: "xml list")

definition junit_case :: "(string \<Rightarrow> string) \<Rightarrow> result \<Rightarrow> xml" where
  "junit_case read_log r =
     Elem ''testcase''
       [(''classname'', ''openrv64.'' @ res_backend r), (''name'', res_test r), (''time'', fixed 6 (res_duration r))] []
       (if res_status r = ''xfail'' then [Elem ''skipped'' [(''message'', res_message r)] [] []]
        else if res_status r \<in> {''fail'', ''xpass''}
        then [Elem ''failure'' [(''message'', res_message r)] (read_log (res_log r)) []]
        else [])"

definition junit :: "(string \<Rightarrow> string) \<Rightarrow> result list \<Rightarrow> xml" where
  "junit read_log rs =
     Elem ''testsuite''
       [(''name'', ''openrv64-compliance''), (''tests'', dec (int (length rs))),
        (''failures'', dec (count_if (\<lambda>r. res_status r \<in> {''fail'', ''xpass''}) rs)),
        (''skipped'', dec (count_if (\<lambda>r. res_status r = ''xfail'') rs)),
        (''time'', fixed 6 (foldl float_add (float_of 0) (map res_duration rs)))] []
       (map (junit_case read_log) rs)"

section \<open>Lockstep comparison with Sail\<close>

record sail_row =
  sr_pc :: int
  sr_instr :: int
  sr_update :: "(int \<times> int) option"

definition sail_line :: "sail_row list \<Rightarrow> string \<Rightarrow> sail_row list" where
  "sail_line rows line =
     (case re_match SAIL_INSTR_RE line of
        Some q \<Rightarrow> rows @ [\<lparr>sr_pc = group_int 16 ''1'' q, sr_instr = group_int 16 ''2'' q, sr_update = None\<rparr>]
      | None \<Rightarrow>
          (case re_match SAIL_GPR_RE (strip line) of
             None \<Rightarrow> rows
           | Some q \<Rightarrow>
               if rows = [] then rows
               else butlast rows @ [(last rows)\<lparr>sr_update := Some (group_int 10 ''1'' q, group_int 16 ''2'' q)\<rparr>]))"

definition parse_sail_trace :: "string \<Rightarrow> sail_row list" where
  "parse_sail_trace s = foldl sail_line [] (splitlines s)"

text \<open>\<open>row[name]\<close> and \<open>int(row[name], base)\<close> on a row of the core's trace.\<close>

definition value_at :: "csv_row \<Rightarrow> string \<Rightarrow> comp_error + string option" where
  "value_at r name = (case cell_of r name of None \<Rightarrow> Inl (MissingColumn name) | Some v \<Rightarrow> Inr v)"

definition number_at :: "nat \<Rightarrow> csv_row \<Rightarrow> string \<Rightarrow> comp_error + int" where
  "number_at base r name =
     bindE (value_at r name) (\<lambda>v.
       case v of None \<Rightarrow> Inl (MissingCell name) | Some s \<Rightarrow> of_option (BadCell name) (py_int base s))"

definition keep_arch :: "csv_row \<Rightarrow> comp_error + csv_row list" where
  "keep_arch r = bindE (value_at r ''arch'') (\<lambda>v. Inr (if v = Some ''1'' then [r] else []))"

definition dut_rows :: "string list list \<Rightarrow> comp_error + csv_row list" where
  "dut_rows lines =
     (case dict_reader lines of
        None \<Rightarrow> Inr []
      | Some (_, rows) \<Rightarrow> bindE (mapE keep_arch rows) (\<lambda>rs. Inr (concat rs)))"

definition check_trap :: "csv_row \<Rightarrow> unit \<Rightarrow> comp_error + unit" where
  "check_trap r st = bindE (value_at r ''exception'') (\<lambda>v. if v = Some ''1'' then Inl HasTraps else Inr ())"

datatype diff_verdict =
    DutStatus string string
  | SailShort nat nat
  | WrongInstruction nat int int int int
  | WrongRegister nat int int "int option"
  | DiffPass nat

text \<open>One pair of rows; \<open>None\<close> when they agree.\<close>

definition check_pair :: "nat \<Rightarrow> csv_row \<Rightarrow> sail_row \<Rightarrow> comp_error + diff_verdict option" where
  "check_pair index dut sail =
     bindE (number_at 16 dut ''pc'') (\<lambda>pc.
     bindE (number_at 16 dut ''instr'') (\<lambda>instr.
       if pc \<noteq> sr_pc sail \<or> instr \<noteq> sr_instr sail
       then Inr (Some (WrongInstruction index pc instr (sr_pc sail) (sr_instr sail)))
       else
         bindE (value_at dut ''rd_write'') (\<lambda>rd_write.
           if rd_write \<noteq> Some ''1'' then Inr None
           else
             bindE (number_at 10 dut ''rd'') (\<lambda>rd.
               if rd = 0 then Inr None
               else
                 bindE (number_at 16 dut ''wdata'') (\<lambda>wdata.
                   Inr (if sr_update sail \<noteq> Some (rd, wdata)
                        then Some (WrongRegister index rd wdata (map_option snd (sr_update sail))) else None))))))"

fun compare_rows :: "nat \<Rightarrow> csv_row list \<Rightarrow> sail_row list \<Rightarrow> comp_error + diff_verdict option" where
  "compare_rows index (d # ds) (s # ss) =
     bindE (check_pair index d s) (\<lambda>v.
       case v of None \<Rightarrow> compare_rows (Suc index) ds ss | Some w \<Rightarrow> Inr (Some w))"
| "compare_rows index _ _ = Inr None"

definition lockstep :: "csv_row list \<Rightarrow> sail_row list \<Rightarrow> comp_error + diff_verdict" where
  "lockstep dut sail =
     (if length sail < length dut then Inr (SailShort (length sail) (length dut))
      else bindE (compare_rows 0 dut sail) (\<lambda>v.
        Inr (case v of None \<Rightarrow> DiffPass (length dut) | Some w \<Rightarrow> w)))"

text \<open>\<open>diff_subcommand\<close>: the trace the run wrote is an argument, and so is what Sail prints for an instruction
  limit, if it ends in time.\<close>

definition diff ::
  "run_env \<Rightarrow> run_config \<Rightarrow> (string \<Rightarrow> string list list) \<Rightarrow> (nat \<Rightarrow> string option) \<Rightarrow> path \<Rightarrow> comp_error + diff_verdict" where
  "diff env cfg read_trace run_sail elf =
     bindE (run_one env (cfg\<lparr>cfg_trace := True\<rparr>) False elf) (\<lambda>r.
       case res_trace (out_result r) of
         None \<Rightarrow> Inr (DutStatus (res_status (out_result r)) (res_log (out_result r)))
       | Some trace \<Rightarrow>
           if res_status (out_result r) \<noteq> ''pass'' then Inr (DutStatus (res_status (out_result r)) (res_log (out_result r)))
           else
             bindE (dut_rows (read_trace trace)) (\<lambda>dut.
             bindE (foldE check_trap dut ()) (\<lambda>_.
             bindE (of_option SailTimedOut (run_sail (length dut + 8))) (\<lambda>stdout.
               lockstep dut (parse_sail_trace stdout)))))"

definition diff_exit :: "diff_verdict \<Rightarrow> int" where
  "diff_exit v = (case v of DiffPass _ \<Rightarrow> 0 | _ \<Rightarrow> 1)"

definition diff_text :: "string \<Rightarrow> diff_verdict \<Rightarrow> string" where
  "diff_text backend v =
     (case v of
        DutStatus status log \<Rightarrow> ''DUT '' @ status @ '': '' @ log
      | SailShort sail dut \<Rightarrow> ''DIFF FAIL Sail retired '' @ dec (int sail) @ '', DUT retired '' @ dec (int dut)
      | WrongInstruction index pc instr sail_pc sail_instr \<Rightarrow>
          ''DIFF FAIL order='' @ dec (int index) @ '' DUT pc='' @ hex0 16 pc @ '' instr='' @ hex0 8 instr @
          '' Sail pc='' @ hex0 16 sail_pc @ '' instr='' @ hex0 8 sail_instr
      | WrongRegister index rd wdata sail \<Rightarrow>
          ''DIFF FAIL order='' @ dec (int index) @ '' x'' @ dec rd @ '' DUT='' @ hex0 16 wdata @ '' Sail='' @
          (case sail of None \<Rightarrow> ''None'' | Some w \<Rightarrow> dec w)
      | DiffPass n \<Rightarrow> ''DIFF PASS backend='' @ backend @ '' instructions='' @ dec (int n))"

section \<open>Commands\<close>

definition doctor :: "(string \<Rightarrow> string option) \<Rightarrow> string \<Rightarrow> string list \<times> int" where
  "doctor which executable =
     (let checks = (''python'', Some executable) #
            map (\<lambda>n. (n, which n)) [''make'', ''iverilog'', ''vvp'', ''verilator'', ''riscv64-elf-gcc'', ''riscv64-elf-nm''];
          found = (\<lambda>v. v \<noteq> None \<and> v \<noteq> Some []);
          local_ok = list_all (\<lambda>n. found (which n)) [''make'', ''iverilog'', ''vvp'', ''riscv64-elf-gcc'', ''riscv64-elf-nm'']
      in (map (\<lambda>(name, v). (if found v then ''PASS '' else ''MISS '') @ name @ '': '' @
                 (if found v then the v else ''not found'')) checks @
          [''LOCAL '' @ (if local_ok then ''READY'' else ''INCOMPLETE'')],
          if local_ok then 0 else 1))"

definition run_exit :: "result \<Rightarrow> int" where
  "run_exit r = (if res_status r = ''pass'' then 0 else 1)"

text \<open>\<open>main\<close> turns the errors it names into exit code 2; the others end the program with their traceback.\<close>

definition caught :: "comp_error \<Rightarrow> bool" where
  "caught e = (case e of BytesOutput _ \<Rightarrow> False | SailTimedOut \<Rightarrow> False | MissingColumn _ \<Rightarrow> False | MissingCell _ \<Rightarrow> False | _ \<Rightarrow> True)"

definition exit_code :: "comp_error + int \<Rightarrow> int option" where
  "exit_code r = (case r of Inr n \<Rightarrow> Some n | Inl e \<Rightarrow> if caught e then Some 2 else None)"

end
