(* ===== verification/ComplianceProps.thy ===== *)
theory ComplianceProps
  imports Compliance "HOL-Library.Code_Target_Numeral"
begin

text \<open>
  What a verdict of the compliance runner means: the comparison with Sail passes exactly on agreeing traces,
  the simulator is given the program's memory and its verdict is the one reported, and a suite stops where it says.
\<close>

section \<open>Sail's trace\<close>

definition register_update :: "(int \<times> int) option \<Rightarrow> string \<Rightarrow> (int \<times> int) option" where
  "register_update u line =
     (case re_match SAIL_GPR_RE (strip line) of
        None \<Rightarrow> u
      | Some q \<Rightarrow> Some (group_int 10 ''1'' q, group_int 16 ''2'' q))"

lemma sail_lines_update:
  assumes "\<forall>x \<in> set block. re_match SAIL_INSTR_RE x = None"
  shows "foldl sail_line (rows @ [r\<lparr>sr_update := u\<rparr>]) block = rows @ [r\<lparr>sr_update := foldl register_update u block\<rparr>]"
  using assms
proof (induction block arbitrary: u)
  case (Cons x block)
  then have "sail_line (rows @ [r\<lparr>sr_update := u\<rparr>]) x = rows @ [r\<lparr>sr_update := register_update u x\<rparr>]"
    by (simp add: sail_line_def register_update_def split: option.split)
  then show ?case using Cons by simp
qed simp

lemma sail_lines_none:
  "\<forall>x \<in> set block. re_match SAIL_INSTR_RE x = None \<Longrightarrow> foldl sail_line [] block = []"
  by (induction block) (auto simp: sail_line_def split: option.splits)

lemma sail_rows_of_block:
  assumes "re_match SAIL_INSTR_RE line = Some q" "\<forall>x \<in> set block. re_match SAIL_INSTR_RE x = None"
  shows "foldl sail_line [] (lines @ line # block) =
    foldl sail_line [] lines @
      [\<lparr>sr_pc = group_int 16 ''1'' q, sr_instr = group_int 16 ''2'' q, sr_update = foldl register_update None block\<rparr>]"
  using sail_lines_update [OF assms(2), where u = None and r = "\<lparr>sr_pc = group_int 16 ''1'' q, sr_instr = group_int 16 ''2'' q, sr_update = None\<rparr>"]
  by (simp add: sail_line_def [of _ line] assms(1))

section \<open>Lockstep\<close>

text \<open>
  What the comparison demands of a pair of rows: the same PC and instruction, and where the core writes a
  register other than \<open>x0\<close>, the same register and value as the last write Sail shows for the instruction.
\<close>

definition agrees :: "csv_row \<Rightarrow> sail_row \<Rightarrow> bool" where
  "agrees d s \<longleftrightarrow>
     number_at 16 d ''pc'' = Inr (sr_pc s) \<and> number_at 16 d ''instr'' = Inr (sr_instr s) \<and>
     (\<exists>w. value_at d ''rd_write'' = Inr w \<and>
       (w = Some ''1'' \<longrightarrow> (\<exists>rd. number_at 10 d ''rd'' = Inr rd \<and>
          (rd \<noteq> 0 \<longrightarrow> (\<exists>x. number_at 16 d ''wdata'' = Inr x \<and> sr_update s = Some (rd, x))))))"

lemma check_pair_agrees: "check_pair index d s = Inr None \<longleftrightarrow> agrees d s"
proof -
  have "check_pair index d s = Inr None \<longleftrightarrow>
      (number_at 16 d ''pc'' = Inr (sr_pc s) \<and> number_at 16 d ''instr'' = Inr (sr_instr s)) \<and>
      bindE (value_at d ''rd_write'') (\<lambda>w. if w \<noteq> Some ''1'' then Inr None else
        bindE (number_at 10 d ''rd'') (\<lambda>rd. if rd = 0 then Inr None else
          bindE (number_at 16 d ''wdata'') (\<lambda>x. Inr (if sr_update s \<noteq> Some (rd, x)
            then Some (WrongRegister index rd x (map_option snd (sr_update s))) else None)))) = Inr None"
    unfolding check_pair_def by (cases "number_at 16 d ''pc''"; cases "number_at 16 d ''instr''") auto
  also have "\<dots> \<longleftrightarrow> agrees d s"
    unfolding agrees_def
    by (cases "value_at d ''rd_write''"; cases "number_at 10 d ''rd''"; cases "number_at 16 d ''wdata''") auto
  finally show ?thesis .
qed

lemma compare_rows_None:
  "length ds \<le> length ss \<Longrightarrow>
     compare_rows index ds ss = Inr None \<longleftrightarrow> (\<forall>k < length ds. agrees (ds ! k) (ss ! k))"
proof (induction ds arbitrary: index ss)
  case (Cons d ds)
  then obtain s ss' where ss: "ss = s # ss'" "length ds \<le> length ss'" by (cases ss) auto
  have "compare_rows index (d # ds) ss = Inr None \<longleftrightarrow> agrees d s \<and> compare_rows (Suc index) ds ss' = Inr None"
    unfolding check_pair_agrees [of index, symmetric] ss(1)
    by (cases "check_pair index d s") (auto split: option.splits)
  also have "\<dots> \<longleftrightarrow> agrees d s \<and> (\<forall>k < length ds. agrees (ds ! k) (ss' ! k))" using Cons.IH ss(2) by blast
  also have "\<dots> \<longleftrightarrow> (\<forall>k < length (d # ds). agrees ((d # ds) ! k) (ss ! k))"
    unfolding ss(1) by (auto simp: less_Suc_eq_0_disj)
  finally show ?case .
qed simp

lemma compare_rows_Some:
  assumes "compare_rows index ds ss = Inr (Some v)"
  shows "\<exists>k < length ds. k < length ss \<and> check_pair (index + k) (ds ! k) (ss ! k) = Inr (Some v) \<and>
    (\<forall>j < k. agrees (ds ! j) (ss ! j))"
  using assms
proof (induction ds arbitrary: index ss)
  case (Cons d ds)
  from Cons.prems obtain s ss' where ss: "ss = s # ss'" by (cases ss) auto
  from Cons.prems ss obtain c where c: "check_pair index d s = Inr c" by (cases "check_pair index d s") auto
  show ?case
  proof (cases c)
    case None
    then have "agrees d s" using c check_pair_agrees by blast
    from None Cons.prems c ss have "compare_rows (Suc index) ds ss' = Inr (Some v)" by simp
    from Cons.IH [OF this] obtain k where "k < length ds" "k < length ss'"
      "check_pair (Suc index + k) (ds ! k) (ss' ! k) = Inr (Some v)" "\<forall>j < k. agrees (ds ! j) (ss' ! j)" by blast
    with \<open>agrees d s\<close> show ?thesis unfolding ss by (intro exI [of _ "Suc k"]) (auto simp: less_Suc_eq_0_disj)
  next
    case (Some w)
    then show ?thesis using Cons.prems c unfolding ss by auto
  qed
qed simp

lemma check_pair_mismatch:
  assumes "check_pair index d s = Inr (Some v)"
  shows "(\<exists>pc instr. v = WrongInstruction index pc instr (sr_pc s) (sr_instr s) \<and>
      number_at 16 d ''pc'' = Inr pc \<and> number_at 16 d ''instr'' = Inr instr \<and> (pc, instr) \<noteq> (sr_pc s, sr_instr s)) \<or>
    (\<exists>rd x. v = WrongRegister index rd x (map_option snd (sr_update s)) \<and> value_at d ''rd_write'' = Inr (Some ''1'') \<and>
      number_at 10 d ''rd'' = Inr rd \<and> rd \<noteq> 0 \<and> number_at 16 d ''wdata'' = Inr x \<and> sr_update s \<noteq> Some (rd, x))"
  using assms unfolding check_pair_def by (fastforce simp: bindE_eq_Inr split: if_splits)

text \<open>
  C32: differential mode passes exactly when Sail retired at least as many instructions as the core and every
  pair of rows agrees; otherwise the difference it reports is the first one: all earlier rows agree, and the row
  it names differs in the way the message says.
\<close>

theorem lockstep_passes_exactly:
  "(lockstep dut sail = Inr (DiffPass n) \<longleftrightarrow>
      n = length dut \<and> length dut \<le> length sail \<and> (\<forall>k < length dut. agrees (dut ! k) (sail ! k))) \<and>
   (lockstep dut sail = Inr (WrongRegister i rd x u) \<longrightarrow>
      i < length dut \<and> (\<forall>j < i. agrees (dut ! j) (sail ! j)) \<and> rd \<noteq> 0 \<and>
      number_at 10 (dut ! i) ''rd'' = Inr rd \<and> number_at 16 (dut ! i) ''wdata'' = Inr x \<and>
      sr_update (sail ! i) \<noteq> Some (rd, x)) \<and>
   (lockstep dut sail = Inr (WrongInstruction i pc instr pc' instr') \<longrightarrow>
      i < length dut \<and> (\<forall>j < i. agrees (dut ! j) (sail ! j)) \<and> (pc, instr) \<noteq> (pc', instr') \<and>
      number_at 16 (dut ! i) ''pc'' = Inr pc \<and> number_at 16 (dut ! i) ''instr'' = Inr instr \<and>
      sr_pc (sail ! i) = pc' \<and> sr_instr (sail ! i) = instr')"
proof (cases "length dut \<le> length sail")
  case False
  then show ?thesis by (auto simp: lockstep_def)
next
  case True
  have found: "lockstep dut sail = Inr v \<longleftrightarrow>
      compare_rows 0 dut sail = Inr (Some v) \<or> compare_rows 0 dut sail = Inr None \<and> v = DiffPass (length dut)" for v
    using True unfolding lockstep_def by (cases "compare_rows 0 dut sail") (auto split: option.splits)
  have first: "\<exists>k < length dut. check_pair k (dut ! k) (sail ! k) = Inr (Some v) \<and> (\<forall>j < k. agrees (dut ! j) (sail ! j))"
    if "compare_rows 0 dut sail = Inr (Some v)" for v
    using compare_rows_Some [OF that] by auto
  have no_pass: "compare_rows 0 dut sail \<noteq> Inr (Some (DiffPass m))" for m
    using first [of "DiffPass m"] check_pair_mismatch [where v = "DiffPass m"] by blast
  have "lockstep dut sail = Inr (DiffPass n) \<longleftrightarrow> n = length dut \<and> compare_rows 0 dut sail = Inr None"
    using found [of "DiffPass n"] no_pass by auto
  moreover have "i < length dut \<and> (\<forall>j < i. agrees (dut ! j) (sail ! j)) \<and> rd \<noteq> 0 \<and>
      number_at 10 (dut ! i) ''rd'' = Inr rd \<and> number_at 16 (dut ! i) ''wdata'' = Inr x \<and> sr_update (sail ! i) \<noteq> Some (rd, x)"
    if l: "lockstep dut sail = Inr (WrongRegister i rd x u)"
  proof -
    have "compare_rows 0 dut sail = Inr (Some (WrongRegister i rd x u))" using found [of "WrongRegister i rd x u"] l by auto
    from first [OF this] obtain k where k: "k < length dut" "\<forall>j < k. agrees (dut ! j) (sail ! j)"
      and c: "check_pair k (dut ! k) (sail ! k) = Inr (Some (WrongRegister i rd x u))" by blast
    from check_pair_mismatch [OF c] show ?thesis using k by auto
  qed
  moreover have "i < length dut \<and> (\<forall>j < i. agrees (dut ! j) (sail ! j)) \<and> (pc, instr) \<noteq> (pc', instr') \<and>
      number_at 16 (dut ! i) ''pc'' = Inr pc \<and> number_at 16 (dut ! i) ''instr'' = Inr instr \<and>
      sr_pc (sail ! i) = pc' \<and> sr_instr (sail ! i) = instr'"
    if l: "lockstep dut sail = Inr (WrongInstruction i pc instr pc' instr')"
  proof -
    have "compare_rows 0 dut sail = Inr (Some (WrongInstruction i pc instr pc' instr'))" using found [of "WrongInstruction i pc instr pc' instr'"] l by auto
    from first [OF this] obtain k where k: "k < length dut" "\<forall>j < k. agrees (dut ! j) (sail ! j)"
      and c: "check_pair k (dut ! k) (sail ! k) = Inr (Some (WrongInstruction i pc instr pc' instr'))" by blast
    from check_pair_mismatch [OF c] show ?thesis using k by auto
  qed
  ultimately show ?thesis using compare_rows_None [OF True] True by blast
qed

definition demo_columns :: "string list" where
  "demo_columns = [''arch'', ''exception'', ''pc'', ''instr'', ''rd_write'', ''rd'', ''wdata'']"

definition demo_dut :: csv_row where
  "demo_dut = dict_row demo_columns [''1'', ''0'', ''3'', ''13'', ''1'', ''5'', ''a'']"

definition demo_sail :: sail_row where
  "demo_sail = \<lparr>sr_pc = 3, sr_instr = 19, sr_update = Some (5, 10)\<rparr>"

theorem lockstep_passes_exactly_witness: "agrees demo_dut demo_sail"
proof -
  have "lockstep [demo_dut] [demo_sail] = Inr (DiffPass 1)" unfolding demo_dut_def demo_sail_def by code_simp
  with lockstep_passes_exactly [of "[demo_dut]" "[demo_sail]" 1] show ?thesis by simp
qed

text \<open>A register write the core misses is not noticed: only rows on which the core writes are compared.\<close>

lemma missed_write_passes:
  "lockstep [dict_row demo_columns [''1'', ''0'', ''3'', ''13'', ''0'', ''0'', ''0'']] [demo_sail] = Inr (DiffPass 1)"
  unfolding demo_sail_def by code_simp

section \<open>One run\<close>

lemma lift_elf_eq_Inr [simp]: "lift_elf r = Inr x \<longleftrightarrow> r = Inr x"
  by (auto simp: lift_elf_def split: sum.splits)

text \<open>Everything a successful run has done, from its result.\<close>

lemma run_one_steps:
  assumes "run_one env cfg expected elf = Inr out"
  obtains target word_bytes entry segs ws tohost rep where
    "load_elf (env_bytes env elf) = Inr (entry, segs)" "RAM_BASE \<le> int entry" "int entry < RAM_BASE + RAM_SIZE"
    "image_words segs RAM_BASE RAM_SIZE word_bytes = Inr ws" "out_memh out = write_memh ws"
    "out_command out = sim_command env cfg elf (res_engine (out_result out)) target word_bytes tohost"
    "tohost_symbol (env_nm env elf) = Inr tohost"
    "report_of (cfg_timeout cfg) (snd (env_sim env (out_command out))) = Inr rep"
    "res_status (out_result out) = verdict (rep_passed rep) expected" "out_log out = rep_output rep"
    "res_returncode (out_result out) = rep_returncode rep"
    "simulator (cfg_backend cfg) (cfg_rv64m cfg)
       (resolve_engine (env_have env ''verilator'') (cfg_backend cfg) (cfg_engine cfg)) = Inr (target, word_bytes)"
    "res_engine (out_result out) = resolve_engine (env_have env ''verilator'') (cfg_backend cfg) (cfg_engine cfg)"
  using assms unfolding run_one_def by (auto simp: Let_def split: if_splits prod.splits)

lemma simulator_width:
  "simulator backend rv64m engine = Inr (target, word_bytes) \<Longrightarrow> word_bytes = (if backend = ''3p'' then 32 else 8)"
  by (auto simp: simulator_def Let_def split: if_splits)

text \<open>
  C33: a run that gives a result has put the program into the memory the simulator reads. That memory has words of
  256 bits on the three-wide core's test bench and of 64 bits on every other: loaded by \<open>$readmemh\<close> as words of this
  width, the image holds every byte of every loadable segment in its lane, inside the test RAM that also holds the
  entry point. The command it runs is the simulator chosen for the backend and the engine, told the file of the image
  with its width and the program's \<open>tohost\<close>. The result says \<open>pass\<close> or \<open>xpass\<close> exactly when the simulator ended by
  itself with code 0 and a line of its output says so, and \<open>xfail\<close> or \<open>xpass\<close> exactly when a failure was expected.
\<close>

theorem run_loads_and_judges:
  assumes "run_one env cfg expected elf = Inr out"
  shows "let word_bytes = (if cfg_backend cfg = ''3p'' then 32 else 8);
      engine = resolve_engine (env_have env ''verilator'') (cfg_backend cfg) (cfg_engine cfg) in
    (\<exists>entry segs mem target tohost.
    load_elf (env_bytes env elf) = Inr (entry, segs) \<and> RAM_BASE \<le> int entry \<and> int entry < RAM_BASE + RAM_SIZE \<and>
    readmemh 0 (out_memh out) = Some mem \<and>
    (\<forall>seg \<in> set segs. \<forall>a v. segment_byte seg a = Some v \<longrightarrow> RAM_BASE \<le> int a \<and> int a < RAM_BASE + RAM_SIZE \<and>
       (\<exists>word. map_of mem (nat (int a - RAM_BASE) div word_bytes) = Some word \<and>
          le_bytes word_bytes word ! (nat (int a - RAM_BASE) mod word_bytes) = v)) \<and>
    simulator (cfg_backend cfg) (cfg_rv64m cfg) engine = Inr (target, word_bytes) \<and>
    tohost_symbol (env_nm env elf) = Inr tohost \<and>
    out_command out = sim_command env cfg elf engine target word_bytes tohost) \<and>
    (res_status (out_result out) \<in> {''pass'', ''xpass''} \<longleftrightarrow>
       (\<exists>output. snd (env_sim env (out_command out)) = Finished 0 output \<and> re_search PASS_RE output \<noteq> None)) \<and>
    (res_status (out_result out) \<in> {''xfail'', ''xpass''} \<longleftrightarrow> expected)"
proof -
  from assms obtain target word_bytes entry segs ws tohost rep where
    r: "load_elf (env_bytes env elf) = Inr (entry, segs)" "RAM_BASE \<le> int entry" "int entry < RAM_BASE + RAM_SIZE"
    and i: "image_words segs RAM_BASE RAM_SIZE word_bytes = Inr ws" "out_memh out = write_memh ws"
    and c: "out_command out = sim_command env cfg elf (res_engine (out_result out)) target word_bytes tohost"
      "tohost_symbol (env_nm env elf) = Inr tohost"
    and e: "report_of (cfg_timeout cfg) (snd (env_sim env (out_command out))) = Inr rep"
    and st: "res_status (out_result out) = verdict (rep_passed rep) expected"
    and sim: "simulator (cfg_backend cfg) (cfg_rv64m cfg)
       (resolve_engine (env_have env ''verilator'') (cfg_backend cfg) (cfg_engine cfg)) = Inr (target, word_bytes)"
      "res_engine (out_result out) = resolve_engine (env_have env ''verilator'') (cfg_backend cfg) (cfg_engine cfg)"
    by (rule run_one_steps) blast
  have "rep_passed rep \<longleftrightarrow> (\<exists>output. snd (env_sim env (out_command out)) = Finished 0 output \<and> re_search PASS_RE output \<noteq> None)"
    using e by (auto simp: report_of_def split: sim_end.splits option.splits)
  moreover have "res_status (out_result out) \<in> {''pass'', ''xpass''} \<longleftrightarrow> rep_passed rep"
    "res_status (out_result out) \<in> {''xfail'', ''xpass''} \<longleftrightarrow> expected"
    by (simp_all add: st verdict_def)
  moreover obtain mem where "readmemh 0 (out_memh out) = Some mem"
    "\<forall>seg \<in> set segs. \<forall>a v. segment_byte seg a = Some v \<longrightarrow> RAM_BASE \<le> int a \<and> int a < RAM_BASE + RAM_SIZE \<and>
       (\<exists>word. map_of mem (nat (int a - RAM_BASE) div word_bytes) = Some word \<and>
          le_bytes word_bytes word ! (nat (int a - RAM_BASE) mod word_bytes) = v)"
    using printed_words_hold [OF i(1)] unfolding i(2) by metis
  ultimately show ?thesis
    using r c sim unfolding Let_def simulator_width [OF sim(1), symmetric]
    by (intro conjI exI [of _ entry] exI [of _ segs] exI [of _ mem] exI [of _ target] exI [of _ tohost]) simp_all
qed

text \<open>A program of four bytes at the start of the RAM and an environment to run it in.\<close>

definition demo_program :: "byte list" where
  "demo_program =
     ELF_MAGIC @ [2, 1] @ replicate 10 0 @ le_bytes 2 2 @ le_bytes 2 243 @ le_bytes 4 1 @ le_bytes 8 0x80000000 @
     le_bytes 8 64 @ le_bytes 8 0 @ le_bytes 4 0 @ le_bytes 2 64 @ le_bytes 2 56 @ le_bytes 2 1 @ replicate 6 0 @
     le_bytes 4 1 @ le_bytes 4 5 @ le_bytes 8 120 @ le_bytes 8 0x80000000 @ le_bytes 8 0 @ le_bytes 8 2 @ le_bytes 8 4 @
     le_bytes 8 1 @ [9, 7]"

definition demo_env :: "sim_end \<Rightarrow> run_env" where
  "demo_env e = \<lparr>env_root = ''/r'', env_have = (\<lambda>_. False), env_make = (\<lambda>_. (0, [])), env_nm = (\<lambda>_. (0, ''tohost D 10 8'')),
     env_bytes = (\<lambda>_. demo_program), env_sha256 = (\<lambda>_. ''0123456789abcdef''), env_sim = (\<lambda>_. ((1, 2), e))\<rparr>"

definition demo_config :: run_config where
  "demo_config = \<lparr>cfg_backend = ''1p'', cfg_engine = ''auto'', cfg_rv64m = True, cfg_results = ''b'', cfg_max_cycles = 9,
     cfg_timeout = 5, cfg_trace = False\<rparr>"

lemma demo_program_runs:
  "case run_one (demo_env (Finished 0 ''COMPLIANCE PASS'')) demo_config False [''t.elf''] of
     Inr r \<Rightarrow> res_status (out_result r) = ''pass'' \<and> out_memh r = [''@0'', ''0000000000000709''] | Inl _ \<Rightarrow> False"
  unfolding demo_env_def demo_config_def by code_simp

theorem run_loads_and_judges_witness:
  "\<exists>out. run_one (demo_env (Finished 0 ''COMPLIANCE PASS'')) demo_config False [''t.elf''] = Inr out \<and>
     readmemh 0 (out_memh out) \<noteq> None"
proof -
  from demo_program_runs obtain out where r: "run_one (demo_env (Finished 0 ''COMPLIANCE PASS'')) demo_config False [''t.elf''] = Inr out"
    by (auto split: sum.splits)
  from run_loads_and_judges [OF this] r show ?thesis by (auto simp: Let_def)
qed

text \<open>
  C34: the wall-clock limit is only handled when the simulator has printed nothing. As soon as it has printed
  anything, the timeout ends the whole program with an error it does not catch, and no result, log or exit
  code is produced for the run.
\<close>

theorem timeout_with_output_is_lost:
  assumes "snd (env_sim env (sim_command env cfg elf engine target word_bytes tohost)) = TimedOut (Some partial)"
    "resolve_engine (env_have env ''verilator'') (cfg_backend cfg) (cfg_engine cfg) = engine"
    "simulator (cfg_backend cfg) (cfg_rv64m cfg) engine = Inr (target, word_bytes)"
    "tohost_symbol (env_nm env elf) = Inr tohost"
  shows "\<exists>e. run_one env cfg expected elf = Inl e \<and>
    (fst (env_make env target) = 0 \<and> (\<exists>entry segs ws. load_elf (env_bytes env elf) = Inr (entry, segs) \<and>
       RAM_BASE \<le> int entry \<and> int entry < RAM_BASE + RAM_SIZE \<and> image_words segs RAM_BASE RAM_SIZE word_bytes = Inr ws) \<longrightarrow>
     e = BytesOutput partial \<and> exit_code (Inl e) = None)"
proof -
  obtain duration where s: "env_sim env (sim_command env cfg elf engine target word_bytes tohost) = (duration, TimedOut (Some partial))"
    using assms(1) by (metis prod.collapse)
  note run = run_one_def [of env cfg expected elf] Let_def assms(2,3,4) s report_of_def exit_code_def caught_def build_simulator_def
  show ?thesis
  proof (cases "load_elf (env_bytes env elf)")
    case (Inr es)
    obtain entry segs where es: "es = (entry, segs)" by fastforce
    show ?thesis
      by (cases "image_words segs RAM_BASE RAM_SIZE word_bytes") (auto simp: run Inr es lift_elf_def)
  qed (auto simp: run lift_elf_def)
qed

theorem timeout_with_output_is_lost_witness:
  "run_one (demo_env (TimedOut (Some ''booting''))) demo_config False [''t.elf''] = Inl (BytesOutput ''booting'')"
proof -
  let ?env = "demo_env (TimedOut (Some ''booting''))"
  let ?target = "''build/compliance/sim/compliance_1p_m.vvp''"
  have "snd (env_sim ?env (sim_command ?env demo_config [''t.elf''] ''iverilog'' ?target 8 16)) = TimedOut (Some ''booting'')"
    "resolve_engine (env_have ?env ''verilator'') (cfg_backend demo_config) (cfg_engine demo_config) = ''iverilog''"
    "simulator (cfg_backend demo_config) (cfg_rv64m demo_config) ''iverilog'' = Inr (?target, 8)"
    "fst (env_make ?env ?target) = 0"
    by (simp_all add: demo_env_def demo_config_def resolve_engine_def simulator_def)
  moreover have "tohost_symbol (env_nm ?env [''t.elf'']) = Inr 16" unfolding demo_env_def by code_simp
  moreover from demo_program_runs obtain out where
    "run_one (demo_env (Finished 0 ''COMPLIANCE PASS'')) demo_config False [''t.elf''] = Inr out" by (auto split: sum.splits)
  then have "\<exists>entry segs ws. load_elf (env_bytes ?env [''t.elf'']) = Inr (entry, segs) \<and> RAM_BASE \<le> int entry \<and>
      int entry < RAM_BASE + RAM_SIZE \<and> image_words segs RAM_BASE RAM_SIZE 8 = Inr ws"
    by (auto simp: run_one_def demo_env_def demo_config_def resolve_engine_def simulator_def Let_def split: if_splits prod.splits)
  ultimately show ?thesis using timeout_with_output_is_lost [of ?env demo_config "[''t.elf'']" "''iverilog''" ?target 8 16 "''booting''" False]
    by auto
qed

section \<open>A suite\<close>

lemma run_suite_spec:
  assumes "run_suite run fail_fast elfs = Inr rs"
  shows "length rs \<le> length elfs \<and> (\<forall>k < length rs. run (elfs ! k) = Inr (rs ! k)) \<and>
    (length rs < length elfs \<longrightarrow> fail_fast \<and> rs \<noteq> [] \<and> is_bad (last rs)) \<and>
    (fail_fast \<longrightarrow> (\<forall>r \<in> set (butlast rs). \<not> is_bad r))"
  using assms
proof (induction elfs arbitrary: rs)
  case (Cons elf elfs)
  from Cons.prems obtain r where r: "run elf = Inr r" by auto
  show ?case
  proof (cases "fail_fast \<and> is_bad r")
    case True
    then show ?thesis using Cons.prems r by auto
  next
    case False
    then obtain rest where rest: "run_suite run fail_fast elfs = Inr rest" "rs = r # rest"
      using Cons.prems r by auto
    have "run ((elf # elfs) ! k) = Inr (rs ! k)" if "k < length rs" for k
      using Cons.IH [OF rest(1)] r that rest(2) by (cases k) auto
    then show ?thesis using Cons.IH [OF rest(1)] False rest(2) by auto
  qed
qed simp

lemma run_one_status:
  assumes "run_one env cfg expected elf = Inr out"
  shows "res_status (out_result out) \<in> {''pass'', ''fail'', ''xfail'', ''xpass''}"
  by (rule run_one_steps [OF assms]) (simp add: verdict_def)

lemma status_counts_partition:
  assumes "\<forall>r \<in> set rs. res_status (out_result r) \<in> {''pass'', ''fail'', ''xfail'', ''xpass''}"
  shows "status_count ''pass'' rs + status_count ''fail'' rs + status_count ''xfail'' rs + status_count ''xpass'' rs =
    int (length rs)"
  using assms by (induction rs) (auto simp: status_count_def count_if_def)

lemma suite_exit_zero: "suite_exit rs = 0 \<longleftrightarrow> (\<forall>r \<in> set rs. \<not> is_bad r)"
  by (auto simp: suite_exit_def status_count_def count_if_def is_bad_def filter_empty_conv)

text \<open>
  A suite runs the selected programs in order, each with the expectation the list of known failures gives
  it; it leaves programs out only after a bad result, when asked to stop there, and then that result is the last
  one. It exits with 0 exactly when no result is bad, and its four counts add up to the number of results.
\<close>

theorem suite_runs_in_order:
  assumes "suite env cfg su xfail_text elfs = Inr (rs, code)"
  shows "\<exists>selected xfails. select_elfs su elfs = Inr selected \<and> load_xfails xfail_text = Inr xfails \<and>
    rs \<noteq> [] \<and> length rs \<le> length selected \<and>
    (\<forall>k < length rs. run_one env cfg (xfails (path_stem (selected ! k)) \<noteq> None) (selected ! k) = Inr (rs ! k)) \<and>
    (length rs < length selected \<longrightarrow> su_fail_fast su \<and> is_bad (last rs)) \<and>
    (su_fail_fast su \<longrightarrow> (\<forall>r \<in> set (butlast rs). \<not> is_bad r)) \<and>
    (code = 0 \<longleftrightarrow> (\<forall>r \<in> set rs. \<not> is_bad r)) \<and>
    status_count ''pass'' rs + status_count ''fail'' rs + status_count ''xfail'' rs + status_count ''xpass'' rs = int (length rs)"
proof -
  from assms obtain selected xfails where
    s: "select_elfs su elfs = Inr selected" "load_xfails xfail_text = Inr xfails" and
    r: "run_suite (\<lambda>elf. run_one env cfg (xfails (path_stem elf) \<noteq> None) elf) (su_fail_fast su) selected = Inr rs" and
    c: "code = suite_exit rs"
    unfolding suite_def by auto
  note spec = run_suite_spec [OF r]
  have "selected \<noteq> []" using s(1) by (auto simp: select_elfs_def Let_def split: if_splits)
  then have "rs \<noteq> []" using spec by (cases rs) auto
  moreover have "\<forall>x \<in> set rs. res_status (out_result x) \<in> {''pass'', ''fail'', ''xfail'', ''xpass''}"
    using spec run_one_status by (metis in_set_conv_nth)
  ultimately show ?thesis using s spec suite_exit_zero [of rs] status_counts_partition [of rs] unfolding c
    by (intro exI [of _ selected] exI [of _ xfails] conjI) simp_all
qed

theorem suite_runs_in_order_witness:
  "\<exists>rs. suite (demo_env (Finished 1 ''boom'')) demo_config
      \<lparr>su_extensions = None, su_match = None, su_limit = None, su_fail_fast = True\<rparr> None [[''t.elf''], [''u.elf'']] = Inr (rs, 1) \<and>
     is_bad (last rs) \<and> length rs = 1"
proof -
  let ?su = "\<lparr>su_extensions = None, su_match = None, su_limit = None, su_fail_fast = True\<rparr>"
  have "case suite (demo_env (Finished 1 ''boom'')) demo_config ?su None [[''t.elf''], [''u.elf'']] of
      Inr (rs, code) \<Rightarrow> code = 1 \<and> length rs = 1 | Inl _ \<Rightarrow> False"
    unfolding demo_env_def demo_config_def by code_simp
  then obtain rs where s: "suite (demo_env (Finished 1 ''boom'')) demo_config ?su None [[''t.elf''], [''u.elf'']] = Inr (rs, 1)"
    "length rs = 1" by (auto split: sum.splits)
  moreover have "select_elfs ?su [[''t.elf''], [''u.elf'']] = Inr [[''t.elf''], [''u.elf'']]" by (simp add: select_elfs_def)
  ultimately show ?thesis using suite_runs_in_order [OF s(1)] by auto
qed

end
