(* ===== verification/UartLoad.thy ===== *)
theory UartLoad
  imports SdImage Complex_Main
begin

text \<open>
  \<open>tools/fpga-uart-linux-load.py\<close>: sending a kernel image to the board's loader over a serial line. The
  operating system's calls are the record \<open>port\<close> over a state \<open>'w\<close>; a command is a state transformer whose
  value is \<open>None\<close> when it does not end. Clock values are rationals, without the rounding of their sums. What is
  echoed to the terminal has no effect on the transfer and is left out.
\<close>

section \<open>The line and its operating system\<close>

datatype uart_error =
    TimeoutWaiting
  | Stalled nat nat
  | NegativeTimeout
  | OsError
  | NeverAccepted
  | BadBurst
  | BadImageSize nat
  | NotAnImage

record 'w port =
  p_now :: "'w \<Rightarrow> rat \<times> 'w"
  p_readable :: "rat \<Rightarrow> 'w \<Rightarrow> bool \<times> 'w"
  p_writable :: "rat \<Rightarrow> 'w \<Rightarrow> bool \<times> 'w"
  p_read :: "nat \<Rightarrow> 'w \<Rightarrow> byte list option \<times> 'w"
  p_write :: "byte list \<Rightarrow> 'w \<Rightarrow> nat option \<times> 'w"
  p_sleep :: "rat \<Rightarrow> 'w \<Rightarrow> 'w"
  p_drain :: "'w \<Rightarrow> 'w"

type_synonym ('w, 'a) io = "'w \<Rightarrow> ((uart_error + 'a) \<times> 'w) option"

definition returnU :: "'a \<Rightarrow> ('w, 'a) io" where
  "returnU x w = Some (Inr x, w)"

definition failU :: "uart_error \<Rightarrow> ('w, 'a) io" where
  "failU e w = Some (Inl e, w)"

definition bindU :: "('w, 'a) io \<Rightarrow> ('a \<Rightarrow> ('w, 'b) io) \<Rightarrow> ('w, 'b) io" where
  "bindU m k w =
     (case m w of
        None \<Rightarrow> None
      | Some (Inl e, w') \<Rightarrow> Some (Inl e, w')
      | Some (Inr x, w') \<Rightarrow> k x w')"

section \<open>Constants\<close>

definition ascii :: "string \<Rightarrow> byte list" where
  "ascii s = map (\<lambda>c. word_of_nat (of_char c)) s"

definition CRLF :: "byte list" where "CRLF = [13, 10]"
definition MAGIC :: "byte list" where "MAGIC = ascii ''ORV64LNX''"
definition START :: "byte list" where "START = ascii ''OPENRV64 LINUX LOAD START'' @ CRLF"
definition PASS :: "byte list" where "PASS = ascii ''OPENRV64 LINUX LOAD PASS'' @ CRLF"
definition FAIL :: "byte list" where "FAIL = ascii ''OPENRV64 LINUX LOAD CRC FAIL'' @ CRLF"
definition DDR_START :: "byte list" where "DDR_START = ascii ''OPENRV64 DDR LOAD START'' @ CRLF"
definition DDR_PASS :: "byte list" where "DDR_PASS = ascii ''OPENRV64 DDR LOAD PASS'' @ CRLF"
definition DDR_FAIL :: "byte list" where "DDR_FAIL = ascii ''OPENRV64 DDR LOAD CRC FAIL'' @ CRLF"
definition PROMPT :: "byte list" where "PROMPT = ascii ''openrv64# ''"
definition MAX_IMAGE_BYTES :: nat where "MAX_IMAGE_BYTES = 0x8FF00000 - 0x80200000"
definition BLOCK_BYTES :: nat where "BLOCK_BYTES = 1024"

section \<open>Reading\<close>

fun occurs :: "'a list \<Rightarrow> 'a list \<Rightarrow> bool" where
  "occurs m [] \<longleftrightarrow> m = []"
| "occurs m (x # xs) \<longleftrightarrow> take (length m) (x # xs) = m \<or> occurs m xs"

text \<open>\<open>select\<close> refuses a negative timeout, which the second clock reading can make of the first one's remainder.\<close>

partial_function (option) read_loop ::
  "'w port \<Rightarrow> byte list list \<Rightarrow> rat \<Rightarrow> byte list \<Rightarrow> 'w \<Rightarrow> ((uart_error + byte list) \<times> 'w) option" where
  "read_loop P markers deadline received w =
     (let (t, w1) = p_now P w in
      if deadline \<le> t then Some (Inl TimeoutWaiting, w1)
      else
        let (t2, w2) = p_now P w1 in
        if deadline < t2 then Some (Inl NegativeTimeout, w2)
        else
          let (readable, w3) = p_readable P (min (1/4) (deadline - t2)) w2 in
          if \<not> readable then read_loop P markers deadline received w3
          else case p_read P 4096 w3 of
            (None, w4) \<Rightarrow> Some (Inl OsError, w4)
          | (Some block, w4) \<Rightarrow>
              if block = [] then read_loop P markers deadline received w4
              else
                let received' = received @ block in
                if list_ex (\<lambda>m. occurs m received') markers then Some (Inr received', w4)
                else read_loop P markers deadline
                       (if 65536 < length received' then drop (length received' - 32768) received' else received') w4)"

definition read_until :: "'w port \<Rightarrow> byte list list \<Rightarrow> rat \<Rightarrow> ('w, byte list) io" where
  "read_until P markers timeout w = (case p_now P w of (t, w1) \<Rightarrow> read_loop P markers (t + timeout) [] w1)"

partial_function (option) ack_loop :: "'w port \<Rightarrow> rat \<Rightarrow> 'w \<Rightarrow> ((uart_error + unit) \<times> 'w) option" where
  "ack_loop P deadline w =
     (let (t, w1) = p_now P w in
      if deadline \<le> t then Some (Inl TimeoutWaiting, w1)
      else
        let (t2, w2) = p_now P w1 in
        if deadline < t2 then Some (Inl NegativeTimeout, w2)
        else
          let (readable, w3) = p_readable P (min (1/4) (deadline - t2)) w2 in
          if \<not> readable then ack_loop P deadline w3
          else case p_read P 1 w3 of
            (None, w4) \<Rightarrow> Some (Inl OsError, w4)
          | (Some block, w4) \<Rightarrow>
              if block = ascii ''+'' then Some (Inr (), w4) else ack_loop P deadline w4)"

definition wait_for_ack :: "'w port \<Rightarrow> rat \<Rightarrow> ('w, unit) io" where
  "wait_for_ack P timeout w = (case p_now P w of (t, w1) \<Rightarrow> ack_loop P (t + timeout) w1)"

section \<open>Writing\<close>

partial_function (option) write_loop ::
  "'w port \<Rightarrow> bool \<Rightarrow> rat \<Rightarrow> byte list \<Rightarrow> nat \<Rightarrow> nat \<Rightarrow> 'w \<Rightarrow> ((uart_error + unit) \<times> 'w) option" where
  "write_loop P report_progress stall_timeout data next_report offset w =
     (if length data \<le> offset then Some (Inr (), w)
      else
        let (writable, w1) = p_writable P stall_timeout w in
        if \<not> writable then Some (Inl (Stalled offset (length data)), w1)
        else case p_write P (slice offset (offset + 4096) data) w1 of
          (None, w2) \<Rightarrow> Some (Inl OsError, w2)
        | (Some n, w2) \<Rightarrow>
            if report_progress \<and> next_report \<le> offset + n
            then write_loop P report_progress stall_timeout data (next_report + 256 * 1024) (offset + n) (snd (p_now P w2))
            else write_loop P report_progress stall_timeout data next_report (offset + n) w2)"

definition write_all :: "'w port \<Rightarrow> bool \<Rightarrow> byte list \<Rightarrow> ('w, unit) io" where
  "write_all P report_progress data w = write_loop P report_progress 120 data (256 * 1024) 0 (snd (p_now P w))"

function chunks :: "nat \<Rightarrow> 'a list \<Rightarrow> 'a list list" where
  "chunks n xs = (if n = 0 \<or> xs = [] then [] else take n xs # chunks n (drop n xs))"
  by pat_completeness auto
termination by (relation "measure (length \<circ> snd)") auto

declare chunks.simps [simp del]

lemma concat_pieces: "0 < n \<Longrightarrow> concat (chunks n xs) = xs"
proof (induction n xs rule: chunks.induct)
  case (1 n xs)
  then show ?case by (subst chunks.simps) simp
qed

fun write_bursts :: "'w port \<Rightarrow> rat \<Rightarrow> byte list list \<Rightarrow> ('w, unit) io" where
  "write_bursts P pause [] w = Some (Inr (), w)"
| "write_bursts P pause (c # cs) w =
     bindU (write_all P False c) (\<lambda>_ w1. write_bursts P pause cs (if cs = [] then w1 else p_sleep P pause w1)) w"

definition write_paced :: "'w port \<Rightarrow> byte list \<Rightarrow> nat \<Rightarrow> rat \<Rightarrow> ('w, unit) io" where
  "write_paced P data burst_bytes pause = write_bursts P pause (chunks burst_bytes data)"

section \<open>The transfer\<close>

record load_options =
  lo_ready_timeout :: rat
  lo_boot_timeout :: rat
  lo_hardware_preload :: bool
  lo_header_retry :: rat
  lo_burst_bytes :: int
  lo_burst_pause :: rat

definition load_header :: "byte list \<Rightarrow> byte list" where
  "load_header img = MAGIC @ le_bytes 4 (length img) @ le_bytes 4 (crc32 img)"

partial_function (option) header_loop ::
  "'w port \<Rightarrow> load_options \<Rightarrow> byte list \<Rightarrow> byte list \<Rightarrow> rat \<Rightarrow> 'w \<Rightarrow> ((uart_error + unit) \<times> 'w) option" where
  "header_loop P lo header start_marker deadline w =
     (case write_paced P header 1 (lo_burst_pause lo) w of
        None \<Rightarrow> None
      | Some (Inl e, w1) \<Rightarrow> Some (Inl e, w1)
      | Some (Inr _, w1) \<Rightarrow>
          let (t, w2) = p_now P w1 in
          case read_until P [start_marker] (min (lo_header_retry lo) (deadline - t)) w2 of
            None \<Rightarrow> None
          | Some (Inr _, w3) \<Rightarrow> Some (Inr (), w3)
          | Some (Inl e, w3) \<Rightarrow>
              if e \<noteq> TimeoutWaiting then Some (Inl e, w3)
              else
                let (t', w4) = p_now P w3 in
                if deadline \<le> t' then Some (Inl NeverAccepted, w4)
                else header_loop P lo header start_marker deadline w4)"

fun send_blocks :: "'w port \<Rightarrow> load_options \<Rightarrow> byte list list \<Rightarrow> ('w, unit) io" where
  "send_blocks P lo [] w = Some (Inr (), w)"
| "send_blocks P lo (b # bs) w =
     bindU (write_paced P b (nat (lo_burst_bytes lo)) (lo_burst_pause lo)) (\<lambda>_.
     bindU (wait_for_ack P 10) (\<lambda>_. send_blocks P lo bs)) w"

definition upload :: "'w port \<Rightarrow> load_options \<Rightarrow> byte list \<Rightarrow> ('w, unit) io" where
  "upload P lo img =
     (if lo_hardware_preload lo then write_all P True img else send_blocks P lo (chunks BLOCK_BYTES img))"

definition await_boot :: "'w port \<Rightarrow> load_options \<Rightarrow> ('w, int) io" where
  "await_boot P lo w =
     (let pass_marker = (if lo_hardware_preload lo then DDR_PASS else PASS);
          fail_marker = (if lo_hardware_preload lo then DDR_FAIL else FAIL)
      in bindU (read_until P [pass_marker, fail_marker] (lo_boot_timeout lo)) (\<lambda>result.
           if occurs fail_marker result then returnU 1
           else bindU (read_until P [PROMPT] (lo_boot_timeout lo)) (\<lambda>_. returnU 0)) (snd (p_now P (p_drain P w))))"

definition transfer :: "'w port \<Rightarrow> load_options \<Rightarrow> byte list \<Rightarrow> ('w, int) io" where
  "transfer P lo img w =
     (let start_marker = (if lo_hardware_preload lo then DDR_START else START);
          (t, w1) = p_now P w
      in bindU (header_loop P lo (load_header img) start_marker (t + lo_ready_timeout lo)) (\<lambda>_ w2.
         bindU (upload P lo img) (\<lambda>_. await_boot P lo) (snd (p_now P w2))) w1)"

definition check_arguments :: "load_options \<Rightarrow> byte list \<Rightarrow> uart_error + unit" where
  "check_arguments lo img =
     (if lo_burst_bytes lo \<le> 0 \<or> lo_burst_pause lo < 0 then Inl BadBurst
      else if img = [] \<or> MAX_IMAGE_BYTES < length img then Inl (BadImageSize (length img))
      else if slice 0x38 0x3C img \<noteq> ascii ''RSC'' @ [5] then Inl NotAnImage
      else Inr ())"

definition load_image :: "'w port \<Rightarrow> load_options \<Rightarrow> byte list \<Rightarrow> ('w, int) io" where
  "load_image P lo img w =
     (case check_arguments lo img of Inl e \<Rightarrow> Some (Inl e, w) | Inr _ \<Rightarrow> transfer P lo img w)"

end
