(* ===== verification/UartSafety.thy ===== *)
theory UartSafety
  imports UartLoad
begin

text \<open>
  What the tool writes, whatever the other end does: on every port whose writes append the bytes they accept, a
  transfer that returns has sent the header, once or more often, and then the image, and nothing else.
\<close>

text \<open>The observed output \<open>sent\<close> grows by the accepted prefix of a write and by nothing else.\<close>

definition honest :: "'w port \<Rightarrow> ('w \<Rightarrow> byte list) \<Rightarrow> bool" where
  "honest P sent \<longleftrightarrow>
     (\<forall>w. sent (snd (p_now P w)) = sent w) \<and> (\<forall>t w. sent (snd (p_readable P t w)) = sent w) \<and>
     (\<forall>t w. sent (snd (p_writable P t w)) = sent w) \<and> (\<forall>n w. sent (snd (p_read P n w)) = sent w) \<and>
     (\<forall>t w. sent (p_sleep P t w) = sent w) \<and> (\<forall>w. sent (p_drain P w) = sent w) \<and>
     (\<forall>d w n w'. p_write P d w = (Some n, w') \<longrightarrow> n \<le> length d \<and> sent w' = sent w @ take n d)"

lemma honest_keeps:
  assumes "honest P sent"
  shows "p_now P w = (t, w') \<Longrightarrow> sent w' = sent w" "p_readable P s w = (r, w') \<Longrightarrow> sent w' = sent w"
    "p_writable P s w = (r, w') \<Longrightarrow> sent w' = sent w" "p_read P n w = (b, w') \<Longrightarrow> sent w' = sent w"
    "sent (p_sleep P s w) = sent w" "sent (p_drain P w) = sent w" "sent (snd (p_now P w)) = sent w"
    "p_write P d w = (Some n, w') \<Longrightarrow> n \<le> length d \<and> sent w' = sent w @ take n d"
  using assms unfolding honest_def by (metis snd_conv)+

text \<open>Each loop by the induction rule of its definition, over one unfolding with the port's answers named.\<close>

lemma read_loop_keeps:
  assumes h: "honest P sent" and ret: "read_loop P markers deadline received w = Some r"
  shows "sent (snd r) = sent w"
proof -
  have "P = P \<longrightarrow> sent (snd r) = sent w"
  proof (rule read_loop.raw_induct [where Pa = "\<lambda>((((P', markers), deadline), received), w) r. P' = P \<longrightarrow> sent (snd r) = sent w",
        unfolded prod.case, OF _ ret])
    fix f P' markers deadline received w r
    assume IH: "\<And>P' markers deadline received w r. f P' markers deadline received w = Some r \<Longrightarrow> P' = P \<longrightarrow> sent (snd r) = sent w"
      and eq: "(let (t, w1) = p_now P' w in
        if deadline \<le> t then Some (Inl TimeoutWaiting, w1)
        else
          let (t2, w2) = p_now P' w1 in
          if deadline < t2 then Some (Inl NegativeTimeout, w2)
          else
            let (readable, w3) = p_readable P' (min (1/4) (deadline - t2)) w2 in
            if \<not> readable then f P' markers deadline received w3
            else case p_read P' 4096 w3 of
              (None, w4) \<Rightarrow> Some (Inl OsError, w4)
            | (Some block, w4) \<Rightarrow>
                if block = [] then f P' markers deadline received w4
                else
                  let received' = received @ block in
                  if list_ex (\<lambda>m. occurs m received') markers then Some (Inr received', w4)
                  else f P' markers deadline
                         (if 65536 < length received' then drop (length received' - 32768) received' else received') w4) = Some r"
    show "P' = P \<longrightarrow> sent (snd r) = sent w"
    proof
      assume P': "P' = P"
      obtain t w1 where 1: "p_now P w = (t, w1)" by fastforce
      obtain t2 w2 where 2: "p_now P w1 = (t2, w2)" by fastforce
      obtain b w3 where 3: "p_readable P (min (1/4) (deadline - t2)) w2 = (b, w3)" by fastforce
      obtain block w4 where 4: "p_read P 4096 w3 = (block, w4)" by fastforce
      have "sent w1 = sent w" "sent w2 = sent w" "sent w3 = sent w" "sent w4 = sent w"
        using honest_keeps [OF h] 1 2 3 4 by metis+
      then show "sent (snd r) = sent w"
        using eq [unfolded P' 1 2 3 4 Let_def prod.case] IH by (auto split: if_splits option.splits)
    qed
  qed
  then show ?thesis by simp
qed

lemma read_until_keeps: "honest P sent \<Longrightarrow> read_until P markers timeout w = Some r \<Longrightarrow> sent (snd r) = sent w"
  unfolding read_until_def by (auto split: prod.splits) (metis honest_keeps(1) read_loop_keeps)

lemma ack_loop_keeps:
  assumes h: "honest P sent" and ret: "ack_loop P deadline w = Some r"
  shows "sent (snd r) = sent w"
proof -
  have "P = P \<longrightarrow> sent (snd r) = sent w"
  proof (rule ack_loop.raw_induct [where Pa = "\<lambda>((P', deadline), w) r. P' = P \<longrightarrow> sent (snd r) = sent w", unfolded prod.case, OF _ ret])
    fix f P' deadline w r
    assume IH: "\<And>P' deadline w r. f P' deadline w = Some r \<Longrightarrow> P' = P \<longrightarrow> sent (snd r) = sent w"
      and eq: "(let (t, w1) = p_now P' w in
        if deadline \<le> t then Some (Inl TimeoutWaiting, w1)
        else
          let (t2, w2) = p_now P' w1 in
          if deadline < t2 then Some (Inl NegativeTimeout, w2)
          else
            let (readable, w3) = p_readable P' (min (1/4) (deadline - t2)) w2 in
            if \<not> readable then f P' deadline w3
            else case p_read P' 1 w3 of
              (None, w4) \<Rightarrow> Some (Inl OsError, w4)
            | (Some block, w4) \<Rightarrow>
                if block = ascii ''+'' then Some (Inr (), w4) else f P' deadline w4) = Some r"
    show "P' = P \<longrightarrow> sent (snd r) = sent w"
    proof
      assume P': "P' = P"
      obtain t w1 where 1: "p_now P w = (t, w1)" by fastforce
      obtain t2 w2 where 2: "p_now P w1 = (t2, w2)" by fastforce
      obtain b w3 where 3: "p_readable P (min (1/4) (deadline - t2)) w2 = (b, w3)" by fastforce
      obtain block w4 where 4: "p_read P 1 w3 = (block, w4)" by fastforce
      have "sent w1 = sent w" "sent w2 = sent w" "sent w3 = sent w" "sent w4 = sent w"
        using honest_keeps [OF h] 1 2 3 4 by metis+
      then show "sent (snd r) = sent w"
        using eq [unfolded P' 1 2 3 4 Let_def prod.case] IH by (auto split: if_splits option.splits)
    qed
  qed
  then show ?thesis by simp
qed

lemma wait_for_ack_keeps: "honest P sent \<Longrightarrow> wait_for_ack P timeout w = Some r \<Longrightarrow> sent (snd r) = sent w"
  unfolding wait_for_ack_def by (auto split: prod.splits) (metis honest_keeps(1) ack_loop_keeps)

lemma write_loop_sends:
  assumes h: "honest P sent" and ret: "write_loop P rep stall data next offset w = Some r" and le: "offset \<le> length data"
  shows "fst r = Inr () \<longrightarrow> sent (snd r) = sent w @ drop offset data"
proof -
  have "P = P \<longrightarrow> offset \<le> length data \<longrightarrow> fst r = Inr () \<longrightarrow> sent (snd r) = sent w @ drop offset data"
  proof (rule write_loop.raw_induct [where Pa = "\<lambda>((((((P', rep), stall), data), next), offset), w) r.
        P' = P \<longrightarrow> offset \<le> length data \<longrightarrow> fst r = Inr () \<longrightarrow> sent (snd r) = sent w @ drop offset data", unfolded prod.case, OF _ ret])
    fix f P' rep stall data "next" offset w r
    assume IH: "\<And>P' rep stall data next offset w r. f P' rep stall data next offset w = Some r \<Longrightarrow>
        P' = P \<longrightarrow> offset \<le> length data \<longrightarrow> fst r = Inr () \<longrightarrow> sent (snd r) = sent w @ drop offset data"
      and eq: "(if length data \<le> offset then Some (Inr (), w)
        else
          let (writable, w1) = p_writable P' stall w in
          if \<not> writable then Some (Inl (Stalled offset (length data)), w1)
          else case p_write P' (slice offset (offset + 4096) data) w1 of
            (None, w2) \<Rightarrow> Some (Inl OsError, w2)
          | (Some n, w2) \<Rightarrow>
              if rep \<and> next \<le> offset + n
              then f P' rep stall data (next + 256 * 1024) (offset + n) (snd (p_now P' w2))
              else f P' rep stall data next (offset + n) w2) = Some r"
    show "P' = P \<longrightarrow> offset \<le> length data \<longrightarrow> fst r = Inr () \<longrightarrow> sent (snd r) = sent w @ drop offset data"
    proof (intro impI)
      assume P': "P' = P" and le: "offset \<le> length data" and ok: "fst r = Inr ()"
      obtain b w1 where 1: "p_writable P stall w = (b, w1)" by fastforce
      obtain k w2 where 2: "p_write P (slice offset (offset + 4096) data) w1 = (k, w2)" by fastforce
      note eq = eq [unfolded P' 1 2 Let_def prod.case]
      show "sent (snd r) = sent w @ drop offset data"
      proof (cases "length data \<le> offset")
        case True
        then show ?thesis using eq le by auto
      next
        case False
        with eq ok obtain n where n: "k = Some n" by (auto split: if_splits option.splits)
        have "n \<le> length (slice offset (offset + 4096) data)" "sent w2 = sent w @ take n (slice offset (offset + 4096) data)"
          using honest_keeps(3) [OF h 1] honest_keeps(8) [OF h 2 [unfolded n]] by simp_all
        then have s: "offset + n \<le> length data" "sent w2 @ drop (offset + n) data = sent w @ drop offset data"
          using le by (auto simp: slice_def min_def take_drop drop_drop add.commute split: if_splits)
            (metis append_take_drop_id drop_drop take_drop)+
        show ?thesis
          using eq n False IH [of P rep stall data _ "offset + n" _ r] s honest_keeps(7) [OF h] ok P'
          by (auto split: if_splits)
      qed
    qed
  qed
  then show ?thesis using le by simp
qed

lemma write_all_sends:
  assumes "honest P sent" "write_all P rep data w = Some (Inr (), w')"
  shows "sent w' = sent w @ data"
  using write_loop_sends [OF assms(1) assms(2) [unfolded write_all_def]] honest_keeps(7) [OF assms(1)] by simp

lemma bindU_Inr:
  "bindU m k w = Some (Inr y, w') \<longleftrightarrow> (\<exists>x w1. m w = Some (Inr x, w1) \<and> k x w1 = Some (Inr y, w'))"
  by (auto simp: bindU_def split: option.splits sum.splits)

lemma write_bursts_sends:
  assumes "honest P sent"
  shows "write_bursts P pause cs w = Some (Inr (), w') \<Longrightarrow> sent w' = sent w @ concat cs"
proof (induction cs arbitrary: w)
  case (Cons c cs)
  from Cons.prems obtain w1 where w1: "write_all P False c w = Some (Inr (), w1)"
    "write_bursts P pause cs (if cs = [] then w1 else p_sleep P pause w1) = Some (Inr (), w')"
    by (auto simp: bindU_Inr)
  from Cons.IH [OF w1(2)] write_all_sends [OF assms w1(1)] honest_keeps(5) [OF assms, of pause w1] show ?case by auto
qed simp

lemma write_paced_sends:
  assumes "honest P sent" "write_paced P data n pause w = Some (Inr (), w')" "0 < n"
  shows "sent w' = sent w @ data"
  using write_bursts_sends [OF assms(1) assms(2) [unfolded write_paced_def]] assms(3) by (simp add: concat_pieces)

lemma send_blocks_sends:
  assumes "honest P sent" "0 < lo_burst_bytes lo"
  shows "send_blocks P lo bs w = Some (Inr (), w') \<Longrightarrow> sent w' = sent w @ concat bs"
proof (induction bs arbitrary: w)
  case (Cons b bs)
  from Cons.prems obtain w1 w2 where w: "write_paced P b (nat (lo_burst_bytes lo)) (lo_burst_pause lo) w = Some (Inr (), w1)"
    "wait_for_ack P 10 w1 = Some (Inr (), w2)" "send_blocks P lo bs w2 = Some (Inr (), w')"
    by (auto simp: bindU_Inr)
  have "sent w1 = sent w @ b" using write_paced_sends [OF assms(1) w(1)] assms(2) by simp
  moreover have "sent w2 = sent w1" using wait_for_ack_keeps [OF assms(1) w(2)] by simp
  ultimately show ?case using Cons.IH [OF w(3)] by simp
qed simp

lemma header_loop_sends:
  assumes h: "honest P sent" and ret: "header_loop P lo header start deadline w = Some r" and ok: "fst r = Inr ()"
  shows "\<exists>k. sent (snd r) = sent w @ concat (replicate (Suc k) header)"
proof -
  have "P = P \<longrightarrow> fst r = Inr () \<longrightarrow> (\<exists>k. sent (snd r) = sent w @ concat (replicate (Suc k) header))"
  proof (rule header_loop.raw_induct [where Pa = "\<lambda>(((((P', lo), header), start), deadline), w) r.
        P' = P \<longrightarrow> fst r = Inr () \<longrightarrow> (\<exists>k. sent (snd r) = sent w @ concat (replicate (Suc k) header))", unfolded prod.case, OF _ ret])
    fix f P' lo header start deadline w r
    assume IH: "\<And>P' lo header start deadline w r. f P' lo header start deadline w = Some r \<Longrightarrow>
        P' = P \<longrightarrow> fst r = Inr () \<longrightarrow> (\<exists>k. sent (snd r) = sent w @ concat (replicate (Suc k) header))"
      and eq: "(case write_paced P' header 1 (lo_burst_pause lo) w of
          None \<Rightarrow> None
        | Some (Inl e, w1) \<Rightarrow> Some (Inl e, w1)
        | Some (Inr _, w1) \<Rightarrow>
            let (t, w2) = p_now P' w1 in
            case read_until P' [start] (min (lo_header_retry lo) (deadline - t)) w2 of
              None \<Rightarrow> None
            | Some (Inl e, w3) \<Rightarrow>
                if e \<noteq> TimeoutWaiting then Some (Inl e, w3)
                else
                  let (t', w4) = p_now P' w3 in
                  if deadline \<le> t' then Some (Inl NeverAccepted, w4)
                  else f P' lo header start deadline w4
            | Some (Inr _, w3) \<Rightarrow> Some (Inr (), w3)) = Some r"
    show "P' = P \<longrightarrow> fst r = Inr () \<longrightarrow> (\<exists>k. sent (snd r) = sent w @ concat (replicate (Suc k) header))"
    proof (intro impI)
      assume P': "P' = P" and ok: "fst r = Inr ()"
      from eq ok obtain w1 where 1: "write_paced P header 1 (lo_burst_pause lo) w = Some (Inr (), w1)"
        unfolding P' by (auto split: option.splits sum.splits prod.splits)
      obtain t w2 where 2: "p_now P w1 = (t, w2)" by fastforce
      have s2: "sent w2 = sent w @ header" using write_paced_sends [OF h 1] honest_keeps(1) [OF h 2] by simp
      let ?T = "min (lo_header_retry lo) (deadline - t)"
      note eq = eq [unfolded P' 1 2 Let_def prod.case option.case sum.case]
      from eq obtain x w3 where 3: "read_until P [start] ?T w2 = Some (x, w3)" by (auto split: option.splits)
      obtain t' w4 where 4: "p_now P w3 = (t', w4)" by fastforce
      have s: "sent w3 = sent w @ header" "sent w4 = sent w @ header"
        using read_until_keeps [OF h 3] honest_keeps(1) [OF h 4] s2 by simp_all
      note eq = eq [unfolded 3 4 prod.case option.case]
      show "\<exists>k. sent (snd r) = sent w @ concat (replicate (Suc k) header)"
      proof (cases x)
        case (Inr y)
        then have "sent (snd r) = sent w @ concat (replicate (Suc 0) header)" using eq s by auto
        then show ?thesis by blast
      next
        case (Inl e)
        with eq ok have "f P lo header start deadline w4 = Some r" by (auto split: if_splits)
        from IH [OF this] ok obtain k where "sent (snd r) = sent w4 @ concat (replicate (Suc k) header)" by blast
        then have "sent (snd r) = sent w @ concat (replicate (Suc (Suc k)) header)" using s by simp
        then show ?thesis by blast
      qed
    qed
  qed
  then show ?thesis using ok by simp
qed

lemma await_boot_keeps:
  assumes "honest P sent" "await_boot P lo w = Some (Inr code, w')"
  shows "sent w' = sent w"
proof -
  let ?pass = "if lo_hardware_preload lo then DDR_PASS else PASS"
  let ?fail = "if lo_hardware_preload lo then DDR_FAIL else FAIL"
  obtain result w1 where r: "read_until P [?pass, ?fail] (lo_boot_timeout lo) (snd (p_now P (p_drain P w))) = Some (Inr result, w1)"
    "(if occurs ?fail result then returnU 1 else bindU (read_until P [PROMPT] (lo_boot_timeout lo)) (\<lambda>_. returnU 0)) w1 =
      Some (Inr code, w')"
    using assms(2) unfolding await_boot_def Let_def bindU_Inr by blast
  have "sent w1 = sent w" using read_until_keeps [OF assms(1) r(1)] honest_keeps(6,7) [OF assms(1)] by simp
  moreover have "sent w' = sent w1"
  proof (cases "occurs ?fail result")
    case True
    then show ?thesis using r(2) by (simp add: returnU_def)
  next
    case False
    then obtain x where "read_until P [PROMPT] (lo_boot_timeout lo) w1 = Some (Inr x, w')"
      using r(2) by (auto simp: bindU_Inr returnU_def)
    from read_until_keeps [OF assms(1) this] show ?thesis by simp
  qed
  ultimately show ?thesis by simp
qed

text \<open>
  C36: whatever the other end does, a transfer that returns an exit code has written the header one or more
  times and after it every byte of the image, in order and exactly once.
\<close>

theorem transfer_sends_image:
  assumes "honest P sent" "load_image P lo img w = Some (Inr code, w')"
  shows "\<exists>k. sent w' = sent w @ concat (replicate (Suc k) (load_header img)) @ img"
proof -
  from assms(2) have args: "check_arguments lo img = Inr ()" and t: "transfer P lo img w = Some (Inr code, w')"
    by (auto simp: load_image_def split: sum.splits)
  have burst: "0 < lo_burst_bytes lo" using args by (auto simp: check_arguments_def split: if_splits)
  obtain t w1 where 1: "p_now P w = (t, w1)" by fastforce
  from t obtain start w2 w3 where w: "header_loop P lo (load_header img) start (t + lo_ready_timeout lo) w1 = Some (Inr (), w2)"
    "upload P lo img (snd (p_now P w2)) = Some (Inr (), w3)" "await_boot P lo w3 = Some (Inr code, w')"
    by (auto simp: transfer_def 1 bindU_Inr Let_def)
  obtain k where k: "sent w2 = sent w1 @ concat (replicate (Suc k) (load_header img))"
    using header_loop_sends [OF assms(1) w(1)] by auto
  have up: "sent w3 = sent w2 @ img"
  proof (cases "lo_hardware_preload lo")
    case True
    then show ?thesis using write_all_sends [OF assms(1)] w(2) honest_keeps(7) [OF assms(1), of w2] by (simp add: upload_def)
  next
    case False
    then show ?thesis using send_blocks_sends [OF assms(1) burst] w(2) honest_keeps(7) [OF assms(1), of w2]
      by (simp add: upload_def concat_pieces BLOCK_BYTES_def)
  qed
  have "sent w' = sent w3" by (rule await_boot_keeps [OF assms(1) w(3)])
  with up k honest_keeps(1) [OF assms(1) 1] show ?thesis by auto
qed

text \<open>A port that answers with the loader's three lines in turn and keeps a log of what it is sent.\<close>

definition log_port :: "(nat \<times> byte list) port" where
  "log_port =
     \<lparr>p_now = (\<lambda>w. (0, w)), p_readable = (\<lambda>t w. (True, w)), p_writable = (\<lambda>t w. (True, w)),
      p_read = (\<lambda>n (k, out). (Some ([DDR_START, DDR_PASS, PROMPT] ! k), (Suc k, out))),
      p_write = (\<lambda>d (k, out). (Some (length d), (k, out @ d))), p_sleep = (\<lambda>t w. w), p_drain = (\<lambda>w. w)\<rparr>"

definition small_image :: "byte list" where
  "small_image = replicate 56 0 @ ascii ''RSC'' @ [5]"

definition preload_options :: load_options where
  "preload_options = \<lparr>lo_ready_timeout = 120, lo_boot_timeout = 7200, lo_hardware_preload = True, lo_header_retry = 2,
     lo_burst_bytes = 4, lo_burst_pause = 0\<rparr>"

lemma log_simps [simp]:
  "p_now log_port w = (0, w)" "p_readable log_port t w = (True, w)" "p_writable log_port t w = (True, w)"
  "p_read log_port n (k, out) = (Some ([DDR_START, DDR_PASS, PROMPT] ! k), (Suc k, out))"
  "p_write log_port d (k, out) = (Some (length d), (k, out @ d))" "p_sleep log_port t w = w" "p_drain log_port w = w"
  by (simp_all add: log_port_def)

lemma log_write_all:
  "length data \<le> 4096 \<Longrightarrow> write_all log_port rep data (k, out) = Some (Inr (), (k, out @ data))"
  unfolding write_all_def by (subst write_loop.simps, subst write_loop.simps) (auto simp: slice_def)

lemma log_write_bursts:
  "\<forall>c \<in> set cs. length c \<le> 4096 \<Longrightarrow> write_bursts log_port pause cs (k, out) = Some (Inr (), (k, out @ concat cs))"
  by (induction cs arbitrary: out) (simp_all add: bindU_def log_write_all)

lemma chunks_1: "chunks 1 xs = map (\<lambda>x. [x]) xs"
proof (induction xs)
  case (Cons x xs)
  then show ?case by (subst chunks.simps) simp
qed (simp add: chunks.simps)

lemma log_read_until:
  assumes "0 < timeout" "[DDR_START, DDR_PASS, PROMPT] ! k = block" "list_ex (\<lambda>m. occurs m block) markers" "block \<noteq> []"
  shows "read_until log_port markers timeout (k, out) = Some (Inr block, (Suc k, out))"
  unfolding read_until_def using assms by (simp add: read_loop.simps [of log_port])

lemma log_messages:
  "occurs DDR_START DDR_START" "DDR_START \<noteq> []" "occurs DDR_PASS DDR_PASS" "DDR_PASS \<noteq> []" "\<not> occurs DDR_FAIL DDR_PASS"
  "occurs PROMPT PROMPT" "PROMPT \<noteq> []"
  by code_simp+

theorem transfer_sends_image_witness:
  "\<exists>w' k. load_image log_port preload_options small_image (0, []) = Some (Inr 0, w') \<and>
     snd w' = concat (replicate (Suc k) (load_header small_image)) @ small_image"
proof -
  have h: "honest log_port snd" by (auto simp: honest_def log_port_def split: prod.splits)
  let ?h = "load_header small_image"
  have "write_paced log_port ?h 1 0 (0, []) = Some (Inr (), (0, ?h))"
    unfolding write_paced_def chunks_1 by (subst log_write_bursts) (simp_all add: concat_map_singleton)
  then have "header_loop log_port preload_options ?h DDR_START 120 (0, []) = Some (Inr (), (1, ?h))"
    by (subst header_loop.simps) (simp add: preload_options_def log_read_until log_messages)
  moreover have "length small_image \<le> 4096" by (simp add: small_image_def ascii_def)
  moreover have "check_arguments preload_options small_image = Inr ()"
    by (simp add: check_arguments_def preload_options_def small_image_def ascii_def MAX_IMAGE_BYTES_def slice_def)
  ultimately have l: "load_image log_port preload_options small_image (0, []) = Some (Inr 0, (3, ?h @ small_image))"
    by (simp add: load_image_def transfer_def upload_def await_boot_def preload_options_def bindU_def log_write_all
        log_read_until log_messages returnU_def eval_nat_numeral)
  with transfer_sends_image [OF h l] show ?thesis by auto
qed

end
