(* ===== verification/UartBoard.thy ===== *)
theory UartBoard
  imports UartLoad
begin

unbundle bit_operations_syntax

text \<open>
  The other end of the line: \<open>sw/opensbi_linux_uart_loader.S\<close>, the loader that runs on the board, byte by byte,
  and a serial line that joins it to the host tool. Registers keep the program's roles: \<open>s5\<close> the bytes left,
  \<open>s8\<close> the bytes of the wire block, \<open>s9\<close> and \<open>s10\<close> the word being assembled, \<open>s4\<close> and \<open>s3\<close> the running and the
  expected CRC.
\<close>

section \<open>The board's loader\<close>

definition READY :: "byte list" where "READY = ascii ''OPENRV64 LINUX LOAD READY'' @ CRLF"
definition pass_message :: "byte list" where "pass_message = CRLF @ PASS"
definition crc_fail_message :: "byte list" where "crc_fail_message = CRLF @ FAIL"
definition header_fail_message :: "byte list" where
  "header_fail_message = ascii ''OPENRV64 LINUX LOAD HEADER FAIL'' @ CRLF"

definition LINUX_MAX_BYTES :: nat where "LINUX_MAX_BYTES = 0x8ff00000 - 0x80200000"

datatype stage = Magic nat | Fields "byte list" | Payload | Booted

record board =
  bd_stage :: stage
  bd_tx :: "byte list"
  bd_mem :: "byte list"
  bd_left :: nat
  bd_block :: nat
  bd_count :: nat
  bd_word :: "64 word"
  bd_crc :: "32 word"
  bd_expected :: nat

definition board_start :: board where
  "board_start = \<lparr>bd_stage = Magic 0, bd_tx = READY, bd_mem = [], bd_left = 0, bd_block = 0, bd_count = 0, bd_word = 0,
     bd_crc = 0, bd_expected = 0\<rparr>"

definition puts :: "byte list \<Rightarrow> board \<Rightarrow> board" where
  "puts msg bd = bd\<lparr>bd_tx := bd_tx bd @ msg\<rparr>"

definition restart :: "byte list \<Rightarrow> board \<Rightarrow> board" where
  "restart msg bd = (puts (msg @ READY) bd)\<lparr>bd_stage := Magic 0\<rparr>"

text \<open>The eight bytes after the magic: the length and the expected CRC.\<close>

definition accept_header :: "byte list \<Rightarrow> board \<Rightarrow> board" where
  "accept_header hs bd =
     (let len = le_val (take 4 hs) in
      if len = 0 \<or> LINUX_MAX_BYTES < len \<or> len mod 4 \<noteq> 0 then restart header_fail_message bd
      else (puts START bd)
        \<lparr>bd_stage := Payload, bd_mem := [], bd_left := len, bd_block := 0, bd_count := 0, bd_word := 0, bd_crc := - 1,
         bd_expected := le_val (drop 4 hs)\<rparr>)"

definition end_of_image :: "board \<Rightarrow> board" where
  "end_of_image bd =
     (if unat (NOT (bd_crc bd)) = bd_expected bd then (puts pass_message bd)\<lparr>bd_stage := Booted\<rparr>
      else restart crc_fail_message bd)"

text \<open>\<open>.Lword_stored\<close>: the word is cleared; a full wire block, or the end, is acknowledged.\<close>

definition word_stored :: "board \<Rightarrow> board" where
  "word_stored bd =
     (let bd = bd\<lparr>bd_count := 0, bd_word := 0\<rparr> in
      if bd_block bd = 1024 \<or> bd_left bd = 0 then
        let bd = (puts (ascii ''+'') bd)\<lparr>bd_block := 0\<rparr>
        in if bd_left bd = 0 then end_of_image bd else bd
      else bd)"

definition take_byte :: "byte \<Rightarrow> board \<Rightarrow> board" where
  "take_byte b bd =
     (let bd = bd\<lparr>bd_word := bd_word bd OR push_bit (8 * bd_count bd) (ucast b), bd_crc := crc_byte (bd_crc bd) b,
                 bd_left := bd_left bd - 1, bd_block := bd_block bd + 1\<rparr>;
          bd = (if bd_left bd mod 65536 = 0 then puts (ascii ''.'') bd else bd)
      in bd\<lparr>bd_count := bd_count bd + 1\<rparr>)"

definition payload_byte :: "byte \<Rightarrow> board \<Rightarrow> board" where
  "payload_byte b bd =
     (let bd = take_byte b bd in
      if bd_count bd = 8 then word_stored (bd\<lparr>bd_mem := bd_mem bd @ le_bytes 8 (unat (bd_word bd))\<rparr>)
      else if bd_left bd \<noteq> 0 then bd
      else word_stored (bd\<lparr>bd_mem := bd_mem bd @ le_bytes 4 (unat (bd_word bd))\<rparr>))"

definition board_byte :: "board \<Rightarrow> byte \<Rightarrow> board" where
  "board_byte bd b =
     (case bd_stage bd of
        Magic i \<Rightarrow>
          if b \<noteq> MAGIC ! i then restart header_fail_message bd
          else bd\<lparr>bd_stage := (if i + 1 = 8 then Fields [] else Magic (i + 1))\<rparr>
      | Fields fs \<Rightarrow>
          if length fs + 1 = 8 then accept_header (fs @ [b]) bd else bd\<lparr>bd_stage := Fields (fs @ [b])\<rparr>
      | Payload \<Rightarrow> payload_byte b bd
      | Booted \<Rightarrow> bd)"

section \<open>The line\<close>

text \<open>
  Reading the clock takes \<open>wd_tick\<close>; a write accepts at most \<open>wd_cap\<close> bytes, which reach the board at once; what the
  booted system prints (\<open>wd_console\<close>) comes after everything the loader sent has been read.
\<close>

record world =
  wd_board :: board
  wd_clock :: rat
  wd_tick :: rat
  wd_cap :: nat
  wd_console :: "byte list"

definition pass_time :: "rat \<Rightarrow> world \<Rightarrow> world" where
  "pass_time t w = w\<lparr>wd_clock := wd_clock w + t\<rparr>"

definition feed :: "byte list \<Rightarrow> world \<Rightarrow> world" where
  "feed data w = w\<lparr>wd_board := foldl board_byte (wd_board w) data\<rparr>"

definition set_tx :: "byte list \<Rightarrow> world \<Rightarrow> world" where
  "set_tx tx w = w\<lparr>wd_board := (wd_board w)\<lparr>bd_tx := tx\<rparr>\<rparr>"

definition tx_of :: "world \<Rightarrow> byte list" where
  "tx_of w = bd_tx (wd_board w)"

definition board_port :: "world port" where
  "board_port =
     \<lparr>p_now = (\<lambda>w. (wd_clock w, pass_time (wd_tick w) w)),
      p_readable = (\<lambda>t w.
        if tx_of w \<noteq> [] then (True, w)
        else if bd_stage (wd_board w) = Booted \<and> wd_console w \<noteq> [] then (True, (set_tx (wd_console w) w)\<lparr>wd_console := []\<rparr>)
        else (False, pass_time t w)),
      p_writable = (\<lambda>t w. (True, w)),
      p_read = (\<lambda>n w. (Some (take n (tx_of w)), set_tx (drop n (tx_of w)) w)),
      p_write = (\<lambda>d w. (Some (min (wd_cap w) (length d)), feed (take (wd_cap w) d) w)),
      p_sleep = pass_time,
      p_drain = (\<lambda>w. w)\<rparr>"

lemma port_simps [simp]:
  "p_now board_port w = (wd_clock w, pass_time (wd_tick w) w)"
  "p_writable board_port t w = (True, w)"
  "p_read board_port n w = (Some (take n (tx_of w)), set_tx (drop n (tx_of w)) w)"
  "p_write board_port d w = (Some (min (wd_cap w) (length d)), feed (take (wd_cap w) d) w)"
  "p_sleep board_port = pass_time" "p_drain board_port w = w"
  "tx_of w \<noteq> [] \<Longrightarrow> p_readable board_port t w = (True, w)"
  by (simp_all add: board_port_def)

lemma feed_simps [simp]:
  "feed [] w = w" "feed ys (feed xs w) = feed (xs @ ys) w"
  "wd_cap (feed xs w) = wd_cap w" "wd_tick (feed xs w) = wd_tick w" "wd_clock (feed xs w) = wd_clock w"
  "wd_console (feed xs w) = wd_console w" "wd_board (feed xs w) = foldl board_byte (wd_board w) xs"
  "feed xs (pass_time t w) = pass_time t (feed xs w)"
  by (simp_all add: feed_def pass_time_def)

lemma pass_time_simps [simp]:
  "wd_cap (pass_time t w) = wd_cap w" "wd_tick (pass_time t w) = wd_tick w" "wd_clock (pass_time t w) = wd_clock w + t"
  "wd_console (pass_time t w) = wd_console w" "wd_board (pass_time t w) = wd_board w" "tx_of (pass_time t w) = tx_of w"
  "pass_time s (pass_time t w) = pass_time (t + s) w" "pass_time 0 w = w"
  by (simp_all add: pass_time_def tx_of_def)

lemma set_tx_simps [simp]:
  "wd_cap (set_tx tx w) = wd_cap w" "wd_tick (set_tx tx w) = wd_tick w" "wd_clock (set_tx tx w) = wd_clock w"
  "wd_console (set_tx tx w) = wd_console w" "tx_of (set_tx tx w) = tx"
  "wd_board (set_tx tx w) = (wd_board w)\<lparr>bd_tx := tx\<rparr>" "set_tx tx (pass_time t w) = pass_time t (set_tx tx w)"
  "set_tx tx (set_tx tx' w) = set_tx tx w"
  by (simp_all add: set_tx_def tx_of_def pass_time_def)

section \<open>Writing to the board\<close>

declare write_loop.simps [code del] read_loop.simps [code del] ack_loop.simps [code del] header_loop.simps [code del]

lemma write_loop_board:
  assumes "0 < wd_cap w" "offset \<le> length data"
  shows "write_loop board_port False stall data next offset w = Some (Inr (), feed (drop offset data) w)"
  using assms
proof (induction "length data - offset" arbitrary: offset w rule: less_induct)
  case less
  show ?case
  proof (cases "length data \<le> offset")
    case True
    then show ?thesis by (simp add: write_loop.simps)
  next
    case False
    let ?s = "slice offset (offset + 4096) data"
    let ?n = "min (wd_cap w) (length ?s)"
    have "length ?s = min 4096 (length data - offset)" by (auto simp: slice_def)
    then have n: "0 < ?n" "offset + ?n \<le> length data" using False less.prems by auto
    have split: "take (wd_cap w) ?s @ drop (offset + ?n) data = drop offset data"
    proof -
      have "take (wd_cap w) ?s = take ?n (drop offset data)"
        by (simp add: slice_def take_drop min_def)
      then show ?thesis by (metis append_take_drop_id drop_drop add.commute)
    qed
    have "write_loop board_port False stall data next offset w =
        write_loop board_port False stall data next (offset + ?n) (feed (take (wd_cap w) ?s) w)"
      using False by (subst write_loop.simps) simp
    also have "\<dots> = Some (Inr (), feed (drop (offset + ?n) data) (feed (take (wd_cap w) ?s) w))"
      by (rule less.hyps) (use n less.prems in auto)
    also have "\<dots> = Some (Inr (), feed (drop offset data) w)" unfolding feed_simps(2) split ..
    finally show ?thesis .
  qed
qed

lemma write_all_board:
  "0 < wd_cap w \<Longrightarrow> write_all board_port False data w = Some (Inr (), feed data (pass_time (wd_tick w) w))"
  by (simp add: write_all_def write_loop_board)

text \<open>The time the bursts take: a clock reading each, and a pause between two.\<close>

definition burst_time :: "rat \<Rightarrow> rat \<Rightarrow> nat \<Rightarrow> rat" where
  "burst_time tick pause n = of_nat n * tick + of_nat (n - 1) * pause"

lemma write_bursts_board:
  "0 < wd_cap w \<Longrightarrow> write_bursts board_port pause cs w =
     Some (Inr (), feed (concat cs) (pass_time (burst_time (wd_tick w) pause (length cs)) w))"
proof (induction cs arbitrary: w)
  case (Cons c cs)
  show ?case
  proof (cases "cs = []")
    case True
    then show ?thesis using Cons.prems by (simp add: bindU_def write_all_board burst_time_def)
  next
    case False
    then have t: "wd_tick w + pause + burst_time (wd_tick w) pause (length cs) = burst_time (wd_tick w) pause (Suc (length cs))"
      by (cases cs) (simp_all add: burst_time_def algebra_simps)
    have "write_bursts board_port pause (c # cs) w =
        write_bursts board_port pause cs (feed c (pass_time (wd_tick w + pause) w))"
      using False Cons.prems by (simp add: bindU_def write_all_board add.commute)
    also have "\<dots> = Some (Inr (), feed (concat (c # cs))
        (pass_time (wd_tick w + pause + burst_time (wd_tick w) pause (length cs)) w))"
      using Cons.IH [of "feed c (pass_time (wd_tick w + pause) w)"] Cons.prems by simp
    finally show ?thesis unfolding t by simp
  qed
qed (simp add: burst_time_def)

lemma write_paced_board:
  "0 < wd_cap w \<Longrightarrow> 0 < n \<Longrightarrow> write_paced board_port data n pause w =
     Some (Inr (), feed data (pass_time (burst_time (wd_tick w) pause (length (chunks n data))) w))"
  by (simp add: write_paced_def write_bursts_board concat_pieces)

section \<open>Reading from the board\<close>

lemma read_until_board:
  assumes "tx_of w \<noteq> []" "list_ex (\<lambda>m. occurs m (take 4096 (tx_of w))) markers" "0 \<le> wd_tick w" "2 * wd_tick w < timeout"
  shows "read_until board_port markers timeout w =
    Some (Inr (take 4096 (tx_of w)), set_tx (drop 4096 (tx_of w)) (pass_time (3 * wd_tick w) w))"
proof -
  have "wd_tick w < timeout" using assms(3,4) by linarith
  then show ?thesis
    using assms by (simp add: read_until_def read_loop.simps [of board_port] not_le not_less add.commute mult.commute)
qed

lemma read_until_console:
  assumes "tx_of w = []" "bd_stage (wd_board w) = Booted" "wd_console w \<noteq> []"
    "list_ex (\<lambda>m. occurs m (take 4096 (wd_console w))) markers" "0 \<le> wd_tick w" "2 * wd_tick w < timeout"
  shows "\<exists>w'. read_until board_port markers timeout w = Some (Inr (take 4096 (wd_console w)), w') \<and>
    bd_mem (wd_board w') = bd_mem (wd_board w) \<and> bd_stage (wd_board w') = Booted"
proof -
  let ?w = "pass_time (3 * wd_tick w) w"
  have r: "p_readable board_port t ?w = (True, (set_tx (wd_console w) ?w)\<lparr>wd_console := []\<rparr>)" for t
    using assms(1-3) by (simp add: board_port_def)
  have "wd_tick w < timeout" using assms(5,6) by linarith
  then have "read_until board_port markers timeout w = Some (Inr (take 4096 (wd_console w)),
      set_tx (drop 4096 (wd_console w)) ((set_tx (wd_console w) ?w)\<lparr>wd_console := []\<rparr>))"
    using assms r by (simp add: read_until_def read_loop.simps [of board_port] not_le not_less mult.commute tx_of_def)
  then show ?thesis using assms(2) by (simp add: set_tx_def pass_time_def)
qed

lemma ack_loop_board:
  assumes "tx_of w = ds @ ascii ''+'' @ rest" "\<forall>d \<in> set ds. [d] \<noteq> ascii ''+''" "0 \<le> wd_tick w"
    "wd_clock w + (2 * of_nat (length ds) + 2) * wd_tick w < deadline"
  shows "ack_loop board_port deadline w = Some (Inr (), set_tx rest (pass_time ((2 * of_nat (length ds) + 2) * wd_tick w) w))"
  using assms
proof (induction ds arbitrary: w)
  case Nil
  have "wd_clock w < deadline" "wd_clock w + 2 * wd_tick w < deadline" using Nil.prems(3,4) by auto
  then show ?case using Nil by (subst ack_loop.simps) (simp add: ascii_def not_le not_less add.commute mult.commute)
next
  case (Cons d ds)
  let ?w = "set_tx (ds @ ascii ''+'' @ rest) (pass_time (2 * wd_tick w) w)"
  have step: "(2 * of_nat (length (d # ds)) + 2) * wd_tick w = 2 * wd_tick w + (2 * of_nat (length ds) + 2) * wd_tick w"
    by (simp add: algebra_simps)
  have "0 \<le> (2 * of_nat (length ds) + 2) * wd_tick w" using Cons.prems(3) by simp
  with Cons.prems(4) step Cons.prems(3) have t: "wd_clock w < deadline" "wd_clock w + 2 * wd_tick w < deadline"
    "wd_clock w + wd_tick w < deadline" by linarith+
  have "ack_loop board_port deadline w = ack_loop board_port deadline ?w"
    using Cons.prems(1,2) t by (subst ack_loop.simps) (simp add: not_le not_less mult.commute)
  also have "\<dots> = Some (Inr (), set_tx rest (pass_time ((2 * of_nat (length ds) + 2) * wd_tick ?w) ?w))"
    by (rule Cons.IH) (use Cons.prems step in \<open>auto simp: algebra_simps\<close>)
  finally show ?case unfolding step by (simp add: add.commute)
qed

lemma wait_for_ack_board:
  assumes "tx_of w = ds @ ascii ''+'' @ rest" "\<forall>d \<in> set ds. [d] \<noteq> ascii ''+''" "0 \<le> wd_tick w"
    "(2 * of_nat (length ds) + 3) * wd_tick w < timeout"
  shows "wait_for_ack board_port timeout w =
    Some (Inr (), set_tx rest (pass_time ((2 * of_nat (length ds) + 3) * wd_tick w) w))"
proof -
  have t: "(2 * of_nat (length ds) + 3) * wd_tick w = wd_tick w + (2 * of_nat (length ds) + 2) * wd_tick w"
    by (simp add: algebra_simps)
  have "ack_loop board_port (wd_clock w + timeout) (pass_time (wd_tick w) w) = Some (Inr (), set_tx rest (pass_time
      ((2 * of_nat (length ds) + 2) * wd_tick (pass_time (wd_tick w) w)) (pass_time (wd_tick w) w)))"
    by (rule ack_loop_board) (use assms t in auto)
  then show ?thesis unfolding t by (simp add: wait_for_ack_def)
qed

end
