(* ===== verification/UartProps.thy ===== *)
theory UartProps
  imports UartBoard
begin

unbundle bit_operations_syntax

text \<open>
  The host tool and the board's loader together: what the host writes is the header and the image, the board
  stores exactly the image, and a transfer on a working line reaches the shell prompt.
\<close>

section \<open>Assembling words\<close>

lemma le_val_snoc: "le_val (bs @ [b]) = le_val bs + 256 ^ length bs * unat b"
  by (induction bs) (simp_all add: algebra_simps)

lemma word_append_byte:
  assumes "length bs < 8"
  shows "word_of_nat (le_val bs) OR push_bit (8 * length bs) (ucast b) = (word_of_nat (le_val (bs @ [b])) :: 64 word)"
proof -
  let ?a = "word_of_nat (le_val bs) :: 64 word"
  have small: "le_val bs < 2 ^ (8 * length bs)" using le_val_less [of bs] by (simp add: power_mult)
  have "\<not> bit ?a n" if "8 * length bs \<le> n" for n
  proof -
    have "(2 :: nat) ^ (8 * length bs) \<le> 2 ^ n" using that by (rule power_increasing) simp
    with small have "le_val bs < 2 ^ n" by (rule less_le_trans)
    then have "\<not> bit (le_val bs) n" by (simp add: bit_iff_odd)
    then show ?thesis by (simp add: bit_simps)
  qed
  then have A: "?a OR push_bit (8 * length bs) (ucast b) = ?a + push_bit (8 * length bs) (ucast b)"
    by (intro disjunctive_add [symmetric]) (auto simp: bit_push_bit_iff not_le)
  have B: "push_bit (8 * length bs) (ucast b) = (word_of_nat (256 ^ length bs * unat b) :: 64 word)"
  proof -
    have "(2 :: 64 word) ^ (8 * length bs) = 256 ^ length bs" unfolding power_mult by simp
    then show ?thesis by (simp add: push_bit_eq_mult mult.commute)
  qed
  show ?thesis unfolding A unfolding B le_val_snoc of_nat_add ..
qed

lemma stored_bytes:
  assumes "length bs = n" "n \<le> 8"
  shows "le_bytes n (unat (word_of_nat (le_val bs) :: 64 word)) = bs"
proof -
  have "le_val bs < 256 ^ n" using le_val_less [of bs] assms(1) by simp
  also have "(256 :: nat) ^ n \<le> 256 ^ 8" using assms(2) by (intro power_increasing) simp_all
  finally have "unat (word_of_nat (le_val bs) :: 64 word) = le_val bs" by (simp add: unat_of_nat)
  then show ?thesis using assms(1) by auto
qed

section \<open>The payload on the board\<close>

definition dots :: "byte list \<Rightarrow> nat \<Rightarrow> byte list" where
  "dots img i = (if (length img - i) mod 65536 = 0 then ascii ''.'' else [])"

text \<open>The loader's state after \<open>i\<close> bytes of the image.\<close>

definition payload_inv :: "byte list \<Rightarrow> nat \<Rightarrow> board \<Rightarrow> bool" where
  "payload_inv img i bd \<longleftrightarrow>
     bd_stage bd = Payload \<and> i < length img \<and> bd_left bd = length img - i \<and> bd_block bd = i mod 1024 \<and>
     bd_count bd = i mod 8 \<and> bd_mem bd = take (i - i mod 8) img \<and>
     bd_word bd = word_of_nat (le_val (slice (i - i mod 8) i img)) \<and>
     bd_crc bd = foldl crc_byte (- 1) (take i img) \<and> bd_expected bd = crc32 img"

lemma slice_snoc: "j \<le> i \<Longrightarrow> i < length xs \<Longrightarrow> slice j (Suc i) xs = slice j i xs @ [xs ! i]"
  by (simp add: slice_def take_Suc_conv_app_nth Suc_diff_le)

lemma take_slice: "j \<le> i \<Longrightarrow> take j xs @ slice j i xs = take i xs"
  by (metis append_take_drop_id le_add_diff_inverse slice_def take_add)

lemma length_slice_le: "j \<le> i \<Longrightarrow> i \<le> length xs \<Longrightarrow> length (slice j i xs) = i - j"
  by (simp add: slice_def)

lemma mod_1024_8: "(i :: nat) mod 1024 mod 8 = i mod 8"
  by (simp add: mod_mod_cancel)

text \<open>The common part of a payload byte, before the word is stored.\<close>

lemma payload_word:
  assumes "payload_inv img i bd"
  shows "bd_word bd OR push_bit (8 * bd_count bd) (ucast (img ! i)) =
    word_of_nat (le_val (slice (i - i mod 8) (Suc i) img))"
proof -
  have i: "i < length img" using assms by (simp add: payload_inv_def)
  have l: "length (slice (i - i mod 8) i img) = i mod 8" using i by (simp add: length_slice_le)
  show ?thesis
    using word_append_byte [of "slice (i - i mod 8) i img" "img ! i"] assms i l by (simp add: payload_inv_def slice_snoc)
qed

definition received :: "byte list \<Rightarrow> nat \<Rightarrow> board \<Rightarrow> board" where
  "received img i bd = bd\<lparr>bd_tx := bd_tx bd @ dots img (Suc i), bd_left := length img - Suc i,
     bd_block := Suc (i mod 1024), bd_count := Suc (i mod 8),
     bd_word := word_of_nat (le_val (slice (i - i mod 8) (Suc i) img)), bd_crc := foldl crc_byte (- 1) (take (Suc i) img)\<rparr>"

lemma payload_byte_inv:
  assumes inv: "payload_inv img i bd" and four: "4 dvd length img"
  shows "payload_byte (img ! i) bd =
    (if Suc (i mod 8) = 8 \<or> Suc i = length img then word_stored ((received img i bd)\<lparr>bd_mem := take (Suc i) img\<rparr>)
     else received img i bd)"
proof -
  note p = inv [unfolded payload_inv_def]
  have crc: "crc_byte (foldl crc_byte (- 1) (take i img)) (img ! i) = foldl crc_byte (- 1) (take (Suc i) img)"
    using p by (simp add: take_Suc_conv_app_nth)
  let ?s = "slice (i - i mod 8) (Suc i) img"
  have "length ?s = Suc i - (i - i mod 8)" by (rule length_slice_le) (use p in auto)
  also have "\<dots> = Suc (i mod 8)" using mod_less_eq_dividend [of i 8] by linarith
  finally have len: "length ?s = Suc (i mod 8)" .
  have mem: "take (i - i mod 8) img @ ?s = take (Suc i) img" by (rule take_slice) simp
  have full: "take (i - i mod 8) img @ le_bytes 8 (unat (word_of_nat (le_val ?s) :: 64 word)) = take (Suc i) img"
    if "Suc (i mod 8) = 8" using stored_bytes [of ?s 8] len that mem by simp
  have half: "take (i - i mod 8) img @ le_bytes 4 (unat (word_of_nat (le_val ?s) :: 64 word)) = take (Suc i) img"
    if "Suc i = length img" "Suc (i mod 8) \<noteq> 8"
  proof -
    have "Suc (i mod 8) = 4" using four that by presburger
    then show ?thesis using stored_bytes [of ?s 4] len mem by simp
  qed
  have left: "length img - Suc i = 0 \<longleftrightarrow> Suc i = length img" using p by auto
  have r: "take_byte (img ! i) bd = received img i bd"
    using p payload_word [OF inv] crc by (simp add: take_byte_def received_def Let_def dots_def puts_def)
  have mem0: "bd_mem (received img i bd) = take (i - i mod 8) img" using p by (simp add: received_def)
  show ?thesis
  proof (cases "Suc (i mod 8) = 8")
    case True
    then show ?thesis unfolding payload_byte_def Let_def r mem0 using full by (simp add: received_def)
  next
    case False
    then show ?thesis unfolding payload_byte_def Let_def r mem0 using half left by (simp add: received_def)
  qed
qed

lemma payload_step:
  assumes inv: "payload_inv img i bd" and four: "4 dvd length img" and more: "Suc i < length img"
  shows "payload_inv img (Suc i) (board_byte bd (img ! i)) \<and>
    bd_tx (board_byte bd (img ! i)) =
      bd_tx bd @ dots img (Suc i) @ (if Suc i mod 1024 = 0 then ascii ''+'' else [])"
proof -
  note p = inv [unfolded payload_inv_def]
  have b: "board_byte bd (img ! i) = payload_byte (img ! i) bd" using p by (simp add: board_byte_def)
  show ?thesis
  proof (cases "Suc (i mod 8) = 8")
    case True
    then have "Suc i mod 8 = 0" by (simp add: mod_Suc)
    moreover have "Suc (i mod 1024) = 1024 \<longleftrightarrow> Suc i mod 1024 = 0" by (simp add: mod_Suc)
    moreover have "Suc (i mod 1024) \<noteq> 1024 \<Longrightarrow> Suc (i mod 1024) = Suc i mod 1024" by (simp add: mod_Suc)
    ultimately show ?thesis
      unfolding b payload_byte_inv [OF inv four]
      using p more True
      by (cases "Suc (i mod 1024) = 1024") (simp_all add: received_def word_stored_def Let_def puts_def payload_inv_def slice_def)
  next
    case False
    then have m: "Suc (i mod 8) = Suc i mod 8" by (simp add: mod_Suc)
    have "Suc i mod 1024 \<noteq> 0"
    proof
      assume "Suc i mod 1024 = 0"
      then have "Suc i mod 8 = 0" using mod_1024_8 [of "Suc i"] by simp
      then show False using m by simp
    qed
    moreover from this have "Suc (i mod 1024) = Suc i mod 1024" by (simp add: mod_Suc split: if_splits)
    moreover have "i - i mod 8 = Suc i - Suc i mod 8" unfolding m [symmetric] by simp
    moreover note m
    ultimately show ?thesis
      unfolding b payload_byte_inv [OF inv four]
      using p more False by (simp add: received_def payload_inv_def)
  qed
qed

lemma payload_last:
  assumes inv: "payload_inv img i bd" and four: "4 dvd length img" and last: "Suc i = length img"
  shows "bd_stage (board_byte bd (img ! i)) = Booted \<and> bd_mem (board_byte bd (img ! i)) = img \<and>
    bd_tx (board_byte bd (img ! i)) = bd_tx bd @ ascii ''.'' @ ascii ''+'' @ pass_message"
proof -
  note p = inv [unfolded payload_inv_def]
  have b: "board_byte bd (img ! i) = payload_byte (img ! i) bd" using p by (simp add: board_byte_def)
  have "unat (NOT (foldl crc_byte (- 1) (take (Suc i) img))) = crc32 img" by (simp add: last crc32_def)
  then show ?thesis
    unfolding b payload_byte_inv [OF inv four]
    using p last by (simp add: received_def word_stored_def Let_def puts_def end_of_image_def dots_def)
qed

text \<open>A run of bytes inside the payload, and the dots it makes the board send.\<close>

lemma payload_run:
  assumes "payload_inv img i bd" "4 dvd length img" "i + n < length img" "\<And>j. i < j \<Longrightarrow> j < i + n \<Longrightarrow> j mod 1024 \<noteq> 0"
  shows "\<exists>ds. payload_inv img (i + n) (foldl board_byte bd (slice i (i + n) img)) \<and> set ds \<subseteq> set (ascii ''.'') \<and> length ds \<le> n \<and>
    bd_tx (foldl board_byte bd (slice i (i + n) img)) =
      bd_tx bd @ ds @ (if 0 < n \<and> (i + n) mod 1024 = 0 then ascii ''+'' else [])"
  using assms(3,4)
proof (induction n)
  case 0
  then show ?case using assms(1) by (simp add: slice_def)
next
  case (Suc n)
  have "j mod 1024 \<noteq> 0" if "i < j" "j < i + n" for j using Suc.prems(2) that by simp
  then obtain ds where ds: "payload_inv img (i + n) (foldl board_byte bd (slice i (i + n) img))" "set ds \<subseteq> set (ascii ''.'')"
    "length ds \<le> n" "bd_tx (foldl board_byte bd (slice i (i + n) img)) =
      bd_tx bd @ ds @ (if 0 < n \<and> (i + n) mod 1024 = 0 then ascii ''+'' else [])"
    using Suc.IH Suc.prems(1) by auto
  have no_ack: "\<not> (0 < n \<and> (i + n) mod 1024 = 0)" using Suc.prems(2) [of "i + n"] by (cases "n = 0") auto
  have split: "slice i (i + Suc n) img = slice i (i + n) img @ [img ! (i + n)]" using Suc.prems(1) by (simp add: slice_snoc)
  have more: "Suc (i + n) < length img" using Suc.prems(1) by simp
  note step = payload_step [OF ds(1) assms(2) more]
  have "set (dots img (Suc (i + n))) \<subseteq> set (ascii ''.'')" "length (dots img (Suc (i + n))) \<le> 1" by (auto simp: dots_def ascii_def)
  moreover have tx: "bd_tx (foldl board_byte bd (slice i (i + n) img)) = bd_tx bd @ ds" using ds(4) no_ack by simp
  moreover have fold: "foldl board_byte bd (slice i (i + Suc n) img) =
      board_byte (foldl board_byte bd (slice i (i + n) img)) (img ! (i + n))" unfolding split by simp
  ultimately show ?case
    unfolding fold
    by (intro exI [of _ "ds @ dots img (Suc (i + n))"] conjI) (use ds(2,3) step in simp_all)
qed

section \<open>Sending the blocks\<close>

text \<open>What the transfer needs of the line: it moves bytes, and its clock is quick enough for the time limits.\<close>

definition line_ok :: "world \<Rightarrow> bool" where
  "line_ok w \<longleftrightarrow> 0 < wd_cap w \<and> 0 \<le> wd_tick w \<and> 2060 * wd_tick w < 10"

lemma payload_inv_tx [simp]: "payload_inv img i (bd\<lparr>bd_tx := tx\<rparr>) = payload_inv img i bd"
  by (simp add: payload_inv_def)

lemma ack_in_time:
  assumes "line_ok w" "tx_of w = ds @ ascii ''+'' @ rest" "set ds \<subseteq> set (ascii ''.'')" "length ds \<le> 1024"
  shows "\<exists>t. wait_for_ack board_port 10 w = Some (Inr (), set_tx rest (pass_time t w))"
proof -
  have "(2 * of_nat (length ds) + 3) * wd_tick w \<le> 2060 * wd_tick w"
    using assms(1,4) by (intro mult_right_mono) (simp_all add: line_ok_def)
  then have "(2 * of_nat (length ds) + 3) * wd_tick w < 10" using assms(1) by (simp add: line_ok_def)
  moreover have "\<forall>d \<in> set ds. [d] \<noteq> ascii ''+''" using assms(3) by (auto simp: ascii_def)
  ultimately show ?thesis using wait_for_ack_board [OF assms(2), of 10] assms(1) by (auto simp: line_ok_def)
qed

lemma send_block:
  assumes "line_ok w" "0 < lo_burst_bytes lo"
    "bd_tx (foldl board_byte (wd_board w) b) = ds @ ascii ''+'' @ rest" "set ds \<subseteq> set (ascii ''.'')" "length ds \<le> 1024"
  shows "\<exists>t. send_blocks board_port lo (b # bs) w = send_blocks board_port lo bs (set_tx rest (pass_time t (feed b w)))"
proof -
  let ?w = "feed b (pass_time (burst_time (wd_tick w) (lo_burst_pause lo) (length (chunks (nat (lo_burst_bytes lo)) b))) w)"
  have p: "write_paced board_port b (nat (lo_burst_bytes lo)) (lo_burst_pause lo) w = Some (Inr (), ?w)"
    by (rule write_paced_board) (use assms(1,2) in \<open>simp_all add: line_ok_def\<close>)
  have "line_ok ?w" "tx_of ?w = ds @ ascii ''+'' @ rest" using assms(1,3) by (simp_all add: line_ok_def tx_of_def)
  from ack_in_time [OF this assms(4,5)] obtain t where "wait_for_ack board_port 10 ?w = Some (Inr (), set_tx rest (pass_time t ?w))" ..
  then have "send_blocks board_port lo (b # bs) w = send_blocks board_port lo bs (set_tx rest (pass_time t ?w))"
    by (simp add: bindU_def p)
  then show ?thesis by (metis feed_simps(8) pass_time_simps(7))
qed

lemma send_blocks_board:
  assumes "payload_inv img i (wd_board w)" "1024 dvd i" "tx_of w = []" "4 dvd length img" "line_ok w" "0 < lo_burst_bytes lo"
  shows "\<exists>w'. send_blocks board_port lo (chunks BLOCK_BYTES (drop i img)) w = Some (Inr (), w') \<and>
    bd_stage (wd_board w') = Booted \<and> bd_mem (wd_board w') = img \<and> tx_of w' = pass_message \<and>
    wd_console w' = wd_console w \<and> wd_tick w' = wd_tick w"
  using assms
proof (induction "length img - i" arbitrary: i w rule: less_induct)
  case less
  note prems = less.prems
  have i: "i < length img" using prems(1) by (simp add: payload_inv_def)
  let ?b = "take 1024 (drop i img)"
  have cs: "chunks BLOCK_BYTES (drop i img) = ?b # chunks BLOCK_BYTES (drop (i + 1024) img)"
    using i by (subst chunks.simps) (simp add: BLOCK_BYTES_def add.commute)
  have quiet: "j mod 1024 \<noteq> 0" if "i < j" "j < i + 1024" for j
  proof
    assume "j mod 1024 = 0"
    then have "1024 dvd j" by (rule mod_0_imp_dvd)
    then obtain l where "j = 1024 * l" by (rule dvdE)
    moreover obtain k where "i = 1024 * k" using prems(2) by (rule dvdE)
    ultimately have "1024 * l < 1024 * Suc k" "1024 * k < 1024 * l" using that by simp_all
    then show False by simp
  qed
  have tx0: "bd_tx (wd_board w) = []" using prems(3) by (simp add: tx_of_def)
  show ?case
  proof (cases "i + 1024 < length img")
    case True
    have b: "?b = slice i (i + 1024) img" by (simp add: slice_def)
    from payload_run [OF prems(1,4) True quiet] obtain ds where
      ds: "payload_inv img (i + 1024) (foldl board_byte (wd_board w) ?b)" "set ds \<subseteq> set (ascii ''.'')" "length ds \<le> 1024"
      "bd_tx (foldl board_byte (wd_board w) ?b) = ds @ ascii ''+'' @ []"
      using prems(2) tx0 unfolding b by (auto simp: mod_0_imp_dvd)
    from send_block [OF prems(5,6) ds(4,2,3)] obtain t where
      s: "send_blocks board_port lo (?b # chunks BLOCK_BYTES (drop (i + 1024) img)) w =
        send_blocks board_port lo (chunks BLOCK_BYTES (drop (i + 1024) img)) (set_tx [] (pass_time t (feed ?b w)))" ..
    have "\<exists>w'. send_blocks board_port lo (chunks BLOCK_BYTES (drop (i + 1024) img)) (set_tx [] (pass_time t (feed ?b w))) =
        Some (Inr (), w') \<and> bd_stage (wd_board w') = Booted \<and> bd_mem (wd_board w') = img \<and> tx_of w' = pass_message \<and>
        wd_console w' = wd_console (set_tx [] (pass_time t (feed ?b w))) \<and> wd_tick w' = wd_tick (set_tx [] (pass_time t (feed ?b w)))"
      by (rule less.hyps) (use True ds(1) prems in \<open>auto simp: line_ok_def\<close>)
    then show ?thesis unfolding cs s by simp
  next
    case False
    define n where "n = length img - i - 1"
    have n: "i + n < length img" "Suc (i + n) = length img" "n < 1024" using i False by (auto simp: n_def)
    have b: "?b = slice i (i + n) img @ [img ! (i + n)]"
    proof -
      have "?b = slice i (Suc (i + n)) img" using False n(2) by (simp add: slice_def)
      also have "\<dots> = slice i (i + n) img @ [img ! (i + n)]" by (rule slice_snoc) (use n(1) in simp_all)
      finally show ?thesis .
    qed
    have quiet': "j mod 1024 \<noteq> 0" if "i < j" "j < i + n" for j using quiet that n(3) by simp
    from payload_run [OF prems(1,4) n(1) quiet', unfolded tx0 append_Nil] obtain ds where
      ds: "payload_inv img (i + n) (foldl board_byte (wd_board w) (slice i (i + n) img))" "set ds \<subseteq> set (ascii ''.'')"
      "length ds \<le> n" "bd_tx (foldl board_byte (wd_board w) (slice i (i + n) img)) =
        ds @ (if 0 < n \<and> (i + n) mod 1024 = 0 then ascii ''+'' else [])"
      by blast
    have "\<not> (0 < n \<and> (i + n) mod 1024 = 0)" using quiet [of "i + n"] n(3) by (cases "n = 0") auto
    with ds(4) have tx: "bd_tx (foldl board_byte (wd_board w) (slice i (i + n) img)) = ds" by auto
    have fold: "foldl board_byte (wd_board w) ?b =
        board_byte (foldl board_byte (wd_board w) (slice i (i + n) img)) (img ! (i + n))" unfolding b by simp
    note last = payload_last [OF ds(1) prems(4) n(2), folded fold, unfolded tx]
    have "bd_tx (foldl board_byte (wd_board w) ?b) = (ds @ ascii ''.'') @ ascii ''+'' @ pass_message" using last by simp
    from send_block [OF prems(5,6) this] ds(2,3) n(3) obtain t where
      "send_blocks board_port lo (?b # chunks BLOCK_BYTES (drop (i + 1024) img)) w =
        send_blocks board_port lo (chunks BLOCK_BYTES (drop (i + 1024) img)) (set_tx pass_message (pass_time t (feed ?b w)))"
      by (auto simp: ascii_def)
    moreover have "chunks BLOCK_BYTES (drop (i + 1024) img) = []" using False by (subst chunks.simps) simp
    ultimately show ?thesis unfolding cs using last by simp
  qed
qed

section \<open>The header\<close>

lemma magic_bytes: "MAGIC = [0x4F, 0x52, 0x56, 0x36, 0x34, 0x4C, 0x4E, 0x58]"
  by code_simp

lemma magic_fed: "bd_stage bd = Magic 0 \<Longrightarrow> foldl board_byte bd MAGIC = bd\<lparr>bd_stage := Fields []\<rparr>"
  by (simp add: magic_bytes board_byte_def)

lemma fields_fed:
  assumes "length hs = 8" "bd_stage bd = Fields []"
  shows "foldl board_byte bd hs = accept_header hs (bd\<lparr>bd_stage := Fields (butlast hs)\<rparr>)"
proof -
  from assms(1) obtain a b c d e f g h where "hs = [a, b, c, d, e, f, g, h]"
    by (auto simp: length_Suc_conv eval_nat_numeral)
  then show ?thesis using assms(2) by (simp add: board_byte_def)
qed

lemma header_fed:
  assumes "bd_stage bd = Magic 0"
  shows "foldl board_byte bd (load_header img) = accept_header (le_bytes 4 (length img) @ le_bytes 4 (crc32 img))
    (bd\<lparr>bd_stage := Fields (butlast (le_bytes 4 (length img) @ le_bytes 4 (crc32 img)))\<rparr>)"
  using fields_fed [of "le_bytes 4 (length img) @ le_bytes 4 (crc32 img)" "bd\<lparr>bd_stage := Fields []\<rparr>"]
  unfolding load_header_def foldl_append magic_fed [OF assms] by simp

lemma header_accepted:
  assumes "bd_stage bd = Magic 0" "img \<noteq> []" "length img \<le> MAX_IMAGE_BYTES" "4 dvd length img"
  shows "payload_inv img 0 (foldl board_byte bd (load_header img)) \<and>
    bd_tx (foldl board_byte bd (load_header img)) = bd_tx bd @ START"
proof -
  have "length img < 256 ^ 4" using assms(3) by (simp add: MAX_IMAGE_BYTES_def)
  then have "le_val (le_bytes 4 (length img)) = length img" by (rule le_val_le_bytes)
  moreover have "le_val (le_bytes 4 (crc32 img)) = crc32 img" by (rule le_val_le_bytes [OF crc32_less])
  ultimately show ?thesis
    unfolding header_fed [OF assms(1)] using assms(2-4)
    by (simp add: accept_header_def payload_inv_def puts_def MAX_IMAGE_BYTES_def LINUX_MAX_BYTES_def slice_def mod_eq_0_iff_dvd)
qed

lemma length_chunks_1: "length (chunks 1 xs) = length xs"
proof (induction xs)
  case (Cons x xs)
  then show ?case by (subst chunks.simps) simp
qed (simp add: chunks.simps)

lemma length_load_header: "length (load_header img) = 16"
  by (simp add: load_header_def magic_bytes)

lemma messages:
  "occurs START (READY @ START)" "length (READY @ START) \<le> 4096" "pass_message \<noteq> []" "length pass_message \<le> 4096"
  "occurs PASS pass_message" "\<not> occurs FAIL pass_message" "START \<noteq> []"
  by code_simp+

lemma header_phase:
  assumes "wd_board w = board_start" "line_ok w" "img \<noteq> []" "length img \<le> MAX_IMAGE_BYTES" "4 dvd length img"
    "2 * wd_tick w < lo_header_retry lo" "wd_clock w + 19 * wd_tick w + 15 * lo_burst_pause lo < deadline"
  shows "\<exists>w'. header_loop board_port lo (load_header img) START deadline w = Some (Inr (), w') \<and>
    payload_inv img 0 (wd_board w') \<and> tx_of w' = [] \<and> line_ok w' \<and> wd_console w' = wd_console w \<and> wd_tick w' = wd_tick w"
proof -
  let ?h = "load_header img"
  let ?t = "burst_time (wd_tick w) (lo_burst_pause lo) 16"
  let ?w1 = "feed ?h (pass_time ?t w)"
  let ?w2 = "pass_time (wd_tick w) ?w1"
  have t: "?t = 16 * wd_tick w + 15 * lo_burst_pause lo" by (simp add: burst_time_def)
  have s: "bd_stage board_start = Magic 0" "bd_tx board_start = READY" by (simp_all add: board_start_def)
  have p: "write_paced board_port ?h 1 (lo_burst_pause lo) w = Some (Inr (), ?w1)"
    using write_paced_board [of w 1 ?h] assms(2) by (simp add: line_ok_def length_chunks_1 [simplified] length_load_header)
  note acc = header_accepted [OF s(1) assms(3-5), unfolded s(2)]
  have tx: "tx_of ?w2 = READY @ START" using acc assms(1) by (simp add: tx_of_def)
  have "read_until board_port [START] (min (lo_header_retry lo) (deadline - wd_clock ?w1)) ?w2 =
      Some (Inr (take 4096 (tx_of ?w2)), set_tx (drop 4096 (tx_of ?w2)) (pass_time (3 * wd_tick ?w2) ?w2))"
    by (rule read_until_board) (use messages tx assms(2,6,7) t in \<open>auto simp: line_ok_def\<close>)
  then have "header_loop board_port lo ?h START deadline w =
      Some (Inr (), set_tx (drop 4096 (tx_of ?w2)) (pass_time (3 * wd_tick ?w2) ?w2))"
    by (subst header_loop.simps) (simp add: p [simplified])
  then show ?thesis using acc tx messages(2) assms(1,2) by (auto simp: line_ok_def)
qed

lemma await_boot_phase:
  assumes "tx_of w = pass_message" "bd_stage (wd_board w) = Booted" "0 \<le> wd_tick w" "2 * wd_tick w < lo_boot_timeout lo"
    "\<not> lo_hardware_preload lo" "occurs PROMPT (take 4096 (wd_console w))"
  shows "\<exists>w'. await_boot board_port lo w = Some (Inr 0, w') \<and>
    bd_mem (wd_board w') = bd_mem (wd_board w) \<and> bd_stage (wd_board w') = Booted"
proof -
  let ?w0 = "pass_time (wd_tick w) w"
  let ?w1 = "set_tx [] (pass_time (3 * wd_tick w) ?w0)"
  have "read_until board_port [PASS, FAIL] (lo_boot_timeout lo) ?w0 =
      Some (Inr (take 4096 (tx_of ?w0)), set_tx (drop 4096 (tx_of ?w0)) (pass_time (3 * wd_tick ?w0) ?w0))"
    by (rule read_until_board) (use assms messages in simp_all)
  then have r1: "read_until board_port [PASS, FAIL] (lo_boot_timeout lo) ?w0 = Some (Inr pass_message, ?w1)"
    using assms(1) messages(4) by simp
  have "wd_console w \<noteq> []" using assms(6) by (auto simp: PROMPT_def ascii_def)
  then obtain w' where r2: "read_until board_port [PROMPT] (lo_boot_timeout lo) ?w1 = Some (Inr (take 4096 (wd_console ?w1)), w')"
    "bd_mem (wd_board w') = bd_mem (wd_board ?w1)" "bd_stage (wd_board w') = Booted"
    using read_until_console [of ?w1 "[PROMPT]" "lo_boot_timeout lo"] assms by auto
  show ?thesis
    using r2 assms(5) messages(6) by (simp add: await_boot_def bindU_def r1 returnU_def)
qed

text \<open>
  C35: on a line that moves bytes and is quick enough for the time limits, the transfer ends and succeeds: for
  every image the tool accepts whose length is a multiple of four, it reaches the shell prompt and returns 0,
  and the board has booted with exactly that image in its memory.
\<close>

theorem transfer_reaches_prompt:
  assumes "check_arguments lo img = Inr ()" "4 dvd length img" "\<not> lo_hardware_preload lo"
    "wd_board w = board_start" "line_ok w" "occurs PROMPT (take 4096 (wd_console w))"
    "2 * wd_tick w < lo_header_retry lo" "2 * wd_tick w < lo_boot_timeout lo"
    "20 * wd_tick w + 15 * lo_burst_pause lo < lo_ready_timeout lo"
  shows "\<exists>w'. load_image board_port lo img w = Some (Inr 0, w') \<and>
    bd_stage (wd_board w') = Booted \<and> bd_mem (wd_board w') = img"
proof -
  have args: "img \<noteq> []" "length img \<le> MAX_IMAGE_BYTES" "0 < lo_burst_bytes lo"
    using assms(1) by (auto simp: check_arguments_def split: if_splits)
  let ?w0 = "pass_time (wd_tick w) w"
  obtain w1 where h: "header_loop board_port lo (load_header img) START (wd_clock w + lo_ready_timeout lo) ?w0 = Some (Inr (), w1)"
    "payload_inv img 0 (wd_board w1)" "tx_of w1 = []" "line_ok w1" "wd_console w1 = wd_console w" "wd_tick w1 = wd_tick w"
    using header_phase [of ?w0 img lo "wd_clock w + lo_ready_timeout lo"] args assms by (auto simp: line_ok_def)
  have "drop 0 img = img" by simp
  then obtain w2 where s: "send_blocks board_port lo (chunks BLOCK_BYTES img) (pass_time (wd_tick w1) w1) = Some (Inr (), w2)"
    "bd_stage (wd_board w2) = Booted" "bd_mem (wd_board w2) = img" "tx_of w2 = pass_message"
    "wd_console w2 = wd_console w" "wd_tick w2 = wd_tick w"
    using send_blocks_board [of img 0 "pass_time (wd_tick w1) w1" lo] h args assms(2) by (auto simp: line_ok_def)
  obtain w' where f: "await_boot board_port lo w2 = Some (Inr 0, w')"
    "bd_mem (wd_board w') = img" "bd_stage (wd_board w') = Booted"
    using await_boot_phase [OF s(4,2)] s(3,5,6) assms(3,5,6,8) by (auto simp: line_ok_def)
  have "load_image board_port lo img w = Some (Inr 0, w')"
    using assms(1,3) by (simp add: load_image_def transfer_def upload_def Let_def bindU_def h(1) s(1) f(1))
  with f show ?thesis by blast
qed

definition demo_image :: "byte list" where
  "demo_image = replicate 56 0 @ ascii ''RSC'' @ [5] @ replicate 4 7"

definition demo_options :: load_options where
  "demo_options = \<lparr>lo_ready_timeout = 120, lo_boot_timeout = 7200, lo_hardware_preload = False, lo_header_retry = 2,
     lo_burst_bytes = 4, lo_burst_pause = 1 / 1000\<rparr>"

definition demo_world :: world where
  "demo_world = \<lparr>wd_board = board_start, wd_clock = 5, wd_tick = 1 / 100000, wd_cap = 3, wd_console = ascii ''boot'' @ PROMPT\<rparr>"

theorem transfer_reaches_prompt_witness:
  "\<exists>w'. load_image board_port demo_options demo_image demo_world = Some (Inr 0, w') \<and> bd_mem (wd_board w') = demo_image"
proof -
  have "check_arguments demo_options demo_image = Inr ()"
    by (simp add: check_arguments_def demo_options_def demo_image_def ascii_def MAX_IMAGE_BYTES_def slice_def)
  moreover have "4 dvd length demo_image" by (simp add: demo_image_def ascii_def)
  moreover have "occurs PROMPT (take 4096 (wd_console demo_world))" unfolding demo_world_def by code_simp
  ultimately show ?thesis
    using transfer_reaches_prompt [of demo_options demo_image demo_world]
    by (auto simp: demo_options_def demo_world_def line_ok_def)
qed

section \<open>An image the board refuses\<close>

text \<open>
  C37: the tool accepts images of any length up to the limit, but the board refuses every header whose length is
  not a multiple of four: it answers with its header failure and waits for a new magic, without a START line.
\<close>

theorem odd_length_is_refused:
  assumes "check_arguments lo img = Inr ()" "\<not> 4 dvd length img" "bd_stage bd = Magic 0"
  shows "foldl board_byte bd (load_header img) =
    bd\<lparr>bd_tx := bd_tx bd @ header_fail_message @ READY\<rparr> \<and> \<not> occurs START (header_fail_message @ READY)"
proof
  have "length img \<le> MAX_IMAGE_BYTES" using assms(1) by (auto simp: check_arguments_def split: if_splits)
  then have "length img < 256 ^ 4" by (simp add: MAX_IMAGE_BYTES_def)
  then have "le_val (le_bytes 4 (length img)) = length img" by (rule le_val_le_bytes)
  then show "foldl board_byte bd (load_header img) = bd\<lparr>bd_tx := bd_tx bd @ header_fail_message @ READY\<rparr>"
    unfolding header_fed [OF assms(3)] using assms(2,3)
    by (cases bd) (simp add: accept_header_def restart_def puts_def mod_eq_0_iff_dvd)
  show "\<not> occurs START (header_fail_message @ READY)" by code_simp
qed

theorem odd_length_is_refused_witness:
  "bd_tx (foldl board_byte board_start (load_header (demo_image @ [1]))) = READY @ header_fail_message @ READY"
proof -
  have "check_arguments demo_options (demo_image @ [1]) = Inr ()"
    by (simp add: check_arguments_def demo_options_def demo_image_def ascii_def MAX_IMAGE_BYTES_def slice_def)
  moreover have "\<not> 4 dvd length (demo_image @ [1])" by (simp add: demo_image_def ascii_def)
  ultimately show ?thesis
    using odd_length_is_refused [of demo_options "demo_image @ [1]" board_start] by (simp add: board_start_def)
qed

end
