(* ===== verification/BootWatch.thy ===== *)
theory BootWatch
  imports BootSignposts ElfSymbols
begin

text \<open>
  \<open>tools/linux_boot_watch.py\<close>: annotating a live boot log with the functions of its PCs. The input is the list of
  its lines with their ends, the output the list of what is written, in order: the echoed line, an annotation, a
  CSV row. Files and \<open>nm\<close> are arguments; a closed output pipe is not modelled.
\<close>

record watch_config =
  wc_configuration :: string
  wc_csv :: bool
  wc_annotations_only :: bool
  wc_changes_only :: bool

datatype watch_kind = Sample | Signpost

record watch_record =
  wr_kind :: watch_kind
  wr_signpost :: string
  wr_cycles :: int
  wr_instret :: int
  wr_pc :: int

datatype watch_event =
    Echo string
  | Note watch_record "string \<times> string" string
  | Row "string list"

definition WATCH_HEADER :: "string list" where
  "WATCH_HEADER = [''configuration'', ''record'', ''signpost'', ''cycles'', ''instret'', ''pc'', ''image'', ''function'',
     ''function_base'', ''offset'']"

definition sample_of :: "rpos \<Rightarrow> watch_record" where
  "sample_of q = \<lparr>wr_kind = Sample, wr_signpost = [], wr_cycles = group_int 10 ''cycles'' q,
     wr_instret = group_int 10 ''instret'' q, wr_pc = group_int 16 ''pc'' q\<rparr>"

definition signposts_of :: "rpos \<Rightarrow> watch_record list" where
  "signposts_of q =
     (case groups q ''pc'' of
        None \<Rightarrow> []
      | Some _ \<Rightarrow> [\<lparr>wr_kind = Signpost, wr_signpost = group_of ''name'' q, wr_cycles = group_int 10 ''cycles'' q,
                    wr_instret = group_int 10 ''instret'' q, wr_pc = group_int 16 ''pc'' q\<rparr>])"

definition line_records :: "string \<Rightarrow> watch_record list" where
  "line_records line =
     map sample_of (re_finditer SIGNPOST_PROGRESS_RE line) @ concat (map signposts_of (re_finditer EXACT_RE line))"

definition function_of :: "symbol_table list \<Rightarrow> int \<Rightarrow> string \<times> string" where
  "function_of tables pc =
     (case symbolize_pc tables pc of None \<Rightarrow> (''unmapped'', ''unmapped'') | Some s \<Rightarrow> (sp_image s, sp_function s))"

definition kind_name :: "watch_kind \<Rightarrow> string" where
  "kind_name k = (case k of Sample \<Rightarrow> ''SAMPLE'' | Signpost \<Rightarrow> ''SIGNPOST'')"

definition kind_lower :: "watch_kind \<Rightarrow> string" where
  "kind_lower k = (case k of Sample \<Rightarrow> ''sample'' | Signpost \<Rightarrow> ''signpost'')"

definition annotation :: "watch_config \<Rightarrow> symbol_table list \<Rightarrow> watch_record \<Rightarrow> string" where
  "annotation cfg tables r =
     ''FUNCTION '' @ kind_name (wr_kind r) @ '' configuration='' @ wc_configuration cfg @ '' cycles='' @ dec (wr_cycles r) @
     '' instret='' @ dec (wr_instret r) @ '' pc=0x'' @ hex0 16 (wr_pc r) @ '' symbol='' @
     (case symbolize_pc tables (wr_pc r) of None \<Rightarrow> ''unmapped'' | Some s \<Rightarrow> pc_text s) @
     (if wr_signpost r = [] then [] else '' signpost='' @ wr_signpost r)"

definition watch_row :: "watch_config \<Rightarrow> symbol_table list \<Rightarrow> watch_record \<Rightarrow> string list" where
  "watch_row cfg tables r =
     [wc_configuration cfg, kind_lower (wr_kind r), wr_signpost r, dec (wr_cycles r), dec (wr_instret r), ''0x'' @ hex0 16 (wr_pc r)] @
     (case symbolize_pc tables (wr_pc r) of
        None \<Rightarrow> [''unmapped'', ''unmapped'', [], []]
      | Some s \<Rightarrow> [sp_image s, sp_function s, ''0x'' @ hex0 16 (sp_base s), ''0x'' @ hex (sp_offset s)])"

fun watch_records ::
  "watch_config \<Rightarrow> symbol_table list \<Rightarrow> (string \<times> string) option \<Rightarrow> watch_record list \<Rightarrow>
   watch_event list \<times> (string \<times> string) option" where
  "watch_records cfg tables previous [] = ([], previous)"
| "watch_records cfg tables previous (r # rs) =
     (let current = function_of tables (wr_pc r) in
      if wr_kind r = Sample \<and> wc_changes_only cfg \<and> Some current = previous
      then watch_records cfg tables previous rs
      else
        let (events, last_function) =
              watch_records cfg tables (if wr_kind r = Sample then Some current else previous) rs
        in (Note r current (annotation cfg tables r) #
            (if wc_csv cfg then [Row (watch_row cfg tables r)] else []) @ events, last_function))"

fun watch_lines ::
  "watch_config \<Rightarrow> symbol_table list \<Rightarrow> (string \<times> string) option \<Rightarrow> string list \<Rightarrow> watch_event list" where
  "watch_lines cfg tables previous [] = []"
| "watch_lines cfg tables previous (line # lines) =
     (let (events, last_function) = watch_records cfg tables previous (line_records line)
      in (if wc_annotations_only cfg then [] else [Echo line]) @ events @ watch_lines cfg tables last_function lines)"

datatype watch_failure = MissingElf "string list" | SymbolsFailed symbol_error

definition watch ::
  "(string \<Rightarrow> bool) \<Rightarrow> (string \<Rightarrow> string option) \<Rightarrow> watch_config \<Rightarrow> elf_source list \<Rightarrow> string list \<Rightarrow>
   watch_failure + watch_event list" where
  "watch is_file nm cfg elfs lines =
     (let missing = map img_path (filter (\<lambda>e. \<not> is_file (img_path e)) elfs) in
      if missing \<noteq> [] then Inl (MissingElf missing)
      else case load_symbol_tables nm elfs of
        Inl e \<Rightarrow> Inl (SymbolsFailed e)
      | Inr tables \<Rightarrow> Inr ((if wc_csv cfg then [Row WATCH_HEADER] else []) @ watch_lines cfg tables None lines))"

section \<open>What is passed on and what is annotated\<close>

definition echoes :: "watch_event list \<Rightarrow> string list" where
  "echoes es = concat (map (\<lambda>e. case e of Echo s \<Rightarrow> [s] | _ \<Rightarrow> []) es)"

definition noted :: "watch_kind \<Rightarrow> watch_event list \<Rightarrow> (watch_record \<times> string \<times> string) list" where
  "noted k es = concat (map (\<lambda>e. case e of Note r f _ \<Rightarrow> if wr_kind r = k then [(r, f)] else [] | _ \<Rightarrow> []) es)"

definition of_kind :: "watch_kind \<Rightarrow> watch_record list \<Rightarrow> watch_record list" where
  "of_kind k rs = filter (\<lambda>r. wr_kind r = k) rs"

lemma event_lists [simp]:
  "echoes [] = []" "noted k [] = []" "of_kind k [] = []"
  "echoes (xs @ ys) = echoes xs @ echoes ys" "noted k (xs @ ys) = noted k xs @ noted k ys"
  "of_kind k (rs @ ss) = of_kind k rs @ of_kind k ss"
  "echoes (Echo s # es) = s # echoes es" "echoes (Note r f t # es) = echoes es" "echoes (Row c # es) = echoes es"
  "noted k (Echo s # es) = noted k es" "noted k (Row c # es) = noted k es"
  "noted k (Note r f t # es) = (if wr_kind r = k then (r, f) # noted k es else noted k es)"
  "of_kind k (r # rs) = (if wr_kind r = k then r # of_kind k rs else of_kind k rs)"
  by (simp_all add: echoes_def noted_def of_kind_def)

text \<open>The functions of the samples, with a repetition of the previous one left out.\<close>

fun changes :: "'a option \<Rightarrow> 'a list \<Rightarrow> 'a list" where
  "changes p [] = []"
| "changes p (x # xs) = (if p = Some x then changes p xs else x # changes (Some x) xs)"

definition last_or :: "'a option \<Rightarrow> 'a list \<Rightarrow> 'a option" where
  "last_or p xs = (if xs = [] then p else Some (last xs))"

lemma changes_append: "changes p (xs @ ys) = changes p xs @ changes (last_or p xs) ys"
  by (induction p xs rule: changes.induct) (auto simp: last_or_def)

lemma changes_remdups: "changes (Some x) xs = tl (remdups_adj (x # xs)) \<and> changes None xs = remdups_adj xs"
proof (induction xs arbitrary: x)
  case (Cons y ys)
  have c: "changes (Some y) ys = tl (remdups_adj (y # ys))" using Cons by blast
  have "remdups_adj (y # ys) = y # tl (remdups_adj (y # ys))" by (simp add: remdups_adj_Cons split: list.split)
  then show ?case using c by auto
qed simp

lemma changes_None: "changes None xs = remdups_adj xs"
  by (rule changes_remdups [THEN conjunct2])

lemma watch_records_facts:
  "snd (watch_records cfg tables p rs) = last_or p (map (\<lambda>r. function_of tables (wr_pc r)) (of_kind Sample rs)) \<and>
   echoes (fst (watch_records cfg tables p rs)) = [] \<and>
   map fst (noted Signpost (fst (watch_records cfg tables p rs))) = of_kind Signpost rs \<and>
   map snd (noted Sample (fst (watch_records cfg tables p rs))) =
     (if wc_changes_only cfg then changes p (map (\<lambda>r. function_of tables (wr_pc r)) (of_kind Sample rs))
      else map (\<lambda>r. function_of tables (wr_pc r)) (of_kind Sample rs))"
proof (induction rs arbitrary: p)
  case (Cons r rs)
  show ?case
    using Cons [of "if wr_kind r = Sample then Some (function_of tables (wr_pc r)) else p"] Cons [of p]
    by (cases "wr_kind r") (auto simp: Let_def last_or_def split: prod.split)
qed (simp add: last_or_def)

lemma watch_lines_facts:
  "echoes (watch_lines cfg tables p lines) = (if wc_annotations_only cfg then [] else lines) \<and>
   map fst (noted Signpost (watch_lines cfg tables p lines)) = of_kind Signpost (concat (map line_records lines)) \<and>
   map snd (noted Sample (watch_lines cfg tables p lines)) =
     (let fs = map (\<lambda>r. function_of tables (wr_pc r)) (of_kind Sample (concat (map line_records lines)))
      in if wc_changes_only cfg then changes p fs else fs)"
proof (induction lines arbitrary: p)
  case (Cons line lines)
  obtain es q where w: "watch_records cfg tables p (line_records line) = (es, q)" by fastforce
  show ?case
    using watch_records_facts [of cfg tables p "line_records line"] Cons [of q] unfolding w
    by (simp add: w Let_def changes_append)
qed simp

text \<open>
  C38: the watcher passes the log on unchanged (or not at all, when asked for annotations only), annotates every
  exact signpost, and annotates the samples' functions in order: every one of them, or, when asked for changes,
  each exactly where it differs from the sample before it, over the whole log and not only within a line.
\<close>

theorem watch_annotates:
  assumes "watch is_file nm cfg elfs lines = Inr es"
  shows "\<exists>tables. load_symbol_tables nm elfs = Inr tables \<and>
    echoes es = (if wc_annotations_only cfg then [] else lines) \<and>
    map fst (noted Signpost es) = of_kind Signpost (concat (map line_records lines)) \<and>
    map snd (noted Sample es) =
      (let fs = map (\<lambda>r. function_of tables (wr_pc r)) (of_kind Sample (concat (map line_records lines)))
       in if wc_changes_only cfg then remdups_adj fs else fs)"
proof -
  from assms obtain tables where t: "load_symbol_tables nm elfs = Inr tables"
    "es = (if wc_csv cfg then [Row WATCH_HEADER] else []) @ watch_lines cfg tables None lines"
    by (auto simp: watch_def Let_def split: if_splits sum.splits)
  then show ?thesis
    using watch_lines_facts [of cfg tables None lines] changes_None by (intro exI [of _ tables]) (auto simp: Let_def)
qed

definition watch_log :: "string list" where
  "watch_log = [''OpenSBI progress cycles=5 instret=9 x pc=8'' @ [CHR 0x0A], ''OpenSBI progress cycles=7 instret=9 x pc=9'']"

theorem watch_annotates_witness:
  "\<exists>es. watch (\<lambda>_. True) (\<lambda>_. None) \<lparr>wc_configuration = ''c'', wc_csv = False, wc_annotations_only = False,
      wc_changes_only = True\<rparr> [] watch_log = Inr es \<and> echoes es = watch_log \<and> length (noted Sample es) = 1"
proof -
  let ?cfg = "\<lparr>wc_configuration = ''c'', wc_csv = False, wc_annotations_only = False, wc_changes_only = True\<rparr>"
  have w: "watch (\<lambda>_. True) (\<lambda>_. None) ?cfg [] watch_log = Inr (watch_lines ?cfg [] None watch_log)"
    by (simp add: watch_def load_symbol_tables_def)
  have rs: "map wr_kind (concat (map line_records watch_log)) = [Sample, Sample]" unfolding watch_log_def by code_simp
  have two: "\<exists>a b. of_kind Sample (concat (map line_records watch_log)) = [a, b]"
    using rs by (auto simp: of_kind_def map_eq_Cons_conv)
  have f: "function_of [] pc = (''unmapped'', ''unmapped'')" for pc by (simp add: function_of_def symbolize_pc_def)
  have "length (map snd (noted Sample (watch_lines ?cfg [] None watch_log))) = 1"
    using watch_annotates [OF w] two by (auto simp: load_symbol_tables_def f)
  then show ?thesis using watch_annotates [OF w] w by auto
qed

end
