(* ===== verification/Gem5Stats.thy ===== *)
theory Gem5Stats
  imports PyCounter
begin

text \<open>
  The gem5 summaries: \<open>tools/gem5_hpi_report.py\<close> and its relatives for the stream, pointer-chase, page-free and
  BLAKE2s programs. This part reads the statistics; \<open>Gem5Reports\<close> writes the reports. A float of Python is a
  finite one, an infinity or not a number; its magnitude is not bounded, and zero has no sign.
\<close>

section \<open>Numbers\<close>

datatype py_real = Num py_float | Inf bool | NaN

definition is_exponent :: "char \<Rightarrow> bool" where
  "is_exponent c \<longleftrightarrow> c = CHR ''e'' \<or> c = CHR ''E''"

text \<open>A run of digits that may be empty, with the value and the number of its digits.\<close>

definition digit_run :: "string \<Rightarrow> (nat \<times> nat) option" where
  "digit_run s =
     (if s = [] then Some (0, 0)
      else map_option (\<lambda>n. (n, length (filter (\<lambda>c. c \<noteq> CHR ''_'') s))) (read_digits 10 s 0 False))"

definition exponent_of :: "string \<Rightarrow> int option" where
  "exponent_of s =
     (case s of
        [] \<Rightarrow> None
      | c # cs \<Rightarrow>
          if c = CHR ''-'' then map_option (\<lambda>n. - int n) (read_digits 10 cs 0 False)
          else if c = CHR ''+'' then map_option int (read_digits 10 cs 0 False)
          else map_option int (read_digits 10 s 0 False))"

definition scaled :: "int \<Rightarrow> int \<Rightarrow> py_float" where
  "scaled m e = (if 0 \<le> e then dbl (m * 10 ^ nat e) 1 else dbl m (10 ^ nat (- e)))"

definition magnitude :: "string \<Rightarrow> py_float option" where
  "magnitude s =
     (let mantissa = takeWhile (\<lambda>c. \<not> is_exponent c) s; rest = dropWhile (\<lambda>c. \<not> is_exponent c) s;
          whole_part = takeWhile (\<lambda>c. c \<noteq> CHR ''.'') mantissa; fraction = drop (length whole_part + 1) mantissa
      in case (digit_run whole_part, digit_run fraction, if rest = [] then Some 0 else exponent_of (tl rest)) of
           (Some (w, m), Some (f, n), Some e) \<Rightarrow>
             if m + n = 0 then None else Some (scaled (int (w * 10 ^ n + f)) (e - int n))
         | _ \<Rightarrow> None)"

definition signed_real :: "bool \<Rightarrow> string \<Rightarrow> py_real option" where
  "signed_real neg s =
     (let low = lower s in
      if low = ''inf'' \<or> low = ''infinity'' then Some (Inf neg)
      else if low = ''nan'' then Some NaN
      else map_option (\<lambda>x. Num (if neg then (- fst x, snd x) else x)) (magnitude s))"

definition parse_real :: "string \<Rightarrow> py_real option" where
  "parse_real s =
     (case s of
        [] \<Rightarrow> None
      | c # cs \<Rightarrow>
          if c = CHR ''-'' then signed_real True cs
          else if c = CHR ''+'' then signed_real False cs
          else signed_real False s)"

definition trunc :: "py_float \<Rightarrow> int" where
  "trunc x = sgn (fst x) * (\<bar>fst x\<bar> div snd x)"

definition fixed_real :: "nat \<Rightarrow> py_real \<Rightarrow> string" where
  "fixed_real n x =
     (case x of Num f \<Rightarrow> fixed n f | Inf neg \<Rightarrow> (if neg then ''-inf'' else ''inf'') | NaN \<Rightarrow> ''nan'')"

section \<open>Statistics files\<close>

type_synonym stats = "string \<rightharpoonup> py_real"

definition add_stat :: "stats \<Rightarrow> string \<Rightarrow> stats" where
  "add_stat st line =
     (let fields = split_ws (length line) line in
      if length fields < 2 then st
      else case parse_real (fields ! 1) of None \<Rightarrow> st | Some v \<Rightarrow> st(fields ! 0 \<mapsto> v))"

text \<open>\<open>gem5_hpi_report.read_stats\<close>: the whole file as one table, the separator lines left out.\<close>

definition add_stat_line :: "stats \<Rightarrow> string \<Rightarrow> stats" where
  "add_stat_line st line =
     (let fields = split_ws (length line) line in
      if 2 \<le> length fields \<and> starts_with ''-'' (fields ! 0) then st else add_stat st line)"

definition read_stats :: "string \<Rightarrow> stats" where
  "read_stats contents = foldl add_stat_line Map.empty (splitlines contents)"

definition BEGIN :: string where
  "BEGIN = ''---------- Begin Simulation Statistics ----------''"

definition END_MARK :: string where
  "END_MARK = ''---------- End Simulation Statistics   ----------''"

definition block_line :: "stats list \<times> stats option \<Rightarrow> string \<Rightarrow> stats list \<times> stats option" where
  "block_line st line =
     (case st of (blocks, current) \<Rightarrow>
        if line = BEGIN then (blocks, Some Map.empty)
        else if line = END_MARK
        then (case current of None \<Rightarrow> (blocks, None) | Some c \<Rightarrow> (blocks @ [c], None))
        else (blocks, map_option (\<lambda>c. add_stat c line) current))"

definition read_blocks :: "string \<Rightarrow> stats list" where
  "read_blocks contents = fst (foldl block_line ([], None) (splitlines contents))"

text \<open>\<open>gem5_hpi_blake2s_report.read_first_block\<close> stops at the first complete block.\<close>

fun first_block :: "stats option \<Rightarrow> string list \<Rightarrow> stats option" where
  "first_block current [] = None"
| "first_block current (line # lines) =
     (if line = BEGIN then first_block (Some Map.empty) lines
      else if line = END_MARK \<and> current \<noteq> None then current
      else first_block (map_option (\<lambda>c. add_stat c line) current) lines)"

definition read_first_block :: "string \<Rightarrow> stats option" where
  "read_first_block contents = first_block None (splitlines contents)"

section \<open>Blocks\<close>

lemma end_is_not_begin [simp]: "END_MARK \<noteq> BEGIN" "BEGIN \<noteq> END_MARK"
  by (simp_all add: BEGIN_def END_MARK_def)

lemma blocks_grow: "\<exists>more. fst (foldl block_line (blocks, current) lines) = blocks @ more"
proof (induction lines arbitrary: blocks current)
  case (Cons line lines)
  obtain blocks' current' where b: "block_line (blocks, current) line = (blocks', current')" by fastforce
  then have "\<exists>more. blocks' = blocks @ more" by (auto simp: block_line_def split: if_splits option.splits)
  with Cons [of blocks' current'] b show ?case by auto
qed simp

lemma first_block_is_head:
  "first_block current lines =
     (case fst (foldl block_line ([], current) lines) of [] \<Rightarrow> None | b # _ \<Rightarrow> Some b)"
proof (induction lines arbitrary: current)
  case (Cons line lines)
  show ?case
  proof (cases "line = END_MARK \<and> current \<noteq> None")
    case True
    then obtain c where c: "current = Some c" by auto
    obtain more where "fst (foldl block_line ([c], None) lines) = [c] @ more" using blocks_grow by blast
    moreover have "block_line ([], current) line = ([c], None)" using True c by (simp add: block_line_def)
    ultimately show ?thesis using True c by simp
  next
    case False
    then have "block_line ([], current) line =
        ([], if line = BEGIN then Some Map.empty else if line = END_MARK then None else map_option (\<lambda>c. add_stat c line) current)"
      by (auto simp: block_line_def split: option.split)
    then show ?thesis using False Cons by auto
  qed
qed simp

lemma block_body:
  assumes "BEGIN \<notin> set body" "END_MARK \<notin> set body"
  shows "foldl block_line (blocks, current) body = (blocks, map_option (\<lambda>c. foldl add_stat c body) current)"
  using assms
proof (induction body arbitrary: current)
  case (Cons line body)
  then have "block_line (blocks, current) line = (blocks, map_option (\<lambda>c. add_stat c line) current)"
    by (auto simp: block_line_def)
  then show ?case using Cons by (simp add: option.map_comp comp_def)
qed (simp add: option.map_ident)

lemma outside_blocks:
  "BEGIN \<notin> set before \<Longrightarrow> foldl block_line (blocks, None) before = (blocks, None)"
proof (induction before)
  case (Cons line before)
  then have "block_line (blocks, None) line = (blocks, None)" by (auto simp: block_line_def)
  then show ?case using Cons by simp
qed simp

lemma blocks_prefix: "fst (foldl block_line (blocks, None) lines) = blocks @ fst (foldl block_line ([], None) lines)"
proof -
  have "fst (foldl block_line (xs @ ys, current) lines) = xs @ fst (foldl block_line (ys, current) lines)" for xs ys current
  proof (induction lines arbitrary: ys current)
    case (Cons line lines)
    obtain ys' current' where b: "block_line (ys, current) line = (ys', current')" by fastforce
    then have "block_line (xs @ ys, current) line = (xs @ ys', current')"
      by (auto simp: block_line_def split: if_splits option.splits)
    with Cons b show ?case by simp
  qed simp
  from this [of blocks "[]" None] show ?thesis by simp
qed

end
