(* ===== verification/Gem5Reports.thy ===== *)
theory Gem5Reports
  imports Gem5Stats
begin

text \<open>The five gem5 reports, as the list of their lines; a missing statistic and every arithmetic error are errors.\<close>

datatype gem5_error =
    MissingStatistic string
  | NotAnInteger string
  | ZeroDivision
  | NoBlocks
  | TooFewBlocks

definition need :: "stats \<Rightarrow> string \<Rightarrow> gem5_error + py_real" where
  "need st name = of_option (MissingStatistic name) (st name)"

text \<open>\<open>int(x)\<close> of a float: truncation; an infinity and not-a-number raise.\<close>

definition to_int :: "string \<Rightarrow> py_real \<Rightarrow> gem5_error + int" where
  "to_int name x = (case x of Num f \<Rightarrow> Inr (trunc f) | _ \<Rightarrow> Inl (NotAnInteger name))"

definition need_int :: "stats \<Rightarrow> string \<Rightarrow> gem5_error + int" where
  "need_int st name = bindE (need st name) (to_int name)"

definition optional_int :: "stats \<Rightarrow> string \<Rightarrow> gem5_error + int option" where
  "optional_int st name =
     (case st name of None \<Rightarrow> Inr None | Some x \<Rightarrow> bindE (to_int name x) (\<lambda>n. Inr (Some n)))"

definition int_ratio :: "int \<Rightarrow> int \<Rightarrow> gem5_error + py_float" where
  "int_ratio a b = (if b = 0 then Inl ZeroDivision else Inr (float_div a b))"

definition real_ratio :: "py_real \<Rightarrow> py_real \<Rightarrow> gem5_error + py_real" where
  "real_ratio x y =
     (case (x, y) of
        (_, Num g) \<Rightarrow>
          if fst g = 0 then Inl ZeroDivision
          else Inr (case x of Num f \<Rightarrow> Num (float_quot f g) | Inf neg \<Rightarrow> Inf (neg \<noteq> (fst g < 0)) | NaN \<Rightarrow> NaN)
      | (Num f, Inf neg) \<Rightarrow> Inr (Num (0, 1))
      | _ \<Rightarrow> Inr NaN)"

text \<open>A report line \<open>  name=value\<close>, and the lines of the statistics that are present.\<close>

definition entry :: "string \<Rightarrow> string \<Rightarrow> string" where
  "entry name v = ''  '' @ name @ ''='' @ v"

definition int_entry :: "stats \<Rightarrow> string \<times> string \<Rightarrow> gem5_error + string list" where
  "int_entry st p =
     (case p of (name, stat) \<Rightarrow>
        bindE (optional_int st stat) (\<lambda>v. Inr (case v of None \<Rightarrow> [] | Some n \<Rightarrow> [entry name (dec n)])))"

definition int_entries :: "stats \<Rightarrow> (string \<times> string) list \<Rightarrow> gem5_error + string list" where
  "int_entries st ps = bindE (mapE (int_entry st) ps) (\<lambda>es. Inr (concat es))"

definition real_entry :: "stats \<Rightarrow> string \<times> string \<Rightarrow> string list" where
  "real_entry st p = (case p of (name, stat) \<Rightarrow> (case st stat of None \<Rightarrow> [] | Some x \<Rightarrow> [entry name (fixed_real 6 x)]))"

definition CPUS :: string where
  "CPUS = ''system.cpu_cluster.cpus.''"

definition DCACHE :: string where
  "DCACHE = CPUS @ ''dcache.''"

definition PREFETCHER :: string where
  "PREFETCHER = DCACHE @ ''prefetcher.''"

definition hpi_report :: "string \<Rightarrow> string \<Rightarrow> string option \<Rightarrow> gem5_error + string list" where
  "hpi_report contents stats_path trace =
     (let st = read_stats contents in
      bindE (need_int st (CPUS @ ''numCycles'')) (\<lambda>cycles.
      bindE (need_int st (CPUS @ ''commitStats0.numInsts'')) (\<lambda>committed.
      bindE (need_int st (CPUS @ ''fetchStats0.numInsts'')) (\<lambda>fetched.
      bindE (need_int st (CPUS @ ''branchPred.committed_0::total'')) (\<lambda>branches.
      bindE (need_int st (CPUS @ ''branchPred.mispredicted_0::total'')) (\<lambda>mispredicted.
      bindE (need_int st (CPUS @ ''icache.demandMisses::total'')) (\<lambda>icache_misses.
      bindE (need_int st (DCACHE @ ''demandMisses::total'')) (\<lambda>dcache_misses.
      bindE (need_int st (CPUS @ ''executeStats0.numDiscardedOps'')) (\<lambda>discarded_ops.
      bindE (int_ratio committed cycles) (\<lambda>ipc.
      bindE (int_ratio fetched cycles) (\<lambda>fetch_rate.
      bindE (int_ratio mispredicted branches) (\<lambda>mispredict_rate.
      bindE (int_ratio (fetched - committed) committed) (\<lambda>wrong_path_overhead.
        Inr ([''GEM5 ARM HPI COREMARK-DERIVED LOOP'',
          ''  model=HPI (2-wide in-order ARMv8-A proxy; not an exact Cortex-A53)'',
          ''  frequency=1GHz memory=DDR3_1600_8x8/1-channel'',
          entry ''cycles'' (dec cycles),
          entry ''committed_instructions'' (dec committed),
          entry ''IPC'' (fixed 6 ipc),
          entry ''fetched_instructions'' (dec fetched),
          entry ''fetch_rate'' (fixed 6 fetch_rate @ '' instructions/cycle''),
          entry ''fetched_over_committed'' (percent 2 wrong_path_overhead),
          entry ''committed_branches'' (dec branches),
          entry ''branch_mispredictions'' (dec mispredicted),
          entry ''branch_mispredict_rate'' (percent 2 mispredict_rate),
          entry ''discarded_micro_ops'' (dec discarded_ops),
          entry ''l1i_demand_misses'' (dec icache_misses),
          entry ''l1d_demand_misses'' (dec dcache_misses),
          entry ''stats'' stats_path] @
         (case trace of None \<Rightarrow> [] | Some t \<Rightarrow> [entry ''pipeline_trace'' t]) @
         [''  timing_note=gem5 model cycles; QEMU TCG is used only for functional validation'']))))))))))))))"

definition first_of :: "nat \<Rightarrow> gem5_error \<Rightarrow> stats list \<Rightarrow> gem5_error + stats list" where
  "first_of n e blocks = (if length blocks < n then Inl e else Inr blocks)"

definition streams_of :: "string \<Rightarrow> int" where
  "streams_of kernel_name = (if kernel_name = ''copy'' \<or> kernel_name = ''scale'' then 2 else 3)"

definition STREAM_STATS :: "(string \<times> string) list" where
  "STREAM_STATS =
     [(''l1i_demand_accesses'', CPUS @ ''icache.demandAccesses::total''), (''l1i_demand_misses'', CPUS @ ''icache.demandMisses::total''),
      (''l1d_demand_accesses'', DCACHE @ ''demandAccesses::total''), (''l1d_demand_misses'', DCACHE @ ''demandMisses::total''),
      (''l1d_overall_accesses'', DCACHE @ ''overallAccesses::total''), (''l1d_overall_misses'', DCACHE @ ''overallMisses::total'')]"

definition PREFETCH_STATS :: "(string \<times> string) list" where
  "PREFETCH_STATS =
     [(''l1d_prefetch_issued'', PREFETCHER @ ''pfIssued''), (''l1d_prefetch_useful'', PREFETCHER @ ''pfUseful''),
      (''l1d_prefetch_unused'', PREFETCHER @ ''pfUnused''), (''l1d_prefetch_late'', PREFETCHER @ ''pfLate''),
      (''l1d_demand_misses_not_covered'', PREFETCHER @ ''demandMshrMisses'')]"

definition stream_report :: "string \<Rightarrow> string \<Rightarrow> string \<Rightarrow> int \<Rightarrow> gem5_error + string list" where
  "stream_report contents stats_path kernel_name nbytes =
     bindE (first_of 1 NoBlocks (read_blocks contents)) (\<lambda>blocks.
       let st = hd blocks; logical_bytes = streams_of kernel_name * nbytes in
       bindE (need_int st (CPUS @ ''numCycles'')) (\<lambda>cycles.
       bindE (need_int st (CPUS @ ''commitStats0.numInsts'')) (\<lambda>committed.
       bindE (int_ratio committed cycles) (\<lambda>ipc.
       bindE (int_ratio logical_bytes cycles) (\<lambda>bytes_per_cycle.
       bindE (int_entries st STREAM_STATS) (\<lambda>optional_lines.
       bindE (int_entries st PREFETCH_STATS) (\<lambda>prefetch_lines.
         Inr ([''GEM5 ARM HPI INTEGER STREAM'',
           ''  model=HPI (2-wide in-order ARMv8-A proxy; not an exact Cortex-A53)'',
           ''  l1d_prefetcher=StridePrefetcher queue_size=4 degree=4'',
           ''  frequency=1GHz memory=DDR3_1600_8x8/1-channel'',
           entry ''kernel'' kernel_name,
           entry ''bytes_per_array'' (dec nbytes),
           entry ''logical_stream_bytes'' (dec logical_bytes),
           entry ''cycles'' (dec cycles),
           entry ''committed_instructions'' (dec committed),
           entry ''IPC'' (fixed 6 ipc),
           entry ''logical_bytes_per_cycle'' (fixed 6 bytes_per_cycle),
           entry ''logical_bandwidth_at_1GHz'' (fixed 6 bytes_per_cycle @ '' GB/s'')] @
          optional_lines @ prefetch_lines @
          real_entry st (''l1d_prefetch_accuracy'', PREFETCHER @ ''accuracy'') @
          real_entry st (''l1d_prefetch_coverage'', PREFETCHER @ ''coverage'') @
          [entry ''statistics_blocks'' (dec (int (length blocks))),
           ''  selected_statistics_block=0 (m5 reset/dump delimited kernel)'',
           entry ''stats'' stats_path,
           ''  timing_note=gem5 model cycles with modeled caches and DDR; not silicon timing'']))))))))"

record chase_args =
  ca_bytes :: int
  ca_stride :: int
  ca_tlb_locality :: int
  ca_steps :: int
  ca_seed :: int

definition CHASE_STATS :: "(string \<times> string) list" where
  "CHASE_STATS =
     [(''l1d_demand_accesses'', DCACHE @ ''demandAccesses::total''), (''l1d_demand_misses'', DCACHE @ ''demandMisses::total''),
      (''l1d_overall_accesses'', DCACHE @ ''overallAccesses::total''), (''l1d_overall_misses'', DCACHE @ ''overallMisses::total''),
      (''l2_demand_accesses'', ''system.cpu_cluster.l2.demandAccesses::cpu_cluster.cpus.data''),
      (''l2_demand_misses'', ''system.cpu_cluster.l2.demandMisses::cpu_cluster.cpus.data''),
      (''dram_read_requests'', ''system.mem_ctrls.readReqs'')]"

definition chase_report :: "string \<Rightarrow> string \<Rightarrow> chase_args \<Rightarrow> gem5_error + string list" where
  "chase_report contents stats_path ca =
     bindE (first_of 1 NoBlocks (read_blocks contents)) (\<lambda>blocks.
       let st = hd blocks in
       bindE (need_int st (CPUS @ ''numCycles'')) (\<lambda>cycles.
       bindE (need_int st (CPUS @ ''commitStats0.numInsts'')) (\<lambda>committed.
       bindE (int_ratio committed cycles) (\<lambda>ipc.
       bindE (int_ratio cycles (ca_steps ca)) (\<lambda>cycles_per_load.
       bindE (int_ratio committed (ca_steps ca)) (\<lambda>instructions_per_load.
       bindE (int_entries st CHASE_STATS) (\<lambda>optional_lines.
       bindE (int_entries st PREFETCH_STATS) (\<lambda>prefetch_lines.
         Inr ([''GEM5 ARM HPI POINTER CHASE'',
           ''  model=HPI (2-wide in-order ARMv8-A proxy; not an exact Cortex-A53)'',
           ''  frequency=1GHz memory=DDR3_1600_8x8/1-channel'',
           entry ''footprint_bytes'' (dec (ca_bytes ca)),
           entry ''stride_bytes'' (dec (ca_stride ca)),
           entry ''tlb_locality_bytes'' (dec (ca_tlb_locality ca)),
           entry ''dependent_loads'' (dec (ca_steps ca)),
           entry ''seed'' (dec (ca_seed ca)),
           entry ''cycles'' (dec cycles),
           entry ''committed_instructions'' (dec committed),
           entry ''IPC'' (fixed 6 ipc),
           entry ''cycles_per_dependent_load'' (fixed 6 cycles_per_load),
           entry ''instructions_per_dependent_load'' (fixed 6 instructions_per_load)] @
          optional_lines @ prefetch_lines @
          [entry ''statistics_blocks'' (dec (int (length blocks))),
           ''  selected_statistics_block=0 (m5 reset/dump delimited kernel)'',
           entry ''stats'' stats_path,
           ''  timing_note=gem5 model cycles; not measured Cortex-A53 silicon''])))))))))"

definition int_or_0 :: "stats \<Rightarrow> string \<Rightarrow> gem5_error + int" where
  "int_or_0 st name = bindE (optional_int st name) (\<lambda>v. Inr (case v of None \<Rightarrow> 0 | Some n \<Rightarrow> n))"

definition needed_entry :: "stats \<Rightarrow> string \<times> string \<Rightarrow> gem5_error + string" where
  "needed_entry st p = (case p of (name, stat) \<Rightarrow> bindE (need_int st stat) (\<lambda>n. Inr (entry name (dec n))))"

definition or_0_entry :: "stats \<Rightarrow> string \<times> string \<Rightarrow> gem5_error + string" where
  "or_0_entry st p = (case p of (name, stat) \<Rightarrow> bindE (int_or_0 st stat) (\<lambda>n. Inr (entry name (dec n))))"

definition PAGEFREE_BEFORE :: "(string \<times> string) list" where
  "PAGEFREE_BEFORE =
     [(''load_instructions'', CPUS @ ''commitStats0.numLoadInsts''), (''store_instructions'', CPUS @ ''commitStats0.numStoreInsts''),
      (''branch_mispredicts'', CPUS @ ''branchPred.mispredicted_0::total''),
      (''discarded_ops'', CPUS @ ''executeStats0.numDiscardedOps''),
      (''l1d_demand_accesses'', DCACHE @ ''demandAccesses::total''), (''l1d_demand_misses'', DCACHE @ ''demandMisses::total'')]"

definition PAGEFREE_AFTER :: "(string \<times> string) list" where
  "PAGEFREE_AFTER =
     [(''l1d_demand_mshr_misses'', DCACHE @ ''demandMshrMisses::total''), (''l1d_blocked_no_mshrs'', DCACHE @ ''blockedCycles::no_mshrs''),
      (''l1d_blocked_no_wbuffers'', DCACHE @ ''blockedCycles::no_wbuffers''), (''l1d_blocked_no_targets'', DCACHE @ ''blockedCycles::no_targets'')]"

definition PAGEFREE_PREFETCH :: "(string \<times> string) list" where
  "PAGEFREE_PREFETCH =
     [(''prefetch_late'', PREFETCHER @ ''pfLate''), (''prefetch_unused'', PREFETCHER @ ''pfUnused''),
      (''prefetch_removed_by_demand'', PREFETCHER @ ''pfRemovedDemand''), (''prefetch_queue_hits'', PREFETCHER @ ''pfBufferHit''),
      (''prefetch_span_page'', PREFETCHER @ ''pfSpanPage''), (''prefetch_useful_span_page'', PREFETCHER @ ''pfUsefulSpanPage'')]"

text \<open>\<open>100.0 * useful / issued\<close>: the product is a float before the division.\<close>

definition useful_percent :: "int \<Rightarrow> int \<Rightarrow> py_float" where
  "useful_percent useful issued =
     (if issued = 0 then (0, 1) else float_quot (float_mul (100, 1) (float_of useful)) (float_of issued))"

definition pagefree_report :: "string \<Rightarrow> string \<Rightarrow> string \<Rightarrow> int \<Rightarrow> gem5_error + string list" where
  "pagefree_report contents stats_path kernel_name records =
     bindE (first_of 2 TooFewBlocks (read_blocks contents)) (\<lambda>blocks.
       let loop = blocks ! 0; drain = blocks ! 1 in
       bindE (need_int loop (CPUS @ ''numCycles'')) (\<lambda>cycles.
       bindE (need_int loop (CPUS @ ''commitStats0.numInsts'')) (\<lambda>committed.
       bindE (need_int drain (CPUS @ ''numCycles'')) (\<lambda>drain_cycles.
       bindE (need loop ''system.cpu_cluster.clk_domain.clock'') (\<lambda>clock_ticks.
       bindE (need loop (DCACHE @ ''demandMissLatency::total'')) (\<lambda>miss_ticks.
       bindE (int_or_0 loop (PREFETCHER @ ''pfIssued'')) (\<lambda>prefetch_issued.
       bindE (int_or_0 loop (PREFETCHER @ ''pfUseful'')) (\<lambda>prefetch_useful.
       bindE (int_ratio committed cycles) (\<lambda>ipc.
       bindE (int_ratio cycles records) (\<lambda>cycles_per_record.
       bindE (mapE (needed_entry loop) PAGEFREE_BEFORE) (\<lambda>before.
       bindE (real_ratio miss_ticks clock_ticks) (\<lambda>service_cycles.
       bindE (mapE (needed_entry loop) PAGEFREE_AFTER) (\<lambda>after.
       bindE (mapE (or_0_entry loop) PAGEFREE_PREFETCH) (\<lambda>prefetch_lines.
         Inr ([''GEM5 ARM HPI PAGEFREE'',
           ''  model=HPI (2-wide in-order ARMv8-A proxy; not Cortex-A53 silicon)'',
           ''  comparison=cross-ISA semantic loop; not instruction matched'',
           ''  frequency=1GHz memory=DDR3_1600_8x8/1-channel'',
           entry ''kernel'' kernel_name,
           entry ''records'' (dec records),
           entry ''loop_cycles'' (dec cycles),
           entry ''committed_instructions'' (dec committed),
           entry ''IPC'' (fixed 6 ipc),
           entry ''cycles_per_record'' (fixed 6 cycles_per_record),
           entry ''post_loop_drain_cycles'' (dec drain_cycles)] @
          before @ [entry ''l1d_demand_miss_service_cycles'' (fixed_real 0 service_cycles)] @ after @
          [entry ''prefetch_issued'' (dec prefetch_issued),
           entry ''prefetch_useful'' (dec prefetch_useful),
           entry ''prefetch_useful_pct'' (fixed 2 (useful_percent prefetch_useful prefetch_issued))] @
          prefetch_lines @
          [entry ''statistics_blocks'' (dec (int (length blocks))), entry ''stats'' stats_path])))))))))))))))"

definition blake2s_report :: "string \<Rightarrow> string \<Rightarrow> int \<Rightarrow> int \<Rightarrow> gem5_error + string list" where
  "blake2s_report contents stats_path calls blocks_per_call =
     bindE (of_option NoBlocks (read_first_block contents)) (\<lambda>st.
       let blocks = calls * blocks_per_call in
       bindE (need_int st (CPUS @ ''numCycles'')) (\<lambda>cycles.
       bindE (need_int st (CPUS @ ''commitStats0.numInsts'')) (\<lambda>instructions.
       bindE (need_int st (CPUS @ ''commitStats0.numOps'')) (\<lambda>operations.
       bindE (int_ratio instructions cycles) (\<lambda>ipc.
       bindE (int_ratio cycles blocks) (\<lambda>cycles_per_block.
       bindE (int_ratio operations blocks) (\<lambda>operations_per_block.
       bindE (int_entries st [(''l1i_demand_misses'', CPUS @ ''icache.demandMisses::total''),
                              (''l1d_demand_misses'', DCACHE @ ''demandMisses::total'')]) (\<lambda>optional_lines.
         Inr ([''GEM5 ARM HPI BLAKE2S'',
           ''  model=HPI (2-wide in-order ARMv8-A proxy; not Cortex-A53 silicon)'',
           ''  frequency=1GHz memory=DDR3_1600_8x8/1-channel'',
           entry ''calls'' (dec calls),
           entry ''blocks_per_call'' (dec blocks_per_call),
           entry ''total_blocks'' (dec blocks),
           entry ''cycles'' (dec cycles),
           entry ''committed_instructions'' (dec instructions),
           entry ''committed_operations'' (dec operations),
           entry ''IPC'' (fixed 6 ipc),
           entry ''cycles_per_block'' (fixed 3 cycles_per_block),
           entry ''operations_per_block'' (fixed 3 operations_per_block)] @
          optional_lines)))))))))"

section \<open>Which block is reported\<close>

text \<open>
  All the readers of delimited statistics agree on the block they report: it is the first one that is closed.
  Its table is built from the lines between its marks alone, the last value of a name counting, whatever stands
  before it or after it, and a file has no reported block exactly when no block is closed.
\<close>

theorem first_block_is_delimited:
  "read_first_block contents = (case read_blocks contents of [] \<Rightarrow> None | b # _ \<Rightarrow> Some b) \<and>
   (splitlines contents = before @ BEGIN # body @ END_MARK # rest \<and> BEGIN \<notin> set before \<and> BEGIN \<notin> set body \<and>
    END_MARK \<notin> set body \<longrightarrow>
      read_blocks contents = foldl add_stat Map.empty body # fst (foldl block_line ([], None) rest) \<and>
      read_first_block contents = Some (foldl add_stat Map.empty body))"
proof -
  have agree: "read_first_block contents = (case read_blocks contents of [] \<Rightarrow> None | b # _ \<Rightarrow> Some b)"
    by (simp add: read_first_block_def read_blocks_def first_block_is_head)
  moreover have "read_blocks contents = foldl add_stat Map.empty body # fst (foldl block_line ([], None) rest)"
    if "splitlines contents = before @ BEGIN # body @ END_MARK # rest" "BEGIN \<notin> set before" "BEGIN \<notin> set body" "END_MARK \<notin> set body"
  proof -
    have b: "block_line ([], None) BEGIN = ([], Some Map.empty)"
      "block_line ([], Some (foldl add_stat Map.empty body)) END_MARK = ([foldl add_stat Map.empty body], None)"
      by (simp_all add: block_line_def)
    show ?thesis
      unfolding read_blocks_def that(1) foldl_append foldl.simps outside_blocks [OF that(2)] b(1) block_body [OF that(3,4)]
        option.map b(2) using blocks_prefix [of "[foldl add_stat Map.empty body]" rest] by simp
  qed
  ultimately show ?thesis by simp
qed

definition stats_demo :: string where
  "stats_demo = str_join [CHR 0x0A] [''x 1'', BEGIN, ''a 1.5'', ''a 2'', END_MARK, BEGIN, ''a 3'', END_MARK]"

theorem first_block_is_delimited_witness:
  "\<exists>st. read_first_block stats_demo = Some st \<and> length (read_blocks stats_demo) = 2 \<and> st ''a'' = Some (Num (float_of 2))"
proof -
  have l: "splitlines stats_demo = [''x 1''] @ BEGIN # [''a 1.5'', ''a 2''] @ END_MARK # [BEGIN, ''a 3'', END_MARK]"
    unfolding stats_demo_def by code_simp
  have m: "BEGIN \<notin> set [''x 1'']" "BEGIN \<notin> set [''a 1.5'', ''a 2'']" "END_MARK \<notin> set [''a 1.5'', ''a 2'']"
    by (simp_all add: BEGIN_def END_MARK_def)
  have v: "foldl add_stat Map.empty [''a 1.5'', ''a 2''] ''a'' = Some (Num (float_of 2))" by code_simp
  have n: "length (fst (foldl block_line ([], None) [BEGIN, ''a 3'', END_MARK])) = 1" by (simp add: block_line_def)
  let ?b = "foldl add_stat Map.empty [''a 1.5'', ''a 2'']"
  have r: "read_blocks stats_demo = ?b # fst (foldl block_line ([], None) [BEGIN, ''a 3'', END_MARK])"
    "read_first_block stats_demo = Some ?b"
    using first_block_is_delimited [THEN conjunct2, THEN mp, OF conjI [OF l conjI [OF m(1) conjI [OF m(2) m(3)]]]] by blast+
  have "length (read_blocks stats_demo) = 2" by (simp only: r(1) list.size n)
  then show ?thesis using r(2) v by blast
qed

end
