(* ===== verification/PyJson.thy ===== *)
theory PyJson
  imports PyCounter
begin

text \<open>
  Values of Python's \<open>json\<close> module; an object keeps the order of its keys. A key that occurs twice in a file keeps
  its first place and its last value (\<open>put\<close>), so the keys of an object are distinct.
\<close>

datatype json =
    JNull
  | JBool bool
  | JInt int
  | JFloat py_float
  | JStr string
  | JList "json list"
  | JObj "(string \<times> json) list"

definition or_null :: "('a \<Rightarrow> json) \<Rightarrow> 'a option \<Rightarrow> json" where
  "or_null f x = (case x of None \<Rightarrow> JNull | Some v \<Rightarrow> f v)"

text \<open>\<open>{canonical(name): stats for name, stats in \<dots>}\<close>: a dictionary built from keys that may coincide.\<close>

definition dict_of :: "('k \<times> 'v) list \<Rightarrow> ('k \<times> 'v) list" where
  "dict_of kvs = foldl (\<lambda>d (k, v). put k v d) [] kvs"

text \<open>A stable sort by descending float, Python's \<open>sort(key=\<dots>, reverse=True)\<close>.\<close>

fun insert_desc :: "('a \<Rightarrow> py_float) \<Rightarrow> 'a \<Rightarrow> 'a list \<Rightarrow> 'a list" where
  "insert_desc f x [] = [x]"
| "insert_desc f x (y # ys) = (if float_less (f x) (f y) then y # insert_desc f x ys else x # y # ys)"

definition sort_desc :: "('a \<Rightarrow> py_float) \<Rightarrow> 'a list \<Rightarrow> 'a list" where
  "sort_desc f xs = foldr (insert_desc f) xs []"

lemma mset_insert_desc [simp]: "mset (insert_desc f x ys) = add_mset x (mset ys)"
  by (induction ys) auto

lemma mset_sort_desc [simp]: "mset (sort_desc f xs) = mset xs"
  by (induction xs) (simp_all add: sort_desc_def)

end
