(* ===== verification/ResourceData.thy ===== *)
theory ResourceData
  imports ParallelMap PyJson "HOL-Library.Product_Lexorder"
begin

text \<open>
  The inputs of \<open>synth/core/summarize_resources.py\<close>: the functional category of a retained module, Yosys's area
  report, the listing of the retained hierarchy and the listing of the inferred memories. The modules of the area
  report are given parsed, with their areas as floats.
\<close>

datatype resource_error =
    Unclassified string string
  | KeptCellOutside
  | MemoryOutside
  | IncompleteMemory string "string list"
  | TopMissing
  | CacheGeometry string nat int nat int
  | NotSynchronous string
  | OverlayGeometry nat "(int \<times> int \<times> int \<times> int \<times> string) list"
  | KeptModuleMissing string
  | KeyError string
  | NegativeArea string
  | TooDeepRecursion
  | ZeroArea
  | TotalMismatch py_float py_float

section \<open>Categories\<close>

definition SKY130_PREFIX :: string where
  "SKY130_PREFIX = ''sky130_fd_sc_hd__''"

definition base_module :: "string \<Rightarrow> string" where
  "base_module name =
     (let matches = re_findall (Seq (lit ''openrv64_'') (some word_char)) (canonical name)
      in if matches \<noteq> [] then last matches else canonical name)"

definition CATEGORIES :: "(string \<times> string \<times> string) list" where
  "CATEGORIES =
    [(''openrv64_rv64_top_3p'', ''Frontend/core control'',
       ''PC/redirect control, packet construction, and top-level frontend glue''),
     (''openrv64_backend_3p'', ''Backend control/forwarding'',
       ''allocation, full-forwarding fabric, branch control, and backend glue''),
     (''openrv64_fetch_3w'', ''Fetch/line buffers'',
       ''three-wide fetch, line slots, replay, and predecode metadata''),
     (''openrv64_exec_bp'', ''Branch predictor'',
       ''32x3-bit bimodal table, four-update queue, and eight-entry RAS''),
     (''openrv64_prefix_addsub'', ''Branch predictor'',
       ''direct branch-target adder''),
     (''openrv64_decode_top'', ''Decode'',
       ''three complete RV64 decode lanes''),
     (''openrv64_rv64i_csrs'', ''CSR/PMP'',
       ''privileged CSRs, interrupt state, counters, and PMP''),
     (''openrv64_except_vector'', ''Trap/redirect vector'',
       ''trap, return, restart, and reset target selection''),
     (''openrv64_core_bus'', ''Memory-system routing/AXI'',
       ''core-bus wrapper and external interface selection''),
     (''openrv64_core_mtl'', ''Memory transaction layer'',
       ''translation queues, TLB/PTW, PMP clearance, barriers, and cache transaction control''),
     (''openrv64_core_icx_bus'', ''ICX transport'',
       ''physical L1I/L1D/PTW command arbitration and response routing''),
     (''openrv64_l1d_icx'', ''L1D control/tags'',
       ''16 KiB four-way L1D control, tags, fill/store buffers, prefetcher, and ICX client; data SRAM excluded''),
     (''openrv64_l1i_icx'', ''L1I control/tags'',
       ''16 KiB four-way L1I control, tags, fill buffers, prefetch state, and ICX client; data SRAM excluded''),
     (''openrv64_bus_tlb'', ''I/D TLBs'',
       ''two 16-entry translation lookaside buffers''),
     (''openrv64_bus_tlb_l2'', ''Shared L2 TLB'',
       ''shared 256-entry, four-way second-level translation lookaside buffer''),
     (''openrv64_bus_ptw'', ''Page-table walker'',
       ''shared page-table walker, PTE cache, and ICX client''),
     (''openrv64_dispatch_3p'', ''Dispatch/hazards'',
       ''six-entry dispatch queue, dependency map, issue selection, and barriers''),
     (''openrv64_dispatch'', ''Dispatch/hazards'',
       ''six-entry dispatch queue, dependency map, issue selection, and barriers''),
     (''openrv64_rv64i_gpr_3p'', ''Integer register file'',
       ''32x64 GPRs with six reads and three writes''),
     (''openrv64_exec_pipe_ex0'', ''EX0 integer/M'',
       ''RV64I ALU and iterative RV64M execution''),
     (''openrv64_exec_pipe_ex1'', ''EX1 integer/branch'',
       ''RV64I ALU, conditional branch unit, system-CSR execution, and exceptions''),
     (''openrv64_exec_pipe_mem'', ''LSU/MEM pipes'',
       ''two pipelined load/store queues with MEM0 atomics, posted-store state, and store-load forwarding''),
     (''openrv64_retire_queue_3p'', ''Retirement'',
       ''eight-entry retirement ordering and completion control''),
     (''openrv64_retire_records_3p'', ''Retirement'',
       ''canonical slot-indexed allocation and completion records''),
     (''openrv64_retire_3p'', ''Retirement'',
       ''in-order prefix retirement and architectural side effects'')]"

definition category_for :: "string \<Rightarrow> resource_error + (string \<times> string)" where
  "category_for module = of_option (Unclassified module (base_module module)) (map_of CATEGORIES (base_module module))"

section \<open>The area report and the hierarchy\<close>

record kept_stats =
  ks_area :: "py_float option"
  ks_seq :: "py_float option"
  ks_cells :: "(string \<times> int) list"

type_synonym partition = "(string \<times> kept_stats) list"

definition load_stat :: "(string \<times> kept_stats) list \<Rightarrow> partition" where
  "load_stat modules = dict_of (map (\<lambda>(name, stats). (canonical name, stats)) modules)"

definition is_sky130 :: "string \<Rightarrow> bool" where
  "is_sky130 cell_type \<longleftrightarrow> starts_with SKY130_PREFIX (canonical cell_type)"

definition mapped_cells :: "kept_stats \<Rightarrow> int" where
  "mapped_cells stats = sum_list (map snd (filter (\<lambda>(cell_type, _). is_sky130 cell_type) (ks_cells stats)))"

type_synonym kept_tree = "(string \<times> (string \<times> string) list) list"

definition kept_line :: "string \<Rightarrow> kept_tree \<times> string option \<Rightarrow> resource_error + (kept_tree \<times> string option)" where
  "kept_line line st =
     (case st of (children, current_module) \<Rightarrow>
      case re_match MODULE_RE line of
        Some q \<Rightarrow> Inr (children, Some (canonical (group_of ''1'' q)))
      | None \<Rightarrow>
          (case re_match CELL_RE line of
             None \<Rightarrow> Inr st
           | Some q \<Rightarrow>
               (case current_module of
                  None \<Rightarrow> Inl KeptCellOutside
                | Some m \<Rightarrow>
                    Inr (push m (canonical (group_of ''1'' q), canonical (group_of ''2'' q)) children, current_module))))"

definition kept_hierarchy :: "string \<Rightarrow> resource_error + kept_tree" where
  "kept_hierarchy contents =
     bindE (foldE kept_line (splitlines contents) ([], None)) (\<lambda>(children, _). Inr children)"

section \<open>Inferred memories\<close>

definition MEMORY_CELL_RE :: rx where
  "MEMORY_CELL_RE = seqs [Bol, Chr is_space, Chr is_space, lit ''cell'', some is_space, lit ''$mem_v2'', some is_space,
     Grp ''1'' (some non_space), many is_space, Eol]"

definition four_spaces :: rx where
  "four_spaces = seqs [Chr is_space, Chr is_space, Chr is_space, Chr is_space]"

definition MEMORY_PARAMETER_RE :: rx where
  "MEMORY_PARAMETER_RE = seqs [Bol, four_spaces, lit ''parameter'', some is_space, lit [CHR 0x5C],
     Grp ''1'' (alts [lit ''WIDTH'', lit ''SIZE'', lit ''RD_PORTS'', lit ''WR_PORTS'']), some is_space, Grp ''2'' (some digit),
     many is_space, Eol]"

definition MEMORY_READ_CLOCK_RE :: rx where
  "MEMORY_READ_CLOCK_RE = seqs [Bol, four_spaces, lit ''parameter'', some is_space, lit (CHR 0x5C # ''RD_CLK_ENABLE''),
     some is_space, some digit, lit [CHR 0x27], Grp ''1'' (some (\<lambda>c. c = CHR ''0'' \<or> c = CHR ''1'')), many is_space, Eol]"

text \<open>A record that is being read, and a finished one.\<close>

record open_memory =
  om_module :: string
  om_name :: string
  om_width :: "int option"
  om_size :: "int option"
  om_reads :: "int option"
  om_writes :: "int option"
  om_clock :: "string option"

record memory =
  mem_module :: string
  mem_name :: string
  mem_width :: int
  mem_size :: int
  mem_reads :: int
  mem_writes :: int
  mem_clock :: string
  mem_bits :: int
  mem_group :: string

definition missing_fields :: "open_memory \<Rightarrow> string list" where
  "missing_fields m =
     (if om_width m = None then [''width''] else []) @ (if om_size m = None then [''size''] else []) @
     (if om_reads m = None then [''read_ports''] else []) @ (if om_writes m = None then [''write_ports''] else []) @
     (if om_clock m = None then [''read_clock_enable''] else [])"

definition group_for :: "string \<Rightarrow> string \<Rightarrow> int \<Rightarrow> string" where
  "group_for name module write_ports =
     (if contains ''tag_overlay_mem'' name \<and> contains ''openrv64_l1d_icx'' module then ''L1D request overlay''
      else if contains ''u_l1i'' name then ''L1I data''
      else if contains ''u_l1d'' name then ''L1D data''
      else if write_ports = 0 then ''Other inferred ROM''
      else ''Other inferred memory'')"

definition finish_memory :: "memory list \<times> open_memory option \<Rightarrow> resource_error + memory list" where
  "finish_memory st =
     (case st of (memories, current) \<Rightarrow>
      case current of
        None \<Rightarrow> Inr memories
      | Some m \<Rightarrow>
          (case (om_width m, om_size m, om_reads m, om_writes m, om_clock m) of
             (Some width, Some depth, Some reads, Some writes, Some clock) \<Rightarrow>
               Inr (memories @ [\<lparr>mem_module = om_module m, mem_name = om_name m, mem_width = width, mem_size = depth,
                 mem_reads = reads, mem_writes = writes, mem_clock = clock, mem_bits = width * depth,
                 mem_group = group_for (lower (om_name m)) (lower (om_module m)) writes\<rparr>])
           | _ \<Rightarrow> Inl (IncompleteMemory (om_name m) (missing_fields m))))"

definition set_parameter :: "string \<Rightarrow> int \<Rightarrow> open_memory \<Rightarrow> open_memory" where
  "set_parameter name v m =
     (if name = ''WIDTH'' then m\<lparr>om_width := Some v\<rparr>
      else if name = ''SIZE'' then m\<lparr>om_size := Some v\<rparr>
      else if name = ''RD_PORTS'' then m\<lparr>om_reads := Some v\<rparr>
      else m\<lparr>om_writes := Some v\<rparr>)"

text \<open>The state: the finished memories, the module and the memory being read.\<close>

type_synonym memory_state = "memory list \<times> string option \<times> open_memory option"

definition parameter_line :: "string \<Rightarrow> open_memory \<Rightarrow> open_memory" where
  "parameter_line line m =
     (case re_match MEMORY_PARAMETER_RE line of
        Some q \<Rightarrow> set_parameter (group_of ''1'' q) (group_int 10 ''2'' q) m
      | None \<Rightarrow>
          (case re_match MEMORY_READ_CLOCK_RE line of
             Some q \<Rightarrow> m\<lparr>om_clock := Some (group_of ''1'' q)\<rparr>
           | None \<Rightarrow> m))"

definition memory_line :: "string \<Rightarrow> memory_state \<Rightarrow> resource_error + memory_state" where
  "memory_line line st =
     (case st of (memories, current_module, current) \<Rightarrow>
      case re_match MODULE_RE line of
        Some q \<Rightarrow>
          bindE (finish_memory (memories, current)) (\<lambda>memories. Inr (memories, Some (canonical (group_of ''1'' q)), None))
      | None \<Rightarrow>
          (case re_match MEMORY_CELL_RE line of
             Some q \<Rightarrow>
               bindE (finish_memory (memories, current)) (\<lambda>memories.
                 case current_module of
                   None \<Rightarrow> Inl MemoryOutside
                 | Some m \<Rightarrow>
                     Inr (memories, current_module, Some \<lparr>om_module = m, om_name = canonical (group_of ''1'' q),
                       om_width = None, om_size = None, om_reads = None, om_writes = None, om_clock = None\<rparr>))
           | None \<Rightarrow> Inr (memories, current_module, map_option (parameter_line line) current)))"

definition inferred_memories :: "string \<Rightarrow> resource_error + memory list" where
  "inferred_memories contents =
     bindE (foldE memory_line (splitlines contents) ([], None, None)) (\<lambda>(memories, _, current).
       finish_memory (memories, current))"

end
