(* ===== verification/ResourceTable.thy ===== *)
theory ResourceTable
  imports ResourceData
begin

text \<open>
  The table of \<open>synth/core/summarize_resources.py\<close>: the checks of the inferred memories, the walk over the retained
  hierarchy, the rows, the comparison with the flat map, and the reports. \<open>sum\<close> of floats is the argument \<open>fsum\<close>,
  since Python adds from left to right before version 3.12 and with a compensation after; \<open>depth\<close> is the number of
  frames the interpreter leaves for the recursion.
\<close>

section \<open>The inferred memories\<close>

definition EXPECTED_CACHES :: "(string \<times> nat \<times> int) list" where
  "EXPECTED_CACHES = [(''L1I data'', 4, 16 * 1024 * 8), (''L1D data'', 32, 16 * 1024 * 8)]"

definition of_group :: "string \<Rightarrow> memory list \<Rightarrow> memory list" where
  "of_group name memories = filter (\<lambda>m. mem_group m = name) memories"

definition bits_of :: "memory list \<Rightarrow> int" where
  "bits_of memories = sum_list (map mem_bits memories)"

definition check_cache :: "memory list \<Rightarrow> string \<times> nat \<times> int \<Rightarrow> resource_error + unit" where
  "check_cache memories expected =
     (case expected of (name, banks, bits) \<Rightarrow>
        let ms = of_group name memories in
        if length ms \<noteq> banks \<or> bits_of ms \<noteq> bits then Inl (CacheGeometry name (length ms) (bits_of ms) banks bits)
        else if list_ex (\<lambda>m. mem_reads m \<noteq> 1 \<or> mem_writes m \<noteq> 1 \<or> mem_clock m \<noteq> ''1'') ms then Inl (NotSynchronous name)
        else Inr ())"

type_synonym shape = "int \<times> int \<times> int \<times> int \<times> string"

definition shape_of :: "memory \<Rightarrow> shape" where
  "shape_of m = (mem_size m, mem_width m, mem_reads m, mem_writes m, mem_clock m)"

definition check_overlay :: "memory list \<Rightarrow> resource_error + unit" where
  "check_overlay memories =
     (let ms = of_group ''L1D request overlay'' memories; shapes = map shape_of ms in
      if ms \<noteq> [] \<and> (length ms \<noteq> 1 \<or> set shapes \<noteq> {(8, 576, 1, 1, ''1'')})
      then Inl (OverlayGeometry (length ms) (sorted_distinct shapes)) else Inr ())"

definition check_memories :: "memory list \<Rightarrow> resource_error + unit" where
  "check_memories memories =
     bindE (mapE (check_cache memories) EXPECTED_CACHES) (\<lambda>_. check_overlay memories)"

definition is_cache :: "memory \<Rightarrow> bool" where
  "is_cache m \<longleftrightarrow> mem_group m = ''L1I data'' \<or> mem_group m = ''L1D data''"

record mem_total =
  mt_instances :: int
  mt_bits :: int
  mt_shapes :: "shape counter"

definition group_memory :: "(string \<times> mem_total) list \<Rightarrow> memory \<Rightarrow> (string \<times> mem_total) list" where
  "group_memory d m =
     (let g = (case map_of d (mem_group m) of None \<Rightarrow> \<lparr>mt_instances = 0, mt_bits = 0, mt_shapes = []\<rparr> | Some g \<Rightarrow> g)
      in put (mem_group m) \<lparr>mt_instances = mt_instances g + 1, mt_bits = mt_bits g + mem_bits m,
                             mt_shapes = bump (shape_of m) 1 (mt_shapes g)\<rparr> d)"

definition memory_groups :: "memory list \<Rightarrow> (string \<times> mem_total) list" where
  "memory_groups memories = foldl group_memory [] memories"

section \<open>The walk\<close>

definition TOP :: string where
  "TOP = ''openrv64_top_3p''"

definition or_zero :: "py_float option \<Rightarrow> py_float" where
  "or_zero x = (case x of None \<Rightarrow> (0, 1) | Some v \<Rightarrow> v)"

definition module_area :: "kept_stats \<Rightarrow> py_float" where
  "module_area stats = or_zero (ks_area stats)"

definition module_seq :: "kept_stats \<Rightarrow> py_float" where
  "module_seq stats = or_zero (ks_seq stats)"

definition at_least_zero :: "py_float \<Rightarrow> py_float" where
  "at_least_zero x = (if float_less (0, 1) x then x else (0, 1))"

definition below_tolerance :: "py_float \<Rightarrow> bool" where
  "below_tolerance x \<longleftrightarrow> float_less x (dbl (- 1) 100)"

fun add_float :: "string \<Rightarrow> py_float \<Rightarrow> (string \<times> py_float) list \<Rightarrow> (string \<times> py_float) list" where
  "add_float k x [] = [(k, float_add (0, 1) x)]"
| "add_float k x ((j, y) # d) = (if j = k then (j, float_add y x) # d else (j, y) # add_float k x d)"

record totals =
  t_area :: "(string \<times> py_float) list"
  t_seq :: "(string \<times> py_float) list"
  t_cells :: "string counter"
  t_descriptions :: "(string \<times> string list) list"
  t_instances :: "(string \<times> string list) list"

definition no_totals :: totals where
  "no_totals = \<lparr>t_area = [], t_seq = [], t_cells = [], t_descriptions = [], t_instances = []\<rparr>"

definition classify_module :: "string \<Rightarrow> resource_error + (string \<times> string)" where
  "classify_module module =
     (if module = TOP then Inr (''AXI wrapper/glue'', ''fixed 3P AXI boundary and external tie-offs'')
      else category_for module)"

definition add_description :: "string \<Rightarrow> string \<Rightarrow> (string \<times> string list) list \<Rightarrow> (string \<times> string list) list" where
  "add_description category description d =
     (if description \<in> set (list_at d category) then d else push category description d)"

definition count_module ::
  "string \<times> string \<Rightarrow> py_float \<Rightarrow> py_float \<Rightarrow> kept_stats \<Rightarrow> string \<Rightarrow> totals \<Rightarrow> totals" where
  "count_module kind direct_area direct_seq stats instance_path t =
     (case kind of (category, description) \<Rightarrow>
        \<lparr>t_area = add_float category (at_least_zero direct_area) (t_area t),
         t_seq = add_float category (at_least_zero direct_seq) (t_seq t),
         t_cells = bump category (mapped_cells stats) (t_cells t),
         t_descriptions = add_description category description (t_descriptions t),
         t_instances = push category instance_path (t_instances t)\<rparr>)"

definition child_stats :: "partition \<Rightarrow> (string \<times> string) list \<Rightarrow> resource_error + kept_stats list" where
  "child_stats parts children = mapE (\<lambda>(child, _). of_option (KeyError child) (map_of parts child)) children"

definition visit_module ::
  "(py_float list \<Rightarrow> py_float) \<Rightarrow> partition \<Rightarrow> kept_tree \<Rightarrow> string \<Rightarrow> string \<Rightarrow> totals \<Rightarrow> resource_error + totals" where
  "visit_module fsum parts hierarchy module instance_path t =
     bindE (of_option (KeptModuleMissing module) (map_of parts module)) (\<lambda>stats.
     bindE (child_stats parts (list_at hierarchy module)) (\<lambda>children.
       let direct_area = float_sub (module_area stats) (fsum (map module_area children));
           direct_seq = float_sub (module_seq stats) (fsum (map module_seq children))
       in if below_tolerance direct_area \<or> below_tolerance direct_seq then Inl (NegativeArea module)
          else bindE (classify_module module) (\<lambda>kind.
            Inr (count_module kind direct_area direct_seq stats instance_path t))))"

primrec walk ::
  "nat \<Rightarrow> (py_float list \<Rightarrow> py_float) \<Rightarrow> partition \<Rightarrow> kept_tree \<Rightarrow> string \<Rightarrow> string \<Rightarrow> totals \<Rightarrow> resource_error + totals" where
  "walk 0 fsum parts hierarchy module instance_path t = Inl TooDeepRecursion"
| "walk (Suc n) fsum parts hierarchy module instance_path t =
     bindE (visit_module fsum parts hierarchy module instance_path t) (\<lambda>t.
       foldE (\<lambda>(child, child_instance).
                walk n fsum parts hierarchy child (instance_path @ ''/'' @ child_instance))
         (list_at hierarchy module) t)"

section \<open>Rows and totals\<close>

record resource_row =
  rr_block :: string
  rr_area :: py_float
  rr_percent :: py_float
  rr_seq :: py_float
  rr_cells :: int
  rr_instances :: int
  rr_description :: string

definition float_at :: "(string \<times> py_float) list \<Rightarrow> string \<Rightarrow> py_float" where
  "float_at d k = or_zero (map_of d k)"

definition resource_row_of :: "totals \<Rightarrow> py_float \<Rightarrow> string \<times> py_float \<Rightarrow> resource_row" where
  "resource_row_of t partition_total entry =
     (case entry of (category, area) \<Rightarrow>
        \<lparr>rr_block = category, rr_area = area, rr_percent = float_quot (float_mul (100, 1) area) partition_total,
         rr_seq = float_at (t_seq t) category, rr_cells = hits (t_cells t) category,
         rr_instances = int (length (list_at (t_instances t) category)),
         rr_description = str_join ''; '' (list_at (t_descriptions t) category)\<rparr>)"

definition resource_rows :: "totals \<Rightarrow> py_float \<Rightarrow> resource_row list" where
  "resource_rows t partition_total = sort_desc rr_area (map (resource_row_of t partition_total) (t_area t))"

record flat_result =
  fl_total :: "py_float option"
  fl_cells :: "int option"
  fl_delta :: "py_float option"
  fl_failure :: "string option"

definition flat_failed :: "string \<Rightarrow> flat_result" where
  "flat_failed reason = \<lparr>fl_total = None, fl_cells = None, fl_delta = None, fl_failure = Some reason\<rparr>"

definition generic_cells :: "kept_stats \<Rightarrow> (string \<times> int) list" where
  "generic_cells stats =
     dict_of (map (\<lambda>(cell_type, n). (canonical cell_type, n))
       (filter (\<lambda>(cell_type, _). \<not> is_sky130 cell_type \<and> canonical cell_type \<noteq> ''$mem_v2'') (ks_cells stats)))"

definition flat_check :: "py_float \<Rightarrow> (string \<times> kept_stats) list option \<Rightarrow> flat_result" where
  "flat_check partition_total flat =
     (case flat of
        None \<Rightarrow> \<lparr>fl_total = None, fl_cells = None, fl_delta = None, fl_failure = None\<rparr>
      | Some modules \<Rightarrow>
          (case map_of (load_stat modules) TOP of
             None \<Rightarrow> flat_failed ''top module is absent from the flat stat report''
           | Some stats \<Rightarrow>
               let generic = generic_cells stats; area = module_area stats in
               if generic \<noteq> []
               then flat_failed (dec_sep (sum_list (map snd generic)) @ '' cells remain unmapped ('' @
                      str_join '', '' (take 4 (sort (map fst generic))) @ '')'')
               else if \<not> float_less (0, 1) area then flat_failed ''reported flat area is zero''
               else \<lparr>fl_total = Some area, fl_cells = Some (mapped_cells stats),
                      fl_delta = Some (float_mul (100, 1) (float_sub (float_quot partition_total area) (1, 1))),
                      fl_failure = None\<rparr>))"

record resource_summary =
  rs_rows :: "resource_row list"
  rs_total :: py_float
  rs_seq_total :: py_float
  rs_cells :: int
  rs_memories :: "memory list"
  rs_flat :: flat_result

definition abs_float :: "py_float \<Rightarrow> py_float" where
  "abs_float x = (\<bar>fst x\<bar>, snd x)"

definition summarize_walk ::
  "(py_float list \<Rightarrow> py_float) \<Rightarrow> partition \<Rightarrow> memory list \<Rightarrow> (string \<times> kept_stats) list option \<Rightarrow> totals \<Rightarrow>
   resource_error + resource_summary" where
  "summarize_walk fsum parts memories flat t =
     (let partition_total = fsum (map snd (t_area t));
          reported_total = (case map_of parts TOP of None \<Rightarrow> (0, 1) | Some stats \<Rightarrow> module_area stats)
      in if \<not> float_less (0, 1) partition_total then Inl ZeroArea
         else if float_less (dbl 1 10) (abs_float (float_sub partition_total reported_total))
         then Inl (TotalMismatch partition_total reported_total)
         else Inr \<lparr>rs_rows = resource_rows t partition_total, rs_total = partition_total,
                    rs_seq_total = fsum (map snd (t_seq t)), rs_cells = total (t_cells t), rs_memories = memories,
                    rs_flat = flat_check partition_total flat\<rparr>)"

definition summarize ::
  "(py_float list \<Rightarrow> py_float) \<Rightarrow> nat \<Rightarrow> (string \<times> kept_stats) list \<Rightarrow> string \<Rightarrow> string \<Rightarrow>
   (string \<times> kept_stats) list option \<Rightarrow> resource_error + resource_summary" where
  "summarize fsum depth modules hierarchy_text memories_text flat =
     (let parts = load_stat modules in
      if map_of parts TOP = None then Inl TopMissing
      else
        bindE (kept_hierarchy hierarchy_text) (\<lambda>hierarchy.
        bindE (inferred_memories memories_text) (\<lambda>memories.
        bindE (check_memories memories) (\<lambda>_.
        bindE (walk depth fsum parts hierarchy TOP TOP no_totals) (\<lambda>t.
          summarize_walk fsum parts memories flat t)))))"

end
