(* ===== verification/ResourceReport.thy ===== *)
theory ResourceReport
  imports ResourceTable
begin

text \<open>
  What \<open>synth/core/summarize_resources.py\<close> writes: \<open>resources.md\<close> and the console output as text,
  \<open>resources.csv\<close> and \<open>resources.json\<close> as values; how Python prints a float there is not
  modelled, and the keys of a memory are in a fixed order instead of the order of the listing.
\<close>

definition newline :: string where
  "newline = [CHR 0x0A]"

definition kib :: "int \<Rightarrow> string" where
  "kib bits = fixed 1 (float_quot (float_div bits 8) (1024, 1)) @ '' KiB''"

section \<open>The Markdown report\<close>

definition RESULT_HEAD :: "string list" where
  "RESULT_HEAD =
    [''# OpenRV64 3P Sky130 functional area'' @ newline,
     ''## Result'' @ newline,
     ''Exclusive functional categories from a Sky130 HD standard-cell logic map. Inferred SRAM is '' @
     ''reported separately because no SRAM Liberty/LEF macro library is present. Percentages use the '' @
     ''partitioned standard-cell total and sum to 100%.'' @ newline,
     ''| Functional block | Area (um^2) | Size | Seq. area | Cells |'',
     ''|---|---:|---:|---:|---:|'']"

definition row_line :: "resource_row \<Rightarrow> string" where
  "row_line r =
     ''| '' @ rr_block r @ '' | '' @ fixed_sep 0 (rr_area r) @ '' | '' @ fixed 2 (rr_percent r) @ ''% | '' @
     fixed_sep 0 (rr_seq r) @ '' | '' @ dec_sep (rr_cells r) @ '' |''"

definition cache_memories :: "resource_summary \<Rightarrow> memory list" where
  "cache_memories s = filter is_cache (rs_memories s)"

definition total_line :: "resource_summary \<Rightarrow> string" where
  "total_line s =
     ''| **Partitioned total** | **'' @ fixed_sep 0 (rs_total s) @ ''** | **100.00%** | **'' @
     fixed_sep 0 (rs_seq_total s) @ ''** | **'' @ dec_sep (rs_cells s) @ ''** |'' @ newline"

definition cache_line :: "resource_summary \<Rightarrow> string" where
  "cache_line s =
     (let caches = cache_memories s in
      ''The map preserves **'' @ dec (int (length caches)) @ '' synchronous cache SRAM banks** totaling **'' @
      dec_sep (bits_of caches) @ '' bits ('' @ kib (bits_of caches) @
      '')**. Their physical area is not included in the standard-cell total. Small inferred ROMs are listed separately.'' @ newline)"

definition shape_text :: "shape \<times> int \<Rightarrow> string" where
  "shape_text entry =
     (case entry of ((depth, width, reads, writes, clock), n) \<Rightarrow>
        dec n @ ''x '' @ dec depth @ ''x'' @ dec width @ '' '' @ dec reads @ ''R/'' @ dec writes @ ''W '' @
        (if clock = ''1'' then ''sync'' else ''async''))"

definition GROUP_ORDER :: "string list" where
  "GROUP_ORDER = [''L1I data'', ''L1D data'', ''L1D request overlay'', ''Other inferred memory'', ''Other inferred ROM'']"

definition group_line :: "(string \<times> mem_total) list \<Rightarrow> string \<Rightarrow> string list" where
  "group_line d name =
     (case map_of d name of
        None \<Rightarrow> []
      | Some g \<Rightarrow>
          [''| '' @ name @ '' | '' @ dec (mt_instances g) @ '' | '' @ str_join '', '' (map shape_text (sort (mt_shapes g))) @
           '' | '' @ kib (mt_bits g) @ '' |''])"

definition flat_lines :: "resource_summary \<Rightarrow> string" where
  "flat_lines s =
     (case (fl_total (rs_flat s), fl_cells (rs_flat s), fl_delta (rs_flat s)) of
        (Some area, Some cells, Some delta) \<Rightarrow>
          ''The fully flattened core maps to **'' @ fixed_sep 0 area @ '' um^2** and **'' @ dec_sep cells @
          '' cells**. The category-boundary map is **'' @ fixed 2 delta @
          ''% larger** because ABC cannot optimize across the retained reporting boundaries.'' @ newline
      | _ \<Rightarrow>
          ''No valid fully flattened standard-cell total is reported. The default ABC '' @
          ''global flow on the 105 MiB BLIF was impractically slow; the fast flow failed '' @
          ''in buffer sizing; and the custom mapping attempt was rejected because '' @
          (case fl_failure (rs_flat s) of None \<Rightarrow> ''the optional flat flow was not run'' | Some reason \<Rightarrow> reason) @
          ''. **Do not use the incomplete 704,408 um^2 flop-only value.** '' @
          ''The percentage table is normalized to the normal-flow partitioned map.'' @ newline)"

definition CONFIGURATION_LINES :: "string list" where
  "CONFIGURATION_LINES =
    [''## Configuration'' @ newline,
     ''- `openrv64_top_3p`, three-wide decode with EX0/EX1/MEM0/MEM1 issue, 256-bit AXI.'',
     ''- RV64IM+A; eight-entry retirement buffer; posted stores.'',
     ''- Full forwarding and relaxed tagged hazards/WAW.'',
     ''- Normal branch issue/resolution (`FREE_BRANCHES=0`); free branches are an oracle-only '' @ ''experiment.'',
     ''- 32-entry, 3-bit bimodal predictor; four-entry update queue; RAS depth 8.'',
     ''- 16 KiB four-way L1I and 16 KiB four-way L1D enabled; data arrays preserved as inferred '' @
     ''synchronous SRAM.'',
     ''- Issue-window experiment, trace-only hardware, FPU, SoC peripherals, and the 16 MiB testbench '' @
     ''RAM excluded.'' @ newline,
     ''## Block boundaries'' @ newline]"

definition LIMIT_LINES :: "string list" where
  "LIMIT_LINES =
    [newline @ ''## Interpretation limits'' @ newline,
     ''This is Yosys/ABC standard-cell mapping at the `sky130_fd_sc_hd__tt_025C_1v80` corner. Cache '' @
     ''data arrays remain inferred `$mem_v2` cells rather than being expanded to flops. Their area, '' @
     ''timing, routing, and macro halos are unknown until an SRAM macro library and mapping are '' @
     ''selected. Other inferred structures that do not fit the SRAM contract still map to flops and '' @
     ''logic. The result contains no placement, routing, clock tree, physical-only cells, power grid, '' @
     ''or macro halos. Treat the percentages as standard-cell logic composition, not whole-core die '' @ ''area.'' @
     newline]"

definition block_line_of :: "resource_row \<Rightarrow> string" where
  "block_line_of r = ''- **'' @ rr_block r @ '':** '' @ rr_description r @ ''.''"

definition resource_report :: "resource_summary \<Rightarrow> string" where
  "resource_report s =
     (let groups = memory_groups (rs_memories s) in
      str_join newline
        (RESULT_HEAD @ map row_line (rs_rows s) @ [total_line s, ''## Inferred SRAM'' @ newline, cache_line s,
           ''| Storage | Banks | Shape | Capacity |'', ''|---|---:|---|---:|''] @
         concat (map (group_line groups) GROUP_ORDER) @ [[], ''## Flat-map cross-check'' @ newline, flat_lines s] @
         CONFIGURATION_LINES @ map block_line_of (rs_rows s) @ LIMIT_LINES))"

section \<open>The console, the CSV and the JSON\<close>

definition console_lines :: "resource_summary \<Rightarrow> string list" where
  "console_lines s =
     (let caches = cache_memories s in
      [''partitioned area: '' @ fixed_sep 1 (rs_total s) @ '' um^2''] @
      (case (fl_total (rs_flat s), fl_delta (rs_flat s)) of
         (Some area, Some delta) \<Rightarrow>
           [''flat area:        '' @ fixed_sep 1 area @ '' um^2'', ''boundary delta:   '' @ fixed 2 delta @ ''%'']
       | _ \<Rightarrow>
           [''flat area:        unavailable ('' @
            (case fl_failure (rs_flat s) of None \<Rightarrow> ''not run'' | Some reason \<Rightarrow> reason) @ '')'']) @
      [''cache SRAM:        '' @ dec (int (length caches)) @ '' banks, '' @ dec_sep (bits_of caches) @ '' bits ('' @
       kib (bits_of caches) @ '')''] @
      map (\<lambda>r. ljust 28 (rr_block r) @ '' '' @ rjust 6 (fixed 2 (rr_percent r)) @ ''%  '' @
               rjust 12 (fixed_sep 1 (rr_area r)) @ '' um^2'') (rs_rows s))"

definition row_json :: "resource_row \<Rightarrow> (string \<times> json) list" where
  "row_json r =
     [(''block'', JStr (rr_block r)), (''area_um2'', JFloat (rr_area r)), (''percent'', JFloat (rr_percent r)),
      (''sequential_area_um2'', JFloat (rr_seq r)), (''mapped_cells'', JInt (rr_cells r)),
      (''instances'', JInt (rr_instances r)), (''description'', JStr (rr_description r))]"

definition csv_table :: "resource_summary \<Rightarrow> string list \<times> json list list" where
  "csv_table s = (map fst (row_json (hd (rs_rows s))), map (\<lambda>r. map snd (row_json r)) (rs_rows s))"

definition memory_json :: "memory \<Rightarrow> json" where
  "memory_json m =
     JObj [(''module'', JStr (mem_module m)), (''name'', JStr (mem_name m)), (''width'', JInt (mem_width m)),
           (''size'', JInt (mem_size m)), (''read_ports'', JInt (mem_reads m)), (''write_ports'', JInt (mem_writes m)),
           (''read_clock_enable'', JStr (mem_clock m)), (''bits'', JInt (mem_bits m)), (''group'', JStr (mem_group m))]"

definition CONFIGURATION_JSON :: json where
  "CONFIGURATION_JSON =
     JObj [(''top'', JStr TOP), (''pipeline'', JStr ''3-wide decode, EX0/EX1/MEM0/MEM1 issue''),
           (''axi_data_width'', JInt 256), (''rv64m'', JBool True), (''rv64a'', JBool True), (''retire_depth'', JInt 8),
           (''full_forwarding'', JBool True), (''relaxed_waw'', JBool True), (''relaxed_hazards'', JBool True),
           (''free_branches'', JBool False), (''posted_stores'', JBool True), (''issue_window'', JBool False),
           (''predictor'', JStr ''32-entry 3-bit bimodal + RAS8''), (''trace'', JBool False), (''fpu'', JBool False),
           (''cache'', JBool True), (''l1i'', JStr ''16 KiB, 4-way, 64-byte lines''),
           (''l1d'', JStr ''16 KiB, 4-way, 64-byte lines''), (''cache_data_storage'', JStr ''inferred synchronous SRAM'')]"

definition resource_json :: "resource_summary \<Rightarrow> json" where
  "resource_json s =
     JObj [(''configuration'', CONFIGURATION_JSON),
           (''totals'', JObj
             [(''partitioned_area_um2'', JFloat (rs_total s)), (''partitioned_sequential_area_um2'', JFloat (rs_seq_total s)),
              (''inferred_memory_instances'', JInt (int (length (rs_memories s)))),
              (''inferred_memory_bits'', JInt (bits_of (rs_memories s))),
              (''cache_sram_instances'', JInt (int (length (cache_memories s)))),
              (''cache_sram_bits'', JInt (bits_of (cache_memories s))),
              (''flat_area_um2'', or_null JFloat (fl_total (rs_flat s))),
              (''flat_mapped_cells'', or_null JInt (fl_cells (rs_flat s))),
              (''partition_boundary_overhead_percent'', or_null JFloat (fl_delta (rs_flat s))),
              (''flat_map_failure'', or_null JStr (fl_failure (rs_flat s)))]),
           (''inferred_memories'', JList (map memory_json (rs_memories s))),
           (''blocks'', JList (map (\<lambda>r. JObj (row_json r)) (rs_rows s)))]"

end
