(* ===== verification/ResourceProps.thy ===== *)
theory ResourceProps
  imports ResourceReport Complex_Main "HOL-Library.Code_Target_Numeral"
begin

text \<open>
  The resource table accounts for the retained hierarchy: every kept instance is counted in one row, the recursion
  ends exactly for hierarchies without a cycle, and the memories of an accepted design have the expected shape.
\<close>

section \<open>The kept instances\<close>

text \<open>The instances below the top, by their module and path; and in the order of the walk, down to a depth.\<close>

inductive kept :: "kept_tree \<Rightarrow> string \<Rightarrow> string \<Rightarrow> bool" for h where
  kept_top: "kept h TOP TOP"
| kept_child: "kept h m p \<Longrightarrow> (c, i) \<in> set (list_at h m) \<Longrightarrow> kept h c (p @ ''/'' @ i)"

primrec kept_list :: "nat \<Rightarrow> kept_tree \<Rightarrow> string \<Rightarrow> string \<Rightarrow> (string \<times> string) list" where
  "kept_list 0 h m p = []"
| "kept_list (Suc n) h m p =
     (m, p) # concat (map (\<lambda>(c, i). kept_list n h c (p @ ''/'' @ i)) (list_at h m))"

abbreviation visit_all ::
  "(py_float list \<Rightarrow> py_float) \<Rightarrow> partition \<Rightarrow> kept_tree \<Rightarrow> (string \<times> string) list \<Rightarrow> totals \<Rightarrow> resource_error + totals" where
  "visit_all fsum parts h ks \<equiv> foldE (\<lambda>(m, p). visit_module fsum parts h m p) ks"

lemma foldE_concat:
  assumes "foldE f xs t = Inr t'" "\<And>x t t'. x \<in> set xs \<Longrightarrow> f x t = Inr t' \<Longrightarrow> foldE g (k x) t = Inr t'"
  shows "foldE g (concat (map k xs)) t = Inr t'"
  using assms
proof (induction xs arbitrary: t)
  case (Cons x xs)
  from Cons.prems(1) obtain u where u: "f x t = Inr u" "foldE f xs u = Inr t'" by auto
  have "foldE g (k x) t = Inr u" using Cons.prems(2) u(1) by simp
  then show ?case using Cons.IH [OF u(2)] Cons.prems(2) by (simp add: foldE_append)
qed simp

lemma walk_visits:
  "walk n fsum parts h m p t = Inr t' \<Longrightarrow> visit_all fsum parts h (kept_list n h m p) t = Inr t'"
proof (induction n arbitrary: m p t t')
  case (Suc n)
  from Suc.prems obtain u where u: "visit_module fsum parts h m p t = Inr u"
    "foldE (\<lambda>(c, i). walk n fsum parts h c (p @ ''/'' @ i)) (list_at h m) u = Inr t'" by auto
  have "visit_all fsum parts h (concat (map (\<lambda>(c, i). kept_list n h c (p @ ''/'' @ i)) (list_at h m))) u = Inr t'"
    by (rule foldE_concat [OF u(2)]) (use Suc.IH in auto)
  then show ?case by (simp add: u(1))
qed simp

lemma walk_closed:
  assumes "walk n fsum parts h m p t = Inr t'" "(m', q) \<in> set (kept_list n h m p)" "(c, i) \<in> set (list_at h m')"
  shows "(c, q @ ''/'' @ i) \<in> set (kept_list n h m p)"
  using assms(1,2)
proof (induction n arbitrary: m p t t')
  case (Suc n)
  from Suc.prems(1) obtain u where u:
    "foldE (\<lambda>(c, i). walk n fsum parts h c (p @ ''/'' @ i)) (list_at h m) u = Inr t'" by auto
  show ?case
  proof (cases "(m', q) = (m, p)")
    case True
    then have "(c, i) \<in> set (list_at h m)" using assms(3) by simp
    from foldE_each [OF u this] obtain v v' where "walk n fsum parts h c (p @ ''/'' @ i) v = Inr v'" by auto
    then have "0 < n" by (cases n) auto
    then have "(c, p @ ''/'' @ i) \<in> set (kept_list n h c (p @ ''/'' @ i))" by (cases n) auto
    then show ?thesis using True \<open>(c, i) \<in> set (list_at h m)\<close> by auto
  next
    case False
    with Suc.prems(2) obtain d j where d: "(d, j) \<in> set (list_at h m)" "(m', q) \<in> set (kept_list n h d (p @ ''/'' @ j))"
      by auto
    from foldE_each [OF u d(1)] obtain v v' where "walk n fsum parts h d (p @ ''/'' @ j) v = Inr v'" by auto
    from Suc.IH [OF this d(2)] show ?thesis using d(1) by auto
  qed
qed simp

lemma kept_list_kept: "kept h m p \<Longrightarrow> (m', q) \<in> set (kept_list n h m p) \<Longrightarrow> kept h m' q"
proof (induction n arbitrary: m p)
  case (Suc n)
  then show ?case using kept_child [OF Suc.prems(1)] by fastforce
qed simp

lemma walk_reaches_kept:
  assumes "walk n fsum parts h TOP TOP t = Inr t'"
  shows "set (kept_list n h TOP TOP) = {(m, p). kept h m p}"
proof -
  have "0 < n" using assms by (cases n) auto
  have "(m, p) \<in> set (kept_list n h TOP TOP)" if "kept h m p" for m p
    using that
  proof induction
    case kept_top
    show ?case using \<open>0 < n\<close> by (cases n) auto
  next
    case (kept_child m p c i)
    then show ?case using walk_closed [OF assms] by blast
  qed
  then show ?thesis using kept_list_kept [OF kept_top, where n = n] by blast
qed

section \<open>What the walk counts\<close>

definition category_of :: "string \<Rightarrow> string" where
  "category_of m = (case classify_module m of Inl _ \<Rightarrow> [] | Inr kind \<Rightarrow> fst kind)"

definition cells_of :: "partition \<Rightarrow> string \<Rightarrow> int" where
  "cells_of parts m = (case map_of parts m of None \<Rightarrow> 0 | Some stats \<Rightarrow> mapped_cells stats)"

definition in_category :: "string \<Rightarrow> (string \<times> string) list \<Rightarrow> (string \<times> string) list" where
  "in_category category ks = filter (\<lambda>(m, _). category_of m = category) ks"

definition cell_sum :: "partition \<Rightarrow> (string \<times> string) list \<Rightarrow> int" where
  "cell_sum parts ks = sum_list (map (\<lambda>(m, _). cells_of parts m) ks)"

lemma kept_sums [simp]:
  "in_category k [] = []" "cell_sum parts [] = 0"
  "in_category k (ks @ [(m, p)]) = in_category k ks @ (if category_of m = k then [(m, p)] else [])"
  "cell_sum parts (ks @ [(m, p)]) = cell_sum parts ks + cells_of parts m"
  by (simp_all add: in_category_def cell_sum_def)

lemma dbl_denominator: "0 < snd (dbl n d)"
  by (simp add: dbl_def Let_def)

lemma dom_add_float [simp]: "fst ` set (add_float k x d) = insert k (fst ` set d)"
  by (induction k x d rule: add_float.induct) auto

lemma distinct_add_float [simp]: "distinct (map fst (add_float k x d)) = distinct (map fst d)"
  by (induction k x d rule: add_float.induct) simp_all

lemma add_float_denominators: "z \<in> set (add_float k x d) \<Longrightarrow> \<forall>y \<in> set d. 0 < snd (snd y) \<Longrightarrow> 0 < snd (snd z)"
  by (induction k x d rule: add_float.induct) (auto simp: float_add_def dbl_denominator split: if_splits)

definition accounts :: "partition \<Rightarrow> (string \<times> string) list \<Rightarrow> totals \<Rightarrow> bool" where
  "accounts parts ks t \<longleftrightarrow>
     (\<forall>k. list_at (t_instances t) k = map snd (in_category k ks)) \<and>
     (\<forall>k. hits (t_cells t) k = cell_sum parts (in_category k ks)) \<and> total (t_cells t) = cell_sum parts ks \<and>
     fst ` set (t_area t) = (category_of \<circ> fst) ` set ks \<and> distinct (map fst (t_area t)) \<and>
     (\<forall>y \<in> set (t_area t). 0 < snd (snd y))"

lemma visit_accounts:
  assumes "visit_module fsum parts h m p t = Inr t'" "accounts parts ks t"
  shows "accounts parts (ks @ [(m, p)]) t'"
proof -
  from assms(1) obtain stats children where st: "map_of parts m = Some stats"
    "(let da = float_sub (module_area stats) (fsum (map module_area children));
          ds = float_sub (module_seq stats) (fsum (map module_seq children))
      in if below_tolerance da \<or> below_tolerance ds then Inl (NegativeArea m)
         else bindE (classify_module m) (\<lambda>kind. Inr (count_module kind da ds stats p t))) = Inr t'"
    unfolding visit_module_def by auto
  define da ds where "da = float_sub (module_area stats) (fsum (map module_area children))"
    and "ds = float_sub (module_seq stats) (fsum (map module_seq children))"
  from st(2) obtain kind where v: "classify_module m = Inr kind" and t': "t' = count_module kind da ds stats p t"
    by (auto simp: Let_def da_def ds_def split: if_splits)
  have c: "category_of m = fst kind" "cells_of parts m = mapped_cells stats"
    using v st(1) by (simp_all add: category_of_def cells_of_def)
  obtain category description where k: "kind = (category, description)" by fastforce
  have a: "\<forall>y \<in> set (t_area t). 0 < snd (snd y)" using assms(2) by (simp add: accounts_def)
  have d: "\<forall>y \<in> set (t_area t'). 0 < snd (snd y)"
    using add_float_denominators [OF _ a] by (auto simp: t' k count_module_def dest!: add_float_denominators [OF _ a])
  show ?thesis using assms(2) c d unfolding accounts_def t' k by (simp add: count_module_def)
qed

lemma nothing_accounts: "accounts parts [] no_totals"
  by (simp add: accounts_def no_totals_def list_at_def hits_def total_def)

lemma walk_accounts:
  assumes "walk n fsum parts h TOP TOP no_totals = Inr t"
  shows "accounts parts (kept_list n h TOP TOP) t"
proof (rule foldE_prefix_invariant [OF walk_visits [OF assms], where P = "accounts parts"])
  show "accounts parts [] no_totals" by (rule nothing_accounts)
  show "accounts parts (ys @ [x]) s'"
    if "accounts parts ys s" "(case x of (m, p) \<Rightarrow> visit_module fsum parts h m p) s = Inr s'" for ys x s s'
    using that by (cases x) (simp add: visit_accounts)
qed

section \<open>Rows in descending order\<close>

definition ratio :: "py_float \<Rightarrow> rat" where
  "ratio x = of_int (fst x) / of_int (snd x)"

lemma float_less_ratio: "0 < snd x \<Longrightarrow> 0 < snd y \<Longrightarrow> float_less x y \<longleftrightarrow> ratio x < ratio y"
  by (simp add: float_less_def ratio_def divide_simps flip: of_int_mult of_int_less_iff)

lemma set_insert_desc [simp]: "set (insert_desc f x ys) = insert x (set ys)"
  by (induction ys) auto

lemma sorted_insert_desc:
  assumes "\<forall>z \<in> insert x (set ys). 0 < snd (f z)" "sorted_wrt (\<lambda>a b. ratio (f b) \<le> ratio (f a)) ys"
  shows "sorted_wrt (\<lambda>a b. ratio (f b) \<le> ratio (f a)) (insert_desc f x ys)"
  using assms by (induction ys) (auto simp: float_less_ratio not_less)

lemma sorted_sort_desc:
  assumes "\<forall>z \<in> set xs. 0 < snd (f z)"
  shows "sorted_wrt (\<lambda>a b. ratio (f b) \<le> ratio (f a)) (sort_desc f xs)"
  using assms
proof (induction xs)
  case (Cons x xs)
  have "set (sort_desc f xs) = set xs" by (metis mset_sort_desc set_mset_mset)
  then show ?case using Cons sorted_insert_desc [of x "sort_desc f xs" f] by (simp add: sort_desc_def)
qed (simp add: sort_desc_def)

lemma sum_list_by_key:
  fixes f :: "'a \<Rightarrow> int"
  assumes "distinct ks" "g ` set xs \<subseteq> set ks"
  shows "(\<Sum>k\<leftarrow>ks. sum_list (map f (filter (\<lambda>x. g x = k) xs))) = sum_list (map f xs)"
  using assms(2)
proof (induction xs)
  case (Cons x xs)
  have "(\<Sum>k\<leftarrow>ks. if g x = k then f x else 0) = f x"
    using Cons.prems assms(1) by (simp add: sum_list_distinct_conv_sum_set)
  moreover have "(\<Sum>k\<leftarrow>ks. sum_list (map f (filter (\<lambda>y. g y = k) (x # xs)))) =
      (\<Sum>k\<leftarrow>ks. if g x = k then f x else 0) + (\<Sum>k\<leftarrow>ks. sum_list (map f (filter (\<lambda>y. g y = k) xs)))"
    by (simp add: sum_list_addf [symmetric]) (rule arg_cong [where f = sum_list], simp)
  ultimately show ?case using Cons by simp
qed simp

lemma sum_sort_desc:
  fixes g :: "'a \<Rightarrow> int"
  shows "sum_list (map g (sort_desc f xs)) = sum_list (map g xs)"
  by (metis mset_map mset_sort_desc sum_mset_sum_list)

lemma set_sort_desc [simp]: "set (sort_desc f xs) = set xs"
  by (metis mset_sort_desc set_mset_mset)

text \<open>
  C39: a table that is written accounts for the whole retained hierarchy. The kept instances are found once each, with
  one row for every category that occurs and none besides; a row counts exactly the instances and mapped cells of
  its category, the totals are those of all instances, and the rows are in descending order of area.
\<close>

theorem resources_account_for_hierarchy:
  assumes "summarize fsum depth modules hierarchy_text memories_text flat = Inr s"
  shows "\<exists>h. kept_hierarchy hierarchy_text = Inr h \<and>
    (let ks = kept_list depth h TOP TOP; cells = cell_sum (load_stat modules) in
     set ks = {(m, p). kept h m p} \<and>
     distinct (map rr_block (rs_rows s)) \<and> rr_block ` set (rs_rows s) = (\<lambda>(m, _). category_of m) ` set ks \<and>
     (\<forall>r \<in> set (rs_rows s). rr_instances r = int (length (in_category (rr_block r) ks)) \<and>
        rr_cells r = cells (in_category (rr_block r) ks)) \<and>
     sum_list (map rr_instances (rs_rows s)) = int (length ks) \<and> rs_cells s = cells ks \<and>
     sum_list (map rr_cells (rs_rows s)) = cells ks \<and>
     sorted_wrt (\<lambda>r r'. ratio (rr_area r') \<le> ratio (rr_area r)) (rs_rows s))"
proof -
  let ?parts = "load_stat modules"
  from assms obtain h ms t where h: "kept_hierarchy hierarchy_text = Inr h"
    and w: "walk depth fsum ?parts h TOP TOP no_totals = Inr t"
    and s: "summarize_walk fsum ?parts ms flat t = Inr s"
    by (auto simp: summarize_def Let_def split: if_splits)
  define ks where "ks = kept_list depth h TOP TOP"
  note acc = walk_accounts [OF w, folded ks_def, unfolded accounts_def]
  let ?row = "resource_row_of t (fsum (map snd (t_area t)))"
  have rows: "rs_rows s = sort_desc rr_area (map ?row (t_area t))" and cells: "rs_cells s = total (t_cells t)"
    using s by (auto simp: summarize_walk_def Let_def resource_rows_def split: if_splits)
  have block: "rr_block (?row e) = fst e" "rr_area (?row e) = snd e" for e
    by (simp_all add: resource_row_of_def split: prod.split)
  have counts: "rr_instances (?row e) = int (length (in_category (fst e) ks))"
    "rr_cells (?row e) = cell_sum ?parts (in_category (fst e) ks)" for e
    using acc by (simp_all add: resource_row_of_def split: prod.split)
  have keys: "distinct (map fst (t_area t))" "fst ` set (t_area t) = (\<lambda>(m, _). category_of m) ` set ks"
    using acc by (auto simp: case_prod_unfold comp_def)
  have all: "(\<Sum>k\<leftarrow>map fst (t_area t). sum_list (map f (in_category k ks))) = sum_list (map f ks)" for f :: "string \<times> string \<Rightarrow> int"
    using sum_list_by_key [OF keys(1), of "\<lambda>(m, _). category_of m" ks f] keys(2)
    by (simp add: in_category_def case_prod_unfold)
  have dist: "distinct (map rr_block (rs_rows s))"
  proof -
    have "mset (map rr_block (rs_rows s)) = mset (map fst (t_area t))"
      unfolding rows mset_map mset_sort_desc by (simp add: multiset.map_comp comp_def block flip: mset_map)
    then show ?thesis using keys(1) mset_eq_imp_distinct_iff by blast
  qed
  have each: "\<forall>r \<in> set (rs_rows s). rr_instances r = int (length (in_category (rr_block r) ks)) \<and>
      rr_cells r = cell_sum ?parts (in_category (rr_block r) ks)"
    by (auto simp: rows counts block)
  have blocks: "rr_block ` set (rs_rows s) = (\<lambda>(m, _). category_of m) ` set ks"
    unfolding rows set_sort_desc set_map image_image block by (rule keys(2))
  have inst: "sum_list (map rr_instances (rs_rows s)) = int (length ks)"
    using all [of "\<lambda>_. 1"] by (simp add: rows sum_sort_desc comp_def counts sum_list_triv)
  have sums: "sum_list (map rr_cells (rs_rows s)) = cell_sum ?parts ks"
    using all [of "\<lambda>(m, _). cells_of ?parts m"] by (simp add: rows sum_sort_desc comp_def counts cell_sum_def)
  have order: "sorted_wrt (\<lambda>r r'. ratio (rr_area r') \<le> ratio (rr_area r)) (rs_rows s)"
    unfolding rows by (rule sorted_sort_desc) (use acc block in auto)
  show ?thesis
    using h walk_reaches_kept [OF w, folded ks_def] dist blocks each inst sums order acc cells
    by (simp add: Let_def ks_def)
qed

text \<open>A design with 4 and 32 cache banks and one retained module below the top.\<close>

definition cache_lines :: "string \<Rightarrow> string \<Rightarrow> string list" where
  "cache_lines name width =
     [''  cell $mem_v2 '' @ name, ''    parameter '' @ [CHR 0x5C] @ ''WIDTH '' @ width, ''    parameter '' @ [CHR 0x5C] @ ''SIZE 64'',
      ''    parameter '' @ [CHR 0x5C] @ ''RD_PORTS 1'', ''    parameter '' @ [CHR 0x5C] @ ''WR_PORTS 1'',
      ''    parameter '' @ [CHR 0x5C] @ ''RD_CLK_ENABLE 1'' @ [CHR 0x27] @ ''1'']"

definition demo_lines :: "string list" where
  "demo_lines = ''module openrv64_top_3p'' # concat (replicate 4 (cache_lines ''u_l1i'' ''512'')) @
     concat (replicate 32 (cache_lines ''u_l1d'' ''64''))"

definition demo_open :: "string \<Rightarrow> int \<Rightarrow> open_memory" where
  "demo_open name width = \<lparr>om_module = TOP, om_name = name, om_width = Some width, om_size = Some 64, om_reads = Some 1,
     om_writes = Some 1, om_clock = Some ''1''\<rparr>"

definition demo_memory :: "string \<Rightarrow> int \<Rightarrow> string \<Rightarrow> memory" where
  "demo_memory name width grp = \<lparr>mem_module = TOP, mem_name = name, mem_width = width, mem_size = 64, mem_reads = 1,
     mem_writes = 1, mem_clock = ''1'', mem_bits = width * 64, mem_group = grp\<rparr>"

lemma demo_first: "foldE memory_line (''module openrv64_top_3p'' # cache_lines ''u_l1i'' ''512'') ([], None, None) =
    Inr ([], Some TOP, Some (demo_open ''u_l1i'' 512))"
  by code_simp

lemma demo_next:
  "foldE memory_line (cache_lines ''u_l1i'' ''512'') (ms, Some TOP, Some (demo_open ''u_l1i'' 512)) =
     Inr (ms @ [demo_memory ''u_l1i'' 512 ''L1I data''], Some TOP, Some (demo_open ''u_l1i'' 512))"
  "foldE memory_line (cache_lines ''u_l1d'' ''64'') (ms, Some TOP, Some (demo_open ''u_l1i'' 512)) =
     Inr (ms @ [demo_memory ''u_l1i'' 512 ''L1I data''], Some TOP, Some (demo_open ''u_l1d'' 64))"
  "foldE memory_line (cache_lines ''u_l1d'' ''64'') (ms, Some TOP, Some (demo_open ''u_l1d'' 64)) =
     Inr (ms @ [demo_memory ''u_l1d'' 64 ''L1D data''], Some TOP, Some (demo_open ''u_l1d'' 64))"
  by code_simp+

lemma demo_repeat:
  "foldE memory_line (concat (replicate n (cache_lines ''u_l1i'' ''512''))) (ms, Some TOP, Some (demo_open ''u_l1i'' 512)) =
     Inr (ms @ replicate n (demo_memory ''u_l1i'' 512 ''L1I data''), Some TOP, Some (demo_open ''u_l1i'' 512))"
  "foldE memory_line (concat (replicate n (cache_lines ''u_l1d'' ''64''))) (ms, Some TOP, Some (demo_open ''u_l1d'' 64)) =
     Inr (ms @ replicate n (demo_memory ''u_l1d'' 64 ''L1D data''), Some TOP, Some (demo_open ''u_l1d'' 64))"
  by (induction n arbitrary: ms) (simp_all add: foldE_append demo_next)

definition demo_memories :: "memory list" where
  "demo_memories = replicate 4 (demo_memory ''u_l1i'' 512 ''L1I data'') @ replicate 32 (demo_memory ''u_l1d'' 64 ''L1D data'')"

lemma demo_inferred: "inferred_memories (concat (map (\<lambda>l. l @ [CHR 0x0A]) demo_lines)) = Inr demo_memories"
proof -
  have "\<forall>l \<in> set (''module openrv64_top_3p'' # cache_lines ''u_l1i'' ''512'' @ cache_lines ''u_l1d'' ''64''). \<forall>c \<in> set l. \<not> is_break c"
    by code_simp
  then have split: "splitlines (concat (map (\<lambda>l. l @ [CHR 0x0A]) demo_lines)) = demo_lines"
    by (intro splitlines_lines) (auto simp: demo_lines_def)
  have "demo_lines = (''module openrv64_top_3p'' # cache_lines ''u_l1i'' ''512'') @ concat (replicate 3 (cache_lines ''u_l1i'' ''512'')) @
      cache_lines ''u_l1d'' ''64'' @ concat (replicate 31 (cache_lines ''u_l1d'' ''64''))"
    by (simp add: demo_lines_def eval_nat_numeral)
  note lines = this
  have "foldE memory_line demo_lines ([], None, None) =
      Inr (replicate 3 (demo_memory ''u_l1i'' 512 ''L1I data'') @ [demo_memory ''u_l1i'' 512 ''L1I data''] @
           replicate 31 (demo_memory ''u_l1d'' 64 ''L1D data''), Some TOP, Some (demo_open ''u_l1d'' 64))"
    unfolding lines foldE_append demo_first bindE_simps demo_repeat demo_next by simp
  moreover have "finish_memory (ms, Some (demo_open ''u_l1d'' 64)) = Inr (ms @ [demo_memory ''u_l1d'' 64 ''L1D data''])" for ms
    by code_simp
  ultimately show ?thesis
    by (simp add: inferred_memories_def split demo_memories_def eval_nat_numeral)
qed

definition demo_modules :: "(string \<times> kept_stats) list" where
  "demo_modules =
     [(TOP, \<lparr>ks_area = Some (1, 1), ks_seq = None, ks_cells = [(''sky130_fd_sc_hd__inv_1'', 7)]\<rparr>),
      (''openrv64_decode_top'', \<lparr>ks_area = None, ks_seq = None, ks_cells = [(''sky130_fd_sc_hd__nand2_1'', 3)]\<rparr>)]"

definition demo_hierarchy :: string where
  "demo_hierarchy = ''module openrv64_top_3p'' @ newline @ ''  cell openrv64_decode_top u_decode''"

lemma not_isl:
  assumes "\<not> isl x"
  obtains s where "x = Inr s"
  using assms by (cases x) auto

theorem resources_account_for_hierarchy_witness:
  "\<exists>s. summarize (foldl float_add (0, 1)) 10 demo_modules demo_hierarchy (concat (map (\<lambda>l. l @ [CHR 0x0A]) demo_lines)) None = Inr s \<and>
     sum_list (map rr_instances (rs_rows s)) = 2 \<and> rs_cells s = 10"
proof -
  let ?add = "foldl float_add (0, 1)"
  define h where "h = [(TOP, [(''openrv64_decode_top'', ''u_decode'')])]"
  have h: "kept_hierarchy demo_hierarchy = Inr h" unfolding h_def by code_simp
  have check: "check_memories demo_memories = Inr ()" by code_simp
  have "\<not> isl (bindE (walk 10 ?add (load_stat demo_modules) h TOP TOP no_totals)
      (summarize_walk ?add (load_stat demo_modules) demo_memories None))" unfolding h_def by code_simp
  then obtain s where "bindE (walk 10 ?add (load_stat demo_modules) h TOP TOP no_totals)
      (summarize_walk ?add (load_stat demo_modules) demo_memories None) = Inr s" by (rule not_isl)
  moreover have "map_of (load_stat demo_modules) TOP \<noteq> None" by code_simp
  ultimately have s: "summarize ?add 10 demo_modules demo_hierarchy (concat (map (\<lambda>l. l @ [CHR 0x0A]) demo_lines)) None = Inr s"
    unfolding summarize_def Let_def h demo_inferred check bindE_simps by (simp only: if_False)
  have ks: "kept_list 10 h TOP TOP = [(TOP, TOP), (''openrv64_decode_top'', ''openrv64_top_3p/u_decode'')]"
    unfolding h_def by code_simp
  have cells: "cell_sum (load_stat demo_modules) (kept_list 10 h TOP TOP) = 10" unfolding h_def by code_simp
  obtain h' where h': "kept_hierarchy demo_hierarchy = Inr h'"
    "sum_list (map rr_instances (rs_rows s)) = int (length (kept_list 10 h' TOP TOP))"
    "rs_cells s = cell_sum (load_stat demo_modules) (kept_list 10 h' TOP TOP)"
    using resources_account_for_hierarchy [OF s] unfolding Let_def by blast
  have "h' = h" using h h'(1) by simp
  then have "sum_list (map rr_instances (rs_rows s)) = 2" "rs_cells s = 10" using h'(2,3) cells by (simp_all only: ks, simp)
  then show ?thesis using s by blast
qed

section \<open>When the recursion ends\<close>

definition child_rel :: "kept_tree \<Rightarrow> (string \<times> string) set" where
  "child_rel h = {(m, c). \<exists>i. (c, i) \<in> set (list_at h m)}"

lemma finite_child_rel: "finite (child_rel h)"
proof (rule finite_subset)
  show "child_rel h \<subseteq> (\<Union>(m, cs) \<in> set h. Pair m ` fst ` set cs)"
  proof (clarify, unfold child_rel_def mem_Collect_eq prod.case)
    fix m c assume "\<exists>i. (c, i) \<in> set (list_at h m)"
    then obtain i cs where "map_of h m = Some cs" "(c, i) \<in> set cs"
      unfolding list_at_def by (cases "map_of h m") auto
    then show "(m, c) \<in> (\<Union>(m, cs) \<in> set h. Pair m ` fst ` set cs)" by (force dest: map_of_SomeD)
  qed
qed auto

text \<open>How deep the walk goes below a module.\<close>

definition rank :: "kept_tree \<Rightarrow> string \<Rightarrow> nat" where
  "rank h m = card {c. (m, c) \<in> (child_rel h)\<^sup>+}"

lemma finite_below: "finite {c. (m, c) \<in> (child_rel h)\<^sup>+}"
proof (rule finite_subset)
  show "{c. (m, c) \<in> (child_rel h)\<^sup>+} \<subseteq> snd ` (child_rel h)\<^sup>+" by force
  show "finite (snd ` (child_rel h)\<^sup>+)" using finite_child_rel by simp
qed

lemma rank_decreases:
  assumes "acyclic (child_rel h)" "(m, c) \<in> child_rel h"
  shows "rank h c < rank h m"
  unfolding rank_def
proof (rule psubset_card_mono [OF finite_below])
  have "c \<notin> {d. (c, d) \<in> (child_rel h)\<^sup>+}" using assms(1) by (simp add: acyclic_def)
  then show "{d. (c, d) \<in> (child_rel h)\<^sup>+} \<subset> {d. (m, d) \<in> (child_rel h)\<^sup>+}"
    using assms(2) by (auto intro: trancl_into_trancl2)
qed

lemma rank_bound: "rank h m \<le> card (Range (child_rel h))"
  unfolding rank_def
proof (rule card_mono)
  show "finite (Range (child_rel h))" using finite_child_rel by (rule finite_Range)
  have "{c. (m, c) \<in> (child_rel h)\<^sup>+} \<subseteq> Range ((child_rel h)\<^sup>+)" by blast
  then show "{c. (m, c) \<in> (child_rel h)\<^sup>+} \<subseteq> Range (child_rel h)" by (simp only: trancl_range)
qed

lemma classify_error: "classify_module m = Inl e \<Longrightarrow> \<exists>b. e = Unclassified m b"
  by (auto simp: classify_module_def category_for_def split: if_splits)

lemma child_stats_error: "child_stats parts cs = Inl e \<Longrightarrow> \<exists>c. e = KeyError c"
  unfolding child_stats_def by (drule mapE_error) auto

lemma visit_errors:
  assumes "visit_module fsum parts h m p t = Inl e" "map_of parts m \<noteq> None"
  shows "e \<noteq> TooDeepRecursion \<and> (\<forall>x. e \<noteq> KeptModuleMissing x)"
proof (cases "child_stats parts (list_at h m)")
  case (Inl e')
  then show ?thesis using assms child_stats_error [OF Inl] by (auto simp: visit_module_def)
next
  case (Inr cs)
  then have "e = NegativeArea m \<or> classify_module m = Inl e"
    using assms by (auto simp: visit_module_def Let_def bindE_eq_Inl split: if_splits)
  then show ?thesis using classify_error by blast
qed

lemma visit_children:
  assumes "visit_module fsum parts h m p t = Inr t'" "(c, i) \<in> set (list_at h m)"
  shows "map_of parts c \<noteq> None"
proof -
  from assms(1) obtain cs where cs: "child_stats parts (list_at h m) = Inr cs" by (auto simp: visit_module_def)
  obtain k where k: "k < length (list_at h m)" "list_at h m ! k = (c, i)" using assms(2) by (auto simp: in_set_conv_nth)
  show ?thesis using mapE_nth [OF cs [unfolded child_stats_def] k(1)] k(2) by auto
qed

lemma walk_errors:
  assumes "acyclic (child_rel h) \<Longrightarrow> n = 0 \<or> e = TooDeepRecursion \<Longrightarrow> rank h m < n"
    and "walk n fsum parts h m p t = Inl e" "map_of parts m \<noteq> None"
  shows "(e = TooDeepRecursion \<longrightarrow> \<not> acyclic (child_rel h)) \<and> (\<forall>x. e \<noteq> KeptModuleMissing x)"
  using assms
proof (induction n arbitrary: m p t)
  case (Suc n)
  show ?case
  proof (cases "visit_module fsum parts h m p t")
    case (Inl e')
    then show ?thesis using visit_errors [OF Inl Suc.prems(3)] Suc.prems(2) by simp
  next
    case (Inr u)
    then have "foldE (\<lambda>(c, i). walk n fsum parts h c (p @ ''/'' @ i)) (list_at h m) u = Inl e"
      using Suc.prems(2) by simp
    then obtain c i v where c: "(c, i) \<in> set (list_at h m)" "walk n fsum parts h c (p @ ''/'' @ i) v = Inl e"
      using foldE_error [of _ "list_at h m" u e] by fastforce
    show ?thesis
    proof (rule Suc.IH [OF _ c(2)])
      show "map_of parts c \<noteq> None" by (rule visit_children [OF Inr c(1)])
      assume a: "acyclic (child_rel h)" "n = 0 \<or> e = TooDeepRecursion"
      have "e = TooDeepRecursion" using a(2) c(2) by auto
      moreover have "rank h c < rank h m" by (rule rank_decreases [OF a(1)]) (use c(1) in \<open>auto simp: child_rel_def\<close>)
      ultimately show "rank h c < n" using Suc.prems(1) [OF a(1)] by simp
    qed
  qed
qed auto

lemma memories_errors:
  assumes "inferred_memories contents = Inl e"
  shows "e \<noteq> TooDeepRecursion \<and> (\<forall>x. e \<noteq> KeptModuleMissing x)"
proof -
  have fin: "finish_memory st = Inl d \<Longrightarrow> d \<noteq> TooDeepRecursion \<and> (\<forall>x. d \<noteq> KeptModuleMissing x)" for st d
    by (auto simp: finish_memory_def split: prod.splits option.splits)
  have line: "memory_line l st = Inl d \<Longrightarrow> d \<noteq> TooDeepRecursion \<and> (\<forall>x. d \<noteq> KeptModuleMissing x)" for l st d
    unfolding memory_line_def by (auto simp: bindE_eq_Inl split: prod.splits option.splits dest: fin)
  show ?thesis
    using assms unfolding inferred_memories_def bindE_eq_Inl by (auto dest: foldE_error line fin split: prod.splits)
qed

lemma check_errors:
  assumes "check_memories ms = Inl e"
  shows "e \<noteq> TooDeepRecursion \<and> (\<forall>x. e \<noteq> KeptModuleMissing x)"
proof -
  have cache: "check_cache ms ex = Inl d \<Longrightarrow> d \<noteq> TooDeepRecursion \<and> (\<forall>x. d \<noteq> KeptModuleMissing x)" for ex d
    by (auto simp: check_cache_def Let_def split: prod.splits if_splits)
  have overlay: "check_overlay ms = Inl d \<Longrightarrow> d \<noteq> TooDeepRecursion \<and> (\<forall>x. d \<noteq> KeptModuleMissing x)" for d
    by (auto simp: check_overlay_def Let_def split: if_splits)
  show ?thesis
    using assms unfolding check_memories_def bindE_eq_Inl by (auto dest: mapE_error cache overlay)
qed

lemma summarize_walks:
  assumes "kept_hierarchy hierarchy_text = Inr h" "summarize fsum depth modules hierarchy_text memories_text flat = Inl e"
    and "e = TooDeepRecursion \<or> e = KeptModuleMissing x"
  shows "map_of (load_stat modules) TOP \<noteq> None \<and>
    walk depth fsum (load_stat modules) h TOP TOP no_totals = Inl e"
proof -
  have mem: "inferred_memories memories_text \<noteq> Inl e" using assms(3) memories_errors by blast
  have check: "check_memories ms \<noteq> Inl e" for ms using assms(3) check_errors by blast
  have last: "summarize_walk fsum (load_stat modules) ms flat t \<noteq> Inl e" for ms t
    using assms(3) by (auto simp: summarize_walk_def Let_def)
  from assms(2) have top: "map_of (load_stat modules) TOP \<noteq> None"
    using assms(3) by (cases "map_of (load_stat modules) TOP") (auto simp: summarize_def Let_def)
  with assms(2) have "bindE (inferred_memories memories_text) (\<lambda>memories. bindE (check_memories memories) (\<lambda>_.
      bindE (walk depth fsum (load_stat modules) h TOP TOP no_totals)
        (\<lambda>t. summarize_walk fsum (load_stat modules) memories flat t))) = Inl e"
    by (simp add: summarize_def Let_def assms(1))
  then show ?thesis using mem check last top unfolding bindE_eq_Inl by blast
qed

lemma kept_deeper:
  assumes "(m, c) \<in> (child_rel h)\<^sup>+" "kept h m p"
  shows "\<exists>q. kept h c q \<and> length p < length q"
  using assms(1)
proof induction
  case (base c)
  then obtain i where "(c, i) \<in> set (list_at h m)" by (auto simp: child_rel_def)
  then show ?case using kept_child [OF assms(2)] by (intro exI [of _ "p @ ''/'' @ i"]) simp
next
  case (step c d)
  then obtain q i where "kept h c q" "length p < length q" "(d, i) \<in> set (list_at h c)" by (auto simp: child_rel_def)
  then show ?case using kept_child by (intro exI [of _ "q @ ''/'' @ i"]) simp
qed

lemma walk_no_cycle:
  assumes "walk n fsum parts h TOP TOP t = Inr t'" "kept h m p"
  shows "(m, m) \<notin> (child_rel h)\<^sup>+"
proof
  assume c: "(m, m) \<in> (child_rel h)\<^sup>+"
  let ?P = "{p. kept h m p}"
  have "?P \<subseteq> snd ` set (kept_list n h TOP TOP)" using walk_reaches_kept [OF assms(1)] by force
  then have fin: "finite (length ` ?P)" by (meson finite_imageI finite_set finite_subset)
  obtain q where q: "kept h m q" "length q = Max (length ` ?P)"
    using Max_in [OF fin] assms(2) by fastforce
  obtain r where "kept h m r" "length q < length r" using kept_deeper [OF c q(1)] by blast
  then have "length r \<le> Max (length ` ?P)" using fin by (intro Max_ge) auto
  then show False using q(2) \<open>length q < length r\<close> by simp
qed

text \<open>
  C40: the recursion over the retained hierarchy. Without a cycle and with more frames than there are distinct
  children it never exhausts the interpreter's stack; with a cycle below the top no table is ever written; and the
  walk's own message for a kept module without statistics is unreachable.
\<close>

theorem hierarchy_recursion_ends:
  assumes "kept_hierarchy hierarchy_text = Inr h"
  shows "(acyclic (child_rel h) \<and> card (Range (child_rel h)) < depth \<longrightarrow>
      summarize fsum depth modules hierarchy_text memories_text flat \<noteq> Inl TooDeepRecursion) \<and>
    (kept h m p \<and> (m, m) \<in> (child_rel h)\<^sup>+ \<longrightarrow>
      (\<exists>e. summarize fsum depth modules hierarchy_text memories_text flat = Inl e)) \<and>
    summarize fsum depth modules hierarchy_text memories_text flat \<noteq> Inl (KeptModuleMissing x)"
proof (intro conjI impI)
  assume "acyclic (child_rel h) \<and> card (Range (child_rel h)) < depth"
  then show "summarize fsum depth modules hierarchy_text memories_text flat \<noteq> Inl TooDeepRecursion"
    using summarize_walks [OF assms] walk_errors rank_bound [of h TOP] by (metis le_less_trans)
next
  assume "kept h m p \<and> (m, m) \<in> (child_rel h)\<^sup>+"
  then show "\<exists>e. summarize fsum depth modules hierarchy_text memories_text flat = Inl e"
    using walk_no_cycle assms
    by (cases "summarize fsum depth modules hierarchy_text memories_text flat")
      (auto simp: summarize_def Let_def split: if_splits)
next
  show "summarize fsum depth modules hierarchy_text memories_text flat \<noteq> Inl (KeptModuleMissing x)"
  proof (cases depth)
    case 0
    then show ?thesis using summarize_walks [OF assms, where e = "KeptModuleMissing x" and x = x] by fastforce
  next
    case (Suc n)
    then show ?thesis
      using summarize_walks [OF assms, where e = "KeptModuleMissing x" and x = x]
        walk_errors [where n = depth and e = "KeptModuleMissing x"] by blast
  qed
qed

definition demo_cycle :: string where
  "demo_cycle = ''module openrv64_top_3p'' @ newline @ ''  cell openrv64_top_3p u_again''"

theorem hierarchy_recursion_ends_witness:
  "summarize (foldl float_add (0, 1)) 1 demo_modules [] [] None \<noteq> Inl TooDeepRecursion \<and>
   (\<exists>e. summarize (foldl float_add (0, 1)) 900 demo_modules demo_cycle [] None = Inl e)"
proof -
  have "kept_hierarchy [] = Inr []" by code_simp
  moreover have "child_rel [] = {}" by (simp add: child_rel_def list_at_def)
  moreover have c: "kept_hierarchy demo_cycle = Inr [(TOP, [(TOP, ''u_again'')])]" by code_simp
  moreover have "(TOP, TOP) \<in> (child_rel [(TOP, [(TOP, ''u_again'')])])\<^sup>+"
    by (rule r_into_trancl) (simp add: child_rel_def list_at_def)
  ultimately show ?thesis
    using hierarchy_recursion_ends [of "[]" "[]" 1 "foldl float_add (0, 1)" demo_modules "[]" None]
      hierarchy_recursion_ends [OF c, of 900 "foldl float_add (0, 1)" demo_modules "[]" None TOP TOP] kept_top
    by (simp add: acyclic_def)
qed

end
