(* ===== verification/MapSummary.thy ===== *)
theory MapSummary
  imports ResourceReport Gem5Stats
begin

text \<open>
  \<open>synth/nangate45/summarize-core-4pf.py\<close>: the summary of one Nangate45 map. The area report is given parsed, the
  Liberty library and the workers' logs as text, the logs with their names.
\<close>

definition TOP_4PF :: string where
  "TOP_4PF = ''openrv64_top_4pf''"

definition LIBERTY_CELL_RE :: rx where
  "LIBERTY_CELL_RE = seqs [LineStart, many is_space, lit ''cell'', many is_space, lit ''('', many is_space,
     Grp ''1'' (some (\<lambda>c. \<not> is_space c \<and> c \<noteq> CHR '')''))]"

definition DELAY_RE :: rx where
  "DELAY_RE = seqs [lit ''Delay'', many is_space, lit ''='', many is_space, Grp ''1'' (some (\<lambda>c. digit c \<or> c = CHR ''.'')),
     many is_space, lit ''ps'']"

datatype summary_error = Top4pfMissing | BadDelay string

record summary_args =
  sa_variant :: string
  sa_registered :: bool

definition library_cells :: "string \<Rightarrow> string list" where
  "library_cells liberty = map (group_of ''1'') (re_finditer LIBERTY_CELL_RE liberty)"

definition library_count :: "string list \<Rightarrow> kept_stats \<Rightarrow> int" where
  "library_count cells stats = sum_list (map snd (filter (\<lambda>(cell_type, _). canonical cell_type \<in> set cells) (ks_cells stats)))"

definition mapped_library_cells :: "string list \<Rightarrow> partition \<Rightarrow> int" where
  "mapped_library_cells cells modules = sum_list (map (\<lambda>(_, stats). library_count cells stats) modules)"

definition log_delay :: "string \<times> string \<Rightarrow> summary_error + (py_real \<times> string) list" where
  "log_delay entry =
     (case entry of (name, contents) \<Rightarrow>
        let matches = map (group_of ''1'') (re_finditer DELAY_RE contents) in
        if matches = [] then Inr []
        else bindE (of_option (BadDelay (last matches)) (parse_real (last matches))) (\<lambda>d. Inr [(d, name)]))"

text \<open>The order of the pairs: by the delay, then by the name. The pattern admits finite, unsigned delays only.\<close>

definition magnitude_of :: "py_real \<Rightarrow> py_float" where
  "magnitude_of x = (case x of Num f \<Rightarrow> f | _ \<Rightarrow> (0, 1))"

definition worse :: "py_real \<times> string \<Rightarrow> py_real \<times> string \<Rightarrow> bool" where
  "worse x y \<longleftrightarrow>
     (let a = magnitude_of (fst x); b = magnitude_of (fst y) in
      float_less b a \<or> (\<not> float_less a b \<and> snd y < snd x))"

definition worst_delay :: "(py_real \<times> string) list \<Rightarrow> (py_real \<times> string) option" where
  "worst_delay delays =
     (case delays of [] \<Rightarrow> None | d # ds \<Rightarrow> Some (foldl (\<lambda>w e. if worse e w then e else w) d ds))"

record map_summary =
  ms_args :: summary_args
  ms_area :: py_float
  ms_seq :: py_float
  ms_cells :: int
  ms_modules :: nat
  ms_worst :: "(py_float \<times> string) option"

definition summarize_4pf ::
  "summary_args \<Rightarrow> (string \<times> kept_stats) list \<Rightarrow> string \<Rightarrow> (string \<times> string) list \<Rightarrow> summary_error + map_summary" where
  "summarize_4pf args modules_json liberty logs =
     (let modules = load_stat modules_json in
      case map_of modules TOP_4PF of
        None \<Rightarrow> Inl Top4pfMissing
      | Some stats \<Rightarrow>
          bindE (mapE log_delay (sort_key fst logs)) (\<lambda>delays.
            Inr \<lparr>ms_args = args, ms_area = module_area stats, ms_seq = module_seq stats,
                 ms_cells = mapped_library_cells (library_cells liberty) modules, ms_modules = length modules,
                 ms_worst = map_option (\<lambda>(d, name). (magnitude_of d, name)) (worst_delay (concat delays))\<rparr>))"

definition summary_json :: "map_summary \<Rightarrow> json" where
  "summary_json s =
     JObj [(''configuration'', JObj
             [(''top'', JStr TOP_4PF), (''variant'', JStr (sa_variant (ms_args s))),
              (''rv64f'', JBool (sa_variant (ms_args s) = ''fd'')), (''rv64d'', JBool (sa_variant (ms_args s) = ''fd'')),
              (''retire_depth'', JInt 16), (''l1i'', JBool False), (''l1d'', JBool False), (''trace'', JBool False),
              (''pipelined_fp_multiply'', JBool True), (''registered_issue_select'', JBool (sa_registered (ms_args s)))]),
           (''area_um2'', JFloat (ms_area s)), (''sequential_area_um2'', JFloat (ms_seq s)),
           (''mapped_library_cells'', JInt (ms_cells s)), (''retained_modules'', JInt (int (ms_modules s))),
           (''worst_partition_delay_ps'', or_null (\<lambda>w. JFloat (fst w)) (ms_worst s)),
           (''worst_partition_log'', or_null (\<lambda>w. JStr (snd w)) (ms_worst s)),
           (''timing_scope'', JStr ''maximum unbuffered ABC stime delay within any retained partition''),
           (''timing_qualified'', JBool False), (''abc_recipe'', JStr ''strash-dretime-scl-nf'')]"

definition delay_text :: "map_summary \<Rightarrow> string" where
  "delay_text s = (case ms_worst s of None \<Rightarrow> ''unavailable'' | Some (d, _) \<Rightarrow> fixed_sep 2 d @ '' ps'')"

definition summary_report :: "map_summary \<Rightarrow> string" where
  "summary_report s =
     str_join newline
       [''# Cacheless 4PF Nangate45 map: '' @ sa_variant (ms_args s), [],
        ''- Standard-cell area: '' @ fixed_sep 3 (ms_area s) @ '' um^2'',
        ''- Sequential-cell area: '' @ fixed_sep 3 (ms_seq s) @ '' um^2'',
        ''- Mapped library cells: '' @ dec_sep (ms_cells s),
        ''- Worst retained-partition unbuffered ABC delay: '' @ delay_text s,
        ''- ABC recipe: `strash; dretime; strash; &get -n; &nf; &put` (no buffer/upsize/downsize)'', [],
        ''The area is recursive across retained reporting partitions. L1I and L1D '' @
        ''are disabled in both variants. The timing number is not a flattened '' @
        ''whole-core STA result: paths crossing a retained hierarchy boundary are '' @
        ''not represented by one ABC delay. It is also unbuffered and unsized, so '' @
        ''it must not be converted into a core frequency.'', []]"

definition summary_console :: "map_summary \<Rightarrow> string" where
  "summary_console s =
     sa_variant (ms_args s) @ '': area='' @ fixed 3 (ms_area s) @ '' um^2 seq='' @ fixed 3 (ms_seq s) @ '' um^2 cells='' @
     dec (ms_cells s) @ '' worst_partition_delay='' @ delay_text s"

end
