(* ===== verification/MapProps.thy ===== *)
theory MapProps
  imports MapSummary ResourceProps
begin

text \<open>The delay the Nangate45 summary reports is the largest of the last delays of the logs, and one of them.\<close>

definition last_delay :: "string \<Rightarrow> py_real option" where
  "last_delay contents =
     (let ms = map (group_of ''1'') (re_finditer DELAY_RE contents) in if ms = [] then None else parse_real (last ms))"

definition delay_at :: "string \<Rightarrow> py_float option" where
  "delay_at contents = map_option magnitude_of (last_delay contents)"

lemma parsed_denominator: "parse_real s = Some x \<Longrightarrow> 0 < snd (magnitude_of x)"
proof -
  have sc: "0 < snd (scaled m e)" for m e by (simp add: scaled_def dbl_denominator)
  have mag: "magnitude t = Some f \<Longrightarrow> 0 < snd f" for t f
    using sc by (fastforce simp: magnitude_def Let_def split: option.splits prod.splits if_splits)
  have "signed_real neg t = Some y \<Longrightarrow> 0 < snd (magnitude_of y)" for neg t y
    using mag by (fastforce simp: signed_real_def Let_def magnitude_of_def split: if_splits py_real.splits)
  then show "parse_real s = Some x \<Longrightarrow> 0 < snd (magnitude_of x)"
    by (auto simp: parse_real_def split: list.splits if_splits)
qed

lemma log_delay_facts:
  assumes "log_delay (name, contents) = Inr ds"
  shows "ds = (case last_delay contents of None \<Rightarrow> [] | Some x \<Rightarrow> [(x, name)])"
  using assms by (auto simp: log_delay_def last_delay_def Let_def split: if_splits)

lemma worst_of_fold:
  fixes d :: "py_real \<times> string"
  assumes "\<forall>e \<in> set (d # ds). 0 < snd (magnitude_of (fst e))"
  shows "foldl (\<lambda>w e. if worse e w then e else w) d ds \<in> set (d # ds) \<and>
    (\<forall>e \<in> set (d # ds). ratio (magnitude_of (fst e)) \<le> ratio (magnitude_of (fst (foldl (\<lambda>w e. if worse e w then e else w) d ds))))"
  using assms
proof (induction ds arbitrary: d)
  case (Cons e ds)
  let ?r = "\<lambda>x. ratio (magnitude_of (fst x))"
  define w where "w = (if worse e d then e else d)"
  define v where "v = foldl (\<lambda>w e. if worse e w then e else w) w ds"
  have pos: "0 < snd (magnitude_of (fst e))" "0 < snd (magnitude_of (fst d))" using Cons.prems by simp_all
  have step: "?r d \<le> ?r w" "?r e \<le> ?r w" "w \<in> {d, e}"
    using pos by (auto simp: w_def worse_def Let_def float_less_ratio not_less)
  have "\<forall>x \<in> set (w # ds). 0 < snd (magnitude_of (fst x))" using Cons.prems step(3) by auto
  from Cons.IH [OF this] have "v \<in> set (w # ds)" "\<forall>x \<in> set (w # ds). ?r x \<le> ?r v" by (auto simp: v_def)
  then have "v \<in> set (d # e # ds) \<and> (\<forall>x \<in> set (d # e # ds). ?r x \<le> ?r v)"
    using step by (auto intro: order_trans)
  then show ?case by (simp add: v_def w_def)
qed simp

lemma worst_delay_bounds_logs:
  assumes "summarize_4pf args modules liberty logs = Inr s"
  shows "(ms_worst s = None \<longleftrightarrow> (\<forall>(name, contents) \<in> set logs. delay_at contents = None)) \<and>
    (\<forall>d name. ms_worst s = Some (d, name) \<longrightarrow>
       (\<exists>contents. (name, contents) \<in> set logs \<and> delay_at contents = Some d) \<and>
       (\<forall>(name', contents) \<in> set logs. \<forall>d'. delay_at contents = Some d' \<longrightarrow> ratio d' \<le> ratio d))"
proof -
  let ?found = "\<lambda>(name, contents). case last_delay contents of None \<Rightarrow> [] | Some x \<Rightarrow> [(x, name)]"
  from assms obtain delays where d: "mapE log_delay (sort_key fst logs) = Inr delays"
    and w: "ms_worst s = map_option (\<lambda>(d, name). (magnitude_of d, name)) (worst_delay (concat delays))"
    by (auto simp: summarize_4pf_def Let_def split: option.splits)
  have one: "ds = ?found e" if "log_delay e = Inr ds" for e ds using that log_delay_facts by (cases e) auto
  have "delays = map ?found (sort_key fst logs)"
    by (rule nth_equalityI) (simp_all add: mapE_length [OF d] one [OF mapE_nth [OF d]])
  then have found: "set (concat delays) = {(x, name). \<exists>contents. (name, contents) \<in> set logs \<and> last_delay contents = Some x}"
    by (force split: option.splits)
  have pos: "\<forall>e \<in> set (concat delays). 0 < snd (magnitude_of (fst e))"
    unfolding found by (auto simp: last_delay_def Let_def parsed_denominator split: if_splits)
  show ?thesis
  proof (cases "concat delays")
    case Nil
    then have none: "worst_delay (concat delays) = None" unfolding worst_delay_def by (simp only: list.case)
    have "last_delay contents = None" if "(name, contents) \<in> set logs" for name contents
      using found that unfolding Nil by (cases "last_delay contents") auto
    then show ?thesis unfolding w none delay_at_def by auto
  next
    case (Cons e es)
    define v where "v = foldl (\<lambda>w e. if worse e w then e else w) e es"
    have v: "v \<in> set (concat delays)" "\<forall>x \<in> set (concat delays). ratio (magnitude_of (fst x)) \<le> ratio (magnitude_of (fst v))"
      using worst_of_fold [of e es] pos unfolding Cons v_def by blast+
    obtain x name where x: "v = (x, name)" by fastforce
    have s: "ms_worst s = Some (magnitude_of x, name)" unfolding w Cons by (simp add: worst_delay_def v_def [symmetric] x)
    have m: "\<exists>contents. (name, contents) \<in> set logs \<and> last_delay contents = Some x" using v(1) unfolding found x by auto
    have all: "ratio (magnitude_of y) \<le> ratio (magnitude_of x)" if "(n, c) \<in> set logs" "last_delay c = Some y" for n c y
      using v(2) that unfolding found x by auto
    have "\<not> (\<forall>(name, contents) \<in> set logs. last_delay contents = None)" using m by fastforce
    moreover have "ratio d' \<le> ratio (magnitude_of x)" if "(n, c) \<in> set logs" "map_option magnitude_of (last_delay c) = Some d'" for n c d'
      using that all by (cases "last_delay c") auto
    ultimately show ?thesis unfolding s delay_at_def using m by auto
  qed
qed

end
