(* ===== verification/SmallTools.thy ===== *)
theory SmallTools
  imports PyJson
begin

text \<open>
  Two short tools: \<open>tools/check_yosys_rom_init.py\<close>, which rejects a netlist whose boot ROM is empty, and
  \<open>tools/qemu_one_insn_trace.py\<close>, which counts the PCs of a QEMU trace.
\<close>

section \<open>The boot ROM of a netlist\<close>

text \<open>A value error is reported by the tool; a \<open>Crash\<close> is an exception it does not catch.\<close>

datatype rom_error = SystemAbsent | NoRomCells | TooFew int int | BadNetlist string | Crash

definition upper_hex :: "char \<Rightarrow> bool" where
  "upper_hex c \<longleftrightarrow> c \<in> set ''0123456789ABCDEF''"

definition INIT_PARAMETER :: rx where
  "INIT_PARAMETER = seqs [Bol, lit ''INIT'', opt (lit ''P''), lit ''_'', Chr upper_hex, Chr upper_hex, Eol]"

definition json_key :: "json \<Rightarrow> string \<Rightarrow> json option" where
  "json_key v k = (case v of JObj kvs \<Rightarrow> map_of kvs k | _ \<Rightarrow> None)"

definition items :: "json \<Rightarrow> rom_error + (string \<times> json) list" where
  "items v = (case v of JObj kvs \<Rightarrow> Inr kvs | _ \<Rightarrow> Inl Crash)"

definition rom_cell :: "string \<times> json \<Rightarrow> rom_error + (string \<times> json) list" where
  "rom_cell entry =
     (case entry of (name, body) \<Rightarrow>
        if \<not> contains ''.u_rom.rom_q.'' name then Inr []
        else bindE (items body) (\<lambda>kvs. Inr (if map_of kvs ''type'' = Some (JStr ''RAMB36E1'') then [entry] else [])))"

text \<open>\<open>"1" in value\<close>: a substring, an element or a key.\<close>

definition has_one :: "json \<Rightarrow> rom_error + bool" where
  "has_one v =
     (case v of
        JStr s \<Rightarrow> Inr (contains ''1'' s)
      | JList vs \<Rightarrow> Inr (JStr ''1'' \<in> set vs)
      | JObj kvs \<Rightarrow> Inr (''1'' \<in> fst ` set kvs)
      | _ \<Rightarrow> Inl Crash)"

definition nonzero_segment :: "string \<times> json \<Rightarrow> rom_error + int" where
  "nonzero_segment p =
     (if re_fullmatch INIT_PARAMETER (fst p) = None then Inr 0
      else bindE (has_one (snd p)) (\<lambda>one. Inr (if one then 1 else 0)))"

definition cell_segments :: "string \<times> json \<Rightarrow> rom_error + int" where
  "cell_segments entry =
     bindE (items (case json_key (snd entry) ''parameters'' of None \<Rightarrow> JObj [] | Some v \<Rightarrow> v)) (\<lambda>ps.
     bindE (mapE nonzero_segment ps) (\<lambda>ns. Inr (sum_list ns)))"

definition count_nonzero_segments :: "json \<Rightarrow> rom_error + int \<times> string list" where
  "count_nonzero_segments design =
     (case Option.bind (Option.bind (json_key design ''modules'') (\<lambda>m. json_key m ''openrv64_fpga_opensbi_system''))
             (\<lambda>m. json_key m ''cells'') of
        None \<Rightarrow> Inl SystemAbsent
      | Some cells \<Rightarrow>
          bindE (items cells) (\<lambda>kvs.
          bindE (mapE rom_cell kvs) (\<lambda>found.
            let rom_cells = concat found in
            if rom_cells = [] then Inl NoRomCells
            else bindE (mapE cell_segments rom_cells) (\<lambda>ns. Inr (sum_list ns, sort (map fst rom_cells))))))"

text \<open>The netlist is the message of a failed read or the parsed design.\<close>

definition check_rom_init :: "string + json \<Rightarrow> int \<Rightarrow> rom_error + int \<times> nat" where
  "check_rom_init netlist minimum_segments =
     (case netlist of
        Inl e \<Rightarrow> Inl (BadNetlist e)
      | Inr design \<Rightarrow>
          bindE (count_nonzero_segments design) (\<lambda>(n, cells).
            if n < minimum_segments then Inl (TooFew n minimum_segments) else Inr (n, length cells)))"

definition rom_error_text :: "rom_error \<Rightarrow> string" where
  "rom_error_text e =
     (case e of
        SystemAbsent \<Rightarrow> ''OpenRV64 FPGA system module is absent''
      | NoRomCells \<Rightarrow> ''no mapped RAMB36E1 boot-ROM cells found''
      | TooFew n least \<Rightarrow>
          ''boot ROM has '' @ dec n @ '' nonzero BRAM INIT segments; expected at least '' @ dec least
      | BadNetlist s \<Rightarrow> s
      | Crash \<Rightarrow> [])"

text \<open>The exit code and the line printed; an uncaught exception has no line of the tool's own.\<close>

definition rom_init_main :: "string + json \<Rightarrow> int \<Rightarrow> int \<times> string option" where
  "rom_init_main netlist minimum_segments =
     (case check_rom_init netlist minimum_segments of
        Inr (n, cells) \<Rightarrow>
          (0, Some (''YOSYS ROM INIT PASS cells='' @ dec (int cells) @ '' nonzero_segments='' @ dec n))
      | Inl e \<Rightarrow> (1, if e = Crash then None else Some (''YOSYS ROM INIT FAIL '' @ rom_error_text e)))"

section \<open>The PCs of a QEMU trace\<close>

definition TRACE_RE :: rx where
  "TRACE_RE = seqs [Bol, lit ''Trace'', some is_space, some digit, lit '':'', some is_space, some non_space, some is_space,
     lit ''['', some (\<lambda>c. c \<noteq> CHR ''/''), lit ''/'', Grp ''1'' (some hex_digit), lit ''/'']"

definition line_pc :: "string \<Rightarrow> int list" where
  "line_pc line = (case re_match TRACE_RE line of None \<Rightarrow> [] | Some q \<Rightarrow> [group_int 16 ''1'' q])"

definition ordered_pcs :: "string list \<Rightarrow> int list" where
  "ordered_pcs trace_lines = concat (map line_pc trace_lines)"

definition hottest :: "int \<Rightarrow> int list \<Rightarrow> int counter" where
  "hottest limit pcs = take (nat limit) (most_common (counter_of pcs))"

definition trace_summary :: "int \<Rightarrow> string list \<Rightarrow> string list option" where
  "trace_summary limit trace_lines =
     (let pcs = ordered_pcs trace_lines in
      if pcs = [] then None
      else Some
        ([''QEMU ONE-INSTRUCTION TRACE SUMMARY'',
          ''  translation_blocks='' @ dec (int (length pcs)),
          ''  instructions_before_semihost_exit='' @ dec (int (length pcs) - 1),
          ''  distinct_pcs='' @ dec (int (length (counter_of pcs))),
          ''  entry_pc=0x'' @ hex0 16 (hd pcs),
          ''  semihost_exit_pc=0x'' @ hex0 16 (last pcs),
          ''  timing=unavailable (QEMU TCG is functional, not Cortex-A53 timing)'', [],
          ''HOT DYNAMIC PCS''] @
         map (\<lambda>(pc, n). ''  0x'' @ hex0 16 pc @ '' '' @ dec_w 8 n) (hottest limit pcs)))"

text \<open>The list of hot PCs: exact counts in descending order, and no PC that is left out is hotter than a listed one.\<close>

lemma hottest_are_hottest:
  "(pc, n) \<in> set (hottest limit pcs) \<Longrightarrow>
     n = count_if (\<lambda>x. x = pc) pcs \<and> (q \<in> set pcs \<and> q \<notin> fst ` set (hottest limit pcs) \<longrightarrow> count_if (\<lambda>x. x = q) pcs \<le> n)"
proof -
  let ?m = "most_common (counter_of pcs)"
  assume h: "(pc, n) \<in> set (hottest limit pcs)"
  have mem: "(j, k) \<in> set ?m \<Longrightarrow> k = count_if (\<lambda>x. x = j) pcs" for j k
    using counter_of_facts [of pcs j] hits_member [of "counter_of pcs" j k] by simp
  have "(pc, n) \<in> set ?m" using h in_set_takeD by (fastforce simp: hottest_def)
  moreover have "count_if (\<lambda>x. x = q) pcs \<le> n" if q: "q \<in> set pcs" "q \<notin> fst ` set (hottest limit pcs)"
  proof -
    have "q \<in> fst ` set ?m" using q(1) counter_of_facts [of pcs q] by simp
    then obtain k where k: "(q, k) \<in> set ?m" by auto
    have "set ?m = set (take (nat limit) ?m) \<union> set (drop (nat limit) ?m)" by (metis append_take_drop_id set_append)
    then have "(q, k) \<in> set (drop (nat limit) ?m)" using k q(2) by (force simp: hottest_def)
    moreover have "sorted_wrt (\<ge>) (map snd (take (nat limit) ?m @ drop (nat limit) ?m))" using sorted_most_common by simp
    ultimately have "k \<le> n" using h by (fastforce simp: hottest_def sorted_wrt_append sorted_wrt_map simp del: append_take_drop_id)
    then show ?thesis using mem [OF k] by simp
  qed
  ultimately show ?thesis using mem by blast
qed

section \<open>Which netlists pass\<close>

definition init_name :: "string \<Rightarrow> bool" where
  "init_name s \<longleftrightarrow> (\<exists>a b. upper_hex a \<and> upper_hex b \<and> (s = ''INIT_'' @ [a, b] \<or> s = ''INITP_'' @ [a, b]))"

lemma upper_hex_facts: "upper_hex a \<Longrightarrow> a \<noteq> CHR 0x0A \<and> a \<noteq> CHR ''P'' \<and> a \<noteq> CHR ''_''"
  by (auto simp: upper_hex_def)

lemma two_digits:
  "(\<exists>q \<in> set (rmatch (seqs [lit ''_'', Chr upper_hex, Chr upper_hex, Eol]) p). ahead q = []) \<longleftrightarrow>
   (\<exists>a b. upper_hex a \<and> upper_hex b \<and> ahead p = ''_'' @ [a, b])"
  by (cases "ahead p") (auto simp: upper_hex_facts split: list.split)

lemma fullmatch_init: "re_fullmatch INIT_PARAMETER s = None \<longleftrightarrow> \<not> init_name s"
proof -
  define tail where "tail = seqs [lit ''_'', Chr upper_hex, Chr upper_hex, Eol]"
  let ?t = "drop 4 s"
  have r: "INIT_PARAMETER = Seq Bol (Seq (lit ''INIT'') (Seq (opt (lit ''P'')) tail))"
    unfolding INIT_PARAMETER_def tail_def by simp
  have "(\<exists>q \<in> set (rmatch INIT_PARAMETER (start_of s)). ahead q = []) \<longleftrightarrow>
      take 4 s = ''INIT'' \<and> (take 1 ?t = ''P'' \<and> (\<exists>a b. upper_hex a \<and> upper_hex b \<and> drop 1 ?t = ''_'' @ [a, b]) \<or>
        (\<exists>a b. upper_hex a \<and> upper_hex b \<and> ?t = ''_'' @ [a, b]))"
    unfolding r opt_def start_of_def
    by (simp add: rmatch_lit two_digits [folded tail_def] bex_Un eval_nat_numeral del: lit.simps append.simps)
  also have "\<dots> \<longleftrightarrow> init_name s"
  proof
    have split: "s = take 4 s @ take 1 ?t @ drop 1 ?t" "s = take 4 s @ ?t" by (metis append_take_drop_id)+
    assume "take 4 s = ''INIT'' \<and> (take 1 ?t = ''P'' \<and> (\<exists>a b. upper_hex a \<and> upper_hex b \<and> drop 1 ?t = ''_'' @ [a, b]) \<or>
        (\<exists>a b. upper_hex a \<and> upper_hex b \<and> ?t = ''_'' @ [a, b]))"
    then show "init_name s"
    proof (elim conjE disjE exE)
      fix a b assume "take 4 s = ''INIT''" "take 1 ?t = ''P''" "upper_hex a" "upper_hex b" "drop 1 ?t = ''_'' @ [a, b]"
      then show ?thesis using split(1) unfolding init_name_def by (intro exI [of _ a] exI [of _ b]) (simp only:, simp)
    next
      fix a b assume "take 4 s = ''INIT''" "upper_hex a" "upper_hex b" "?t = ''_'' @ [a, b]"
      then show ?thesis using split(2) unfolding init_name_def by (intro exI [of _ a] exI [of _ b]) (simp only:, simp)
    qed
  qed (auto simp: init_name_def)
  finally show ?thesis by (auto simp: re_fullmatch_def find_None_iff)
qed

lemma contains_char: "contains [c] s \<longleftrightarrow> c \<in> set s"
  by (induction s) (auto simp: starts_with_def)

text \<open>A netlist as Yosys writes it, as far as the tool looks at it.\<close>

definition rom_named :: "string \<Rightarrow> bool" where
  "rom_named name \<longleftrightarrow> contains ''.u_rom.rom_q.'' name"

definition yosys_parameters :: "json \<Rightarrow> (string \<times> string) list \<Rightarrow> bool" where
  "yosys_parameters ps kvs \<longleftrightarrow> ps = JObj (map (\<lambda>(k, s). (k, JStr s)) kvs) \<and> distinct (map fst kvs)"

definition yosys_cells :: "(string \<times> json) list \<Rightarrow> bool" where
  "yosys_cells cells \<longleftrightarrow> distinct (map fst cells) \<and>
     (\<forall>(name, body) \<in> set cells. rom_named name \<longrightarrow>
        (\<exists>fs. body = JObj fs \<and> (\<forall>ps. map_of fs ''parameters'' = Some ps \<longrightarrow> (\<exists>kvs. yosys_parameters ps kvs))))"

text \<open>The ROM cells, and their initialisation words that hold a one.\<close>

definition rom_names :: "(string \<times> json) list \<Rightarrow> string set" where
  "rom_names cells =
     {name. rom_named name \<and> (\<exists>body. (name, body) \<in> set cells \<and> json_key body ''type'' = Some (JStr ''RAMB36E1''))}"

definition filled_segments :: "(string \<times> json) list \<Rightarrow> (string \<times> string) set" where
  "filled_segments cells =
     {(name, par). name \<in> rom_names cells \<and> init_name par \<and>
        (\<exists>body ps kvs s. (name, body) \<in> set cells \<and> json_key body ''parameters'' = Some ps \<and> yosys_parameters ps kvs \<and>
           (par, s) \<in> set kvs \<and> CHR ''1'' \<in> set s)}"

definition filled_of :: "json \<Rightarrow> string set" where
  "filled_of body = {par. init_name par \<and> (\<exists>ps kvs s. json_key body ''parameters'' = Some ps \<and> yosys_parameters ps kvs \<and>
     (par, s) \<in> set kvs \<and> CHR ''1'' \<in> set s)}"

lemma count_filled:
  "distinct (map fst kvs) \<Longrightarrow>
   mapE nonzero_segment (map (\<lambda>(k, s). (k, JStr s)) kvs) =
     Inr (map (\<lambda>(k, s). if init_name k \<and> CHR ''1'' \<in> set s then 1 else 0) kvs) \<and>
   finite {k. init_name k \<and> (\<exists>s. (k, s) \<in> set kvs \<and> CHR ''1'' \<in> set s)} \<and>
   (\<Sum>(k, s)\<leftarrow>kvs. if init_name k \<and> CHR ''1'' \<in> set s then 1 else (0::int)) =
     int (card {k. init_name k \<and> (\<exists>s. (k, s) \<in> set kvs \<and> CHR ''1'' \<in> set s)})"
proof (induction kvs)
  case (Cons p kvs)
  obtain k s where p: "p = (k, s)" by fastforce
  let ?S = "\<lambda>kvs. {k. init_name k \<and> (\<exists>s. (k, s) \<in> set kvs \<and> CHR ''1'' \<in> set s)}"
  have new: "k \<notin> ?S kvs" using Cons.prems p by (force simp: image_iff)
  have S: "?S (p # kvs) = (if init_name k \<and> CHR ''1'' \<in> set s then insert k (?S kvs) else ?S kvs)"
    using p by auto
  have head: "nonzero_segment (k, JStr s) = Inr (if init_name k \<and> CHR ''1'' \<in> set s then 1 else 0)"
    by (simp add: nonzero_segment_def fullmatch_init has_one_def contains_char)
  have ih: "mapE nonzero_segment (map (\<lambda>(k, s). (k, JStr s)) kvs) =
      Inr (map (\<lambda>(k, s). if init_name k \<and> CHR ''1'' \<in> set s then 1 else 0) kvs)" "finite (?S kvs)"
    "(\<Sum>(k, s)\<leftarrow>kvs. if init_name k \<and> CHR ''1'' \<in> set s then 1 else (0::int)) = int (card (?S kvs))"
    using Cons by simp_all
  show ?case unfolding S using new head ih by (simp add: p)
qed simp

lemma cell_segments_count:
  assumes "(\<forall>ps. json_key body ''parameters'' = Some ps \<longrightarrow> (\<exists>kvs. yosys_parameters ps kvs))"
  shows "finite (filled_of body) \<and> cell_segments (name, body) = Inr (int (card (filled_of body)))"
proof (cases "json_key body ''parameters''")
  case None
  then show ?thesis by (simp add: cell_segments_def items_def filled_of_def)
next
  case (Some ps)
  then obtain kvs where kvs: "yosys_parameters ps kvs" using assms by blast
  then have ps: "ps = JObj (map (\<lambda>(k, s). (k, JStr s)) kvs)" and d: "distinct (map fst kvs)" by (auto simp: yosys_parameters_def)
  have inj: "map (\<lambda>(k, s). (k, JStr s)) kvs = map (\<lambda>(k, s). (k, JStr s)) kvs' \<longleftrightarrow> kvs = kvs'" for kvs'
    by (rule inj_map_eq_map) (auto simp: inj_def)
  have "filled_of body = {k. init_name k \<and> (\<exists>s. (k, s) \<in> set kvs \<and> CHR ''1'' \<in> set s)}"
    unfolding filled_of_def Some using d by (auto simp: yosys_parameters_def ps inj)
  then show ?thesis using count_filled [OF d] by (simp add: cell_segments_def items_def Some ps)
qed

definition is_rom :: "string \<times> json \<Rightarrow> bool" where
  "is_rom entry \<longleftrightarrow> rom_named (fst entry) \<and> json_key (snd entry) ''type'' = Some (JStr ''RAMB36E1'')"

lemma rom_cells_found:
  assumes "yosys_cells cells"
  shows "mapE rom_cell cells = Inr (map (\<lambda>e. if is_rom e then [e] else []) cells)"
proof (rule mapE_total)
  fix e assume e: "e \<in> set cells"
  obtain name body where n: "e = (name, body)" by fastforce
  show "rom_cell e = Inr (if is_rom e then [e] else [])"
  proof (cases "rom_named name")
    case True
    then obtain fs where "body = JObj fs" using assms e n by (auto simp: yosys_cells_def)
    then show ?thesis using True n by (simp add: rom_cell_def is_rom_def rom_named_def items_def json_key_def)
  qed (simp add: rom_cell_def is_rom_def n rom_named_def)
qed

lemma rom_names_filter: "rom_names cells = fst ` set (filter is_rom cells)"
  by (force simp: rom_names_def is_rom_def)

lemma filled_union:
  assumes "distinct (map fst cells)"
  shows "filled_segments cells = (\<Union>(name, body) \<in> set (filter is_rom cells). Pair name ` filled_of body)"
proof -
  have same: "body = body'" if "(name, body) \<in> set cells" "(name, body') \<in> set cells" for name body body'
    using that assms by (metis eq_key_imp_eq_value)
  show ?thesis
    unfolding filled_segments_def rom_names_def filled_of_def is_rom_def using same by (auto, blast+)
qed

lemma card_filled:
  assumes "distinct (map fst cells)" "\<forall>(name, body) \<in> set cells. finite (filled_of body)"
  shows "(\<Sum>(name, body)\<leftarrow>cells. int (card (filled_of body))) =
    int (card (\<Union>(name, body) \<in> set cells. Pair name ` filled_of body)) \<and>
    finite (\<Union>(name, body) \<in> set cells. Pair name ` filled_of body)"
  using assms
proof (induction cells)
  case (Cons c cells)
  obtain name body where c: "c = (name, body)" by fastforce
  let ?U = "\<Union>(name, body) \<in> set cells. Pair name ` filled_of body"
  have fin: "finite (Pair name ` filled_of body)" "finite ?U" using Cons c by auto
  have "Pair name ` filled_of body \<inter> ?U = {}" using Cons.prems(1) c by (force simp: image_iff)
  then have "card (Pair name ` filled_of body \<union> ?U) = card (filled_of body) + card ?U"
    using fin by (simp add: card_Un_disjoint card_image inj_on_def)
  then show ?case using Cons fin c by simp
qed simp

text \<open>
  The netlist check accepts exactly what it is meant to. For a netlist as Yosys writes it, it fails without a
  mapped ROM cell, fails with the count when the ROM cells have fewer initialisation words with a one in them than
  asked, and otherwise passes with that count; it never crashes on such a netlist.
\<close>

theorem rom_check_is_exact:
  assumes "json_key design ''modules'' = Some modules" "json_key modules ''openrv64_fpga_opensbi_system'' = Some module"
    "json_key module ''cells'' = Some (JObj cells)" "yosys_cells cells"
  shows "check_rom_init (Inr design) least =
    (let n = int (card (filled_segments cells)) in
     if rom_names cells = {} then Inl NoRomCells
     else if n < least then Inl (TooFew n least) else Inr (n, card (rom_names cells)))"
proof -
  let ?roms = "filter is_rom cells"
  have concat: "concat (map (\<lambda>e. if is_rom e then [e] else []) xs) = filter is_rom xs" for xs
    by (induction xs) auto
  have params: "\<forall>(name, body) \<in> set ?roms. \<forall>ps. json_key body ''parameters'' = Some ps \<longrightarrow> (\<exists>kvs. yosys_parameters ps kvs)"
    using assms(4) by (fastforce simp: yosys_cells_def is_rom_def json_key_def)
  have segments: "mapE cell_segments ?roms = Inr (map (\<lambda>(name, body). int (card (filled_of body))) ?roms)"
    by (rule mapE_total) (use params cell_segments_count in fastforce)
  have fin: "\<forall>(name, body) \<in> set ?roms. finite (filled_of body)" using params cell_segments_count by fastforce
  have dist: "distinct (map fst cells)" using assms(4) by (simp add: yosys_cells_def)
  then have droms: "distinct (map fst ?roms)" by (rule distinct_map_filter)
  have sum: "(\<Sum>(name, body)\<leftarrow>?roms. int (card (filled_of body))) = int (card (filled_segments cells))"
    using card_filled [OF droms fin] filled_union [OF dist] by simp
  have names: "length ?roms = card (rom_names cells)"
    using distinct_card [OF droms] by (simp add: rom_names_filter)
  have "count_nonzero_segments design =
      (if ?roms = [] then Inl NoRomCells else Inr (int (card (filled_segments cells)), sort (map fst ?roms)))"
    by (simp add: count_nonzero_segments_def assms(1-3) items_def rom_cells_found [OF assms(4)] concat segments sum Let_def
        del: concat_eq_Nil_conv filter_empty_conv)
  moreover have "?roms = [] \<longleftrightarrow> rom_names cells = {}" by (simp add: rom_names_filter del: set_filter)
  ultimately show ?thesis using names by (simp add: check_rom_init_def Let_def)
qed

definition demo_netlist :: "(string \<times> json) list" where
  "demo_netlist =
     [(''u.u_rom.rom_q.0.0'', JObj [(''type'', JStr ''RAMB36E1''),
        (''parameters'', JObj [(''INIT_0A'', JStr ''0010''), (''INIT_0B'', JStr ''0000''), (''WIDTH'', JStr ''1'')])]),
      (''u_other'', JNull)]"

theorem rom_check_is_exact_witness:
  "rom_init_main (Inr (JObj [(''modules'', JObj [(''openrv64_fpga_opensbi_system'', JObj [(''cells'', JObj demo_netlist)])])])) 1
     = (0, Some ''YOSYS ROM INIT PASS cells=1 nonzero_segments=1'') \<and>
   card (rom_names demo_netlist) = 1 \<and> card (filled_segments demo_netlist) = 1"
proof -
  let ?design = "JObj [(''modules'', JObj [(''openrv64_fpga_opensbi_system'', JObj [(''cells'', JObj demo_netlist)])])]"
  let ?kvs = "[(''INIT_0A'', ''0010''), (''INIT_0B'', ''0000''), (''WIDTH'', ''1'')]"
  have "yosys_parameters (JObj [(''INIT_0A'', JStr ''0010''), (''INIT_0B'', JStr ''0000''), (''WIDTH'', JStr ''1'')]) ?kvs"
    by (simp add: yosys_parameters_def)
  moreover have "\<not> rom_named ''u_other''" by code_simp
  ultimately have y: "yosys_cells demo_netlist" by (auto simp: yosys_cells_def demo_netlist_def)
  have run: "check_rom_init (Inr ?design) 1 = Inr (1, 1)" by code_simp
  then have "card (rom_names demo_netlist) = 1 \<and> card (filled_segments demo_netlist) = 1"
    using rom_check_is_exact [of ?design _ _ demo_netlist 1, OF _ _ _ y]
    by (simp add: json_key_def Let_def split: if_splits)
  moreover have "rom_init_main (Inr ?design) 1 = (0, Some ''YOSYS ROM INIT PASS cells=1 nonzero_segments=1'')"
    unfolding rom_init_main_def run by code_simp
  ultimately show ?thesis by blast
qed

end
