(* ===== verification/BootStyle.thy ===== *)
theory BootStyle
  imports BootReport
begin

text \<open>
  The styles of the boot report's workbook (\<open>write_xlsx\<close> of \<open>tools/linux_boot_report.py\<close>) and the command itself.
  openpyxl draws the workbook; the model is the sequence of requests the code makes of it. The sheets are filled by
  \<open>append\<close>, so a sheet has the rows of the model, as many columns as its longest row, and a cell in every place of
  a row. \<open>get_column_letter\<close> is the argument \<open>letter\<close>.
\<close>

section \<open>Requests\<close>

datatype scale_middle = Percentile int | AtValue int

record color_scale =
  start_color :: string
  middle :: scale_middle
  mid_color :: string
  end_color :: string

record cell_block =
  min_col :: nat
  max_col :: nat
  min_row :: nat
  max_row :: nat

record line_chart =
  chart_title :: string
  y_title :: string
  x_title :: string
  series :: "cell_block list"
  chart_categories :: cell_block
  chart_height :: nat
  chart_width :: nat

datatype style =
    FreezePanes string string
  | AutoFilter string string
  | CellFill string nat nat string
  | CellFont string nat nat string
  | CellCentered string nat nat
  | NumberFormat string nat nat string
  | ColorScale string string color_scale
  | ColumnWidth string string nat
  | TitleFont string string nat string
  | AddChart string string line_chart

type_synonym sheet = "cell list list"

definition rows_of :: "(string \<times> sheet) list \<Rightarrow> string \<Rightarrow> sheet" where
  "rows_of sheets name = (case map_of sheets name of None \<Rightarrow> [] | Some rows \<Rightarrow> rows)"

definition max_column :: "sheet \<Rightarrow> nat" where
  "max_column rows = foldr (\<lambda>row n. max (length row) n) rows 0"

definition dimensions :: "(nat \<Rightarrow> string) \<Rightarrow> sheet \<Rightarrow> string" where
  "dimensions letter rows = ''A1:'' @ letter (max_column rows) @ dec (int (length rows))"

text \<open>Python's \<open>range(a, b)\<close> over row and column numbers.\<close>

definition numbers :: "nat \<Rightarrow> nat \<Rightarrow> nat list" where
  "numbers a b = [a..<b]"

section \<open>Headers and stripes\<close>

definition header_cell :: "string \<Rightarrow> nat \<Rightarrow> style list" where
  "header_cell name col = [CellFill name 1 col ''1F4E78'', CellFont name 1 col ''FFFFFF'', CellCentered name 1 col]"

definition stripe :: "string \<Rightarrow> sheet \<Rightarrow> nat \<Rightarrow> style list" where
  "stripe name rows row =
     (if row mod 2 = 0 then map (\<lambda>col. CellFill name row col ''D9EAF7'') (numbers 1 (max_column rows + 1)) else [])"

definition sheet_styles :: "(nat \<Rightarrow> string) \<Rightarrow> string \<Rightarrow> sheet \<Rightarrow> style list" where
  "sheet_styles letter name rows =
     [FreezePanes name ''A2'', AutoFilter name (dimensions letter rows)] @
     concat (map (header_cell name) (numbers 1 (max_column rows + 1))) @
     concat (map (stripe name rows) (numbers 2 (length rows + 1)))"

definition STYLED_SHEETS :: "string list" where
  "STYLED_SHEETS = [''Run Outcomes'', ''Milestones'', ''Intervals'', ''Comparison'', ''Function Landmarks'']"

section \<open>Number formats\<close>

definition milestone_formats :: "sheet \<Rightarrow> style list" where
  "milestone_formats rows =
     concat (map (\<lambda>col. map (\<lambda>row. NumberFormat ''Milestones'' row col (if col = 12 then ''0.000'' else ''#,##0.0''))
       (numbers 2 (length rows + 1))) (numbers 4 13))"

definition interval_formats :: "sheet \<Rightarrow> style list" where
  "interval_formats rows =
     concat (map (\<lambda>row. map (\<lambda>col. NumberFormat ''Intervals'' row col ''#,##0'') (numbers 4 8) @
                       map (\<lambda>col. NumberFormat ''Intervals'' row col ''0.000'') (numbers 8 10)) (numbers 2 (length rows + 1)))"

definition comparison_formats :: "sheet \<Rightarrow> style list" where
  "comparison_formats rows =
     concat (map (\<lambda>col. map (\<lambda>row. NumberFormat ''Comparison'' row col
         (if (col - 3) mod 4 = 2 \<or> (col - 3) mod 4 = 3 then ''0.0%'' else ''#,##0''))
       (numbers 2 (length rows + 1))) (numbers 3 (max_column rows + 1)))"

section \<open>Colour scales\<close>

definition IPC_SCALE :: color_scale where
  "IPC_SCALE = \<lparr>start_color = ''F8696B'', middle = Percentile 50, mid_color = ''FFEB84'', end_color = ''63BE7B''\<rparr>"

definition IMPROVEMENT_SCALE :: color_scale where
  "IMPROVEMENT_SCALE = \<lparr>start_color = ''F8696B'', middle = AtValue 0, mid_color = ''FFEB84'', end_color = ''63BE7B''\<rparr>"

definition INSTRET_SCALE :: color_scale where
  "INSTRET_SCALE = \<lparr>start_color = ''F8696B'', middle = AtValue 0, mid_color = ''63BE7B'', end_color = ''F8696B''\<rparr>"

definition column_range :: "string \<Rightarrow> nat \<Rightarrow> string" where
  "column_range col last_row = col @ ''2:'' @ col @ dec (int last_row)"

definition interval_scale :: "sheet \<Rightarrow> style list" where
  "interval_scale rows =
     (if 2 \<le> length rows then [ColorScale ''Intervals'' (''H2:I'' @ dec (int (length rows))) IPC_SCALE] else [])"

definition comparison_scales :: "(nat \<Rightarrow> string) \<Rightarrow> nat \<Rightarrow> sheet \<Rightarrow> style list" where
  "comparison_scales letter n rows =
     (if 2 \<le> length rows
      then concat (map (\<lambda>index.
             [ColorScale ''Comparison'' (column_range (letter (5 + index * 4)) (length rows)) IMPROVEMENT_SCALE,
              ColorScale ''Comparison'' (column_range (letter (6 + index * 4)) (length rows)) INSTRET_SCALE]) (numbers 0 n))
      else [])"

section \<open>Widths and charts\<close>

definition WIDTHS :: "(string \<times> nat list) list" where
  "WIDTHS =
     [(''Read Me'', [34, 105]),
      (''Run Outcomes'', [24, 24, 18, 20, 18, 18, 14, 14, 20, 24, 24, 24, 20, 44, 85]),
      (''Milestones'', [24, 18, 28, 16, 16, 16, 14, 16, 16, 16, 14, 18, 18, 20, 42, 20, 42, 70, 12]),
      (''Intervals'', [24, 16, 16, 18, 18, 18, 18, 12, 12]),
      (''Function Landmarks'', [24, 18, 20, 14, 38, 20, 20, 12, 18, 38, 70, 12])]"

definition width_styles :: "(nat \<Rightarrow> string) \<Rightarrow> string \<times> nat list \<Rightarrow> style list" where
  "width_styles letter entry =
     (case entry of (name, widths) \<Rightarrow> map (\<lambda>(i, w). ColumnWidth name (letter i) w) (enumerate 1 widths))"

definition comparison_widths :: "(nat \<Rightarrow> string) \<Rightarrow> sheet \<Rightarrow> style list" where
  "comparison_widths letter rows =
     map (\<lambda>col. ColumnWidth ''Comparison'' (letter col) (if col = 2 then 28 else 22)) (numbers 1 (max_column rows + 1))"

definition chart_of :: "string \<Rightarrow> string \<Rightarrow> nat \<Rightarrow> nat \<Rightarrow> sheet \<Rightarrow> line_chart" where
  "chart_of title y_label first_column n rows =
     \<lparr>chart_title = title, y_title = y_label, x_title = ''Milestone'',
      series = map (\<lambda>index. \<lparr>min_col = first_column + index * 4, max_col = first_column + index * 4, min_row = 1,
                             max_row = length rows\<rparr>) (numbers 0 n),
      chart_categories = \<lparr>min_col = 1, max_col = 1, min_row = 2, max_row = length rows\<rparr>,
      chart_height = 9, chart_width = 18\<rparr>"

definition cycle_chart :: "nat \<Rightarrow> sheet \<Rightarrow> line_chart" where
  "cycle_chart n rows = chart_of ''Boot milestone cycles by configuration'' ''Cycles'' 3 n rows"

definition instret_chart :: "nat \<Rightarrow> sheet \<Rightarrow> line_chart" where
  "instret_chart n rows = chart_of ''Retired instructions at boot milestones'' ''Instructions retired'' 4 n rows"

definition charts :: "nat \<Rightarrow> sheet \<Rightarrow> style list" where
  "charts n rows =
     (if 0 < n \<and> 1 < length rows
      then [AddChart ''Comparison'' ''A13'' (cycle_chart n rows), AddChart ''Comparison'' ''J13'' (instret_chart n rows)]
      else [])"

definition workbook_styles :: "(nat \<Rightarrow> string) \<Rightarrow> string list \<Rightarrow> (string \<times> sheet) list \<Rightarrow> style list" where
  "workbook_styles letter configurations sheets =
     (let n = length configurations; intervals = rows_of sheets ''Intervals''; comparison = rows_of sheets ''Comparison'' in
      concat (map (\<lambda>name. sheet_styles letter name (rows_of sheets name)) STYLED_SHEETS) @
      milestone_formats (rows_of sheets ''Milestones'') @ interval_formats intervals @ comparison_formats comparison @
      interval_scale intervals @ comparison_scales letter n comparison @
      concat (map (width_styles letter) WIDTHS) @ comparison_widths letter comparison @
      [TitleFont ''Read Me'' ''A1'' 16 ''1F4E78'', FreezePanes ''Read Me'' ''A11''] @ charts n comparison)"

section \<open>The command\<close>

text \<open>
  What the command leaves behind: the CSV rows and the workbook (each when it got that far), the lines on the
  standard error and output, and the exit code.
\<close>

record report_run =
  rr_csv :: "sheet option"
  rr_workbook :: "((string \<times> sheet) list \<times> style list) option"
  rr_errors :: "string list"
  rr_output :: "string list"
  rr_code :: nat

definition refused :: "string list \<Rightarrow> report_run" where
  "refused messages = \<lparr>rr_csv = None, rr_workbook = None, rr_errors = messages, rr_output = [], rr_code = 2\<rparr>"

definition boot_report_main ::
  "(nat \<Rightarrow> string) \<Rightarrow> bool \<Rightarrow> (symbol_error \<Rightarrow> string) \<Rightarrow> (string \<Rightarrow> string option) \<Rightarrow> (string \<Rightarrow> string option) \<Rightarrow>
   run_log list \<Rightarrow> string \<Rightarrow> elf_source list \<Rightarrow> string \<Rightarrow> string \<Rightarrow> report_run" where
  "boot_report_main letter has_openpyxl symbol_message read_file nm runs baseline elfs xlsx_path csv_path =
     (case boot_report read_file nm runs baseline elfs of
        Inl (FilesMissing paths) \<Rightarrow> refused (map (\<lambda>p. ''error: log does not exist: '' @ p) paths)
      | Inl (BaselineUnknown b) \<Rightarrow> refused [''error: baseline is not a --run configuration: '' @ b]
      | Inl (SymbolsFailed e) \<Rightarrow> refused [''error: could not load ELF symbols: '' @ symbol_message e]
      | Inl _ \<Rightarrow> refused []
      | Inr (csv, sheets) \<Rightarrow>
          let (configurations, ms) = collect (\<lambda>p. the (read_file p)) runs in
          if \<not> has_openpyxl
          then \<lparr>rr_csv = Some csv, rr_workbook = None,
                rr_errors = [''error: openpyxl is required to generate the Excel report''], rr_output = [], rr_code = 2\<rparr>
          else \<lparr>rr_csv = Some csv, rr_workbook = Some (sheets, workbook_styles letter configurations sheets), rr_errors = [],
                rr_output = [''Wrote '' @ xlsx_path @ '' and '' @ csv_path @ '': '' @ dec (int (length configurations)) @
                  '' configurations, '' @ dec (int (length ms)) @ '' measurements''], rr_code = 0\<rparr>)"

end
