(* ===== verification/BootStyleProps.thy ===== *)
theory BootStyleProps
  imports BootStyle
begin

text \<open>The workbook is well typed: its tables are rectangular and every cell with a number format holds a number or nothing.\<close>

section \<open>Shapes of the rows\<close>

definition numeric :: "cell \<Rightarrow> bool" where
  "numeric c = (case c of Blank \<Rightarrow> True | Num _ \<Rightarrow> True | Real _ \<Rightarrow> True | _ \<Rightarrow> False)"

definition is_text :: "cell \<Rightarrow> bool" where
  "is_text c = (case c of Txt _ \<Rightarrow> True | _ \<Rightarrow> False)"

definition cell_at :: "sheet \<Rightarrow> nat \<Rightarrow> nat \<Rightarrow> cell option" where
  "cell_at rows row col =
     (if row = 0 \<or> length rows < row \<or> col = 0 \<or> length (rows ! (row - 1)) < col then None
      else Some (rows ! (row - 1) ! (col - 1)))"

text \<open>A table: a header of text over rows of its width.\<close>

definition is_table :: "nat \<Rightarrow> sheet \<Rightarrow> bool" where
  "is_table width rows \<longleftrightarrow>
     (case rows of [] \<Rightarrow> False
      | header # body \<Rightarrow> length header = width \<and> list_all is_text header \<and> (\<forall>row \<in> set body. length row = width))"

named_theorems cell_simps \<open>cells and their kinds\<close>

lemma numeric_simps [simp, cell_simps]:
  "numeric Blank" "numeric (Num n)" "numeric (Real x)" "is_text (Txt s)" "numeric (num_cell v)" "numeric (real_cell u)"
  "numeric (ratio_cell a b)" "numeric (relative_to p q f)"
  by (simp_all add: numeric_def is_text_def num_cell_def real_cell_def ratio_cell_def relative_to_def split: option.split)

lemma length_pc_cells [simp]: "length (pc_cells tables p) = 2"
  by (simp add: pc_cells_def split: option.split)

lemma length_rows [simp]:
  "length (outcome_row tables c) = 15" "length (milestone_row tables m) = 19" "length (function_row v) = 12"
  "length (interval_row conf (a, b)) = 9" "length (csv_row_of tables m) = 16"
  by (simp_all add: outcome_row_def milestone_row_def marker_cells_def function_row_def interval_row_def csv_row_of_def Let_def)

lemma interval_rows_shape: "row \<in> set (interval_rows configurations ms) \<Longrightarrow> \<exists>conf a b. row = interval_row conf (a, b)"
  by (auto simp: interval_rows_def Let_def)

lemma comparison_cells_shape [simp]:
  "length (comparison_cells baseline b conf i) = 4" "c \<in> set (comparison_cells baseline b conf i) \<Longrightarrow> numeric c"
  by (auto simp: comparison_cells_def Let_def)

lemma length_blocks: "(\<And>x. length (f x) = 4) \<Longrightarrow> length (concat (map f xs)) = 4 * length xs"
  by (induction xs) simp_all

lemma nth_blocks:
  "(\<And>x. length (f x) = 4) \<Longrightarrow> i < length xs \<Longrightarrow> k < 4 \<Longrightarrow> concat (map f xs) ! (4 * i + k) = f (xs ! i) ! k"
proof (induction xs arbitrary: i)
  case (Cons x xs)
  then show ?case by (cases i) (simp_all add: nth_append)
qed simp

lemma comparison_lengths [simp]:
  "length (comparison_row baseline configurations ms m) = 2 + 4 * length configurations"
  "length (comparison_header baseline configurations) = 2 + 4 * length configurations"
  by (simp_all add: comparison_row_def comparison_header_def length_blocks)

lemma comparison_heads:
  assumes "i < length configurations"
  shows "comparison_header baseline configurations ! (2 + 4 * i) = Txt (configurations ! i @ '' cycles'')"
    "comparison_header baseline configurations ! (3 + 4 * i) = Txt (configurations ! i @ '' instret'')"
    "4 * i + 3 < length (comparison_header baseline configurations)"
proof -
  obtain f where f: "comparison_header baseline configurations = [Txt ''Signpost'', Txt ''Description''] @ concat (map f configurations)"
    "\<And>x. length (f x) = 4" "\<And>x. f x ! 0 = Txt (x @ '' cycles'')" "\<And>x. f x ! 1 = Txt (x @ '' instret'')"
    by (rule that [OF comparison_header_def]) simp_all
  have n: "concat (map f configurations) ! (4 * i + k) = f (configurations ! i) ! k" if "k < 4" for k
    by (rule nth_blocks [OF f(2) assms that])
  have "comparison_header baseline configurations ! (2 + (4 * i + k)) = f (configurations ! i) ! k" if "k < 4" for k
    using n [OF that] by (simp add: f(1))
  from this [of 0] this [of 1]
  show "comparison_header baseline configurations ! (2 + 4 * i) = Txt (configurations ! i @ '' cycles'')"
    "comparison_header baseline configurations ! (3 + 4 * i) = Txt (configurations ! i @ '' instret'')"
    using f(4) by (simp_all add: f(3) eval_nat_numeral)
  show "4 * i + 3 < length (comparison_header baseline configurations)" using assms by simp
qed

lemma milestone_numbers: "3 \<le> k \<Longrightarrow> k < 12 \<Longrightarrow> numeric (milestone_row tables m ! k)"
proof -
  assume k: "3 \<le> k" "k < 12"
  then have "k \<in> {3, 4, 5, 6, 7, 8, 9, 10, 11}" by auto
  then show ?thesis by (auto simp: milestone_row_def marker_cells_def nth_append)
qed

lemma interval_numbers: "3 \<le> k \<Longrightarrow> k < 9 \<Longrightarrow> numeric (interval_row conf (a, b) ! k)"
proof -
  assume k: "3 \<le> k" "k < 9"
  then have "k \<in> {3, 4, 5, 6, 7, 8}" by auto
  then show ?thesis by (auto simp: interval_row_def Let_def nth_append)
qed

lemma comparison_numbers:
  assumes "2 \<le> k" "k < 2 + 4 * length configurations"
  shows "numeric (comparison_row baseline configurations ms m ! k)"
proof -
  let ?cells = "concat (map (\<lambda>conf. comparison_cells baseline (measured_at ms baseline m) conf (measured_at ms conf m)) configurations)"
  have "k - 2 < length ?cells" using assms by (simp add: length_blocks)
  then have "?cells ! (k - 2) \<in> set ?cells" by (rule nth_mem)
  then have "numeric (?cells ! (k - 2))" by auto
  then show ?thesis using assms(1) by (simp add: comparison_row_def nth_append numeral_2_eq_2)
qed

section \<open>The workbook\<close>

lemma max_column_table: "is_table width rows \<Longrightarrow> max_column rows = width"
proof -
  have const: "(\<forall>row \<in> set body. length row = width) \<Longrightarrow> foldr (\<lambda>row n. max (length row) n) body 0 \<le> width" for body :: sheet
    by (induction body) auto
  assume "is_table width rows"
  then show ?thesis using const by (auto simp: is_table_def max_column_def max_absorb1 split: list.splits)
qed

lemma table_cell:
  assumes "is_table width rows" "2 \<le> row" "row \<le> length rows" "1 \<le> col" "col \<le> width"
  shows "\<exists>r \<in> set (tl rows). cell_at rows row col = Some (r ! (col - 1)) \<and> length r = width"
proof -
  obtain header body where rows: "rows = header # body" "\<forall>r \<in> set body. length r = width"
    using assms(1) by (auto simp: is_table_def split: list.splits)
  have r: "rows ! (row - 1) = body ! (row - 2)" "row - 2 < length body" using assms(2,3) rows(1) by (auto simp: nth_Cons' numeral_2_eq_2)
  then have "body ! (row - 2) \<in> set body" by simp
  then show ?thesis using rows r(1) assms(2-5) by (intro bexI [of _ "body ! (row - 2)"]) (auto simp: cell_at_def)
qed

lemma sheets_are_tables:
  fixes baseline configurations ms tables obs outcomes runs
  defines "sheets \<equiv> workbook_sheets baseline runs configurations ms tables obs outcomes"
  shows "is_table 15 (rows_of sheets ''Run Outcomes'')" "is_table 19 (rows_of sheets ''Milestones'')"
    "is_table 12 (rows_of sheets ''Function Landmarks'')" "is_table 9 (rows_of sheets ''Intervals'')"
    "is_table (2 + 4 * length configurations) (rows_of sheets ''Comparison'')"
proof -
  have header: "list_all is_text (comparison_header baseline configurations)"
    by (induction configurations) (simp_all add: comparison_header_def)
  show "is_table (2 + 4 * length configurations) (rows_of sheets ''Comparison'')"
    unfolding sheets_def using header by (simp add: rows_of_def workbook_sheets_def is_table_def)
  show "is_table 15 (rows_of sheets ''Run Outcomes'')" "is_table 19 (rows_of sheets ''Milestones'')"
    "is_table 12 (rows_of sheets ''Function Landmarks'')"
    unfolding sheets_def
    by (simp_all add: rows_of_def workbook_sheets_def is_table_def OUTCOME_HEADERS_def MILESTONE_HEADERS_def FUNCTION_HEADERS_def)
  show "is_table 9 (rows_of sheets ''Intervals'')"
    unfolding sheets_def using interval_rows_shape [of _ configurations ms]
    by (fastforce simp: rows_of_def workbook_sheets_def is_table_def INTERVAL_HEADERS_def)
qed

lemma sheet_bodies:
  fixes baseline configurations ms tables obs outcomes runs
  defines "sheets \<equiv> workbook_sheets baseline runs configurations ms tables obs outcomes"
  shows "tl (rows_of sheets ''Milestones'') = map (milestone_row tables) ms"
    "tl (rows_of sheets ''Intervals'') = interval_rows configurations ms"
    "rows_of sheets ''Comparison'' = comparison_header baseline configurations # map (comparison_row baseline configurations ms) MARKERS"
  unfolding sheets_def by (simp_all add: rows_of_def workbook_sheets_def)

lemma no_formats [simp]:
  "NumberFormat name row col fmt \<notin> set (sheet_styles letter n rows)"
  "NumberFormat name row col fmt \<notin> set (interval_scale rows)"
  "NumberFormat name row col fmt \<notin> set (comparison_scales letter k rows)"
  "NumberFormat name row col fmt \<notin> set (width_styles letter e)"
  "NumberFormat name row col fmt \<notin> set (comparison_widths letter rows)"
  "NumberFormat name row col fmt \<notin> set (charts k rows)"
proof -
  show "NumberFormat name row col fmt \<notin> set (sheet_styles letter n rows)"
    by (auto simp: sheet_styles_def header_cell_def stripe_def)
  show "NumberFormat name row col fmt \<notin> set (width_styles letter e)"
    by (cases e) (auto simp: width_styles_def)
qed (auto simp: interval_scale_def comparison_scales_def comparison_widths_def charts_def)

lemma format_places:
  "NumberFormat name row col fmt \<in> set (milestone_formats rows) \<Longrightarrow>
     name = ''Milestones'' \<and> 4 \<le> col \<and> col < 13 \<and> 2 \<le> row \<and> row < length rows + 1"
  "NumberFormat name row col fmt \<in> set (interval_formats rows) \<Longrightarrow>
     name = ''Intervals'' \<and> 4 \<le> col \<and> col < 10 \<and> 2 \<le> row \<and> row < length rows + 1"
  "NumberFormat name row col fmt \<in> set (comparison_formats rows) \<Longrightarrow>
     name = ''Comparison'' \<and> 3 \<le> col \<and> col < max_column rows + 1 \<and> 2 \<le> row \<and> row < length rows + 1"
  unfolding milestone_formats_def interval_formats_def comparison_formats_def numbers_def
  by (simp_all only: set_concat set_map set_append set_upt image_image) (clarsimp; fastforce)+

lemma formats_in:
  assumes "NumberFormat name row col fmt \<in> set (workbook_styles letter configurations sheets)"
  shows "NumberFormat name row col fmt \<in> set (milestone_formats (rows_of sheets ''Milestones'')) \<or>
    NumberFormat name row col fmt \<in> set (interval_formats (rows_of sheets ''Intervals'')) \<or>
    NumberFormat name row col fmt \<in> set (comparison_formats (rows_of sheets ''Comparison''))"
  using assms unfolding workbook_styles_def Let_def set_append set_concat Un_iff by (auto simp del: set_concat)

lemma boot_report_sheets:
  assumes "boot_report read_file nm runs baseline elfs = Inr (csv, sheets)"
  shows "\<exists>ms tables obs outcomes. csv = csv_rows ms tables \<and>
    sheets = workbook_sheets baseline runs (fst (collect (\<lambda>p. the (read_file p)) runs)) ms tables obs outcomes"
  using assms by (auto simp: boot_report_def Let_def split: if_splits prod.splits sum.splits)

lemma formatted_numbers:
  fixes baseline configurations ms tables obs outcomes runs
  defines "sheets \<equiv> workbook_sheets baseline runs configurations ms tables obs outcomes"
  assumes "NumberFormat name row col fmt \<in> set (workbook_styles letter cs sheets)"
  shows "\<exists>c. cell_at (rows_of sheets name) row col = Some c \<and> numeric c"
proof -
  note tables = sheets_are_tables [where baseline = baseline and runs = runs and configurations = configurations and ms = ms
    and tables = tables and obs = obs and outcomes = outcomes, folded sheets_def]
  note bodies = sheet_bodies [where baseline = baseline and runs = runs and configurations = configurations and ms = ms
    and tables = tables and obs = obs and outcomes = outcomes, folded sheets_def]
  consider (milestone) "NumberFormat name row col fmt \<in> set (milestone_formats (rows_of sheets ''Milestones''))"
    | (interval) "NumberFormat name row col fmt \<in> set (interval_formats (rows_of sheets ''Intervals''))"
    | (comparison) "NumberFormat name row col fmt \<in> set (comparison_formats (rows_of sheets ''Comparison''))"
    using formats_in [OF assms(2)] by blast
  then show ?thesis
  proof cases
    case milestone
    from format_places(1) [OF this] have p: "name = ''Milestones''" "4 \<le> col" "col < 13" "2 \<le> row" "row \<le> length (rows_of sheets ''Milestones'')"
      by auto
    obtain m where "cell_at (rows_of sheets ''Milestones'') row col = Some (milestone_row tables m ! (col - 1))"
      using table_cell [OF tables(2) p(4,5), of col] p(2,3) bodies(1) by auto
    then show ?thesis using milestone_numbers [of "col - 1"] p by simp
  next
    case interval
    from format_places(2) [OF this] have p: "name = ''Intervals''" "4 \<le> col" "col < 10" "2 \<le> row" "row \<le> length (rows_of sheets ''Intervals'')"
      by auto
    obtain r where r: "r \<in> set (interval_rows configurations ms)" "cell_at (rows_of sheets ''Intervals'') row col = Some (r ! (col - 1))"
      using table_cell [OF tables(4) p(4,5), of col] p(2,3) bodies(2) by auto
    then show ?thesis using interval_rows_shape [OF r(1)] interval_numbers [of "col - 1"] p by auto
  next
    case comparison
    from format_places(3) [OF this] have p: "name = ''Comparison''" "3 \<le> col" "col \<le> 2 + 4 * length configurations" "2 \<le> row"
      "row \<le> length (rows_of sheets ''Comparison'')"
      using max_column_table [OF tables(5)] by auto
    obtain m where "cell_at (rows_of sheets ''Comparison'') row col = Some (comparison_row baseline configurations ms m ! (col - 1))"
      using table_cell [OF tables(5) p(4,5), of col] p(2,3) bodies(3) by auto
    then show ?thesis using comparison_numbers [of "col - 1"] p by simp
  qed
qed

lemma readme_text:
  "row \<in> set (readme_rows baseline runs) \<Longrightarrow> length row \<le> 2 \<and> list_all is_text row"
  by (auto simp: readme_rows_def)

text \<open>
  C29: the written workbook is well typed. It has six sheets. Each of its five tables, every sheet but the Read Me, is
  rectangular under a header of text, and so is the CSV; the Read Me holds only text, in rows of at most two cells. Every
  cell that gets a number format exists and holds a number or nothing, never text; the series of the two charts are the
  columns headed with their configurations' cycles and instructions; and the charts, placed from row 13 on, lie below
  the table.
\<close>

theorem workbook_is_typed:
  assumes "boot_report read_file nm runs baseline elfs = Inr (csv, sheets)"
  shows "let configurations = fst (collect (\<lambda>p. the (read_file p)) runs); n = length configurations;
      comparison = rows_of sheets ''Comparison'' in
    set (map fst sheets) = insert ''Read Me'' (set STYLED_SHEETS) \<and> length sheets = 6 \<and>
    (\<forall>name \<in> set STYLED_SHEETS. is_table (max_column (rows_of sheets name)) (rows_of sheets name)) \<and> is_table 16 csv \<and>
    (\<forall>row \<in> set (rows_of sheets ''Read Me''). length row \<le> 2 \<and> list_all is_text row) \<and>
    (\<forall>name row col fmt. NumberFormat name row col fmt \<in> set (workbook_styles letter configurations sheets) \<longrightarrow>
       (\<exists>c. cell_at (rows_of sheets name) row col = Some c \<and> numeric c)) \<and>
    (\<forall>i < n. cell_at comparison 1 (min_col (series (cycle_chart n comparison) ! i)) = Some (Txt (configurations ! i @ '' cycles'')) \<and>
             cell_at comparison 1 (min_col (series (instret_chart n comparison) ! i)) = Some (Txt (configurations ! i @ '' instret''))) \<and>
    length comparison < 13"
proof -
  let ?cs = "fst (collect (\<lambda>p. the (read_file p)) runs)"
  obtain ms tables obs outcomes where csv: "csv = csv_rows ms tables"
    and sheets: "sheets = workbook_sheets baseline runs ?cs ms tables obs outcomes"
    using boot_report_sheets [OF assms] by blast
  note tables = sheets_are_tables [where baseline = baseline and runs = runs and configurations = "?cs" and ms = ms
    and tables = tables and obs = obs and outcomes = outcomes, folded sheets]
  note bodies = sheet_bodies [where baseline = baseline and runs = runs and configurations = "?cs" and ms = ms
    and tables = tables and obs = obs and outcomes = outcomes, folded sheets]
  have all: "\<forall>name \<in> set STYLED_SHEETS. is_table (max_column (rows_of sheets name)) (rows_of sheets name)"
    using tables max_column_table by (auto simp: STYLED_SHEETS_def)
  have names: "set (map fst sheets) = insert ''Read Me'' (set STYLED_SHEETS)" "length sheets = 6"
    by (auto simp: sheets workbook_sheets_def STYLED_SHEETS_def)
  have readme: "rows_of sheets ''Read Me'' = readme_rows baseline runs" by (simp add: sheets rows_of_def workbook_sheets_def)
  have c: "is_table 16 csv" by (auto simp: csv csv_rows_def is_table_def CSV_HEADER_def)
  have heads: "cell_at (rows_of sheets ''Comparison'') 1 (3 + i * 4) = Some (Txt (?cs ! i @ '' cycles''))"
    "cell_at (rows_of sheets ''Comparison'') 1 (4 + i * 4) = Some (Txt (?cs ! i @ '' instret''))" if "i < length ?cs" for i
    using comparison_heads [OF that] by (simp_all add: cell_at_def bodies(3) mult.commute)
  have short: "length (rows_of sheets ''Comparison'') < 13" by (simp add: bodies(3) MARKERS_def)
  show ?thesis
    unfolding Let_def
  proof (intro conjI allI impI all c short names)
    show "\<forall>row \<in> set (rows_of sheets ''Read Me''). length row \<le> 2 \<and> list_all is_text row"
      using readme_text unfolding readme by blast
    show "\<exists>c. cell_at (rows_of sheets name) row col = Some c \<and> numeric c"
      if "NumberFormat name row col fmt \<in> set (workbook_styles letter ?cs sheets)" for name row col fmt
      using formatted_numbers that unfolding sheets by blast
  qed (use heads in \<open>simp_all add: cycle_chart_def instret_chart_def chart_of_def numbers_def\<close>)
qed

definition demo_log :: string where
  "demo_log = ''OpenSBI v1.4'' @ [CHR 0x0A] @ ''Linux version 6.1'' @ [CHR 0x0A]"

theorem workbook_is_typed_witness:
  "\<exists>csv sheets. boot_report (\<lambda>_. Some demo_log) (\<lambda>_. None) [\<lparr>r_configuration = ''a'', r_path = ''a.log''\<rparr>] ''a'' [] =
     Inr (csv, sheets) \<and> cell_at (rows_of sheets ''Comparison'') 1 3 = Some (Txt ''a cycles'')"
proof -
  let ?runs = "[\<lparr>r_configuration = ''a'', r_path = ''a.log''\<rparr>]"
  have cs: "fst (collect (\<lambda>p. the (Some demo_log)) ?runs) = [''a'']" by code_simp
  have "\<exists>csv sheets. boot_report (\<lambda>_. Some demo_log) (\<lambda>_. None) ?runs ''a'' [] = Inr (csv, sheets)"
    using cs by (auto simp: boot_report_def Let_def load_symbol_tables_def split: prod.split)
  then obtain csv sheets where r: "boot_report (\<lambda>_. Some demo_log) (\<lambda>_. None) ?runs ''a'' [] = Inr (csv, sheets)" by blast
  have "cell_at (rows_of sheets ''Comparison'') 1 (min_col (series (cycle_chart 1 (rows_of sheets ''Comparison'')) ! 0)) =
      Some (Txt ([''a''] ! 0 @ '' cycles''))"
    using workbook_is_typed [OF r] unfolding cs Let_def by simp
  then have "cell_at (rows_of sheets ''Comparison'') 1 3 = Some (Txt ''a cycles'')"
    by (simp add: cycle_chart_def chart_of_def numbers_def)
  then show ?thesis using r by blast
qed

end
