(* ===== verification/ToolWorld.thy ===== *)
theory ToolWorld
  imports ByteCodec
begin

text \<open>
  The files a command reads and writes. Reading a file, making the directories above it and writing it may each raise
  an \<open>OSError\<close>; \<open>FileNotFoundError\<close> is the one the tools tell apart, by the name it carries. A failed write may leave
  a part of the file behind: the files of a run are those that were written completely.
\<close>

datatype os_error = NotFound string | OtherOs string

record disk =
  d_read :: "string \<Rightarrow> os_error + byte list"
  d_mkdir :: "string \<Rightarrow> os_error option"
  d_write :: "string \<Rightarrow> os_error option"
  d_text :: "os_error \<Rightarrow> string"

datatype file_content = Bytes "byte list" | Lines "string list"

text \<open>\<open>path.parent.mkdir(parents=True, exist_ok=True)\<close> and then the write.\<close>

definition publish :: "disk \<Rightarrow> string \<Rightarrow> os_error + unit" where
  "publish w path =
     (case d_mkdir w path of
        Some e \<Rightarrow> Inl e
      | None \<Rightarrow> (case d_write w path of Some e \<Rightarrow> Inl e | None \<Rightarrow> Inr ()))"

definition with_error :: "('e \<Rightarrow> 'f) \<Rightarrow> 'e + 'a \<Rightarrow> 'f + 'a" where
  "with_error f x = (case x of Inl e \<Rightarrow> Inl (f e) | Inr v \<Rightarrow> Inr v)"

lemma with_error_simps [simp]: "with_error f (Inr v) = Inr v" "with_error f (Inl e) = Inl (f e)"
  by (simp_all add: with_error_def)

lemma with_error_ok: "with_error f x = Inr v \<longleftrightarrow> x = Inr v"
  by (cases x) simp_all

lemma publish_ok: "publish w path = Inr u \<longleftrightarrow> d_mkdir w path = None \<and> d_write w path = None"
  by (auto simp: publish_def split: option.splits)

text \<open>What a command leaves behind.\<close>

record command_run =
  run_files :: "(string \<times> file_content) list"
  run_out :: "string list"
  run_err :: "string list"
  run_code :: nat

definition succeeded :: "(string \<times> file_content) list \<Rightarrow> string list \<Rightarrow> command_run" where
  "succeeded files out = \<lparr>run_files = files, run_out = out, run_err = [], run_code = 0\<rparr>"

definition failed_with :: "nat \<Rightarrow> string \<Rightarrow> command_run" where
  "failed_with code message = \<lparr>run_files = [], run_out = [], run_err = [message], run_code = code\<rparr>"

text \<open>An exception no handler names ends Python with 1 and a traceback, whose lines are left out.\<close>

definition traceback :: command_run where
  "traceback = \<lparr>run_files = [], run_out = [], run_err = [], run_code = 1\<rparr>"

lemmas command_run_defs = succeeded_def failed_with_def traceback_def

end
