(* ===== verification/SdCommand.thy ===== *)
theory SdCommand
  imports SdVerify ToolWorld
begin

text \<open>
  The command \<open>tools/make-fpga-sd-image.py\<close> around the image: the checks of its arguments, the compilation of the
  device tree by \<open>cpp\<close> and \<open>dtc\<close>, building and verifying. Files and tools are the record \<open>sd_world\<close>; argparse has
  already split the command line, and the manifest is a value instead of its JSON text.
\<close>

section \<open>The world and the arguments\<close>

text \<open>Starting a tool may raise \<open>FileNotFoundError\<close> (with the name) or another \<open>OSError\<close>.\<close>

datatype tool_result = ToolError os_error | Exit int

record sd_world =
  w_disk :: disk
  w_run :: "string list \<Rightarrow> tool_result"
  w_tempdir :: string
  w_sd_text :: "sd_error \<Rightarrow> string"
  w_sha256 :: "byte list \<Rightarrow> string"

record sd_args =
  a_dts :: "string option"
  a_opensbi :: "string option"
  a_linux :: "string option"
  a_output :: "string option"
  a_verify :: "string option"
  a_manifest :: "string option"
  a_memory_size :: int
  a_hart_count :: int
  a_timebase_frequency :: int
  a_uart_clock_frequency :: int
  a_cpp :: string
  a_dtc :: string

text \<open>The errors \<open>main\<close> reports, and those of \<open>struct\<close> and the missing key, which it does not catch.\<close>

datatype command_error =
    CannotRead string os_error
  | ToolMissing string
  | CompilationFailed int
  | CannotReadDtb os_error
  | CannotReadInput os_error
  | ImageError sd_error
  | OsFailed os_error

section \<open>The device tree\<close>

definition hex_prefixed :: "int \<Rightarrow> string" where
  "hex_prefixed n = (if n < 0 then ''-0x'' @ hex (- n) else ''0x'' @ hex n)"

definition dts_definitions :: "sd_args \<Rightarrow> string list" where
  "dts_definitions args =
     [''OPENRV64_MEMORY_SIZE='' @ hex_prefixed (a_memory_size args),
      ''OPENRV64_HART_COUNT='' @ dec (a_hart_count args),
      ''OPENRV64_TIMEBASE_FREQUENCY='' @ dec (a_timebase_frequency args),
      ''OPENRV64_UART_CLOCK_FREQUENCY='' @ dec (a_uart_clock_frequency args)]"

definition preprocessed :: "sd_world \<Rightarrow> string" where
  "preprocessed w = w_tempdir w @ ''/openrv64.dts''"

definition dtb_path :: "sd_world \<Rightarrow> string" where
  "dtb_path w = w_tempdir w @ ''/openrv64.dtb''"

definition cpp_command :: "sd_world \<Rightarrow> sd_args \<Rightarrow> string \<Rightarrow> string list" where
  "cpp_command w args dts =
     [a_cpp args, ''-E'', ''-P'', ''-x'', ''assembler-with-cpp''] @
     map (\<lambda>d. ''-D'' @ d) (dts_definitions args) @ [''-o'', preprocessed w, dts]"

definition dtc_command :: "sd_world \<Rightarrow> sd_args \<Rightarrow> string list" where
  "dtc_command w args = [a_dtc args, ''-I'', ''dts'', ''-O'', ''dtb'', ''-o'', dtb_path w, preprocessed w]"

text \<open>An error inside the block that runs the tools: the handlers are tried in order.\<close>

definition dts_handler :: "os_error \<Rightarrow> command_error" where
  "dts_handler e = (case e of NotFound name \<Rightarrow> ToolMissing name | OtherOs s \<Rightarrow> CannotReadDtb e)"

definition run_tool :: "sd_world \<Rightarrow> string list \<Rightarrow> command_error + unit" where
  "run_tool w command =
     (case w_run w command of
        ToolError e \<Rightarrow> Inl (dts_handler e)
      | Exit n \<Rightarrow> if n \<noteq> 0 then Inl (CompilationFailed n) else Inr ())"

definition compile_dts :: "sd_world \<Rightarrow> sd_args \<Rightarrow> string \<Rightarrow> command_error + (byte list \<times> byte list)" where
  "compile_dts w args dts =
     bindE (with_error (CannotRead dts) (d_read (w_disk w) dts)) (\<lambda>dts_source.
     bindE (run_tool w (cpp_command w args dts)) (\<lambda>_.
     bindE (run_tool w (dtc_command w args)) (\<lambda>_.
     bindE (with_error dts_handler (d_read (w_disk w) (dtb_path w))) (\<lambda>dtb. Inr (dts_source, dtb)))))"

section \<open>Building and verifying\<close>

text \<open>What the command leaves behind: the image and the manifest, the text and the exit code.\<close>

record sd_run =
  o_image :: "(string \<times> byte list) option"
  o_manifest :: "(string \<times> sd_manifest) option"
  o_record :: "sd_manifest option"
  o_message :: "string option"
  o_code :: nat

definition nothing_done :: sd_run where
  "nothing_done = \<lparr>o_image = None, o_manifest = None, o_record = None, o_message = None, o_code = 0\<rparr>"

definition source_map :: "string \<Rightarrow> string \<Rightarrow> string \<Rightarrow> byte list \<Rightarrow> byte list \<Rightarrow> byte list \<Rightarrow> string \<Rightarrow> (string \<times> byte list) option" where
  "source_map opensbi_path linux_path dts_path opensbi linux dts_source =
     [''TRAMP'' \<mapsto> (''generated:fixed-openrv64-fpga-trampoline'', trampoline), ''OPENSBI'' \<mapsto> (opensbi_path, opensbi),
      ''LINUX'' \<mapsto> (linux_path, linux), ''FDT'' \<mapsto> (dts_path, dts_source)]"

definition error_text :: "sd_world \<Rightarrow> command_error \<Rightarrow> string" where
  "error_text w e =
     (case e of
        CannotRead path x \<Rightarrow> ''cannot read '' @ path @ '': '' @ d_text (w_disk w) x
      | ToolMissing name \<Rightarrow> ''required DTS tool is not installed: '' @ name
      | CompilationFailed n \<Rightarrow> ''DTS compilation failed with exit code '' @ dec n
      | CannotReadDtb x \<Rightarrow> ''cannot read generated DTB: '' @ d_text (w_disk w) x
      | CannotReadInput x \<Rightarrow> ''cannot read boot input: '' @ d_text (w_disk w) x
      | ImageError x \<Rightarrow> w_sd_text w x
      | OsFailed x \<Rightarrow> d_text (w_disk w) x)"

definition uncaught :: "command_error \<Rightarrow> bool" where
  "uncaught e \<longleftrightarrow> (case e of ImageError x \<Rightarrow> x = StructError \<or> (\<exists>t. x = MissingSource t) | _ \<Rightarrow> False)"

definition failed :: "sd_world \<Rightarrow> command_error \<Rightarrow> sd_run" where
  "failed w e =
     (if uncaught e then nothing_done\<lparr>o_code := 1\<rparr>
      else nothing_done\<lparr>o_message := Some (''make-fpga-sd-image.py: '' @ error_text w e), o_code := 2\<rparr>)"

text \<open>The steps of \<open>build\<close>: the inputs, the image, which is written at once, and then its verification.\<close>

definition boot_payloads :: "sd_world \<Rightarrow> sd_args \<Rightarrow> string \<Rightarrow> string \<Rightarrow> string \<Rightarrow>
    command_error + (byte list \<times> byte list \<times> byte list \<times> byte list)" where
  "boot_payloads w args dts opensbi linux =
     bindE (compile_dts w args dts) (\<lambda>(dts_source, dtb).
     bindE (with_error CannotReadInput (d_read (w_disk w) opensbi)) (\<lambda>opensbi_data.
     bindE (with_error CannotReadInput (d_read (w_disk w) linux)) (\<lambda>linux_data.
       Inr (dts_source, dtb, opensbi_data, linux_data))))"

definition boot_image :: "byte list \<Rightarrow> byte list \<Rightarrow> byte list \<Rightarrow> sd_error + byte list" where
  "boot_image opensbi linux dtb =
     (if opensbi = [] then Inl EmptyOpensbi
      else if linux = [] then Inl EmptyLinux
      else if slice LINUX_MAGIC_OFFSET (LINUX_MAGIC_OFFSET + length LINUX_MAGIC) linux \<noteq> LINUX_MAGIC then Inl NoLinuxMagic
      else bindE (assemble boot_inputs [trampoline, opensbi, linux, dtb]) (\<lambda>(_, img). Inr img))"

definition write_file :: "sd_world \<Rightarrow> string \<Rightarrow> os_error + unit" where
  "write_file w path = (case d_write (w_disk w) path of Some e \<Rightarrow> Inl e | None \<Rightarrow> Inr ())"

definition sd_build :: "sd_world \<Rightarrow> sd_args \<Rightarrow> string \<Rightarrow> string \<Rightarrow> string \<Rightarrow> string \<Rightarrow> sd_run" where
  "sd_build w args dts opensbi linux output =
     (case boot_payloads w args dts opensbi linux of
        Inl e \<Rightarrow> failed w e
      | Inr (dts_source, dtb, opensbi_data, linux_data) \<Rightarrow>
          (case bindE (with_error ImageError (boot_image opensbi_data linux_data dtb)) (\<lambda>img.
                  bindE (with_error OsFailed (publish (w_disk w) output)) (\<lambda>_. Inr img)) of
             Inl e \<Rightarrow> failed w e
           | Inr img \<Rightarrow>
               (let manifest_path = (case a_manifest args of Some m \<Rightarrow> m | None \<Rightarrow> output @ ''.json'') in
                case bindE (with_error ImageError (bindE (verify_bytes (w_sha256 w) img) (\<lambda>(entries, _).
                         manifest (w_sha256 w) img entries
                           (Some (source_map opensbi linux dts opensbi_data linux_data dts_source))))) (\<lambda>record.
                       bindE (with_error OsFailed (write_file w manifest_path)) (\<lambda>_. Inr record)) of
                  Inl e \<Rightarrow> (failed w e)\<lparr>o_image := Some (output, img)\<rparr>
                | Inr record \<Rightarrow>
                    \<lparr>o_image = Some (output, img), o_manifest = Some (manifest_path, record),
                     o_record = Some record, o_message = None, o_code = 0\<rparr>)))"

definition sd_verify :: "sd_world \<Rightarrow> string \<Rightarrow> sd_run" where
  "sd_verify w path =
     (case bindE (with_error OsFailed (d_read (w_disk w) path)) (\<lambda>img. with_error ImageError (verify_bytes (w_sha256 w) img)) of
        Inl e \<Rightarrow> failed w e
      | Inr (_, record) \<Rightarrow> nothing_done\<lparr>o_record := Some record\<rparr>)"

text \<open>\<open>parser.error\<close> prints a usage message and exits with 2.\<close>

definition usage :: "string \<Rightarrow> sd_run" where
  "usage message = nothing_done\<lparr>o_message := Some (''error: '' @ message), o_code := 2\<rparr>"

definition sd_main :: "sd_world \<Rightarrow> sd_args \<Rightarrow> sd_run" where
  "sd_main w args =
     (case a_verify args of
        Some path \<Rightarrow>
          if a_dts args \<noteq> None \<or> a_opensbi args \<noteq> None \<or> a_linux args \<noteq> None \<or> a_output args \<noteq> None
          then usage ''--verify cannot be combined with build inputs''
          else sd_verify w path
      | None \<Rightarrow>
          (case (a_dts args, a_opensbi args, a_linux args, a_output args) of
             (Some dts, Some opensbi, Some linux, Some output) \<Rightarrow>
               if a_memory_size args \<le> 0 \<or> a_hart_count args \<notin> {1, 2, 4}
               then usage ''memory-size must be positive and hart-count must be 1, 2, or 4''
               else if a_timebase_frequency args \<le> 0 \<or> a_uart_clock_frequency args \<le> 0
               then usage ''clock frequencies must be positive''
               else sd_build w args dts opensbi linux output
           | _ \<Rightarrow> usage ''DTS, OpenSBI, Linux, and output paths are required''))"

section \<open>The card the command writes\<close>

definition verify_args :: "sd_args \<Rightarrow> string \<Rightarrow> sd_args" where
  "verify_args args path =
     args\<lparr>a_dts := None, a_opensbi := None, a_linux := None, a_output := None, a_verify := Some path\<rparr>"

lemma build_image_steps:
  "build_image sha256 sources opensbi linux dtb =
     bindE (boot_image opensbi linux dtb) (\<lambda>img. bindE (bindE (verify_bytes sha256 img)
       (\<lambda>(entries, _). manifest sha256 img entries (Some sources))) (\<lambda>record. Inr (img, record)))"
proof -
  have assoc: "bindE (bindE x f) g = bindE x (\<lambda>v. bindE (f v) g)" for x f g by (cases x) simp_all
  show ?thesis by (simp add: build_image_def boot_image_def assoc case_prod_unfold)
qed

text \<open>The preconditions of a successful build: well-formed arguments, readable inputs, tools and writes that succeed.\<close>

definition ready :: "sd_world \<Rightarrow> sd_args \<Rightarrow> string \<Rightarrow> string \<Rightarrow> string \<Rightarrow> string \<Rightarrow> byte list \<Rightarrow> byte list \<Rightarrow> byte list \<Rightarrow> byte list \<Rightarrow> bool" where
  "ready w args dts opensbi linux output dts_source opensbi_data linux_data dtb \<longleftrightarrow>
     a_verify args = None \<and> a_dts args = Some dts \<and> a_opensbi args = Some opensbi \<and> a_linux args = Some linux \<and>
     a_output args = Some output \<and> 0 < a_memory_size args \<and> a_hart_count args \<in> {1, 2, 4} \<and>
     0 < a_timebase_frequency args \<and> 0 < a_uart_clock_frequency args \<and>
     d_read (w_disk w) dts = Inr dts_source \<and> w_run w (cpp_command w args dts) = Exit 0 \<and> w_run w (dtc_command w args) = Exit 0 \<and>
     d_read (w_disk w) (dtb_path w) = Inr dtb \<and> d_read (w_disk w) opensbi = Inr opensbi_data \<and> d_read (w_disk w) linux = Inr linux_data \<and>
     publish (w_disk w) output = Inr () \<and>
     write_file w (case a_manifest args of Some m \<Rightarrow> m | None \<Rightarrow> output @ ''.json'') = Inr ()"

lemma ready_payloads:
  "ready w args dts opensbi linux output dts_source opensbi_data linux_data dtb \<Longrightarrow>
   boot_payloads w args dts opensbi linux = Inr (dts_source, dtb, opensbi_data, linux_data)"
  by (simp add: ready_def boot_payloads_def compile_dts_def run_tool_def)

text \<open>
  C14: the command builds a card that verifies. With well-formed arguments, readable inputs, tools and writes that succeed, a
  non-empty OpenSBI and device tree, a Linux image with its magic and a total below 2 GiB, it exits with 0 and has
  written an image and its manifest; reading that image back, the command's own \<open>--verify\<close> accepts it; and its
  four entries hold the trampoline, OpenSBI, Linux and the compiled device tree unchanged at their load addresses.
\<close>

theorem card_builds_and_verifies:
  assumes "ready w args dts opensbi linux output dts_source opensbi_data linux_data dtb"
    and "opensbi_data \<noteq> []" "dtb \<noteq> []" "length opensbi_data + length linux_data + length dtb < 2 ^ 31 - 32"
    and "slice LINUX_MAGIC_OFFSET (LINUX_MAGIC_OFFSET + length LINUX_MAGIC) linux_data = LINUX_MAGIC"
  shows "\<exists>img record entries m. o_code (sd_main w args) = 0 \<and> o_image (sd_main w args) = Some (output, img) \<and>
    o_record (sd_main w args) = Some record \<and> verify_bytes (w_sha256 w) img = Inr (entries, m) \<and>
    (\<forall>w'. d_read (w_disk w') output = Inr img \<and> w_sha256 w' = w_sha256 w \<longrightarrow> o_code (sd_main w' (verify_args args output)) = 0) \<and>
    map (\<lambda>e. (e_tag e, e_load_address e)) entries =
      [(''TRAMP'', 0x80000000), (''OPENSBI'', 0x80100000), (''LINUX'', 0x80200000), (''FDT'', 0x8FF00000)] \<and>
    map (\<lambda>e. slice (e_lba e * SECTOR_BYTES) (e_lba e * SECTOR_BYTES + e_byte_length e) img) entries =
      [trampoline, opensbi_data, linux_data, dtb]"
proof -
  let ?sources = "source_map opensbi linux dts opensbi_data linux_data dts_source"
  have "\<forall>tag \<in> {''TRAMP'', ''OPENSBI'', ''LINUX'', ''FDT''}. ?sources tag \<noteq> None" by (simp add: source_map_def)
  from image_builds [OF assms(2,5,3,4) this, of "w_sha256 w"] obtain img rec entries m where
    i: "build_image (w_sha256 w) ?sources opensbi_data linux_data dtb = Inr (img, rec)"
    "verify_bytes (w_sha256 w) img = Inr (entries, m)" and layout: "map (\<lambda>e. (e_tag e, e_load_address e)) entries =
      [(''TRAMP'', 0x80000000), (''OPENSBI'', 0x80100000), (''LINUX'', 0x80200000), (''FDT'', 0x8FF00000)]"
    "map (\<lambda>e. slice (e_lba e * SECTOR_BYTES) (e_lba e * SECTOR_BYTES + e_byte_length e) img) entries =
      [trampoline, opensbi_data, linux_data, dtb]" by (elim exE conjE) (rule that)
  have steps: "boot_image opensbi_data linux_data dtb = Inr img"
    "bindE (verify_bytes (w_sha256 w) img) (\<lambda>(entries, _). manifest (w_sha256 w) img entries (Some ?sources)) = Inr rec"
    using i(1) unfolding build_image_steps by (auto simp del: split_paired_Ex)
  have "sd_main w args = sd_build w args dts opensbi linux output" using assms(1) by (auto simp: ready_def sd_main_def)
  then have run: "o_code (sd_main w args) = 0" "o_image (sd_main w args) = Some (output, img)" "o_record (sd_main w args) = Some rec"
    using steps assms(1) by (simp_all add: sd_build_def ready_payloads [OF assms(1)] ready_def)
  have again: "\<forall>w'. d_read (w_disk w') output = Inr img \<and> w_sha256 w' = w_sha256 w \<longrightarrow>
      o_code (sd_main w' (verify_args args output)) = 0"
    using i(2) by (simp add: sd_main_def verify_args_def sd_verify_def nothing_done_def)
  show ?thesis
    by (rule exI [of _ img], rule exI [of _ rec], rule exI [of _ entries], rule exI [of _ m])
      (intro conjI run i(2) layout again)
qed

definition demo_linux :: "byte list" where
  "demo_linux = replicate 0x38 0 @ LINUX_MAGIC"

definition demo_world :: sd_world where
  "demo_world = \<lparr>w_disk = \<lparr>d_read = (\<lambda>path. if path = ''linux'' then Inr demo_linux else Inr [1, 2, 3]),
       d_mkdir = (\<lambda>_. None), d_write = (\<lambda>_. None), d_text = (\<lambda>_. [])\<rparr>, w_run = (\<lambda>_. Exit 0),
     w_tempdir = ''tmp'', w_sd_text = (\<lambda>_. []), w_sha256 = (\<lambda>_. [])\<rparr>"

definition demo_args :: sd_args where
  "demo_args = \<lparr>a_dts = Some ''dts'', a_opensbi = Some ''fw'', a_linux = Some ''linux'', a_output = Some ''card'', a_verify = None,
     a_manifest = None, a_memory_size = 0x10000000, a_hart_count = 1, a_timebase_frequency = 9216000,
     a_uart_clock_frequency = 9216000, a_cpp = ''cpp'', a_dtc = ''dtc''\<rparr>"

theorem card_builds_and_verifies_witness:
  "o_code (sd_main demo_world demo_args) = 0 \<and>
   (\<exists>img. o_image (sd_main demo_world demo_args) = Some (''card'', img) \<and>
      o_code (sd_main (demo_world\<lparr>w_disk := (w_disk demo_world)\<lparr>d_read := (\<lambda>_. Inr img)\<rparr>\<rparr>) (verify_args demo_args ''card'')) = 0)"
proof -
  have l: "length demo_linux = 60" by (simp add: demo_linux_def LINUX_MAGIC_def)
  have "slice LINUX_MAGIC_OFFSET (LINUX_MAGIC_OFFSET + length LINUX_MAGIC) demo_linux = LINUX_MAGIC"
    by (simp add: slice_def demo_linux_def LINUX_MAGIC_OFFSET_def)
  moreover have "ready demo_world demo_args ''dts'' ''fw'' ''linux'' ''card'' [1, 2, 3] [1, 2, 3] demo_linux [1, 2, 3]"
    by (simp add: ready_def publish_def write_file_def demo_world_def demo_args_def dtb_path_def)
  ultimately obtain img where img: "o_code (sd_main demo_world demo_args) = 0" "o_image (sd_main demo_world demo_args) = Some (''card'', img)"
    "\<forall>w'. d_read (w_disk w') ''card'' = Inr img \<and> w_sha256 w' = w_sha256 demo_world \<longrightarrow> o_code (sd_main w' (verify_args demo_args ''card'')) = 0"
    using card_builds_and_verifies [of demo_world demo_args "''dts''" "''fw''" "''linux''" "''card''" "[1, 2, 3]" "[1, 2, 3]" demo_linux "[1, 2, 3]"] l
    by auto
  have "o_code (sd_main (demo_world\<lparr>w_disk := (w_disk demo_world)\<lparr>d_read := (\<lambda>_. Inr img)\<rparr>\<rparr>) (verify_args demo_args ''card'')) = 0"
    using img(3) [rule_format, of "demo_world\<lparr>w_disk := (w_disk demo_world)\<lparr>d_read := (\<lambda>_. Inr img)\<rparr>\<rparr>"] by simp
  then show ?thesis using img by blast
qed

end
