(* ===== verification/SdTrampoline.thy ===== *)
theory SdTrampoline
  imports SdImage
begin

text \<open>
  What the card's first payload does: the eight instructions of \<open>TRAMPOLINE_WORDS\<close>
  (\<open>tools/make-fpga-sd-image.py\<close>) run by a small interpreter written from the RISC-V specification, for the five
  instructions the words use. A hart has its program counter and registers; register 0 reads as zero.
\<close>

section \<open>Five instructions\<close>

record hart =
  h_pc :: "64 word"
  h_regs :: "nat \<Rightarrow> 64 word"

definition reg :: "hart \<Rightarrow> nat \<Rightarrow> 64 word" where
  "reg h r = (if r = 0 then 0 else h_regs h r)"

text \<open>The fields of an instruction word, and the sign extension of its immediate.\<close>

definition opcode :: "nat \<Rightarrow> nat" where "opcode w = w mod 128"
definition rd :: "nat \<Rightarrow> nat" where "rd w = w div 128 mod 32"
definition funct3 :: "nat \<Rightarrow> nat" where "funct3 w = w div 4096 mod 8"
definition rs1 :: "nat \<Rightarrow> nat" where "rs1 w = w div 32768 mod 32"

definition signed_imm :: "nat \<Rightarrow> int" where
  "signed_imm w = (let n = int (w div 1048576) in if 2048 \<le> n then n - 4096 else n)"

definition sext32 :: "64 word \<Rightarrow> 64 word" where
  "sext32 x = word_of_int (sint (ucast x :: 32 word))"

definition next_insn :: "nat \<Rightarrow> 64 word \<Rightarrow> hart \<Rightarrow> hart" where
  "next_insn r v h = h\<lparr>h_pc := h_pc h + 4, h_regs := (h_regs h)(r := v)\<rparr>"

definition exec :: "nat \<Rightarrow> hart \<Rightarrow> hart option" where
  "exec w h =
     (let x = reg h (rs1 w); imm = word_of_int (signed_imm w) :: 64 word in
      if opcode w = 0x37 then Some (next_insn (rd w) (sext32 (word_of_nat (w div 4096 * 4096))) h)
      else if opcode w = 0x1B \<and> funct3 w = 0 then Some (next_insn (rd w) (sext32 (x + imm)) h)
      else if opcode w = 0x13 \<and> funct3 w = 0 then Some (next_insn (rd w) (x + imm) h)
      else if opcode w = 0x13 \<and> funct3 w = 1 \<and> w div 67108864 = 0
      then Some (next_insn (rd w) (push_bit (w div 1048576 mod 64) x) h)
      else if opcode w = 0x67 \<and> funct3 w = 0
      then Some (h\<lparr>h_pc := and (x + imm) (not 1), h_regs := (h_regs h)(rd w := h_pc h + 4)\<rparr>)
      else None)"

definition fetch :: "(64 word \<Rightarrow> byte) \<Rightarrow> 64 word \<Rightarrow> nat" where
  "fetch mem a = (\<Sum>i<4. unat (mem (a + word_of_nat i)) * 256 ^ i)"

primrec run :: "nat \<Rightarrow> (64 word \<Rightarrow> byte) \<Rightarrow> hart \<Rightarrow> hart option" where
  "run 0 mem h = Some h"
| "run (Suc n) mem h = Option.bind (exec (fetch mem (h_pc h)) h) (run n mem)"

section \<open>The trampoline\<close>

text \<open>A payload lies at its load address.\<close>

definition loaded :: "(64 word \<Rightarrow> byte) \<Rightarrow> nat \<Rightarrow> byte list \<Rightarrow> bool" where
  "loaded mem a data \<longleftrightarrow> (\<forall>i < length data. mem (word_of_nat (a + i)) = data ! i)"

lemma exec_words:
  "exec 0x000015B7 h = Some (next_insn 11 0x1000 h)"
  "exec 0x8FF5859B h = Some (next_insn 11 (sext32 (h_regs h 11 - 0x701)) h)"
  "exec 0x01459593 h = Some (next_insn 11 (push_bit 20 (h_regs h 11)) h)"
  "exec 0x00000613 h = Some (next_insn 12 0 h)"
  "exec 0x000012B7 h = Some (next_insn 5 0x1000 h)"
  "exec 0x8012829B h = Some (next_insn 5 (sext32 (h_regs h 5 - 0x7FF)) h)"
  "exec 0x01429293 h = Some (next_insn 5 (push_bit 20 (h_regs h 5)) h)"
  "exec 0x00028067 h = Some (h\<lparr>h_pc := and (h_regs h 5) (not 1), h_regs := (h_regs h)(0 := h_pc h + 4)\<rparr>)"
  by (simp_all add: exec_def opcode_def rd_def funct3_def rs1_def signed_imm_def reg_def Let_def sext32_def)

lemma le_bytes_4:
  "le_bytes 4 v = [word_of_nat (v mod 256), word_of_nat (v div 256 mod 256), word_of_nat (v div 65536 mod 256),
     word_of_nat (v div 16777216 mod 256)]"
proof -
  have four: "(4::nat) = Suc (Suc (Suc (Suc 0)))" by simp
  show ?thesis unfolding four le_bytes.simps by (simp add: div_mult2_eq [symmetric])
qed

lemma trampoline_bytes:
  "trampoline = [0xB7, 0x15, 0, 0, 0x9B, 0x85, 0xF5, 0x8F, 0x93, 0x95, 0x45, 1, 0x13, 6, 0, 0,
                 0xB7, 0x12, 0, 0, 0x9B, 0x82, 0x12, 0x80, 0x93, 0x92, 0x42, 1, 0x67, 0x80, 2, 0]"
  by (simp add: trampoline_def TRAMPOLINE_WORDS_def le_bytes_4)

lemma sum_four: "(\<Sum>i<(4::nat). f i) = f 0 + f 1 + f 2 + (f 3 :: nat)"
  by (simp add: eval_nat_numeral)

lemma fetch_trampoline:
  assumes "loaded mem 0x80000000 trampoline"
  shows "fetch mem 0x80000000 = 0x000015B7" "fetch mem 0x80000004 = 0x8FF5859B" "fetch mem 0x80000008 = 0x01459593"
    "fetch mem 0x8000000C = 0x00000613" "fetch mem 0x80000010 = 0x000012B7" "fetch mem 0x80000014 = 0x8012829B"
    "fetch mem 0x80000018 = 0x01429293" "fetch mem 0x8000001C = 0x00028067"
proof -
  have byte: "mem (word_of_nat (0x80000000 + i)) = trampoline ! i" if "i < 32" for i
    using assms that by (simp add: loaded_def trampoline_bytes)
  note b = byte [of 0] byte [of 1] byte [of 2] byte [of 3] byte [of 4] byte [of 5] byte [of 6] byte [of 7]
    byte [of 8] byte [of 9] byte [of 10] byte [of 11] byte [of 12] byte [of 13] byte [of 14] byte [of 15]
    byte [of 16] byte [of 17] byte [of 18] byte [of 19] byte [of 20] byte [of 21] byte [of 22] byte [of 23]
    byte [of 24] byte [of 25] byte [of 26] byte [of 27] byte [of 28] byte [of 29] byte [of 30] byte [of 31]
  note c = b [unfolded trampoline_bytes, simplified]
  show "fetch mem 0x80000000 = 0x000015B7" "fetch mem 0x80000004 = 0x8FF5859B" "fetch mem 0x80000008 = 0x01459593"
    "fetch mem 0x8000000C = 0x00000613" "fetch mem 0x80000010 = 0x000012B7" "fetch mem 0x80000014 = 0x8012829B"
    "fetch mem 0x80000018 = 0x01429293" "fetch mem 0x8000001C = 0x00028067"
    by (simp_all add: fetch_def sum_four c)
qed

text \<open>
  C16: the trampoline on the card enters OpenSBI as its comments say. With the trampoline at its load address and a
  hart started there with any registers, eight instructions later the hart is at the load address of OpenSBI, with
  the address of the device tree in \<open>a1\<close> and zero in \<open>a2\<close>; of the other registers only \<open>t0\<close> has changed, so the
  hart number in \<open>a0\<close> is kept.
\<close>

theorem trampoline_enters_opensbi:
  assumes "loaded mem (in_load_address (boot_inputs ! 0)) trampoline"
    and "h_pc h = word_of_nat (in_load_address (boot_inputs ! 0))"
  shows "\<exists>h'. run 8 mem h = Some h' \<and>
    h_pc h' = word_of_nat (in_load_address (boot_inputs ! 1)) \<and> in_tag (boot_inputs ! 1) = ''OPENSBI'' \<and>
    reg h' 11 = word_of_nat (in_load_address (boot_inputs ! 3)) \<and> in_tag (boot_inputs ! 3) = ''FDT'' \<and>
    reg h' 12 = 0 \<and> (\<forall>r. r \<notin> {5, 11, 12} \<longrightarrow> reg h' r = reg h r)"
proof -
  have l: "loaded mem 0x80000000 trampoline" and pc: "h_pc h = 0x80000000"
    using assms by (simp_all add: boot_inputs_def)
  have dtb: "push_bit 20 (sext32 0x8FF) = 0x8FF00000" and entry: "push_bit 20 (sext32 0x801) = 0x80100000"
    by (simp_all add: sext32_def)
  have eight: "run 8 = run (Suc (Suc (Suc (Suc (Suc (Suc (Suc (Suc 0))))))))" by (simp add: eval_nat_numeral)
  show ?thesis
    unfolding eight run.simps
    by (simp add: pc fetch_trampoline [OF l] exec_words next_insn_def dtb entry boot_inputs_def reg_def)
qed

definition demo_memory_at :: "64 word \<Rightarrow> byte" where
  "demo_memory_at a = (if unat a - 0x80000000 < 32 then trampoline ! (unat a - 0x80000000) else 0)"

theorem trampoline_enters_opensbi_witness:
  "\<exists>h'. run 8 demo_memory_at \<lparr>h_pc = 0x80000000, h_regs = (\<lambda>r. word_of_nat r)\<rparr> = Some h' \<and>
     h_pc h' = 0x80100000 \<and> reg h' 10 = 10 \<and> reg h' 11 = 0x8FF00000"
proof -
  have "loaded demo_memory_at (in_load_address (boot_inputs ! 0)) trampoline"
    unfolding loaded_def
  proof (intro allI impI)
    fix i assume "i < length trampoline"
    then have "i < 32" by (simp add: trampoline_bytes)
    then have "unat (word_of_nat (0x80000000 + i) :: 64 word) = 0x80000000 + i"
      by (simp add: unat_of_nat take_bit_nat_eq_self del: of_nat_add)
    with \<open>i < 32\<close> show "demo_memory_at (word_of_nat (in_load_address (boot_inputs ! 0) + i)) = trampoline ! i"
      by (simp add: demo_memory_at_def boot_inputs_def del: of_nat_add)
  qed
  from trampoline_enters_opensbi [OF this, of "\<lparr>h_pc = 0x80000000, h_regs = (\<lambda>r. word_of_nat r)\<rparr>"]
  obtain h' where h': "run 8 demo_memory_at \<lparr>h_pc = 0x80000000, h_regs = (\<lambda>r. word_of_nat r)\<rparr> = Some h'"
    "h_pc h' = 0x80100000" "reg h' 11 = 0x8FF00000"
    "\<forall>r. r \<notin> {5, 11, 12} \<longrightarrow> reg h' r = reg \<lparr>h_pc = 0x80000000, h_regs = (\<lambda>r. word_of_nat r)\<rparr> r"
    by (auto simp: boot_inputs_def)
  have "reg h' 10 = 10" using h'(4) [rule_format, of 10] by (simp add: reg_def)
  then show ?thesis using h' by blast
qed

end
