(* ===== verification/ImageCommands.thy ===== *)
theory ImageCommands
  imports ToolWorld BinImage ElfImage Sv39Shared Sv39Harts ChaseRing
begin

text \<open>
  The commands around the image builders (\<open>main\<close> of \<open>tools/bin2mem.py\<close>, \<open>tools/elf2mem.py\<close>,
  \<open>tools/make_shared_sv39_image.py\<close>, \<open>tools/make_4h_sv39_image.py\<close> and \<open>tools/gen_multichase_ring.py\<close>) over the
  files of \<open>disk\<close>: what each reads, writes and prints, and its exit code. argparse has split the command line.
\<close>

definition hex_text :: "nat \<Rightarrow> string" where
  "hex_text n = ''0x'' @ nat_str 16 n"

section \<open>bin2mem\<close>

definition bin_text :: "bin_error \<Rightarrow> string" where
  "bin_text e =
     (case e of
        BadWordSize \<Rightarrow> ''word size must be a positive power of two''
      | BadMemorySize \<Rightarrow> ''memory size must be a positive multiple of the word size''
      | BinaryTooLarge n mem_size \<Rightarrow>
          ''binary is '' @ dec (int n) @ '' bytes, larger than the '' @ dec mem_size @ ''-byte memory'')"

definition convert_file :: "disk \<Rightarrow> string \<Rightarrow> string \<Rightarrow> int \<Rightarrow> int \<Rightarrow> string + (string list \<times> nat)" where
  "convert_file w source destination mem_size word_bytes =
     bindE (with_error (d_text w) (d_read w source)) (\<lambda>data.
     bindE (with_error bin_text (convert data mem_size word_bytes)) (\<lambda>(lines, n).
     bindE (with_error (d_text w) (publish w destination)) (\<lambda>_. Inr (lines, n))))"

definition bin2mem_main :: "disk \<Rightarrow> string \<Rightarrow> string \<Rightarrow> int \<Rightarrow> int \<Rightarrow> command_run" where
  "bin2mem_main w binary output mem_size word_bytes =
     (case convert_file w binary output mem_size word_bytes of
        Inl message \<Rightarrow> failed_with 2 (''bin2mem.py: '' @ message)
      | Inr (lines, loaded) \<Rightarrow>
          succeeded [(output, Lines lines)]
            [''binary '' @ binary @ '': loaded='' @ dec (int loaded) @ '' bytes memory='' @ dec mem_size @
             '' bytes word='' @ dec word_bytes @ '' bytes''])"

section \<open>Sv39 images\<close>

text \<open>The error of an image command: \<open>main\<close> reports \<open>OSError\<close> and \<open>ValueError\<close>, not \<open>OverflowError\<close>.\<close>

datatype image_failure = FileFailed os_error | BuildRefused sv39_error

definition build_file :: "disk \<Rightarrow> (byte list \<Rightarrow> sv39_error + byte list) \<Rightarrow> string \<Rightarrow> string \<Rightarrow> image_failure + byte list" where
  "build_file w build template output =
     bindE (with_error FileFailed (d_read w template)) (\<lambda>data.
     bindE (with_error BuildRefused (build data)) (\<lambda>img.
     bindE (with_error FileFailed (publish w output)) (\<lambda>_. Inr img)))"

definition image_failed :: "disk \<Rightarrow> string \<Rightarrow> nat \<Rightarrow> image_failure \<Rightarrow> command_run" where
  "image_failed w tool limit e =
     (case e of
        FileFailed x \<Rightarrow> failed_with 2 (tool @ '': '' @ d_text w x)
      | BuildRefused (TemplateTooLarge n) \<Rightarrow>
          failed_with 2 (tool @ '': template is '' @ hex_text n @ '' bytes; expected at most '' @ hex_text limit)
      | BuildRefused ToBytesOverflow \<Rightarrow> traceback)"

definition shared_main :: "disk \<Rightarrow> string \<Rightarrow> string \<Rightarrow> bool \<Rightarrow> command_run" where
  "shared_main w template output tlbi_test =
     (case build_file w (\<lambda>data. build_shared data tlbi_test) template output of
        Inl e \<Rightarrow> image_failed w ''make_shared_sv39_image.py'' IMAGE_BYTES e
      | Inr img \<Rightarrow>
          let root_ppn = drop_bit 12 (PHYSICAL_BASE + ROOT_OFFSET) in
          succeeded [(output, Bytes img)]
            [''shared Sv39 image: '' @ hex_text (length img) @ '' bytes, satp.ppn='' @ hex_text root_ppn @ '', VA='' @
             hex_text VIRTUAL_BASE @ '', mapped='' @ hex_text MAPPED_BYTES @ '', tlbi_test='' @
             dec (if tlbi_test then 1 else 0)])"

definition harts_main :: "disk \<Rightarrow> string \<Rightarrow> string \<Rightarrow> command_run" where
  "harts_main w template output =
     (case build_file w build_4h template output of
        Inl e \<Rightarrow> image_failed w ''make_4h_sv39_image.py'' 0x23000 e
      | Inr img \<Rightarrow>
          succeeded [(output, Bytes img)]
            [''four-hart Sv39 image: '' @ hex_text (length img) @ '' bytes, '' @ dec (int HARTS) @ '' roots, stride='' @
             hex_text PREFIX_STRIDE @ '', VA='' @ hex_text VIRTUAL_BASE])"

section \<open>The pointer ring\<close>

text \<open>\<open>SystemExit\<close> with a message prints it and exits with 1; the generator's other errors end in a traceback.\<close>

definition ring_text :: "ring_error \<Rightarrow> string option" where
  "ring_text e =
     (case e of
        NotPositive \<Rightarrow> Some ''bytes, stride, and locality must be positive''
      | BadStride \<Rightarrow> Some ''stride must be a multiple of 8 and at least 8''
      | BytesNotMultiple \<Rightarrow> Some ''bytes must be a multiple of stride''
      | LocalityNotMultiple \<Rightarrow> Some ''TLB locality must be a multiple of stride''
      | _ \<Rightarrow> None)"

definition ring_main :: "disk \<Rightarrow> string \<Rightarrow> int \<Rightarrow> int \<Rightarrow> int \<Rightarrow> int \<Rightarrow> command_run" where
  "ring_main w output byte_count stride locality seed =
     (case emit byte_count stride locality seed of
        Inl e \<Rightarrow> (case ring_text e of Some message \<Rightarrow> failed_with 1 message | None \<Rightarrow> traceback)
      | Inr lines \<Rightarrow>
          (case publish w output of Inl _ \<Rightarrow> traceback | Inr _ \<Rightarrow> succeeded [(output, Lines lines)] []))"

section \<open>elf2mem\<close>

text \<open>\<open>json.dumps(manifest, indent=2)\<close>; \<open>quote\<close> is the JSON form of a string and \<open>resolve\<close> the absolute path.\<close>

definition manifest_lines :: "(string \<Rightarrow> string) \<Rightarrow> string \<Rightarrow> elf_manifest \<Rightarrow> string list" where
  "manifest_lines quote elf m =
     (let hex16 = (\<lambda>i. quote (''0x'' @ hex0 16 i));
          items =
            [(''format'', quote ''openrv64-elf-image-v1''), (''elf'', quote elf), (''entry'', hex16 (int (mf_entry m))),
             (''ram_base'', hex16 (mf_ram_base m)), (''ram_size'', dec (mf_ram_size m)),
             (''word_bytes'', dec (int (mf_word_bytes m))), (''loaded_start'', hex16 (int (mf_loaded_start m))),
             (''loaded_end'', hex16 (int (mf_loaded_end m))), (''segments'', dec (int (mf_segments m)))];
          line = (\<lambda>(key, value). ''  '' @ quote key @ '': '' @ value)
      in [''{''] @ map (\<lambda>item. line item @ '','') (butlast items) @ [line (last items), ''}''])"

definition elf2mem_main ::
  "disk \<Rightarrow> (string \<Rightarrow> string) \<Rightarrow> (string \<Rightarrow> string) \<Rightarrow> string \<Rightarrow> string \<Rightarrow> int \<Rightarrow> int \<Rightarrow> nat \<Rightarrow> string option \<Rightarrow> command_run" where
  "elf2mem_main w quote resolve elf output base mem_size word_bytes manifest_path =
     (case d_read w elf of
        Inl _ \<Rightarrow> traceback
      | Inr blob \<Rightarrow>
          (case convert_elf blob base mem_size word_bytes of
             Inl _ \<Rightarrow> traceback
           | Inr (lines, m) \<Rightarrow>
               (case publish w output of
                  Inl _ \<Rightarrow> traceback
                | Inr _ \<Rightarrow>
                    (case manifest_path of
                       None \<Rightarrow> succeeded [(output, Lines lines)] []
                     | Some path \<Rightarrow>
                         (case publish w path of
                            Inl _ \<Rightarrow> traceback\<lparr>run_files := [(output, Lines lines)]\<rparr>
                          | Inr _ \<Rightarrow>
                              succeeded [(output, Lines lines), (path, Lines (manifest_lines quote (resolve elf) m))] [])))))"

section \<open>Exit codes\<close>

lemmas image_command_defs = bin2mem_main_def shared_main_def harts_main_def ring_main_def elf2mem_main_def
  image_failed_def convert_file_def build_file_def command_run_defs

lemma build_file_ok:
  "build_file w build template output = Inr img \<longleftrightarrow>
     (\<exists>data. d_read w template = Inr data \<and> build data = Inr img) \<and> publish w output = Inr ()"
  by (cases "d_read w template"; cases "publish w output") (auto simp: build_file_def bindE_def with_error_def split: sum.splits)

text \<open>A command exits with 0 exactly when it has written its files; every other run writes none.\<close>

lemma bin2mem_exit:
  "run_code (bin2mem_main w binary output mem_size word_bytes) = 0 \<longleftrightarrow>
     run_files (bin2mem_main w binary output mem_size word_bytes) \<noteq> []"
  by (auto simp: bin2mem_main_def command_run_defs split: sum.splits)

lemma image_failed_exit: "run_code (image_failed w tool limit e) \<noteq> 0" "run_files (image_failed w tool limit e) = []"
  by (simp_all add: image_failed_def command_run_defs split: image_failure.splits sv39_error.splits)

lemma harts_exit:
  "run_code (harts_main w template output) = 0 \<longleftrightarrow>
     (\<exists>data img. d_read w template = Inr data \<and> build_4h data = Inr img \<and> publish w output = Inr () \<and>
        run_files (harts_main w template output) = [(output, Bytes img)])"
proof (cases "build_file w build_4h template output")
  case (Inl e)
  then show ?thesis using image_failed_exit [of w] by (simp add: harts_main_def)
next
  case (Inr img)
  then have "\<exists>data. d_read w template = Inr data \<and> build_4h data = Inr img" "publish w output = Inr ()"
    by (simp_all add: build_file_ok)
  with Inr show ?thesis by (auto simp: harts_main_def succeeded_def)
qed

end
