(* ===== verification/ComplianceCommand.thy ===== *)
theory ComplianceCommand
  imports ComplianceProps
begin

text \<open>
  The commands of \<open>tools/compliance.py\<close> as their user sees them: the lines each prints, in the order of the runs
  that produce them, the summary and JUnit report a suite leaves, and the exit code. The machine is \<open>run_env\<close> with
  the file queries of \<open>comp_world\<close>; argparse has split the command line.
\<close>

definition upper_char :: "char \<Rightarrow> char" where
  "upper_char c = (if 97 \<le> (of_char c :: nat) \<and> (of_char c :: nat) \<le> 122 then char_of (of_char c - 32 :: nat) else c)"

definition status_word :: "result \<Rightarrow> string" where
  "status_word r = map upper_char (res_status r)"

record comp_world =
  cw_env :: run_env
  cw_which :: "string \<Rightarrow> string option"
  cw_executable :: string
  cw_is_file :: "path \<Rightarrow> bool"
  cw_is_dir :: "path \<Rightarrow> bool"
  cw_rglob :: "path \<Rightarrow> path list"
  cw_resolve :: "path \<Rightarrow> path"
  cw_read_text :: "string \<Rightarrow> string option"
  cw_read_trace :: "string \<Rightarrow> string list list"
  cw_run_sail :: "nat \<Rightarrow> string option"
  cw_text :: "comp_error \<Rightarrow> string"

datatype comp_command =
    Doctor
  | RunOne run_config path
  | Suite run_config suite_config "path list" "string option" "string option"
  | Differential run_config path

text \<open>What a command leaves: its lines, the results and the report of a suite, and how it ended.\<close>

record comp_run =
  cr_out :: "string list"
  cr_err :: "string list"
  cr_summary :: "(string \<times> result list) option"
  cr_junit :: "(string \<times> xml) option"
  cr_code :: int

definition ended :: "string list \<Rightarrow> int \<Rightarrow> comp_run" where
  "ended lines code = \<lparr>cr_out = lines, cr_err = [], cr_summary = None, cr_junit = None, cr_code = code\<rparr>"

text \<open>An error after some lines: \<open>main\<close> reports those it names and exits with 2, the others end in a traceback.\<close>

definition ended_by :: "comp_world \<Rightarrow> string list \<Rightarrow> comp_error \<Rightarrow> comp_run" where
  "ended_by w lines e =
     (ended lines (if caught e then 2 else 1))\<lparr>cr_err := (if caught e then [''ERROR: '' @ cw_text w e] else [])\<rparr>"

section \<open>One program\<close>

definition run_lines :: "result \<Rightarrow> string list" where
  "run_lines r = [status_word r @ '' '' @ res_test r @ '' ('' @ fixed 3 (res_duration r) @ ''s)'', res_log r]"

definition run_subcommand :: "comp_world \<Rightarrow> run_config \<Rightarrow> path \<Rightarrow> comp_run" where
  "run_subcommand w cfg elf =
     (case run_one (cw_env w) cfg False (cw_resolve w elf) of
        Inl e \<Rightarrow> ended_by w [] e
      | Inr r \<Rightarrow> ended (run_lines (out_result r)) (run_exit (out_result r)))"

section \<open>A suite\<close>

definition progress_line :: "nat \<Rightarrow> nat \<Rightarrow> path \<Rightarrow> run_output \<Rightarrow> string" where
  "progress_line index n elf r =
     ''['' @ dec (int index) @ ''/'' @ dec (int n) @ ''] '' @ status_word (out_result r) @ '' '' @ path_name elf"

text \<open>The loop with its printing: the lines up to the end of the suite or to the error that stops it.\<close>

fun suite_loop ::
  "(path \<Rightarrow> comp_error + run_output) \<Rightarrow> bool \<Rightarrow> nat \<Rightarrow> nat \<Rightarrow> path list \<Rightarrow> string list \<times> (comp_error + run_output list)" where
  "suite_loop run fail_fast n index [] = ([], Inr [])"
| "suite_loop run fail_fast n index (elf # elfs) =
     (case run elf of
        Inl e \<Rightarrow> ([], Inl e)
      | Inr r \<Rightarrow>
          if fail_fast \<and> is_bad r then ([progress_line index n elf r], Inr [r])
          else
            let (lines, rest) = suite_loop run fail_fast n (Suc index) elfs in
            (progress_line index n elf r # lines, bindE rest (\<lambda>rs. Inr (r # rs))))"

text \<open>A log is read back as the last run with its path wrote it.\<close>

definition written_logs :: "run_output list \<Rightarrow> string \<Rightarrow> string" where
  "written_logs rs path =
     (case map_of (rev (map (\<lambda>r. (res_log (out_result r), out_log r)) rs)) path of None \<Rightarrow> [] | Some log \<Rightarrow> log)"

definition suite_subcommand ::
  "comp_world \<Rightarrow> run_config \<Rightarrow> suite_config \<Rightarrow> path list \<Rightarrow> string option \<Rightarrow> string option \<Rightarrow> comp_run" where
  "suite_subcommand w cfg su paths xfail junit_path =
     (let files = bindE (discover_elfs (cw_is_file w) (cw_is_dir w) (cw_rglob w) (cw_resolve w) paths) (\<lambda>elfs.
            bindE (select_elfs su elfs) (\<lambda>selected.
            bindE (load_xfails (Option.bind xfail (cw_read_text w))) (\<lambda>xfails. Inr (selected, xfails)))) in
      case files of
        Inl e \<Rightarrow> ended_by w [] e
      | Inr (selected, xfails) \<Rightarrow>
          (case suite_loop (\<lambda>elf. run_one (cw_env w) cfg (xfails (path_stem elf) \<noteq> None) elf) (su_fail_fast su)
                  (length selected) 1 selected of
             (lines, Inl e) \<Rightarrow> ended_by w lines e
           | (lines, Inr rs) \<Rightarrow>
               let results = map out_result rs;
                   report = (case junit_path of
                       Some p \<Rightarrow> p | None \<Rightarrow> cfg_results cfg @ ''/junit-'' @ cfg_backend cfg @ ''.xml'')
               in (ended (lines @ [summary_line rs]) (suite_exit rs))
                    \<lparr>cr_summary := Some (cfg_results cfg @ ''/summary-'' @ cfg_backend cfg @ ''.json'', results),
                     cr_junit := Some (report, junit (written_logs rs) results)\<rparr>))"

section \<open>Differential mode and the dispatch\<close>

definition diff_subcommand :: "comp_world \<Rightarrow> run_config \<Rightarrow> path \<Rightarrow> comp_run" where
  "diff_subcommand w cfg elf =
     (case diff (cw_env w) cfg (cw_read_trace w) (cw_run_sail w) (cw_resolve w elf) of
        Inl e \<Rightarrow> ended_by w [] e
      | Inr v \<Rightarrow> ended [diff_text (cfg_backend cfg) v] (diff_exit v))"

definition compliance_main :: "comp_world \<Rightarrow> comp_command \<Rightarrow> comp_run" where
  "compliance_main w command =
     (case command of
        Doctor \<Rightarrow> (case doctor (cw_which w) (cw_executable w) of (lines, code) \<Rightarrow> ended lines code)
      | RunOne cfg elf \<Rightarrow> run_subcommand w cfg elf
      | Suite cfg su paths xfail junit_path \<Rightarrow> suite_subcommand w cfg su paths xfail junit_path
      | Differential cfg elf \<Rightarrow> diff_subcommand w cfg elf)"

section \<open>Lines and results agree\<close>

text \<open>The loop with its printing computes the suite of \<open>run_suite\<close>.\<close>

lemma suite_loop_results: "snd (suite_loop run fail_fast n index elfs) = run_suite run fail_fast elfs"
  by (induction elfs arbitrary: index) (auto simp: case_prod_unfold Let_def split: sum.splits)

lemma suite_loop_lines:
  "suite_loop run fail_fast n index elfs = (lines, Inr rs) \<Longrightarrow>
   length lines = length rs \<and> length rs \<le> length elfs \<and>
   (\<forall>k < length rs. lines ! k = progress_line (index + k) n (elfs ! k) (rs ! k))"
proof (induction elfs arbitrary: index lines rs)
  case (Cons elf elfs)
  then obtain r where r: "run elf = Inr r" by (auto split: sum.splits)
  show ?case
  proof (cases "fail_fast \<and> is_bad r")
    case True
    with Cons.prems r show ?thesis by auto
  next
    case False
    obtain ls rest where s: "suite_loop run fail_fast n (Suc index) elfs = (ls, rest)" by fastforce
    with Cons.prems r False obtain rs' where rs': "rest = Inr rs'" "rs = r # rs'" "lines = progress_line index n elf r # ls"
      by (cases rest) auto
    from Cons.IH [OF s [unfolded rs'(1)]] rs' show ?thesis by (auto simp: nth_Cons' less_Suc_eq_0_disj)
  qed
qed simp

end
