(* ===== verification/Spec2Isabelle.thy ===== *)
theory Spec2Isabelle
  imports IssueProps ElfImage BinImage Sv39Shared Sv39Harts SdVerify ChaseRing ArchProps CycleProps Trace3PProps
    ParallelProps PcHistogram CoreProps BootProps KernelProps ComplianceProps
    UartSafety UartProps BootWatch Gem5Reports ResourceProps MapProps SmallTools
    BootStyleProps SdCommand SdTrampoline ImageCommands ComplianceCommand
begin

text \<open>
  A verification development for the host tools of OpenRV64, a 64-bit RISC-V core. The tools are Python
  programs under \<open>src/tools\<close> and \<open>src/synth\<close>; they build the memory images and programs the simulator
  runs, check and explain the traces it writes, and merge synthesis results. They share no state: each is
  a command that reads files and writes files, and they meet in the file formats (the \<open>$readmemh\<close> image,
  the trace CSV schemas, the boot log). Each tool is one group of definitions, in the order of its source;
  a function of the source is a definition of the same name wherever HOL allows it.

  Common ground. \<open>PyBase\<close> holds the error values (\<open>'e + 'a\<close>, with \<open>bindE\<close>, \<open>foldE\<close>, \<open>mapE\<close>),
  Python's integer parsing and printing, slices, dictionaries and \<open>csv.DictReader\<close>; \<open>PyFormat\<close> floats as
  exact rationals rounded to 53 bits and the format codes; \<open>PyRegex\<close> the fragment of \<open>re\<close> the tools use, as a
  backtracking matcher; \<open>PyCounter\<close> insertion-ordered counters. \<open>ByteCodec\<close> is \<open>struct\<close> packing of
  little-endian integers, \<open>EventQueue\<close> the \<open>heapq\<close> interface as a locale and its interpretation on the
  sorted list the model uses, \<open>Readmemh\<close> a reader of \<open>$readmemh\<close> text.

  The issue-window experiment (\<open>tools/issue_window_experiment.py\<close>). \<open>IssueStream\<close> loads the cycle CSV
  and links the committed instructions to their producers; \<open>PipeAssign\<close> is the recursive search for pipes;
  \<open>IssueWindow\<close> is the cycle loop, one definition per phase (retire, complete, store, admit, occupancy,
  issue, clock) over the record \<open>sched_state\<close>; \<open>IssueExperiment\<close> runs the four configurations and the
  projection. \<open>IssueChoice\<close> gives the search the contract of a locale, interpreted on the model's pipes;
  \<open>IssueInvariants\<close> and \<open>IssueLoop\<close> prove the invariants of every phase and of the loop; \<open>IssueProps\<close>
  states the properties: data flow, pipes, memory order and serialisation of the issued schedule, the
  chosen group is the widest and among those the oldest, counts add up, and when the loop reports an error. The
  loop's own guard (ten cycles an instruction, the source's bound) is its termination measure.

  Memory images. \<open>ElfImage\<close> (\<open>tools/elf2mem.py\<close>) and \<open>BinImage\<close> (\<open>tools/bin2mem.py\<close>) are the ELF and
  flat-binary converters: the image holds the bytes of the segments, a conflict is reported exactly where
  two segments disagree, and the written text reads back. \<open>Sv39\<close>, \<open>Sv39Shared\<close> and \<open>Sv39Harts\<close>
  (\<open>tools/make_shared_sv39_image.py\<close>, \<open>tools/make_4h_sv39_image.py\<close>) build page tables into a template image;
  a walker written from the privileged specification translates the windows as intended and the four harts are
  isolated. \<open>SdImage\<close> and \<open>SdVerify\<close> (\<open>tools/make-fpga-sd-image.py\<close>) are the boot card: the header codec,
  the verifier, and that a built image verifies and a verified image is sound; SHA-256 is a parameter. \<open>SdCommand\<close>
  is the command around them, with files and tools as the record \<open>sd_world\<close>: arguments that pass, inputs that can
  be read, and tools and writes that succeed give a card its own \<open>--verify\<close> accepts. \<open>SdTrampoline\<close> runs the card's first
  instructions on a small model of the instruction set and shows that they enter OpenSBI.
  \<open>ChaseRing\<close> (\<open>tools/gen_multichase_ring.py\<close>) is the pointer-chase generator: the shuffles are
  permutations that keep the TLB groups, the successors form one ring, and the emitted text chases it.
  \<open>ImageCommands\<close> is the commands around these builders over the files of \<open>ToolWorld\<close>, with what they print and
  their exit codes.

  Traces. \<open>ArchTrace\<close> with \<open>ArchProps\<close> (\<open>tools/check_arch_trace.py\<close>, \<open>tools/branch_oracle_from_trace.py\<close>)
  is the validator, equal to a declarative description of a valid trace, and the branch oracle.
  \<open>CycleTrace\<close> with \<open>CycleProps\<close> (\<open>tools/pipeline_trace.py\<close>) collects instructions from a one-wide trace and
  writes its reports; the collection accounts for every stage occurrence once. \<open>Trace3P\<close> with
  \<open>Trace3PProps\<close> (\<open>tools/pipeline_trace_3p.py\<close>) is the three-wide report: identities of UIDs, anchors,
  attribution. \<open>CorePipes\<close>, \<open>CoreReport\<close> and \<open>CoreProps\<close> (\<open>tools/compare_coremark_pipelines.py\<close>) compare
  two machines: the loader refines a declarative view of the trace's events, and the window is the one asked for.
  \<open>PcHistogram\<close> (\<open>tools/linux_boot_pc_histogram.py\<close>) is the boot profile; its tables count every sample.

  Boot logs and kernel images. \<open>ElfSymbols\<close> (\<open>tools/elf_symbols.py\<close>) is the symbol index, parameterised by
  the output of \<open>nm\<close>; \<open>BootSignposts\<close> (\<open>tools/linux_boot_signposts.py\<close>) finds the milestones of a boot log and
  brackets them by the progress lines around; \<open>BootReport\<close> with \<open>BootProps\<close>
  (\<open>tools/linux_boot_report.py\<close>) compares runs: its interval rows bound the true differences. \<open>BootStyle\<close> is
  the look of the workbook, as the sequence of requests made of openpyxl, and the command; \<open>BootStyleProps\<close> shows
  that its sheets are rectangular and that number formats meet numbers only. \<open>BootWatch\<close>
  (\<open>tools/linux_boot_watch.py\<close>) annotates a live log as a sequence of what it writes. \<open>KernelExtract\<close>
  with \<open>KernelProps\<close> (\<open>tools/extract-riscv-kernel-function.py\<close>) cuts one function out of a linked kernel;
  the call targets are read as the instruction set encodes them and the assembly covers the function.

  Compliance. \<open>Compliance\<close> with \<open>ComplianceProps\<close> (\<open>tools/compliance.py\<close>) runs self-checking programs and
  compares a core with the Sail model; it builds its memory images with \<open>ElfImage\<close>. The machine it runs on is the
  record \<open>run_env\<close> of functions (simulator, \<open>make\<close>, \<open>nm\<close>, files, SHA-256). A run loads the whole program and
  reports the simulator's verdict, a suite runs in order and stops as asked, and differential mode passes exactly on
  agreeing traces. \<open>ComplianceCommand\<close> is the four commands with the lines they print.

  Loading over the serial line. \<open>UartLoad\<close> (\<open>tools/fpga-uart-linux-load.py\<close>) is the host tool as commands over an
  abstract line (\<open>port\<close>): a command that does not end is \<open>None\<close>, its loops are \<open>partial_function (option)\<close>.
  \<open>UartSafety\<close> holds for every line: what is written is headers and then the image. \<open>UartBoard\<close> models the other
  end, \<open>sw/opensbi_linux_uart_loader.S\<close>, and joins the two; \<open>UartProps\<close> proves that the transfer then ends, reaches
  the prompt and leaves exactly the image in memory, and that a length that is no multiple of four is refused.

  Synthesis. \<open>ParallelMap\<close> with \<open>ParallelProps\<close> (\<open>synth/core/parallel_map.py\<close>) maps the modules with one
  worker each. The workers finish in any order, so the pool is a function that may permute their results; the
  merge does not depend on it. The recursion over the hierarchy has fuel one more than the number of modules: a
  chain of distinct modules is no longer than that, so the fuel never runs out (\<open>recursive_areas\<close>).
  \<open>ResourceData\<close>, \<open>ResourceTable\<close> and \<open>ResourceReport\<close> (\<open>synth/core/summarize_resources.py\<close>) read the
  merged statistics, walk the retained hierarchy and write the area table; \<open>ResourceProps\<close> shows that every kept
  instance is counted once and that the recursion, whose fuel is the interpreter's depth, ends for hierarchies
  without a cycle. \<open>MapSummary\<close> with \<open>MapProps\<close> (\<open>synth/nangate45/summarize-core-4pf.py\<close>) is the Nangate45 summary.

  gem5 and small tools. \<open>Gem5Stats\<close> and \<open>Gem5Reports\<close> (\<open>tools/gem5_hpi_report.py\<close> and its four relatives) read
  gem5's statistics, where a float may be an infinity or not a number, and write five reports. \<open>SmallTools\<close>
  (\<open>tools/check_yosys_rom_init.py\<close>, \<open>tools/qemu_one_insn_trace.py\<close>) checks the boot ROM of a netlist, given as a
  JSON value of \<open>PyJson\<close>, and counts the PCs of a QEMU trace.

  Fuel elsewhere: a repetition in \<open>PyRegex\<close> runs at most once per remaining character, since an iteration
  that consumes nothing ends it; \<open>finditer\<close> likewise.

  Errors are values: each component has a datatype with one constructor per message of the source, and the
  exceptions Python raises by itself (a missing key, an index out of range, a division by zero) are
  constructors too.

  Not modelled. Command-line parsing, and for most tools the opening of files (their text is modelled; the
  commands that build images work on \<open>disk\<close>); programs the tools call (Yosys, \<open>addr2line\<close>, \<open>objdump\<close>,
  \<open>cpp\<close>, the device-tree compiler), which are parameters; the RTL, the test benches and the rest of the software
  under \<open>src/rtl\<close>, \<open>src/tb\<close> and \<open>src/sw\<close>, which are not Python. Also left out: what openpyxl makes of the requests, \<open>csv.writer\<close>'s quoting of a
  field with a comma, the text of floats in CSV and JSON files (the values are modelled) and, except in
  \<open>ImageCommands\<close> and \<open>SdCommand\<close>, writes that fail.
\<close>

end
